(* ===== verification/Prelude.thy ===== *)
theory Prelude imports Complex_Main "HOL-Library.Multiset" begin

text \<open>
  What every component shares: the JavaScript values a request carries before it is checked, the
  number tests of the language the checks use, decimal printing, the character classes of the
  patterns, and generic lemmas on lists.

  A wire value is a \<open>js\<close> value, so a check is modelled on every input and not only on the
  well-typed ones. The finite doubles are rationals: the checks compare them and test them for
  being whole, and never round. A value the code reads after its check has a typed reader
  (\<open>jint\<close>, \<open>jrat\<close>, \<open>jstr\<close>, \<open>jarr\<close>, \<open>jbool\<close>), the cast the document schema makes.
\<close>

named_theorems js_simps "evaluation of wire values"
named_theorems checks "what an accepted check says of its value"

section \<open>Wire values\<close>

datatype number = NaN | PosInf | NegInf | Fin rat

datatype js =
    Undefined
  | Null
  | Bool bool
  | Num number
  | Str string
  | Arr "js list"
  | Obj "(string \<times> js) list"

type_synonym oid = string \<comment> \<open>the hexadecimal form of an ObjectId\<close>
type_synonym ms = int \<comment> \<open>milliseconds since the epoch, \<open>Date.getTime()\<close>\<close>

text \<open>\<open>v?.k\<close>: a property, \<open>undefined\<close> when there is none or when \<open>v\<close> is no object.\<close>

fun jget :: "js \<Rightarrow> string \<Rightarrow> js" where
  "jget (Obj fs) k = (case map_of fs k of None \<Rightarrow> Undefined | Some v \<Rightarrow> v)"
| "jget _ k = Undefined"

fun truthy :: "js \<Rightarrow> bool" where
  "truthy Undefined = False"
| "truthy Null = False"
| "truthy (Bool b) = b"
| "truthy (Num NaN) = False"
| "truthy (Num (Fin q)) = (q \<noteq> 0)"
| "truthy (Num _) = True"
| "truthy (Str s) = (s \<noteq> [])"
| "truthy (Arr _) = True"
| "truthy (Obj _) = True"

definition nullish :: "js \<Rightarrow> bool" where
  "nullish v \<longleftrightarrow> v = Undefined \<or> v = Null"

text \<open>\<open>Array.isArray\<close>, \<open>Number.isInteger\<close>, \<open>Number.isSafeInteger\<close>, \<open>Number.isFinite\<close>.\<close>

fun isArray :: "js \<Rightarrow> bool" where
  "isArray (Arr _) = True"
| "isArray _ = False"

fun isInteger :: "js \<Rightarrow> bool" where
  "isInteger (Num (Fin q)) = (of_int \<lfloor>q\<rfloor> = q)"
| "isInteger _ = False"

fun isFinite :: "js \<Rightarrow> bool" where
  "isFinite (Num (Fin _)) = True"
| "isFinite _ = False"

text \<open>Typed readers of a checked value.\<close>

fun jrat :: "js \<Rightarrow> rat" where
  "jrat (Num (Fin q)) = q"
| "jrat _ = 0"

definition jint :: "js \<Rightarrow> int" where
  "jint v = \<lfloor>jrat v\<rfloor>"

fun jstr :: "js \<Rightarrow> string" where
  "jstr (Str s) = s"
| "jstr _ = []"

fun jarr :: "js \<Rightarrow> js list" where
  "jarr (Arr vs) = vs"
| "jarr _ = []"

fun jbool :: "js \<Rightarrow> bool" where
  "jbool (Bool b) = b"
| "jbool _ = False"

definition isSafeInteger :: "js \<Rightarrow> bool" where
  "isSafeInteger v \<longleftrightarrow> isInteger v \<and> \<bar>jint v\<bar> \<le> 9007199254740991"

abbreviation JInt :: "int \<Rightarrow> js" where
  "JInt n \<equiv> Num (Fin (of_int n))"

text \<open>\<open>v > 0\<close> of the language on the values the decoder of the wire delivers in a numeric field.\<close>

fun positive :: "js \<Rightarrow> bool" where
  "positive (Num (Fin q)) = (0 < q)"
| "positive (Num PosInf) = True"
| "positive (Bool b) = b"
| "positive _ = False"

text \<open>\<open>[a, b, ...].includes(v)\<close> over strings.\<close>

fun oneOf :: "string list \<Rightarrow> js \<Rightarrow> bool" where
  "oneOf xs (Str s) = (s \<in> set xs)"
| "oneOf xs _ = False"

lemma isInteger_JInt [simp, js_simps]: "isInteger (JInt n)"
  by simp

lemma jint_JInt [simp, js_simps]: "jint (JInt n) = n"
  by (simp add: jint_def)

lemma isInteger_iff: "isInteger v \<longleftrightarrow> (\<exists>n. v = JInt n)"
proof
  assume "isInteger v"
  then obtain q where q: "v = Num (Fin q)" "of_int \<lfloor>q\<rfloor> = q"
    by (cases v rule: isInteger.cases) simp_all
  then have "v = JInt \<lfloor>q\<rfloor>" by metis
  then show "\<exists>n. v = JInt n" by blast
qed auto

lemma isInteger_jint: "isInteger v \<Longrightarrow> v = JInt (jint v)"
  by (auto simp: isInteger_iff)

lemma positive_integer: "isInteger v \<Longrightarrow> positive v \<longleftrightarrow> 0 < jint v"
  by (auto simp: isInteger_iff)

lemma jarr_isArray: "isArray v \<Longrightarrow> v = Arr (jarr v)"
  by (cases v) auto

lemma oneOf_iff: "oneOf xs v \<longleftrightarrow> (\<exists>s\<in>set xs. v = Str s)"
  by (cases v) auto

lemma nullish_simps [simp]:
  "nullish Undefined" "nullish Null" "\<not> nullish (Bool b)" "\<not> nullish (Num n)"
  "\<not> nullish (Str s)" "\<not> nullish (Arr vs)" "\<not> nullish (Obj fs)"
  by (simp_all add: nullish_def)

text \<open>\<open>value !== null && typeof value === 'object' && !Array.isArray(value)\<close>.\<close>

fun isPlainObject :: "js \<Rightarrow> bool" where
  "isPlainObject (Obj _) = True"
| "isPlainObject _ = False"

fun fields_of :: "js \<Rightarrow> (string \<times> js) list" where
  "fields_of (Obj fs) = fs"
| "fields_of _ = []"

text \<open>
  \<open>key in obj\<close> for an object literal: its own keys, and the names every object inherits.
\<close>

definition OBJECT_PROTOTYPE :: "string list" where
  "OBJECT_PROTOTYPE = [''constructor'', ''__defineGetter__'', ''__defineSetter__'', ''hasOwnProperty'',
     ''__lookupGetter__'', ''__lookupSetter__'', ''isPrototypeOf'', ''propertyIsEnumerable'',
     ''toString'', ''valueOf'', ''__proto__'', ''toLocaleString'']"

definition inObject :: "string \<Rightarrow> (string \<times> 'v) list \<Rightarrow> bool" where
  "inObject k fs \<longleftrightarrow> k \<in> set (map fst fs) \<or> k \<in> set OBJECT_PROTOTYPE"

text \<open>Writing a field, and \<open>{ ...base, ...over }\<close>: a known key keeps its place.\<close>

fun put :: "string \<Rightarrow> 'v \<Rightarrow> (string \<times> 'v) list \<Rightarrow> (string \<times> 'v) list" where
  "put k v [] = [(k, v)]"
| "put k v ((k', v') # fs) = (if k = k' then (k, v) # fs else (k', v') # put k v fs)"

definition spread :: "(string \<times> 'v) list \<Rightarrow> (string \<times> 'v) list \<Rightarrow> (string \<times> 'v) list" where
  "spread base over = fold (\<lambda>(k, v). put k v) over base"

lemma map_of_put [simp]: "map_of (put k v fs) = (map_of fs)(k \<mapsto> v)"
  by (induction fs) auto

lemma map_of_spread:
  "distinct (map fst over) \<Longrightarrow> map_of (spread base over) k =
     (case map_of over k of None \<Rightarrow> map_of base k | Some v \<Rightarrow> Some v)"
proof (induction over arbitrary: base)
  case (Cons kv over)
  obtain k' v' where kv: "kv = (k', v')" by force
  with Cons.prems have "map_of over k' = None" by (simp add: map_of_eq_None_iff image_iff)
  moreover have "map_of (spread base (kv # over)) k =
      (case map_of over k of None \<Rightarrow> map_of (put k' v' base) k | Some v \<Rightarrow> Some v)"
    using Cons.IH [of "put k' v' base"] Cons.prems kv by (simp add: spread_def)
  ultimately show ?case
    using kv by (simp add: fun_upd_apply split: option.splits)
qed (simp add: spread_def)

section \<open>Results\<close>

text \<open>Code that throws answers a sum, the error on the left; this is its sequencing.\<close>

fun bindE :: "'e + 'a \<Rightarrow> ('a \<Rightarrow> 'e + 'b) \<Rightarrow> 'e + 'b" where
  "bindE (Inl e) f = Inl e"
| "bindE (Inr a) f = f a"

lemma bindE_Inr [simp]: "bindE m f = Inr b \<longleftrightarrow> (\<exists>a. m = Inr a \<and> f a = Inr b)"
  by (cases m) auto

fun mapE :: "('a \<Rightarrow> 'e + 'b) \<Rightarrow> 'a list \<Rightarrow> 'e + 'b list" where
  "mapE f [] = Inr []"
| "mapE f (x # xs) = bindE (f x) (\<lambda>y. bindE (mapE f xs) (\<lambda>ys. Inr (y # ys)))"

lemma mapE_Inr: "mapE f xs = Inr ys \<longleftrightarrow> list_all2 (\<lambda>x y. f x = Inr y) xs ys"
  by (induction xs arbitrary: ys) (auto simp: list_all2_Cons1)

section \<open>Printing and character classes\<close>

definition digit :: "nat \<Rightarrow> char" where
  "digit d = char_of (48 + d)"

text \<open>The decimal form a template literal prints.\<close>

fun nat_string :: "nat \<Rightarrow> string" where
  "nat_string n = (if n < 10 then [digit n] else nat_string (n div 10) @ [digit (n mod 10)])"

declare nat_string.simps [simp del]

definition int_string :: "int \<Rightarrow> string" where
  "int_string i = (if i < 0 then ''-'' @ nat_string (nat (- i)) else nat_string (nat i))"

definition is_digit :: "char \<Rightarrow> bool" where
  "is_digit c \<longleftrightarrow> 48 \<le> (of_char c :: nat) \<and> (of_char c :: nat) \<le> 57"

definition is_letter :: "char \<Rightarrow> bool" where
  "is_letter c \<longleftrightarrow> (65 \<le> (of_char c :: nat) \<and> (of_char c :: nat) \<le> 90)
     \<or> (97 \<le> (of_char c :: nat) \<and> (of_char c :: nat) \<le> 122)"

text \<open>\<open>[\w-]\<close> and \<open>[0-9a-fA-F]\<close>.\<close>

definition is_word :: "char \<Rightarrow> bool" where
  "is_word c \<longleftrightarrow> is_digit c \<or> is_letter c \<or> c = CHR ''_''"

definition is_hex :: "char \<Rightarrow> bool" where
  "is_hex c \<longleftrightarrow> is_digit c \<or> (65 \<le> (of_char c :: nat) \<and> (of_char c :: nat) \<le> 70)
     \<or> (97 \<le> (of_char c :: nat) \<and> (of_char c :: nat) \<le> 102)"

text \<open>\<open>String.prototype.trim\<close>: the white space and line ends of the language, among the first 256.\<close>

definition is_space :: "char \<Rightarrow> bool" where
  "is_space c \<longleftrightarrow> (of_char c :: nat) \<in> {9, 10, 11, 12, 13, 32, 160}"

definition trim :: "string \<Rightarrow> string" where
  "trim s = rev (dropWhile is_space (rev (dropWhile is_space s)))"

text \<open>\<open>toLowerCase\<close>, on the letters of ASCII.\<close>

definition to_lower :: "char \<Rightarrow> char" where
  "to_lower c = (if 65 \<le> (of_char c :: nat) \<and> (of_char c :: nat) \<le> 90 then char_of (of_char c + 32 :: nat) else c)"

lemma of_char_digit: "d < 10 \<Longrightarrow> (of_char (digit d) :: nat) = 48 + d"
  by (simp add: digit_def)

lemma digit_inj: "d < 10 \<Longrightarrow> e < 10 \<Longrightarrow> digit d = digit e \<Longrightarrow> d = e"
  by (metis of_char_digit add_left_cancel)

lemma is_digit_digit [simp]: "d < 10 \<Longrightarrow> is_digit (digit d)"
  by (simp add: is_digit_def of_char_digit)

lemma nat_string_nonempty [simp]: "nat_string n \<noteq> []"
  by (subst nat_string.simps) simp

lemma nat_string_digits: "\<forall>c\<in>set (nat_string n). is_digit c"
proof (induction n rule: nat_string.induct)
  case (1 n)
  then show ?case
    by (cases "n < 10") (auto simp: nat_string.simps [of n])
qed

lemma nat_string_inj: "nat_string m = nat_string n \<Longrightarrow> m = n"
proof (induction m arbitrary: n rule: nat_string.induct)
  case (1 m)
  show ?case
  proof (cases "m < 10"; cases "n < 10")
    assume "m < 10" "n < 10"
    then show ?thesis
      using "1.prems" by (auto simp: nat_string.simps [of m] nat_string.simps [of n] dest: digit_inj)
  next
    assume "m < 10" "\<not> n < 10"
    then show ?thesis
      using "1.prems" nat_string_nonempty [of "n div 10"]
      by (simp add: nat_string.simps [of m] nat_string.simps [of n] del: nat_string_nonempty)
  next
    assume "\<not> m < 10" "n < 10"
    then show ?thesis
      using "1.prems" nat_string_nonempty [of "m div 10"]
      by (simp add: nat_string.simps [of m] nat_string.simps [of n] del: nat_string_nonempty)
  next
    assume m: "\<not> m < 10" and n: "\<not> n < 10"
    from "1.prems" m n
    have "nat_string (m div 10) = nat_string (n div 10)" and d: "digit (m mod 10) = digit (n mod 10)"
      by (auto simp: nat_string.simps [of m] nat_string.simps [of n])
    then have "m div 10 = n div 10" using "1.IH" m by blast
    moreover have "m mod 10 = n mod 10" using digit_inj [OF _ _ d] by simp
    ultimately show ?thesis by (metis div_mult_mod_eq)
  qed
qed

text \<open>Two strings that end in a colon and a printed number name the same number and prefix.\<close>

lemma colon_no_digit: "\<forall>c\<in>set ds. is_digit c \<Longrightarrow> CHR '':'' \<notin> set ds"
  by (auto simp: is_digit_def)

lemma append_colon_unique:
  assumes "a @ CHR '':'' # ds = b @ CHR '':'' # es"
    and "CHR '':'' \<notin> set ds" and "CHR '':'' \<notin> set es"
  shows "a = b \<and> ds = es"
  using assms by (auto simp: append_eq_append_conv2 append_eq_Cons_conv Cons_eq_append_conv)

section \<open>Lists\<close>

text \<open>The index of the first element a test accepts.\<close>

fun find_index :: "('a \<Rightarrow> bool) \<Rightarrow> 'a list \<Rightarrow> nat option" where
  "find_index P [] = None"
| "find_index P (x # xs) = (if P x then Some 0 else map_option Suc (find_index P xs))"

lemma find_index_None [simp]: "find_index P xs = None \<longleftrightarrow> (\<forall>x\<in>set xs. \<not> P x)"
  by (induction xs) auto

lemma find_index_Some: "find_index P xs = Some i \<Longrightarrow> i < length xs \<and> P (xs ! i)"
  by (induction xs arbitrary: i) (auto split: if_splits)

lemma find_None_iff_ball: "List.find P xs = None \<longleftrightarrow> (\<forall>x\<in>set xs. \<not> P x)"
  by (induction xs) auto

lemma find_SomeD: "List.find P xs = Some x \<Longrightarrow> x \<in> set xs \<and> P x"
  by (induction xs) (auto split: if_splits)

lemma distinct_map_eq:
  "distinct (map k xs) \<Longrightarrow> x \<in> set xs \<Longrightarrow> y \<in> set xs \<Longrightarrow> k x = k y \<Longrightarrow> x = y"
  by (simp add: distinct_map inj_on_def)

lemma map_if_none: "\<forall>d\<in>set c. \<not> P d \<Longrightarrow> map (\<lambda>d. if P d then f d else d) c = c"
  by (simp add: map_idI)

lemma map_if_update:
  assumes "distinct (map k c)" "i < length c" "P (c ! i)" "\<forall>d\<in>set c. P d \<longrightarrow> k d = k (c ! i)"
  shows "map (\<lambda>d. if P d then f d else d) c = c[i := f (c ! i)]"
proof (rule nth_equalityI)
  fix j assume "j < length (map (\<lambda>d. if P d then f d else d) c)"
  then have j: "j < length c" by simp
  have "j = i" if "P (c ! j)"
    using assms j that by (metis distinct_conv_nth length_map nth_map nth_mem)
  then show "map (\<lambda>d. if P d then f d else d) c ! j = c[i := f (c ! i)] ! j"
    using assms(2,3) j by (cases "j = i") auto
qed simp

text \<open>Replacing one element changes a sum by the difference of its terms.\<close>

lemma sum_list_update_map:
  fixes g :: "'a \<Rightarrow> 'b::comm_monoid_add"
  shows "i < length c \<Longrightarrow> sum_list (map g (c[i := x])) + g (c ! i) = sum_list (map g c) + g x"
  by (induction c arbitrary: i) (auto simp: nth_Cons add_ac split: nat.splits)

end
