(* ===== verification/Store.thy ===== *)
theory Store imports Prelude begin

text \<open>
  The database the services read and write, and the transaction of
  \<open>src/projects/cyberia/player/transaction.js\<close>.

  MongoDB and mongoose are not code of the repository, so what they do is a parameter: a
  \<open>driver\<close> holds the calls the code makes on one collection (\<open>find\<close>, \<open>findOne\<close>, \<open>updateOne\<close>,
  \<open>updateMany\<close>, \<open>deleteOne\<close>, \<open>deleteMany\<close>, \<open>create\<close>), and the locale \<open>collection\<close> states the
  documented laws of those calls that the code relies on, for a collection with a unique index
  (\<open>key\<close>) and a document schema (\<open>valid\<close>, from the models of \<open>src/api\<close>). The laws leave open which
  document a call takes when several match. \<open>ref_driver\<close> is a driver that satisfies them, for the
  witnesses.
\<close>

section \<open>Errors\<close>

record error =
  err_mongo :: bool \<comment> \<open>\<open>error instanceof mongoose.mongo.MongoError\<close>\<close>
  err_transient :: bool \<comment> \<open>\<open>hasErrorLabel('TransientTransactionError')\<close>\<close>
  err_code :: "int option"
  err_name :: string
  err_message :: string
  err_status :: "int option" \<comment> \<open>the HTTP status of \<open>httpError\<close> and \<open>failure\<close>\<close>

definition plain_error :: "string \<Rightarrow> error" where
  "plain_error m = \<lparr>err_mongo = False, err_transient = False, err_code = None,
     err_name = ''Error'', err_message = m, err_status = None\<rparr>"

text \<open>\<open>Object.assign(new Error(message), { status })\<close>.\<close>

definition http_error :: "string \<Rightarrow> int \<Rightarrow> error" where
  "http_error m status = (plain_error m)\<lparr>err_status := Some status\<rparr>"

definition INTEGRITY_CODES :: "int list" where
  "INTEGRITY_CODES = [11000, 11001, 121, 10334]"

definition integrityFailure :: "error \<Rightarrow> bool" where
  "integrityFailure e \<longleftrightarrow> \<not> err_transient e
     \<and> ((\<exists>c\<in>set INTEGRITY_CODES. err_code e = Some c)
        \<or> err_name e \<in> set [''ValidationError'', ''CastError''])"

definition databaseFailure :: "error \<Rightarrow> bool" where
  "databaseFailure e \<longleftrightarrow> err_mongo e \<and> \<not> integrityFailure e"

definition duplicate_key :: error where
  "duplicate_key = \<lparr>err_mongo = True, err_transient = False, err_code = Some 11000,
     err_name = ''MongoServerError'', err_message = ''E11000 duplicate key error'', err_status = None\<rparr>"

definition validation_error :: error where
  "validation_error = \<lparr>err_mongo = False, err_transient = False, err_code = None,
     err_name = ''ValidationError'', err_message = ''validation failed'', err_status = None\<rparr>"

lemma integrity_duplicate_key [simp]: "integrityFailure duplicate_key"
  by (simp add: integrityFailure_def duplicate_key_def INTEGRITY_CODES_def)

lemma integrity_validation_error [simp]: "integrityFailure validation_error"
  by (simp add: integrityFailure_def validation_error_def)

lemma failure_classes_disjoint: "databaseFailure e \<Longrightarrow> \<not> integrityFailure e"
  by (simp add: databaseFailure_def)

section \<open>Collections\<close>

text \<open>
  The documents of a collection, in its natural order. An update answers the count it matched, the
  count it changed (\<open>modifiedCount\<close>) and the documents after it.
\<close>

type_synonym 'd docs = "'d list"

record 'd driver =
  drv_find :: "('d \<Rightarrow> bool) \<Rightarrow> 'd docs \<Rightarrow> 'd list"
  drv_find_one :: "('d \<Rightarrow> bool) \<Rightarrow> 'd docs \<Rightarrow> 'd option"
  drv_update_one :: "('d \<Rightarrow> bool) \<Rightarrow> ('d \<Rightarrow> 'd) \<Rightarrow> 'd docs \<Rightarrow> nat \<times> nat \<times> 'd docs"
  drv_update_many :: "('d \<Rightarrow> bool) \<Rightarrow> ('d \<Rightarrow> 'd) \<Rightarrow> 'd docs \<Rightarrow> 'd docs"
  drv_delete_one :: "('d \<Rightarrow> bool) \<Rightarrow> 'd docs \<Rightarrow> 'd docs"
  drv_delete_many :: "('d \<Rightarrow> bool) \<Rightarrow> 'd docs \<Rightarrow> 'd docs"
  drv_create :: "'d list \<Rightarrow> 'd docs \<Rightarrow> error + 'd docs"

definition unique_docs :: "('d \<Rightarrow> 'k) \<Rightarrow> 'd docs \<Rightarrow> bool" where
  "unique_docs key c \<longleftrightarrow> distinct (map key c)"

lemma unique_docs_map:
  "(\<And>d. d \<in> set c \<Longrightarrow> key (f d) = key d) \<Longrightarrow> unique_docs key (map f c) \<longleftrightarrow> unique_docs key c"
  unfolding unique_docs_def by (simp add: comp_def cong: map_cong)

lemma unique_docs_filter: "unique_docs key c \<Longrightarrow> unique_docs key (filter P c)"
  by (simp add: unique_docs_def distinct_map_filter)

lemma unique_docs_eq: "unique_docs key c \<Longrightarrow> x \<in> set c \<Longrightarrow> y \<in> set c \<Longrightarrow> key x = key y \<Longrightarrow> x = y"
  unfolding unique_docs_def by (rule distinct_map_eq)

locale collection =
  fixes drv :: "'d driver" and key :: "'d \<Rightarrow> 'k" and valid :: "'d \<Rightarrow> bool"
  assumes find_docs: "drv_find drv P c = filter P c"
    and find_one_none: "drv_find_one drv P c = None \<longleftrightarrow> (\<forall>d\<in>set c. \<not> P d)"
    and find_one_some: "drv_find_one drv P c = Some d \<Longrightarrow> d \<in> set c \<and> P d"
    and update_one_none: "\<forall>d\<in>set c. \<not> P d \<Longrightarrow> drv_update_one drv P f c = (0, 0, c)"
    and update_one_some: "\<exists>d\<in>set c. P d \<Longrightarrow> \<exists>i<length c. P (c ! i)
      \<and> drv_update_one drv P f c = (1, if f (c ! i) = c ! i then 0 else 1, c[i := f (c ! i)])"
    and update_many: "drv_update_many drv P f c = map (\<lambda>d. if P d then f d else d) c"
    and delete_one_none: "\<forall>d\<in>set c. \<not> P d \<Longrightarrow> drv_delete_one drv P c = c"
    and delete_one_some: "\<exists>d\<in>set c. P d \<Longrightarrow> \<exists>i<length c. P (c ! i)
      \<and> drv_delete_one drv P c = take i c @ drop (Suc i) c"
    and delete_many: "drv_delete_many drv P c = filter (\<lambda>d. \<not> P d) c"
    and create_ok: "list_all valid ds \<Longrightarrow> unique_docs key (c @ ds) \<Longrightarrow> drv_create drv ds c = Inr (c @ ds)"
    and create_bad: "unique_docs key c \<Longrightarrow> \<not> (list_all valid ds \<and> unique_docs key (c @ ds)) \<Longrightarrow>
      \<exists>e. drv_create drv ds c = Inl e \<and> integrityFailure e"
    and create_duplicate: "list_all valid ds \<Longrightarrow> unique_docs key c \<Longrightarrow> \<not> unique_docs key (c @ ds) \<Longrightarrow>
      \<exists>e. drv_create drv ds c = Inl e \<and> err_code e = Some 11000"
begin

text \<open>
  With one document per key, a filter that names a key takes at most one document, so the calls on
  one document are determined.
\<close>

lemma find_one_unique:
  assumes "unique_docs key c" "\<forall>d\<in>set c. P d \<longrightarrow> key d = k"
  shows "drv_find_one drv P c = List.find P c"
proof (cases "drv_find_one drv P c")
  case None
  then show ?thesis by (metis find_one_none find_None_iff_ball)
next
  case (Some d)
  then have d: "d \<in> set c" "P d" using find_one_some by blast+
  then obtain e where e: "List.find P c = Some e"
    by (metis find_None_iff_ball option.exhaust)
  then have "e \<in> set c" "P e" using find_SomeD by fastforce+
  then have "e = d"
    using d assms distinct_map_eq [of key c e d] by (simp add: unique_docs_def)
  with Some e show ?thesis by simp
qed

lemma update_one_unique:
  assumes "unique_docs key c" "\<forall>d\<in>set c. P d \<longrightarrow> key d = k"
  shows "snd (snd (drv_update_one drv P f c)) = map (\<lambda>d. if P d then f d else d) c"
proof (cases "\<exists>d\<in>set c. P d")
  case False
  then show ?thesis by (simp add: update_one_none map_if_none)
next
  case True
  then obtain i where i: "i < length c" "P (c ! i)"
    "drv_update_one drv P f c = (1, if f (c ! i) = c ! i then 0 else 1, c[i := f (c ! i)])"
    using update_one_some by blast
  have "map (\<lambda>d. if P d then f d else d) c = c[i := f (c ! i)]"
    using assms i by (intro map_if_update [where k = key]) (auto simp: unique_docs_def)
  with i show ?thesis by simp
qed

lemma update_one_matched:
  "fst (drv_update_one drv P f c) = (if \<exists>d\<in>set c. P d then 1 else 0)"
proof (cases "\<exists>d\<in>set c. P d")
  case True
  then show ?thesis using update_one_some [of c P f] by fastforce
qed (auto simp: update_one_none)

lemma update_one_modified:
  assumes "\<forall>d. P d \<longrightarrow> f d \<noteq> d"
  shows "fst (snd (drv_update_one drv P f c)) = (if \<exists>d\<in>set c. P d then 1 else 0)"
proof (cases "\<exists>d\<in>set c. P d")
  case True
  then obtain i where "P (c ! i)"
    "drv_update_one drv P f c = (1, if f (c ! i) = c ! i then 0 else 1, c[i := f (c ! i)])"
    using update_one_some by blast
  with True assms show ?thesis by simp
next
  case False
  then show ?thesis by (auto simp: update_one_none)
qed

lemma delete_one_unique:
  assumes "unique_docs key c" "\<forall>d\<in>set c. P d \<longrightarrow> key d = k"
  shows "drv_delete_one drv P c = filter (\<lambda>d. \<not> P d) c"
proof (cases "\<exists>d\<in>set c. P d")
  case False
  then show ?thesis by (simp add: delete_one_none)
next
  case True
  then obtain i where i: "i < length c" "P (c ! i)"
    "drv_delete_one drv P c = take i c @ drop (Suc i) c"
    using delete_one_some by blast
  have other: "\<not> P (c ! j)" if "j < length c" "j \<noteq> i" for j
    using assms i that by (metis distinct_conv_nth length_map nth_map nth_mem unique_docs_def)
  have "filter (\<lambda>d. \<not> P d) (take i c) = take i c" "filter (\<lambda>d. \<not> P d) (drop (Suc i) c) = drop (Suc i) c"
    using other i(1) by (auto simp: filter_id_conv in_set_conv_nth)
  then have "filter (\<lambda>d. \<not> P d) (take i c @ c ! i # drop (Suc i) c) = take i c @ drop (Suc i) c"
    using i(2) by simp
  with i show ?thesis by (simp add: id_take_nth_drop [symmetric])
qed

lemma create_cases:
  assumes "unique_docs key c"
  obtains (ok) "list_all valid ds" "unique_docs key (c @ ds)" "drv_create drv ds c = Inr (c @ ds)"
    | (refused) e where "drv_create drv ds c = Inl e" "integrityFailure e"
  using assms create_ok create_bad by blast

end

text \<open>
  Calls composed of those: \<open>findOneAndUpdate\<close> takes the document \<open>findOne\<close> finds and answers it as the
  update leaves it; with \<open>upsert\<close> it inserts one where there is none. \<open>findOneAndDelete\<close> answers the
  document it removes. \<open>updateOne\<close> with \<open>upsert\<close> inserts one where none matches.
\<close>

definition find_one_and_update :: "'d driver \<Rightarrow> ('d \<Rightarrow> bool) \<Rightarrow> ('d \<Rightarrow> 'd) \<Rightarrow> 'd docs \<Rightarrow> 'd option \<times> 'd docs" where
  "find_one_and_update drv P f c =
     (case drv_find_one drv P c of
        None \<Rightarrow> (None, c)
      | Some d \<Rightarrow> (Some (f d), snd (snd (drv_update_one drv (\<lambda>e. e = d) f c))))"

definition find_one_and_upsert :: "'d driver \<Rightarrow> ('d \<Rightarrow> bool) \<Rightarrow> ('d \<Rightarrow> 'd) \<Rightarrow> 'd \<Rightarrow> 'd docs \<Rightarrow> error + 'd \<times> 'd docs" where
  "find_one_and_upsert drv P f new c =
     (case find_one_and_update drv P f c of
        (Some d, c') \<Rightarrow> Inr (d, c')
      | (None, _) \<Rightarrow> bindE (drv_create drv [f new] c) (\<lambda>c'. Inr (f new, c')))"

definition find_one_and_delete :: "'d driver \<Rightarrow> ('d \<Rightarrow> bool) \<Rightarrow> 'd docs \<Rightarrow> 'd option \<times> 'd docs" where
  "find_one_and_delete drv P c =
     (case drv_find_one drv P c of
        None \<Rightarrow> (None, c)
      | Some d \<Rightarrow> (Some d, drv_delete_one drv (\<lambda>e. e = d) c))"

definition update_or_insert :: "'d driver \<Rightarrow> ('d \<Rightarrow> bool) \<Rightarrow> ('d \<Rightarrow> 'd) \<Rightarrow> 'd \<Rightarrow> 'd docs \<Rightarrow> error + 'd docs" where
  "update_or_insert drv P f new c =
     (case drv_update_one drv P f c of
        (matched, _, c') \<Rightarrow> if matched = 0 then drv_create drv [f new] c else Inr c')"

context collection
begin

lemma find_one_and_update_cases:
  assumes "unique_docs key c"
  obtains (none) "\<forall>d\<in>set c. \<not> P d" "find_one_and_update drv P f c = (None, c)"
    | (one) d where "d \<in> set c" "P d"
        "find_one_and_update drv P f c = (Some (f d), map (\<lambda>e. if e = d then f e else e) c)"
proof (cases "drv_find_one drv P c")
  case None
  then have "\<forall>d\<in>set c. \<not> P d" by (simp only: find_one_none)
  then show ?thesis by (rule none) (simp add: find_one_and_update_def None)
next
  case (Some d)
  with find_one_some have d: "d \<in> set c" "P d" by blast+
  have "snd (snd (drv_update_one drv (\<lambda>e. e = d) f c)) = map (\<lambda>e. if e = d then f e else e) c"
    by (rule update_one_unique [OF assms, where k = "key d"]) simp
  with Some d show ?thesis by (intro one [of d]) (simp_all add: find_one_and_update_def)
qed

lemma find_one_and_delete_cases:
  assumes "unique_docs key c"
  obtains (none) "\<forall>d\<in>set c. \<not> P d" "find_one_and_delete drv P c = (None, c)"
    | (one) d where "d \<in> set c" "P d"
        "find_one_and_delete drv P c = (Some d, filter (\<lambda>e. e \<noteq> d) c)"
proof (cases "drv_find_one drv P c")
  case None
  then have "\<forall>d\<in>set c. \<not> P d" by (simp only: find_one_none)
  then show ?thesis by (rule none) (simp add: find_one_and_delete_def None)
next
  case (Some d)
  with find_one_some have d: "d \<in> set c" "P d" by blast+
  have "drv_delete_one drv (\<lambda>e. e = d) c = filter (\<lambda>e. e \<noteq> d) c"
    by (rule delete_one_unique [OF assms, where k = "key d"]) simp
  with Some d show ?thesis by (intro one [of d]) (simp_all add: find_one_and_delete_def)
qed

lemma update_or_insert_cases:
  assumes "unique_docs key c" "\<And>d. P d \<longleftrightarrow> key d = k" "\<And>d. key (f d) = key d" "key new = k" "valid (f new)"
  obtains c' where "update_or_insert drv P f new c = Inr c'"
    "c' = (if \<exists>d\<in>set c. key d = k then map (\<lambda>d. if key d = k then f d else d) c else c @ [f new])"
proof (cases "\<exists>d\<in>set c. P d")
  case True
  have "snd (snd (drv_update_one drv P f c)) = map (\<lambda>d. if P d then f d else d) c"
    by (rule update_one_unique [OF assms(1), where k = k]) (simp add: assms(2))
  moreover have "fst (drv_update_one drv P f c) = 1" using True by (simp add: update_one_matched)
  ultimately show ?thesis
    using True assms(2) by (intro that) (auto simp: update_or_insert_def split: prod.splits)
next
  case False
  then have "drv_update_one drv P f c = (0, 0, c)" by (simp add: update_one_none)
  moreover have "drv_create drv [f new] c = Inr (c @ [f new])"
    using False assms by (intro create_ok) (auto simp: unique_docs_def)
  ultimately show ?thesis
    using False assms(2) by (intro that) (simp_all add: update_or_insert_def)
qed

end

text \<open>A driver that satisfies the laws: each call on one document takes the first that matches.\<close>

definition ref_driver :: "('d \<Rightarrow> 'k) \<Rightarrow> ('d \<Rightarrow> bool) \<Rightarrow> 'd driver" where
  "ref_driver key valid = \<lparr>
     drv_find = filter,
     drv_find_one = List.find,
     drv_update_one = (\<lambda>P f c. case find_index P c of None \<Rightarrow> (0, 0, c)
        | Some i \<Rightarrow> (1, if f (c ! i) = c ! i then 0 else 1, c[i := f (c ! i)])),
     drv_update_many = (\<lambda>P f c. map (\<lambda>d. if P d then f d else d) c),
     drv_delete_one = (\<lambda>P c. case find_index P c of None \<Rightarrow> c | Some i \<Rightarrow> take i c @ drop (Suc i) c),
     drv_delete_many = (\<lambda>P c. filter (\<lambda>d. \<not> P d) c),
     drv_create = (\<lambda>ds c. if \<not> list_all valid ds then Inl validation_error
        else if distinct (map key (c @ ds)) then Inr (c @ ds) else Inl duplicate_key)\<rparr>"

interpretation ref_store: collection "ref_driver key valid" key valid for key valid
proof (unfold_locales, goal_cases)
  case (3 P c d)
  then show ?case using find_SomeD by (fastforce simp: ref_driver_def)
next
  case (5 c P f)
  then obtain i where "find_index P c = Some i" by (metis find_index_None option.exhaust)
  then show ?case using find_index_Some [of P c i] by (auto simp: ref_driver_def)
next
  case (8 c P)
  then obtain i where "find_index P c = Some i" by (metis find_index_None option.exhaust)
  then show ?case using find_index_Some [of P c i] by (auto simp: ref_driver_def)
next
  case (11 c ds)
  then show ?case by (auto simp: ref_driver_def unique_docs_def)
qed (auto simp: ref_driver_def find_None_iff_ball unique_docs_def duplicate_key_def
    find_index_None [THEN iffD2] split: option.splits)

section \<open>Work\<close>

text \<open>
  A call that reads and writes the database and may throw: its answer or its error, and the state it
  leaves. \<open>bindW\<close> is the sequence of two calls; \<open>writeW\<close> is a call of a driver that may throw.
\<close>

type_synonym ('s, 'a) work = "'s \<Rightarrow> (error + 'a) \<times> 's"

definition retW :: "'a \<Rightarrow> ('s, 'a) work" where
  "retW a s = (Inr a, s)"

definition bindW :: "('s, 'a) work \<Rightarrow> ('a \<Rightarrow> ('s, 'b) work) \<Rightarrow> ('s, 'b) work" where
  "bindW m f s = (case m s of (Inl e, t) \<Rightarrow> (Inl e, t) | (Inr a, t) \<Rightarrow> f a t)"

definition writeW :: "('s \<Rightarrow> error + 's) \<Rightarrow> ('s, unit) work" where
  "writeW f s = (case f s of Inl e \<Rightarrow> (Inl e, s) | Inr t \<Rightarrow> (Inr (), t))"

fun eachW :: "('x \<Rightarrow> ('s, unit) work) \<Rightarrow> 'x list \<Rightarrow> ('s, unit) work" where
  "eachW f [] = retW ()"
| "eachW f (x # xs) = bindW (f x) (\<lambda>_. eachW f xs)"

lemma retW_Inr [simp]: "retW a s = (Inr b, t) \<longleftrightarrow> a = b \<and> s = t"
  by (simp add: retW_def)

lemma bindW_Inr [simp]: "bindW m f s = (Inr b, t) \<longleftrightarrow> (\<exists>a u. m s = (Inr a, u) \<and> f a u = (Inr b, t))"
  by (auto simp: bindW_def split: prod.splits sum.splits)

lemma bindW_Inl: "bindW m f s = (Inl e, t) \<longleftrightarrow>
    m s = (Inl e, t) \<or> (\<exists>a u. m s = (Inr a, u) \<and> f a u = (Inl e, t))"
  by (auto simp: bindW_def split: prod.splits sum.splits)

lemma writeW_Inr [simp]: "writeW f s = (Inr u, t) \<longleftrightarrow> f s = Inr t"
  by (auto simp: writeW_def split: sum.splits)

text \<open>An invariant every step keeps is kept by the sequence.\<close>

lemma eachW_keeps:
  assumes "eachW f xs s = (Inr u, t)" "I s"
    and "\<And>x s t. x \<in> set xs \<Longrightarrow> I s \<Longrightarrow> f x s = (Inr (), t) \<Longrightarrow> I t"
  shows "I t"
  using assms by (induction xs arbitrary: s) auto

section \<open>Transactions\<close>

text \<open>
  \<open>session.withTransaction(work)\<close>: what the driver meets in each attempt is an argument. A transient
  error aborts the attempt and runs the work again from the same state; another failure of the
  commit throws. An attempt the list no longer names commits. Work that throws aborts: the error
  reaches the caller and the state stays. (An error of the work with the transient label is one of
  the aborted attempts.)
\<close>

datatype attempt = Transient | Fatal error

fun runTransaction :: "attempt list \<Rightarrow> ('s, 'a) work \<Rightarrow> ('s, 'a) work" where
  "runTransaction (Transient # as) work s = runTransaction as work s"
| "runTransaction (Fatal e # as) work s = (Inl e, s)"
| "runTransaction [] work s =
     (case work s of (Inl e, _) \<Rightarrow> (Inl e, s) | (Inr r, s') \<Rightarrow> (Inr r, s'))"

text \<open>\<open>commitTransaction\<close> of \<open>player-state.js\<close>: an integrity failure answers \<open>refused\<close>.\<close>

definition commitTransaction :: "attempt list \<Rightarrow> ('s, 'a) work \<Rightarrow> 'a \<Rightarrow> ('s, 'a) work" where
  "commitTransaction as work refused s =
     (case runTransaction as work s of
        (Inl e, s') \<Rightarrow> (if integrityFailure e then Inr refused else Inl e, s')
      | (Inr r, s') \<Rightarrow> (Inr r, s'))"

text \<open>The contract of a transaction: it is the work, whole, or nothing.\<close>

locale transaction =
  fixes run :: "('s, 'a) work \<Rightarrow> ('s, 'a) work"
  assumes aborted: "run work s = (Inl e, s') \<Longrightarrow> s' = s"
    and committed: "run work s = (Inr r, s') \<Longrightarrow> work s = (Inr r, s')"
begin

text \<open>An invariant the work keeps whenever it answers is kept by the transaction.\<close>

lemma keeps:
  assumes "I s" "\<And>r t. work s = (Inr r, t) \<Longrightarrow> I t"
  shows "I (snd (run work s))"
  using assms aborted [of work s] committed [of work s]
  by (metis old.sum.exhaust prod.collapse)

lemma answer_of_work: "fst (run work s) = Inr r \<Longrightarrow> work s = (Inr r, snd (run work s))"
  using committed by (metis prod.collapse)

end

lemma runTransaction_aborted: "runTransaction as work s = (Inl e, s') \<Longrightarrow> s' = s"
  by (induction as work s rule: runTransaction.induct) (auto split: prod.splits sum.splits)

lemma runTransaction_committed: "runTransaction as work s = (Inr r, s') \<Longrightarrow> work s = (Inr r, s')"
  by (induction as work s rule: runTransaction.induct) (auto split: prod.splits sum.splits)

interpretation tx: transaction "runTransaction as" for as
  by unfold_locales (auto dest: runTransaction_aborted runTransaction_committed)

text \<open>Retries are invisible: an attempt list of transient errors gives what one attempt gives.\<close>

lemma runTransaction_retries:
  "set as \<subseteq> {Transient} \<Longrightarrow> runTransaction as work s = runTransaction [] work s"
  by (induction as) (auto simp del: runTransaction.simps(3))

lemma commitTransaction_cases:
  assumes "commitTransaction as work refused s = (r, s')"
  obtains (committed) a where "r = Inr a" "work s = (Inr a, s')"
    | (refused) "r = Inr refused" "s' = s"
    | (failed) e where "r = Inl e" "s' = s" "\<not> integrityFailure e"
  using assms
  by (auto simp: commitTransaction_def split: prod.splits sum.splits if_splits
      dest: runTransaction_aborted runTransaction_committed)

end
