(* ===== verification/Contract.thy ===== *)
theory Contract imports Store begin

text \<open>
  The simulation contract of \<open>src/api/cyberia-server-defaults/cyberia-server-defaults.js\<close> and the
  capacity rules of \<open>src/client/components/cyberia/SharedDefaultsCyberia.js\<close>: the level curve, the
  container slots, the resolution of a profile block over its defaults and bounds, the currency,
  the economy profile, the item policies, the market profile and the lowest bid.
\<close>

section \<open>Errors of a resolution\<close>

definition typeError :: "string \<Rightarrow> error" where
  "typeError m = (plain_error m)\<lparr>err_name := ''TypeError''\<rparr>"

definition rangeError :: "string \<Rightarrow> error" where
  "rangeError m = (plain_error m)\<lparr>err_name := ''RangeError''\<rparr>"

section \<open>Levels and container slots\<close>

record progression =
  maxLevel :: int
  xpPerLevel :: int

definition PROGRESSION_RULES_DEFAULTS :: progression where
  "PROGRESSION_RULES_DEFAULTS = \<lparr>maxLevel = 100, xpPerLevel = 100\<rparr>"

text \<open>The loop of \<open>levelAtXp\<close> from a level: what shrinks is the distance to the cap.\<close>

function level_loop :: "progression \<Rightarrow> int \<Rightarrow> int \<Rightarrow> int" where
  "level_loop r xp level =
     (if level < maxLevel r \<and> xpPerLevel r * level * level \<le> xp then level_loop r xp (level + 1) else level)"
  by pat_completeness auto
termination by (relation "measure (\<lambda>(r, xp, level). nat (maxLevel r - level))") auto

declare level_loop.simps [simp del]

definition levelAtXp :: "int \<Rightarrow> progression \<Rightarrow> int" where
  "levelAtXp xp r = level_loop r xp 1"

record capacity =
  cap_base :: int
  cap_step :: int
  cap_every :: int
  cap_max :: int

definition INVENTORY_CAPACITY :: capacity where
  "INVENTORY_CAPACITY = \<lparr>cap_base = 8, cap_step = 1, cap_every = 3, cap_max = 24\<rparr>"

definition STORAGE_CAPACITY :: capacity where
  "STORAGE_CAPACITY = \<lparr>cap_base = 16, cap_step = 2, cap_every = 5, cap_max = 40\<rparr>"

text \<open>\<open>Math.floor\<close> of the quotient of two whole numbers is \<open>div\<close>.\<close>

definition containerSlots :: "capacity \<Rightarrow> int \<Rightarrow> int" where
  "containerSlots c level = min (cap_max c) (cap_base c + cap_step c * ((max level 1 - 1) div cap_every c))"

lemma level_loop_bounds:
  "level \<le> maxLevel r \<Longrightarrow> level \<le> level_loop r xp level \<and> level_loop r xp level \<le> maxLevel r"
proof (induction r xp level rule: level_loop.induct)
  case (1 r xp level)
  then show ?case by (subst (1 2) level_loop.simps) auto
qed

text \<open>Every level the loop passes is one whose threshold the total meets.\<close>

lemma level_loop_met:
  assumes "level \<le> l" "l < level_loop r xp level"
  shows "xpPerLevel r * l * l \<le> xp"
  using assms
proof (induction r xp level rule: level_loop.induct)
  case (1 r xp level)
  show ?case
  proof (cases "level < maxLevel r \<and> xpPerLevel r * level * level \<le> xp")
    case True
    then show ?thesis
      using 1 by (cases "l = level") (auto simp: level_loop.simps [of r xp level])
  next
    case False
    then show ?thesis using "1.prems" by (auto simp: level_loop.simps [of r xp level])
  qed
qed

lemma level_loop_stop:
  "level_loop r xp level < maxLevel r \<Longrightarrow>
   xp < xpPerLevel r * level_loop r xp level * level_loop r xp level"
proof (induction r xp level rule: level_loop.induct)
  case (1 r xp level)
  show ?case
  proof (cases "level < maxLevel r \<and> xpPerLevel r * level * level \<le> xp")
    case True
    then show ?thesis using 1 by (simp add: level_loop.simps [of r xp level])
  next
    case False
    then show ?thesis using "1.prems" by (auto simp: level_loop.simps [of r xp level])
  qed
qed

lemma levelAtXp_pos: "1 \<le> maxLevel r \<Longrightarrow> 1 \<le> levelAtXp xp r"
  using level_loop_bounds [of 1 r xp] by (simp add: levelAtXp_def)

lemma containerSlots_le_max: "containerSlots c level \<le> cap_max c"
  by (simp add: containerSlots_def)

lemma containerSlots_ge_base:
  "0 \<le> cap_step c \<Longrightarrow> 0 < cap_every c \<Longrightarrow> cap_base c \<le> cap_max c \<Longrightarrow> cap_base c \<le> containerSlots c level"
  by (simp add: containerSlots_def pos_imp_zdiv_nonneg_iff)

lemma containerSlots_mono:
  "0 \<le> cap_step c \<Longrightarrow> 0 < cap_every c \<Longrightarrow> l \<le> m \<Longrightarrow> containerSlots c l \<le> containerSlots c m"
  unfolding containerSlots_def
  by (intro min.mono order_refl add_mono mult_left_mono zdiv_mono1) auto

section \<open>The lowest bid\<close>

text \<open>
  The terms are whole numbers up to \<open>10 ^ 11\<close> after the product, so the quotient of the source is
  the exact one up to a rounding that crosses no whole number.
\<close>

definition minBid :: "int \<Rightarrow> int \<Rightarrow> int \<Rightarrow> int \<Rightarrow> int" where
  "minBid price bid raisePercent minRaise =
     (if bid > 0 then bid + max minRaise \<lceil>(of_int (bid * raisePercent) / 100 :: rat)\<rceil> else price)"

lemma minBid_div:
  "minBid price bid raisePercent minRaise =
     (if bid > 0 then bid + max minRaise (- (- (bid * raisePercent) div 100)) else price)"
  using ceiling_divide_eq_div [where ?'a = rat, of "bid * raisePercent" 100]
  by (simp add: minBid_def)

lemma minBid_raises: "0 < bid \<Longrightarrow> 1 \<le> minRaise \<Longrightarrow> bid < minBid price bid raisePercent minRaise"
  by (simp add: minBid_def)

section \<open>Resolution of a block\<close>

type_synonym block = "(string \<times> js) list"
type_synonym bounds = "(string \<times> rat \<times> rat) list"

definition out_of_bounds :: "bounds \<Rightarrow> string \<Rightarrow> js \<Rightarrow> bool" where
  "out_of_bounds limits key v =
     (case map_of limits key of None \<Rightarrow> False | Some (lo, hi) \<Rightarrow> jrat v < lo \<or> hi < jrat v)"

definition resolve_field ::
    "string \<Rightarrow> js \<Rightarrow> bounds \<Rightarrow> (string \<Rightarrow> js \<Rightarrow> bool) \<Rightarrow> string \<times> js \<Rightarrow> error + string \<times> js" where
  "resolve_field name input limits isValid kd =
     (let key = fst kd; value = (if nullish (jget input key) then snd kd else jget input key)
      in if \<not> isValid key value \<or> out_of_bounds limits key value
         then Inl (rangeError (''Invalid '' @ name @ '' field: '' @ key))
         else Inr (key, value))"

definition resolveBlock ::
    "string \<Rightarrow> js \<Rightarrow> block \<Rightarrow> bounds \<Rightarrow> (string \<Rightarrow> js \<Rightarrow> bool) \<Rightarrow> error + block" where
  "resolveBlock name input defaults limits isValid =
     (if \<not> isPlainObject input then Inl (typeError (name @ '' must be an object.''))
      else case List.find (\<lambda>key. \<not> inObject key defaults) (map fst (fields_of input)) of
        Some key \<Rightarrow> Inl (typeError (''Unknown '' @ name @ '' field: '' @ key))
      | None \<Rightarrow> mapE (resolve_field name input limits isValid) defaults)"

text \<open>What a resolved block is: its defaults' keys, in order, each with a valid value in bounds.\<close>

definition block_ok :: "block \<Rightarrow> bounds \<Rightarrow> (string \<Rightarrow> js \<Rightarrow> bool) \<Rightarrow> block \<Rightarrow> bool" where
  "block_ok defaults limits isValid out \<longleftrightarrow> map fst out = map fst defaults
     \<and> (\<forall>(k, v)\<in>set out. isValid k v \<and> \<not> out_of_bounds limits k v)"

lemma resolve_field_Inr:
  "resolve_field name input limits isValid kd = Inr kv \<longleftrightarrow>
     fst kv = fst kd \<and> snd kv = (if nullish (jget input (fst kd)) then snd kd else jget input (fst kd))
     \<and> isValid (fst kv) (snd kv) \<and> \<not> out_of_bounds limits (fst kv) (snd kv)"
  by (cases kv) (auto simp: resolve_field_def Let_def)

lemma resolveBlock_Inr:
  "resolveBlock name input defaults limits isValid = Inr out \<longleftrightarrow>
     isPlainObject input \<and> (\<forall>k\<in>set (map fst (fields_of input)). inObject k defaults)
     \<and> list_all2 (\<lambda>d kv. resolve_field name input limits isValid d = Inr kv) defaults out"
proof (cases "List.find (\<lambda>key. \<not> inObject key defaults) (map fst (fields_of input))")
  case None
  then have "\<forall>k\<in>set (map fst (fields_of input)). inObject k defaults"
    by (simp add: find_None_iff_ball)
  with None show ?thesis by (simp add: resolveBlock_def mapE_Inr)
next
  case (Some k)
  then have "k \<in> set (map fst (fields_of input)) \<and> \<not> inObject k defaults"
    using find_SomeD by fastforce
  with Some show ?thesis by (auto simp: resolveBlock_def)
qed

lemma resolveBlock_ok:
  assumes "resolveBlock name input defaults limits isValid = Inr out"
  shows "block_ok defaults limits isValid out"
proof -
  have "list_all2 (\<lambda>d kv. resolve_field name input limits isValid d = Inr kv) defaults out"
    using assms by (simp add: resolveBlock_Inr)
  then have "map fst out = map fst defaults \<and>
      (\<forall>(k, v)\<in>set out. isValid k v \<and> \<not> out_of_bounds limits k v)"
    by (induction rule: list_all2_induct) (auto simp: resolve_field_Inr)
  then show ?thesis by (simp add: block_ok_def)
qed

text \<open>A resolved block resolves to itself: no later write changes it.\<close>

lemma resolveBlock_again:
  assumes ok: "block_ok defaults limits isValid out"
    and keys: "distinct (map fst defaults)"
    and full: "\<forall>(k, v)\<in>set out. \<not> nullish v"
  shows "resolveBlock name (Obj out) defaults limits isValid = Inr out"
proof -
  have len: "length defaults = length out" and fsts: "map fst out = map fst defaults"
    using ok by (auto simp: block_ok_def dest: map_eq_imp_length_eq)
  have "resolve_field name (Obj out) limits isValid (defaults ! i) = Inr (out ! i)"
    if i: "i < length defaults" for i
  proof -
    obtain k v where kv: "out ! i = (k, v)" by force
    then have mem: "(k, v) \<in> set out" using i len by (metis nth_mem)
    have "fst (defaults ! i) = k"
      using fsts i len kv by (metis fst_conv nth_map)
    moreover have "map_of out k = Some v"
      using mem keys fsts by (simp add: map_of_is_SomeI)
    ultimately show ?thesis
      using kv mem ok full by (auto simp: resolve_field_Inr block_ok_def)
  qed
  then show ?thesis
    using len fsts by (auto simp: resolveBlock_Inr list_all2_conv_all_nth inObject_def)
qed

end
