(* ===== verification/Profiles.thy ===== *)
theory Profiles imports Contract begin

text \<open>
  The profiles of \<open>cyberia-server-defaults.js\<close>: the currency, the coin rules, the operation fees and
  the item defaults of an economy, the item policy rows over them, and the shared rules of a market.
  A profile resolves from what an author wrote to a complete block of values in bounds, or throws.
  Decimal rates are read as their decimal value.
\<close>

section \<open>Constants\<close>

definition COIN_BALANCE_MAX :: int where
  "COIN_BALANCE_MAX = 4294967295"

definition CURRENCY_CODES :: "string list" where
  "CURRENCY_CODES = [''coin'']"

definition CURRENCY_DEFAULTS :: block where
  "CURRENCY_DEFAULTS = [(''code'', Str ''coin''), (''maxBalance'', JInt COIN_BALANCE_MAX)]"

definition ECONOMY_RULES_DEFAULTS :: block where
  "ECONOMY_RULES_DEFAULTS = [(''botSpawnCoins'', JInt 50), (''playerSpawnCoins'', JInt 50),
     (''coinKillPercentVsBot'', Num (Fin (4 / 10))), (''coinKillPercentVsPlayer'', Num (Fin (15 / 100))),
     (''coinKillMinAmount'', JInt 10), (''respawnCostPercent'', JInt 0)]"

definition ECONOMY_RULE_LIMITS :: bounds where
  "ECONOMY_RULE_LIMITS = [(''botSpawnCoins'', 0, 1000000), (''playerSpawnCoins'', 0, 1000000),
     (''coinKillMinAmount'', 0, 1000000), (''coinKillPercentVsBot'', 0, 1),
     (''coinKillPercentVsPlayer'', 0, 1), (''respawnCostPercent'', 0, 1)]"

definition ECONOMY_RATES :: "string list" where
  "ECONOMY_RATES = [''coinKillPercentVsBot'', ''coinKillPercentVsPlayer'', ''respawnCostPercent'']"

definition OPERATION_FEE_DEFAULTS :: block where
  "OPERATION_FEE_DEFAULTS = [(''portal'', JInt 0), (''craft'', JInt 0)]"

definition OPERATION_FEE_LIMITS :: bounds where
  "OPERATION_FEE_LIMITS = map (\<lambda>(key, _). (key, 0, 1000000)) OPERATION_FEE_DEFAULTS"

definition ITEM_POLICY_DEFAULTS :: block where
  "ITEM_POLICY_DEFAULTS = [(''trade'', Bool True), (''worldDrop'', Bool True), (''buyback'', Bool False),
     (''buybackPayout'', JInt 0), (''burn'', Bool False), (''burnCoinFee'', JInt 0),
     (''craftSurcharge'', JInt 0), (''market'', Bool False)]"

definition ITEM_POLICY_FLAGS :: "string list" where
  "ITEM_POLICY_FLAGS = [''trade'', ''worldDrop'', ''buyback'', ''burn'', ''market'']"

definition ITEM_POLICY_LIMITS :: bounds where
  "ITEM_POLICY_LIMITS = [(''buybackPayout'', 0, 1000000), (''burnCoinFee'', 0, 1000000),
     (''craftSurcharge'', 0, 1000000)]"

definition ITEM_POLICY_OPTIONAL_LIMITS :: bounds where
  "ITEM_POLICY_OPTIONAL_LIMITS = [(''portalFee'', 0, 1000000)]"

definition SALVAGE_LINES :: nat where "SALVAGE_LINES = 8"
definition SALVAGE_QUANTITY :: int where "SALVAGE_QUANTITY = 1000"

definition MARKET_SCOPES :: "string list" where
  "MARKET_SCOPES = [''instance'', ''universe'']"

definition MARKET_MODES :: "string list" where
  "MARKET_MODES = [''fixed'', ''auction'']"

definition MARKET_HOURS :: "int list" where
  "MARKET_HOURS = [1, 6, 12, 24, 48, 72, 168]"

definition MARKET_PAGE :: nat where "MARKET_PAGE = 20"

definition MARKET_AUCTION_DEFAULTS :: block where
  "MARKET_AUCTION_DEFAULTS = [(''raisePercent'', JInt 5), (''minRaise'', JInt 1)]"

definition MARKET_FEES_DEFAULTS :: block where
  "MARKET_FEES_DEFAULTS = [(''listing'', JInt 0), (''sale'', JInt 0)]"

definition MARKET_LIMITS_DEFAULTS :: block where
  "MARKET_LIMITS_DEFAULTS = [(''priceMin'', JInt 1), (''priceMax'', JInt 1000000000),
     (''listingsPerPlayer'', JInt 20)]"

definition MARKET_AUCTION_LIMITS :: bounds where
  "MARKET_AUCTION_LIMITS = [(''raisePercent'', 1, 100), (''minRaise'', 1, 1000000)]"

definition MARKET_FEES_LIMITS :: bounds where
  "MARKET_FEES_LIMITS = [(''listing'', 0, 1000000), (''sale'', 0, 1000000)]"

definition MARKET_LIMITS_LIMITS :: bounds where
  "MARKET_LIMITS_LIMITS = [(''priceMin'', 1, 1000000000), (''priceMax'', 1, 1000000000),
     (''listingsPerPlayer'', 1, 100)]"

section \<open>Economy profile\<close>

fun isBool :: "js \<Rightarrow> bool" where
  "isBool (Bool _) = True"
| "isBool _ = False"

text \<open>\<open>({ field = {} })\<close>: an absent argument is the empty object.\<close>

definition or_empty :: "js \<Rightarrow> js" where
  "or_empty v = (if v = Undefined then Obj [] else v)"

definition resolveEconomyRules :: "js \<Rightarrow> error + block" where
  "resolveEconomyRules input = resolveBlock ''economy rule'' (or_empty input)
     ECONOMY_RULES_DEFAULTS ECONOMY_RULE_LIMITS
     (\<lambda>key v. if key \<in> set ECONOMY_RATES then isFinite v else isInteger v)"

definition policyValueValid :: "string \<Rightarrow> js \<Rightarrow> bool" where
  "policyValueValid key v = (if key \<in> set ITEM_POLICY_FLAGS then isBool v else isInteger v)"

definition resolveOperationFees :: "js \<Rightarrow> error + block" where
  "resolveOperationFees input = resolveBlock ''operation fee'' (or_empty input)
     OPERATION_FEE_DEFAULTS OPERATION_FEE_LIMITS (\<lambda>key. isInteger)"

definition resolveItemDefaults :: "js \<Rightarrow> error + block" where
  "resolveItemDefaults input = resolveBlock ''item policy'' (or_empty input)
     ITEM_POLICY_DEFAULTS ITEM_POLICY_LIMITS policyValueValid"

definition resolveCurrency :: "js \<Rightarrow> error + block" where
  "resolveCurrency input = resolveBlock ''currency'' (or_empty input)
     CURRENCY_DEFAULTS [(''maxBalance'', 1, of_int COIN_BALANCE_MAX)]
     (\<lambda>key v. if key = ''code'' then oneOf CURRENCY_CODES v else isInteger v)"

record economy_profile =
  ep_currency :: block
  ep_rules :: block
  ep_fees :: block
  ep_itemDefaults :: block

definition resolveEconomyProfile :: "js \<Rightarrow> error + economy_profile" where
  "resolveEconomyProfile input =
     (if input = Null then Inl (typeError ''Cannot destructure null'') else
      bindE (resolveCurrency (jget input ''currency'')) (\<lambda>currency.
      bindE (resolveEconomyRules (jget input ''rules'')) (\<lambda>rules.
      bindE (resolveOperationFees (jget input ''fees'')) (\<lambda>fees.
      bindE (resolveItemDefaults (jget input ''itemDefaults'')) (\<lambda>itemDefaults.
      Inr \<lparr>ep_currency = currency, ep_rules = rules, ep_fees = fees, ep_itemDefaults = itemDefaults\<rparr>)))))"

section \<open>Item policies\<close>

definition ITEM_POLICY_ROW_FIELDS :: "string list" where
  "ITEM_POLICY_ROW_FIELDS = map fst ITEM_POLICY_DEFAULTS @ map fst ITEM_POLICY_OPTIONAL_LIMITS @ [''salvage'']"

fun nonEmptyText :: "js \<Rightarrow> bool" where
  "nonEmptyText (Str s) = (s \<noteq> [])"
| "nonEmptyText _ = False"

text \<open>The lines of a salvage, with the outputs the earlier lines named.\<close>

fun salvageDefect :: "string \<Rightarrow> string list \<Rightarrow> js list \<Rightarrow> string" where
  "salvageDefect item outputs [] = ''''"
| "salvageDefect item outputs (line # lines) =
     (let id = jget line ''itemId''; qty = jget line ''qty'' in
      if \<not> nonEmptyText id \<or> jstr id \<in> set outputs then item @ '': invalid salvage item''
      else if jstr id = item \<or> jstr id \<in> set CURRENCY_CODES then item @ '': salvage of itself or coins''
      else if \<not> isInteger qty \<or> jint qty < 1 \<or> SALVAGE_QUANTITY < jint qty
        then item @ '': invalid salvage quantity''
      else salvageDefect item (jstr id # outputs) lines)"

definition policyFieldDefect :: "js \<Rightarrow> string \<Rightarrow> bool" where
  "policyFieldDefect row key \<longleftrightarrow> \<not> nullish (jget row key) \<and> key \<noteq> ''salvage''
     \<and> (\<not> policyValueValid key (jget row key)
        \<or> out_of_bounds (ITEM_POLICY_LIMITS @ ITEM_POLICY_OPTIONAL_LIMITS) key (jget row key))"

definition itemPolicyDefect :: "js \<Rightarrow> string" where
  "itemPolicyDefect row =
     (if \<not> isPlainObject row then ''the policy is not an object''
      else if \<not> nonEmptyText (jget row ''itemId'') then ''the item id is missing''
      else let item = jstr (jget row ''itemId'') in
        case List.find (policyFieldDefect row) ITEM_POLICY_ROW_FIELDS of
          Some key \<Rightarrow> item @ '': invalid '' @ key
        | None \<Rightarrow>
           (let salvage = (if nullish (jget row ''salvage'') then Arr [] else jget row ''salvage'') in
            if \<not> isArray salvage \<or> SALVAGE_LINES < length (jarr salvage) then item @ '': invalid salvage''
            else if salvageDefect item [] (jarr salvage) \<noteq> '''' then salvageDefect item [] (jarr salvage)
            else if jarr salvage \<noteq> [] \<and> jget row ''burn'' = Bool False then item @ '': salvage without burn''
            else ''''))"

definition effectiveItemPolicy :: "js \<Rightarrow> block \<Rightarrow> block" where
  "effectiveItemPolicy row itemDefaults =
     put ''salvage''
       (Arr (map (\<lambda>line. Obj [(''itemId'', jget line ''itemId''), (''qty'', jget line ''qty'')])
          (jarr (jget row ''salvage''))))
       (spread itemDefaults
         (map (\<lambda>key. (key, jget row key))
           (filter (\<lambda>key. \<not> nullish (jget row key))
             (map fst ITEM_POLICY_DEFAULTS @ map fst ITEM_POLICY_OPTIONAL_LIMITS))))"

section \<open>Market profile\<close>

record market_rules =
  mr_scope :: string
  mr_currencyCode :: string
  mr_modes :: "string list"
  mr_hours :: "int list"
  mr_auction :: block
  mr_fees :: block
  mr_limits :: block

definition block_int :: "block \<Rightarrow> string \<Rightarrow> int" where
  "block_int b key = (case map_of b key of Some v \<Rightarrow> jint v | None \<Rightarrow> 0)"

definition resolveIntegers :: "string \<Rightarrow> js \<Rightarrow> block \<Rightarrow> bounds \<Rightarrow> error + block" where
  "resolveIntegers name input defaults limits =
     resolveBlock (''market '' @ name) (or_empty input) defaults limits (\<lambda>key. isInteger)"

text \<open>
  \<open>choices\<close> are the allowed values, of primitive types, so a set of values has the size of the list
  exactly when no value repeats.
\<close>

definition resolveChoices :: "string \<Rightarrow> js \<Rightarrow> js list \<Rightarrow> js list \<Rightarrow> error + js list" where
  "resolveChoices name input defaults choices =
     (let values = (if nullish input then Arr defaults else input) in
      if \<not> isArray values \<or> jarr values = [] \<or> \<not> distinct (jarr values)
        then Inl (rangeError (''market '' @ name @ '' must name each value once''))
      else if \<not> list_all (\<lambda>v. v \<in> set choices) (jarr values)
        then Inl (rangeError (''Invalid market '' @ name))
      else Inr (filter (\<lambda>v. v \<in> set (jarr values)) choices))"

definition resolveMarketProfile :: "js \<Rightarrow> error + market_rules" where
  "resolveMarketProfile input =
     (if input = Null then Inl (typeError ''Cannot destructure null'') else
      let scope = (if nullish (jget input ''scope'') then Str ''universe'' else jget input ''scope'');
          currency = (if nullish (jget input ''currencyCode'') then Str ''coin'' else jget input ''currencyCode'')
      in
      bindE (resolveChoices ''modes'' (jget input ''modes'') (map Str MARKET_MODES) (map Str MARKET_MODES)) (\<lambda>modes.
      bindE (resolveChoices ''hours'' (jget input ''hours'') (map JInt [1, 12, 48]) (map JInt MARKET_HOURS)) (\<lambda>hours.
      bindE (resolveIntegers ''auction'' (jget input ''auction'') MARKET_AUCTION_DEFAULTS MARKET_AUCTION_LIMITS) (\<lambda>auction.
      bindE (resolveIntegers ''fees'' (jget input ''fees'') MARKET_FEES_DEFAULTS MARKET_FEES_LIMITS) (\<lambda>fees.
      bindE (resolveIntegers ''limits'' (jget input ''limits'') MARKET_LIMITS_DEFAULTS MARKET_LIMITS_LIMITS) (\<lambda>limits.
      if \<not> oneOf MARKET_SCOPES scope then Inl (rangeError ''Invalid market scope'')
      else if \<not> oneOf CURRENCY_CODES currency then Inl (rangeError ''Invalid market currency'')
      else if block_int limits ''priceMax'' < block_int limits ''priceMin''
        then Inl (rangeError ''market priceMin is above priceMax'')
      else if block_int limits ''priceMin'' < block_int fees ''sale''
        then Inl (rangeError ''market sale fee is above priceMin'')
      else Inr \<lparr>mr_scope = jstr scope, mr_currencyCode = jstr currency, mr_modes = map jstr modes,
        mr_hours = map jint hours, mr_auction = auction, mr_fees = fees, mr_limits = limits\<rparr>))))))"

section \<open>What a resolved profile satisfies\<close>

definition market_rules_ok :: "market_rules \<Rightarrow> bool" where
  "market_rules_ok r \<longleftrightarrow>
     mr_scope r \<in> set MARKET_SCOPES \<and> mr_currencyCode r \<in> set CURRENCY_CODES
     \<and> mr_modes r \<noteq> [] \<and> distinct (mr_modes r) \<and> set (mr_modes r) \<subseteq> set MARKET_MODES
     \<and> mr_hours r \<noteq> [] \<and> distinct (mr_hours r) \<and> set (mr_hours r) \<subseteq> set MARKET_HOURS
     \<and> 1 \<le> block_int (mr_auction r) ''raisePercent'' \<and> block_int (mr_auction r) ''raisePercent'' \<le> 100
     \<and> 1 \<le> block_int (mr_auction r) ''minRaise'' \<and> block_int (mr_auction r) ''minRaise'' \<le> 1000000
     \<and> 0 \<le> block_int (mr_fees r) ''listing'' \<and> block_int (mr_fees r) ''listing'' \<le> 1000000
     \<and> 0 \<le> block_int (mr_fees r) ''sale''
     \<and> block_int (mr_fees r) ''sale'' \<le> block_int (mr_limits r) ''priceMin''
     \<and> 1 \<le> block_int (mr_limits r) ''priceMin''
     \<and> block_int (mr_limits r) ''priceMin'' \<le> block_int (mr_limits r) ''priceMax''
     \<and> block_int (mr_limits r) ''priceMax'' \<le> 1000000000
     \<and> 1 \<le> block_int (mr_limits r) ''listingsPerPlayer''
     \<and> block_int (mr_limits r) ''listingsPerPlayer'' \<le> 100"

text \<open>The whole value of a field of a resolved block of whole numbers lies in its bounds.\<close>

lemma block_int_bounds:
  assumes "block_ok defaults limits (\<lambda>key. isInteger) out"
    and "key \<in> set (map fst defaults)" "map_of limits key = Some (of_int lo, of_int hi)"
  shows "lo \<le> block_int out key \<and> block_int out key \<le> hi"
proof -
  have "key \<in> set (map fst out)" using assms(1,2) by (simp add: block_ok_def)
  then obtain v where v: "map_of out key = Some v" by (metis map_of_eq_None_iff not_None_eq set_map)
  then have "isInteger v" "\<not> out_of_bounds limits key v"
    using assms(1) map_of_SomeD by (fastforce simp: block_ok_def)+
  then show ?thesis
    using v assms(3) by (auto simp: block_int_def out_of_bounds_def isInteger_iff)
qed

lemma resolveIntegers_bounds:
  assumes "resolveIntegers name input defaults limits = Inr out"
    and "key \<in> set (map fst defaults)" "map_of limits key = Some (of_int lo, of_int hi)"
  shows "lo \<le> block_int out key \<and> block_int out key \<le> hi"
  using assms resolveBlock_ok block_int_bounds unfolding resolveIntegers_def by blast

lemma resolveChoices_Inr:
  assumes "resolveChoices name input defaults choices = Inr out" "distinct choices"
  shows "out \<noteq> [] \<and> distinct out \<and> set out \<subseteq> set choices"
proof -
  let ?vs = "jarr (if nullish input then Arr defaults else input)"
  have "?vs \<noteq> []" "list_all (\<lambda>v. v \<in> set choices) ?vs" "out = filter (\<lambda>v. v \<in> set ?vs) choices"
    using assms by (auto simp: resolveChoices_def Let_def split: if_splits)
  then show ?thesis
    using assms(2) by (cases ?vs) (auto simp: list_all_iff filter_empty_conv)
qed

lemma distinct_market_choices: "distinct (map Str MARKET_MODES)" "distinct (map JInt MARKET_HOURS)"
  by (simp_all add: MARKET_MODES_def MARKET_HOURS_def)

lemma strings_of_choices:
  assumes "set out \<subseteq> set (map Str xs)" "distinct out"
  shows "distinct (map jstr out) \<and> set (map jstr out) \<subseteq> set xs"
proof -
  have "inj_on jstr (set out)"
    using assms(1) by (intro inj_on_inverseI [where g = Str]) auto
  then show ?thesis using assms by (auto simp: distinct_map)
qed

lemma ints_of_choices:
  assumes "set out \<subseteq> set (map JInt xs)" "distinct out"
  shows "distinct (map jint out) \<and> set (map jint out) \<subseteq> set xs"
proof -
  have "inj_on jint (set out)"
    using assms(1) by (intro inj_on_inverseI [where g = JInt]) auto
  then show ?thesis using assms by (auto simp: distinct_map)
qed

lemma resolveMarketProfile_ok:
  assumes "resolveMarketProfile input = Inr r"
  shows "market_rules_ok r"
proof -
  obtain modes hours auction fees limits where
    modes: "resolveChoices ''modes'' (jget input ''modes'') (map Str MARKET_MODES) (map Str MARKET_MODES) = Inr modes"
    and hours: "resolveChoices ''hours'' (jget input ''hours'') (map JInt [1, 12, 48]) (map JInt MARKET_HOURS) = Inr hours"
    and auction: "resolveIntegers ''auction'' (jget input ''auction'') MARKET_AUCTION_DEFAULTS MARKET_AUCTION_LIMITS = Inr auction"
    and fees: "resolveIntegers ''fees'' (jget input ''fees'') MARKET_FEES_DEFAULTS MARKET_FEES_LIMITS = Inr fees"
    and limits: "resolveIntegers ''limits'' (jget input ''limits'') MARKET_LIMITS_DEFAULTS MARKET_LIMITS_LIMITS = Inr limits"
    and checks: "mr_scope r \<in> set MARKET_SCOPES" "mr_currencyCode r \<in> set CURRENCY_CODES"
      "block_int limits ''priceMin'' \<le> block_int limits ''priceMax''"
      "block_int fees ''sale'' \<le> block_int limits ''priceMin''"
    and r: "mr_modes r = map jstr modes" "mr_hours r = map jint hours" "mr_auction r = auction"
      "mr_fees r = fees" "mr_limits r = limits"
    using assms
    by (auto simp: resolveMarketProfile_def Let_def oneOf_iff simp del: list.map split: if_splits)
  note m = resolveChoices_Inr [OF modes distinct_market_choices(1)]
  note h = resolveChoices_Inr [OF hours distinct_market_choices(2)]
  have modes_ok: "modes \<noteq> [] \<and> distinct (map jstr modes) \<and> set (map jstr modes) \<subseteq> set MARKET_MODES"
    using m strings_of_choices by blast
  have hours_ok: "hours \<noteq> [] \<and> distinct (map jint hours) \<and> set (map jint hours) \<subseteq> set MARKET_HOURS"
    using h ints_of_choices by blast
  note bounds = MARKET_AUCTION_DEFAULTS_def MARKET_AUCTION_LIMITS_def MARKET_FEES_DEFAULTS_def
    MARKET_FEES_LIMITS_def MARKET_LIMITS_DEFAULTS_def MARKET_LIMITS_LIMITS_def
  have "1 \<le> block_int auction ''raisePercent'' \<and> block_int auction ''raisePercent'' \<le> 100"
    "1 \<le> block_int auction ''minRaise'' \<and> block_int auction ''minRaise'' \<le> 1000000"
    by (rule resolveIntegers_bounds [OF auction]; simp add: bounds)+
  moreover have "0 \<le> block_int fees ''listing'' \<and> block_int fees ''listing'' \<le> 1000000"
    "0 \<le> block_int fees ''sale'' \<and> block_int fees ''sale'' \<le> 1000000"
    by (rule resolveIntegers_bounds [OF fees]; simp add: bounds)+
  moreover have "1 \<le> block_int limits ''priceMin'' \<and> block_int limits ''priceMin'' \<le> 1000000000"
    "1 \<le> block_int limits ''priceMax'' \<and> block_int limits ''priceMax'' \<le> 1000000000"
    "1 \<le> block_int limits ''listingsPerPlayer'' \<and> block_int limits ''listingsPerPlayer'' \<le> 100"
    by (rule resolveIntegers_bounds [OF limits]; simp add: bounds)+
  ultimately show ?thesis
    using checks r modes_ok hours_ok unfolding market_rules_ok_def by simp
qed

section \<open>What an accepted item policy satisfies\<close>

definition salvage_line_ok :: "string \<Rightarrow> js \<Rightarrow> bool" where
  "salvage_line_ok item line \<longleftrightarrow> nonEmptyText (jget line ''itemId'')
     \<and> jstr (jget line ''itemId'') \<noteq> item \<and> jstr (jget line ''itemId'') \<notin> set CURRENCY_CODES
     \<and> isInteger (jget line ''qty'') \<and> 1 \<le> jint (jget line ''qty'') \<and> jint (jget line ''qty'') \<le> SALVAGE_QUANTITY"

definition policy_row_ok :: "js \<Rightarrow> bool" where
  "policy_row_ok row \<longleftrightarrow> (\<exists>fs. row = Obj fs) \<and> nonEmptyText (jget row ''itemId'')
     \<and> (\<forall>key\<in>set ITEM_POLICY_ROW_FIELDS. \<not> policyFieldDefect row key)
     \<and> (nullish (jget row ''salvage'') \<or>
        (\<exists>lines. jget row ''salvage'' = Arr lines \<and> length lines \<le> SALVAGE_LINES
          \<and> distinct (map (\<lambda>line. jstr (jget line ''itemId'')) lines)
          \<and> (\<forall>line\<in>set lines. salvage_line_ok (jstr (jget row ''itemId'')) line)
          \<and> (lines \<noteq> [] \<longrightarrow> jget row ''burn'' \<noteq> Bool False)))"

lemma salvageDefect_iff:
  "salvageDefect item outputs lines = '''' \<longleftrightarrow>
     distinct (map (\<lambda>line. jstr (jget line ''itemId'')) lines)
     \<and> set (map (\<lambda>line. jstr (jget line ''itemId'')) lines) \<inter> set outputs = {}
     \<and> (\<forall>line\<in>set lines. salvage_line_ok item line)"
  by (induction item outputs lines rule: salvageDefect.induct)
    (auto simp: salvage_line_ok_def Let_def)

lemma isPlainObject_iff: "isPlainObject v \<longleftrightarrow> (\<exists>fs. v = Obj fs)"
  by (cases v) auto

lemma isArray_iff: "isArray v \<longleftrightarrow> (\<exists>vs. v = Arr vs)"
  by (cases v) auto

lemma itemPolicyDefect_iff: "itemPolicyDefect row = '''' \<longleftrightarrow> policy_row_ok row"
proof (cases "isPlainObject row \<and> nonEmptyText (jget row ''itemId'')
    \<and> List.find (policyFieldDefect row) ITEM_POLICY_ROW_FIELDS = None")
  case False
  then show ?thesis
    by (auto simp: itemPolicyDefect_def policy_row_ok_def isPlainObject_iff find_None_iff_ball
        Let_def split: option.splits)
next
  case True
  then have "\<forall>key\<in>set ITEM_POLICY_ROW_FIELDS. \<not> policyFieldDefect row key"
    by (simp add: find_None_iff_ball)
  with True show ?thesis
    by (cases "nullish (jget row ''salvage'')")
      (auto simp: itemPolicyDefect_def policy_row_ok_def isPlainObject_iff isArray_iff Let_def
        salvageDefect_iff not_less)
qed

text \<open>A field a row sets wins, a field it leaves out inherits.\<close>

lemma map_of_keyed: "map_of (map (\<lambda>k. (k, f k)) ks) key = (if key \<in> set ks then Some (f key) else None)"
  by (induction ks) auto

lemma effectiveItemPolicy_field:
  assumes "key \<noteq> ''salvage''"
  shows "map_of (effectiveItemPolicy row itemDefaults) key =
    (if key \<in> set (map fst ITEM_POLICY_DEFAULTS @ map fst ITEM_POLICY_OPTIONAL_LIMITS)
        \<and> \<not> nullish (jget row key)
     then Some (jget row key) else map_of itemDefaults key)"
proof -
  define ks where "ks = map fst ITEM_POLICY_DEFAULTS @ map fst ITEM_POLICY_OPTIONAL_LIMITS"
  let ?over = "map (\<lambda>key. (key, jget row key)) (filter (\<lambda>key. \<not> nullish (jget row key)) ks)"
  have "distinct ks"
    by (simp add: ks_def ITEM_POLICY_DEFAULTS_def ITEM_POLICY_OPTIONAL_LIMITS_def)
  then have "distinct (map fst ?over)" by (simp add: comp_def)
  then show ?thesis
    using assms unfolding effectiveItemPolicy_def ks_def [symmetric]
    by (auto simp: map_of_spread map_of_keyed)
qed

end
