(* ===== verification/Documents.thy ===== *)
theory Documents imports Profiles begin

text \<open>
  The documents of the host database and their schemas, from the mongoose models of \<open>src/api\<close>: the
  profile of an account in a universe, its gameplay lease, its quest records, the world drops, the
  market listings and claims, the idempotency record of a joint commit, the launch tickets, the
  accounts, the universes, the market profiles, the game servers, the operator audit, and the friendships. A schema is the test mongoose runs before an
  insert. A claim is named by its unique \<open>claimId\<close>, a quest record by its unique player, world and
  quest, so their \<open>_id\<close> is not kept.

  \<open>db\<close> is the state of the database, and \<open>mongo\<close> the driver of each collection, a parameter of every
  operation; \<open>lawful_mongo\<close> collects the laws of \<open>collection\<close> over them.
\<close>

section \<open>Profiles\<close>

definition HELD_REASONS :: "string list" where
  "HELD_REASONS = [''rebound'', ''unknown'', ''no_room'', ''unsupported'', ''incompatible'']"

definition CONTAINERS :: "string list" where
  "CONTAINERS = [''bag'', ''storage'', ''vault'']"

definition PROFILE_CONTAINERS :: "string list" where
  "PROFILE_CONTAINERS = [''bag'', ''storage'']"

definition QUEST_STATUSES :: "string list" where
  "QUEST_STATUSES = [''active'', ''completed'']"

record stack =
  st_itemId :: string
  st_olCid :: string
  st_quantity :: int
  st_slot :: int
  st_active :: bool

record held =
  hd_stack :: stack
  hd_container :: string
  hd_actionCode :: string
  hd_reason :: string

record vault =
  va_actionCode :: string
  va_stacks :: "stack list"

record position =
  po_mapCode :: string
  po_x :: rat
  po_y :: rat
  po_at :: "ms option"

record player_world =
  wo_instanceCode :: string
  wo_positionSeq :: int
  wo_position :: position
  wo_vaults :: "vault list"
  wo_held :: "held list"

record player =
  pl_id :: oid
  pl_user :: oid
  pl_universeCode :: string
  pl_schemaVersion :: int
  pl_epoch :: int
  pl_commitSeq :: int
  pl_revision :: int
  pl_coins :: int
  pl_xp :: int
  pl_bag :: "stack list"
  pl_storage :: "stack list"
  pl_held :: "held list"
  pl_worlds :: "player_world list"
  pl_lastPlayedAt :: "ms option"

definition PLAYER_SCHEMA_VERSION :: int where "PLAYER_SCHEMA_VERSION = 2"

definition no_position :: position where
  "no_position = \<lparr>po_mapCode = '''', po_x = 0, po_y = 0, po_at = None\<rparr>"

text \<open>The defaults of \<open>PlayerWorldSchema\<close> and of \<open>CyberiaPlayerSchema\<close>.\<close>

definition new_world :: "string \<Rightarrow> player_world" where
  "new_world code = \<lparr>wo_instanceCode = code, wo_positionSeq = 0, wo_position = no_position,
     wo_vaults = [], wo_held = []\<rparr>"

definition new_player :: "oid \<Rightarrow> oid \<Rightarrow> string \<Rightarrow> player" where
  "new_player pid user universeCode = \<lparr>pl_id = pid, pl_user = user, pl_universeCode = universeCode,
     pl_schemaVersion = PLAYER_SCHEMA_VERSION, pl_epoch = 0, pl_commitSeq = 0, pl_revision = 0,
     pl_coins = 0, pl_xp = 0, pl_bag = [], pl_storage = [], pl_held = [], pl_worlds = [],
     pl_lastPlayedAt = None\<rparr>"

section \<open>Sessions, quests and drops\<close>

definition SESSION_DURABILITY :: "string list" where
  "SESSION_DURABILITY = [''saved'', ''saving'', ''degraded'', ''recovery'']"

definition SESSION_FAILURES :: "string list" where
  "SESSION_FAILURES = ['''', ''transport'', ''integrity'', ''rejected'']"

record health =
  he_durability :: string
  he_closing :: bool
  he_seq :: int
  he_durableSeq :: int
  he_unsavedMs :: int
  he_failure :: string
  he_at :: "ms option"

definition new_health :: health where
  "new_health = \<lparr>he_durability = ''saved'', he_closing = False, he_seq = 0, he_durableSeq = 0,
     he_unsavedMs = 0, he_failure = '''', he_at = None\<rparr>"

record game_session =
  gs_user :: oid
  gs_player :: oid
  gs_instanceCode :: string
  gs_serverId :: string
  gs_connection :: string
  gs_epoch :: int
  gs_accountSession :: oid
  gs_mapCode :: string
  gs_startedAt :: ms
  gs_expiresAt :: ms
  gs_health :: health
  gs_endedBy :: "oid option"

record objective =
  ob_current :: int
  ob_required :: int

record quest_step =
  qs_stepId :: string
  qs_objectives :: "objective list"

record quest =
  qu_player :: oid
  qu_instanceCode :: string
  qu_questCode :: string
  qu_status :: string
  qu_steps :: "quest_step list"
  qu_startedAt :: ms
  qu_completedAt :: "ms option"

definition quest_key :: "quest \<Rightarrow> oid \<times> string \<times> string" where
  "quest_key q = (qu_player q, qu_instanceCode q, qu_questCode q)"

definition WORLD_DROP_MAX_LIFETIME_MS :: int where
  "WORLD_DROP_MAX_LIFETIME_MS = 86400000"

datatype drop_status = Public | Claimed

record world_drop =
  wd_dropId :: string
  wd_instanceCode :: string
  wd_mapCode :: string
  wd_x :: rat
  wd_y :: rat
  wd_itemId :: string
  wd_olCid :: string
  wd_quantity :: int
  wd_owner :: oid
  wd_status :: drop_status
  wd_claimedBy :: "oid option"
  wd_claimedAt :: "ms option"
  wd_expiresAt :: ms

definition world_drop_schema :: "world_drop \<Rightarrow> bool" where
  "world_drop_schema d \<longleftrightarrow> wd_dropId d \<noteq> '''' \<and> wd_instanceCode d \<noteq> '''' \<and> wd_mapCode d \<noteq> ''''
     \<and> wd_itemId d \<noteq> '''' \<and> 1 \<le> wd_quantity d"

section \<open>Market\<close>

datatype listing_status = Open | Sold | Cancelled | Expired

record listing =
  li_id :: oid
  li_listingId :: string
  li_marketCode :: string
  li_scope :: string
  li_scopeKey :: string
  li_instanceCode :: string
  li_seller :: oid
  li_sellerName :: string
  li_itemId :: string
  li_olCid :: string
  li_quantity :: int
  li_mode :: string
  li_price :: int
  li_bid :: int
  li_bidder :: "oid option"
  li_bids :: int
  li_marketRevision :: int
  li_listingFee :: int
  li_saleFee :: int
  li_raisePercent :: int
  li_minRaise :: int
  li_priceMax :: int
  li_status :: listing_status
  li_revision :: int
  li_endsAt :: ms
  li_buyer :: "oid option"
  li_settledAt :: "ms option"
  li_purgeAt :: "ms option"

definition MARKET_RECORD_DAYS :: int where "MARKET_RECORD_DAYS = 30"

definition listing_schema :: "listing \<Rightarrow> bool" where
  "listing_schema l \<longleftrightarrow> li_listingId l \<noteq> '''' \<and> li_marketCode l \<noteq> ''''
     \<and> li_scope l \<in> set MARKET_SCOPES \<and> li_scopeKey l \<noteq> '''' \<and> li_instanceCode l \<noteq> ''''
     \<and> li_itemId l \<noteq> '''' \<and> 1 \<le> li_quantity l \<and> li_mode l \<in> set MARKET_MODES
     \<and> 1 \<le> li_price l \<and> 0 \<le> li_marketRevision l \<and> 0 \<le> li_listingFee l \<and> 0 \<le> li_saleFee l
     \<and> 1 \<le> li_raisePercent l \<and> 1 \<le> li_minRaise l \<and> 1 \<le> li_priceMax l"

datatype claim_reason = Sale | Won | Outbid | Unsold

datatype claim_status = Pending | Collected

record claim =
  cl_claimId :: string
  cl_player :: oid
  cl_listingId :: string
  cl_marketCode :: string
  cl_scope :: string
  cl_scopeKey :: string
  cl_reason :: claim_reason
  cl_coins :: int
  cl_itemId :: string
  cl_olCid :: string
  cl_quantity :: int
  cl_status :: claim_status
  cl_collectedAt :: "ms option"
  cl_purgeAt :: "ms option"

definition claim_schema :: "claim \<Rightarrow> bool" where
  "claim_schema c \<longleftrightarrow> cl_claimId c \<noteq> '''' \<and> cl_listingId c \<noteq> '''' \<and> cl_marketCode c \<noteq> ''''
     \<and> cl_scope c \<in> set MARKET_SCOPES \<and> cl_scopeKey c \<noteq> '''' \<and> 0 \<le> cl_coins c \<and> 0 \<le> cl_quantity c"

record market_profile =
  mk_code :: string
  mk_status :: string
  mk_revision :: int
  mk_scope :: string
  mk_currencyCode :: string
  mk_modes :: "string list"
  mk_hours :: "int list"
  mk_raisePercent :: int
  mk_minRaise :: int
  mk_listingFee :: int
  mk_saleFee :: int
  mk_priceMin :: int
  mk_priceMax :: int
  mk_listingsPerPlayer :: int

section \<open>Operations, tickets, accounts and universes\<close>

definition ECONOMY_OPERATION_KINDS :: "string list" where
  "ECONOMY_OPERATION_KINDS = [''trade'', ''drop'', ''pickup'', ''market_list'', ''market_cancel'',
     ''market_buy'', ''market_bid'', ''market_collect'']"

definition OPERATION_RECORD_DAYS :: int where "OPERATION_RECORD_DAYS = 7"

record operation =
  op_operationId :: string
  op_kind :: string
  op_instanceCode :: string
  op_players :: "oid list"
  op_seqs :: "int list"
  op_fingerprint :: string
  op_expiresAt :: ms

definition operation_schema :: "operation \<Rightarrow> bool" where
  "operation_schema r \<longleftrightarrow> op_operationId r \<noteq> '''' \<and> op_kind r \<in> set ECONOMY_OPERATION_KINDS
     \<and> op_fingerprint r \<noteq> ''''"

datatype principal = Account | Guest

record ticket =
  tk_tokenHash :: string
  tk_principal :: principal
  tk_user :: oid
  tk_session :: oid
  tk_guest :: string
  tk_epoch :: "int option"
  tk_instanceCode :: string
  tk_expiresAt :: ms
  tk_consumedAt :: "ms option"
  tk_connection :: string

definition ticket_schema :: "ticket \<Rightarrow> bool" where
  "ticket_schema t \<longleftrightarrow> tk_tokenHash t \<noteq> '''' \<and> tk_instanceCode t \<noteq> ''''
     \<and> (case tk_principal t of Account \<Rightarrow> tk_user t \<noteq> '''' \<and> tk_session t \<noteq> '''' | Guest \<Rightarrow> tk_guest t \<noteq> '''')"

record restriction =
  re_kind :: string
  re_reason :: string
  re_by :: oid
  re_at :: ms
  re_until :: "ms option"

record user =
  us_id :: oid
  us_username :: string
  us_role :: string
  us_activeSessions :: "oid list"
  us_restriction :: "restriction option"

text \<open>The restriction of an account while it holds, else none.\<close>

definition restrictionOf :: "user option \<Rightarrow> ms \<Rightarrow> restriction option" where
  "restrictionOf user now =
     (case user of None \<Rightarrow> None
      | Some u \<Rightarrow> (case us_restriction u of None \<Rightarrow> None
         | Some r \<Rightarrow> (if re_until r = None \<or> now < the (re_until r) then Some r else None)))"

record universe_link =
  ul_source :: string
  ul_target :: string
  ul_bidirectional :: bool

record universe_member =
  um_instanceCode :: string
  um_x :: int
  um_y :: int

record universe =
  un_id :: oid
  un_code :: string
  un_creator :: oid
  un_members :: "universe_member list"
  un_links :: "universe_link list"
  un_revision :: int

definition un_instances :: "universe \<Rightarrow> string list" where
  "un_instances u = map um_instanceCode (un_members u)"

section \<open>Game servers\<close>

definition SERVER_TTL_SECONDS :: int where "SERVER_TTL_SECONDS = 60"

definition SERVER_STATES :: "string list" where
  "SERVER_STATES = [''ready'', ''draining'']"

record server =
  sv_serverId :: string
  sv_url :: string
  sv_instanceCode :: string
  sv_name :: string
  sv_state :: string
  sv_seq :: int
  sv_build :: string
  sv_releaseId :: string
  sv_startedAt :: ms
  sv_lastSeen :: ms

section \<open>Operator audit\<close>

definition PLAYER_AUDIT_ACTIONS :: "string list" where
  "PLAYER_AUDIT_ACTIONS = [''session.end'', ''inventory.add'', ''inventory.remove'', ''inventory.quantity'',
     ''layer.activate'', ''layer.deactivate'', ''account.lock'', ''account.ban'', ''account.lift'']"

definition PLAYER_AUDIT_OUTCOMES :: "string list" where
  "PLAYER_AUDIT_OUTCOMES = [''done'', ''refused'']"

text \<open>What an audit record lists before and after: stacks, or the restriction of the account.\<close>

datatype audited = AuditStack stack | AuditRestriction restriction

record audit_change =
  ac_op :: js
  ac_container :: string
  ac_itemId :: string
  ac_slot :: js
  ac_quantity :: js

record audit_session =
  as_instanceCode :: string
  as_serverId :: string
  as_durability :: string
  as_seq :: int
  as_durableSeq :: int
  as_unsavedMs :: int

record audit =
  au_id :: oid
  au_createdAt :: ms
  au_operationId :: string
  au_action :: string
  au_actor :: oid
  au_player :: oid
  au_account :: oid
  au_reason :: string
  au_batchId :: string
  au_outcome :: string
  au_refusal :: string
  au_epochBefore :: int
  au_epochAfter :: int
  au_change :: "audit_change option"
  au_before :: "audited list"
  au_after :: "audited list"
  au_until :: "ms option"
  au_session :: "audit_session option"

definition audit_schema :: "audit \<Rightarrow> bool" where
  "audit_schema a \<longleftrightarrow> au_operationId a \<noteq> '''' \<and> au_action a \<in> set PLAYER_AUDIT_ACTIONS \<and> au_reason a \<noteq> ''''
     \<and> au_outcome a \<in> set PLAYER_AUDIT_OUTCOMES"

section \<open>Friends\<close>

datatype friend_status = Requested | Accepted

record social =
  so_id :: oid
  so_low :: oid
  so_high :: oid
  so_requester :: oid
  so_status :: friend_status
  so_acceptedAt :: "ms option"
  so_expiresAt :: "ms option"

text \<open>The order of two strings of the language, unit by unit.\<close>

fun string_less :: "string \<Rightarrow> string \<Rightarrow> bool" where
  "string_less _ [] = False"
| "string_less [] (_ # _) = True"
| "string_less (a # as) (b # bs) =
     ((of_char a :: nat) < of_char b \<or> a = b \<and> string_less as bs)"

definition canonicalPair :: "oid \<Rightarrow> oid \<Rightarrow> oid \<times> oid" where
  "canonicalPair a b = (if string_less a b then (a, b) else (b, a))"

definition relationshipError :: "social \<Rightarrow> string" where
  "relationshipError d =
     (if so_low d = '''' \<or> so_high d = '''' \<or> \<not> string_less (so_low d) (so_high d)
      then ''Pair must contain two accounts in canonical order''
      else if so_requester d \<notin> {so_low d, so_high d} then ''Requester must belong to the pair''
      else if so_status d = Requested \<and> so_expiresAt d = None then ''Pending requests require an expiry time''
      else if so_status d = Accepted \<and> so_expiresAt d \<noteq> None then ''Accepted relationships cannot expire''
      else '''')"

definition social_schema :: "social \<Rightarrow> bool" where
  "social_schema d \<longleftrightarrow> relationshipError d = ''''"

definition social_key :: "social \<Rightarrow> oid \<times> oid" where
  "social_key d = (so_low d, so_high d)"

record social_profile =
  sp_user :: oid
  sp_note :: "nat list" \<comment> \<open>Unicode scalar values and lone surrogates\<close>
  sp_noteUpdatedAt :: "ms option"

section \<open>The database\<close>

record db =
  db_players :: "player docs"
  db_sessions :: "game_session docs"
  db_quests :: "quest docs"
  db_drops :: "world_drop docs"
  db_listings :: "listing docs"
  db_claims :: "claim docs"
  db_operations :: "operation docs"
  db_markets :: "market_profile docs"
  db_tickets :: "ticket docs"
  db_users :: "user docs"
  db_universes :: "universe docs"
  db_servers :: "server docs"
  db_audits :: "audit docs"
  db_socials :: "social docs"
  db_notes :: "social_profile docs"

record mongo =
  mg_players :: "player driver"
  mg_sessions :: "game_session driver"
  mg_quests :: "quest driver"
  mg_drops :: "world_drop driver"
  mg_listings :: "listing driver"
  mg_claims :: "claim driver"
  mg_operations :: "operation driver"
  mg_markets :: "market_profile driver"
  mg_tickets :: "ticket driver"
  mg_users :: "user driver"
  mg_universes :: "universe driver"
  mg_servers :: "server driver"
  mg_audits :: "audit driver"
  mg_socials :: "social driver"
  mg_notes :: "social_profile driver"
  isValidObjectId :: "js \<Rightarrow> bool"

text \<open>The unique indexes of the collections.\<close>

definition unique_db :: "db \<Rightarrow> bool" where
  "unique_db s \<longleftrightarrow> unique_docs pl_id (db_players s) \<and> unique_docs gs_user (db_sessions s)
     \<and> unique_docs quest_key (db_quests s) \<and> unique_docs wd_dropId (db_drops s)
     \<and> unique_docs li_listingId (db_listings s) \<and> unique_docs cl_claimId (db_claims s)
     \<and> unique_docs op_operationId (db_operations s) \<and> unique_docs mk_code (db_markets s)
     \<and> unique_docs tk_tokenHash (db_tickets s) \<and> unique_docs us_id (db_users s)
     \<and> unique_docs un_code (db_universes s) \<and> unique_docs sv_serverId (db_servers s)
     \<and> unique_docs au_operationId (db_audits s) \<and> unique_docs social_key (db_socials s)
     \<and> unique_docs sp_user (db_notes s)"

definition lawful_mongo :: "mongo \<Rightarrow> bool" where
  "lawful_mongo M \<longleftrightarrow> collection (mg_players M) pl_id (\<lambda>_. True)
     \<and> collection (mg_sessions M) gs_user (\<lambda>_. True)
     \<and> collection (mg_quests M) quest_key (\<lambda>_. True)
     \<and> collection (mg_drops M) wd_dropId world_drop_schema
     \<and> collection (mg_listings M) li_listingId listing_schema
     \<and> collection (mg_claims M) cl_claimId claim_schema
     \<and> collection (mg_operations M) op_operationId operation_schema
     \<and> collection (mg_markets M) mk_code (\<lambda>_. True)
     \<and> collection (mg_tickets M) tk_tokenHash ticket_schema
     \<and> collection (mg_users M) us_id (\<lambda>_. True)
     \<and> collection (mg_universes M) un_code (\<lambda>_. True)
     \<and> collection (mg_servers M) sv_serverId (\<lambda>_. True)
     \<and> collection (mg_audits M) au_operationId audit_schema
     \<and> collection (mg_socials M) social_key social_schema
     \<and> collection (mg_notes M) sp_user (\<lambda>_. True)"

lemma lawful_mongoD [dest]:
  assumes "lawful_mongo M"
  shows "collection (mg_players M) pl_id (\<lambda>_. True)"
    and "collection (mg_sessions M) gs_user (\<lambda>_. True)"
    and "collection (mg_quests M) quest_key (\<lambda>_. True)"
    and "collection (mg_drops M) wd_dropId world_drop_schema"
    and "collection (mg_listings M) li_listingId listing_schema"
    and "collection (mg_claims M) cl_claimId claim_schema"
    and "collection (mg_operations M) op_operationId operation_schema"
    and "collection (mg_markets M) mk_code (\<lambda>_. True)"
    and "collection (mg_tickets M) tk_tokenHash ticket_schema"
    and "collection (mg_users M) us_id (\<lambda>_. True)"
    and "collection (mg_universes M) un_code (\<lambda>_. True)"
    and "collection (mg_servers M) sv_serverId (\<lambda>_. True)"
    and "collection (mg_audits M) au_operationId audit_schema"
    and "collection (mg_socials M) social_key social_schema"
    and "collection (mg_notes M) sp_user (\<lambda>_. True)"
  using assms by (simp_all add: lawful_mongo_def)

text \<open>A lawful driver, for the witnesses: an ObjectId is its 24 hexadecimal digits.\<close>

fun is_oid :: "js \<Rightarrow> bool" where
  "is_oid (Str s) = (length s = 24 \<and> list_all is_hex s)"
| "is_oid _ = False"

definition ref_mongo :: mongo where
  "ref_mongo = \<lparr>mg_players = ref_driver pl_id (\<lambda>_. True), mg_sessions = ref_driver gs_user (\<lambda>_. True),
     mg_quests = ref_driver quest_key (\<lambda>_. True), mg_drops = ref_driver wd_dropId world_drop_schema,
     mg_listings = ref_driver li_listingId listing_schema, mg_claims = ref_driver cl_claimId claim_schema,
     mg_operations = ref_driver op_operationId operation_schema, mg_markets = ref_driver mk_code (\<lambda>_. True),
     mg_tickets = ref_driver tk_tokenHash ticket_schema, mg_users = ref_driver us_id (\<lambda>_. True),
     mg_universes = ref_driver un_code (\<lambda>_. True),
     mg_servers = ref_driver sv_serverId (\<lambda>_. True), mg_audits = ref_driver au_operationId audit_schema,
     mg_socials = ref_driver social_key social_schema, mg_notes = ref_driver sp_user (\<lambda>_. True),
     isValidObjectId = is_oid\<rparr>"

lemma lawful_ref_mongo [simp]: "lawful_mongo ref_mongo"
  by (simp add: lawful_mongo_def ref_mongo_def ref_store.collection_axioms)

definition empty_db :: db where
  "empty_db = \<lparr>db_players = [], db_sessions = [], db_quests = [], db_drops = [], db_listings = [],
     db_claims = [], db_operations = [], db_markets = [], db_tickets = [], db_users = [], db_universes = [],
     db_servers = [], db_audits = [], db_socials = [], db_notes = []\<rparr>"

lemma unique_empty_db [simp]: "unique_db empty_db"
  by (simp add: unique_db_def empty_db_def unique_docs_def)

section \<open>Universes\<close>

text \<open>\<open>universeCodeOf\<close> and \<open>routeLeads\<close> of \<open>cyberia-universe.service.js\<close>.\<close>

definition universeCodeOf :: "mongo \<Rightarrow> db \<Rightarrow> string \<Rightarrow> string" where
  "universeCodeOf M s instanceCode =
     (case drv_find_one (mg_universes M) (\<lambda>u. instanceCode \<in> set (un_instances u)) (db_universes s) of
        None \<Rightarrow> '''' | Some u \<Rightarrow> un_code u)"

definition routeLeads :: "mongo \<Rightarrow> db \<Rightarrow> string \<Rightarrow> string \<Rightarrow> bool" where
  "routeLeads M s source target =
     (case drv_find_one (mg_universes M) (\<lambda>u. source \<in> set (un_instances u)) (db_universes s) of
        None \<Rightarrow> False
      | Some u \<Rightarrow> target \<in> set (un_instances u)
          \<and> list_ex (\<lambda>l. ul_source l = source \<and> ul_target l = target
               \<or> ul_bidirectional l \<and> ul_source l = target \<and> ul_target l = source) (un_links u))"

end
