(* ===== verification/StateChecks.thy ===== *)
theory StateChecks imports Documents begin

text \<open>
  The checks and the wire form of a committed state, from
  \<open>src/projects/cyberia/player/player-state.js\<close>: what \<open>stateDefect\<close> accepts, and the conversions
  between a wire \<open>PlayerState\<close> and the documents of a profile in one world.

  A check answers the first defect, the empty string when there is none. Each check has a
  declarative counterpart (\<open>stacks_ok\<close>, \<open>quests_ok\<close>, \<open>state_ok\<close>), and the two agree on every
  value: nothing malformed passes and nothing well formed is refused.
\<close>

section \<open>Limits\<close>

record limits =
  idLength :: nat
  vaultSlots :: int
  lim_vaults :: nat
  lim_held :: nat
  lim_quests :: nat
  lim_steps :: nat
  lim_objectives :: nat
  uint32 :: int

definition LIMITS :: limits where
  "LIMITS = \<lparr>idLength = 128, vaultSlots = 256, lim_vaults = 256, lim_held = 512, lim_quests = 512,
     lim_steps = 64, lim_objectives = 64, uint32 = 4294967295\<rparr>"

fun isText :: "js \<Rightarrow> bool" where
  "isText (Str s) = (0 < length s \<and> length s \<le> idLength LIMITS)"
| "isText _ = False"

definition isCount :: "js \<Rightarrow> int \<Rightarrow> bool" where
  "isCount value hi \<longleftrightarrow> isInteger value \<and> 0 \<le> jint value \<and> jint value \<le> hi"

text \<open>\<open>typeof v === 'string' && v.length <= LIMITS.idLength\<close>.\<close>

fun short_string :: "js \<Rightarrow> bool" where
  "short_string (Str s) = (length s \<le> idLength LIMITS)"
| "short_string _ = False"

section \<open>The checks\<close>

fun stack_loop :: "int \<Rightarrow> int list \<Rightarrow> js list \<Rightarrow> string" where
  "stack_loop slots used [] = ''''"
| "stack_loop slots used (stack # stacks) =
     (if \<not> isText (jget stack ''itemId'') then ''stack without item id''
      else if \<not> short_string (jget stack ''olCid'') then ''bad olCid on '' @ jstr (jget stack ''itemId'')
      else if \<not> isCount (jget stack ''quantity'') (uint32 LIMITS) \<or> jint (jget stack ''quantity'') < 1
        then ''bad quantity on '' @ jstr (jget stack ''itemId'')
      else if \<not> isCount (jget stack ''slot'') (slots - 1) \<or> jint (jget stack ''slot'') \<in> set used
        then ''bad slot on '' @ jstr (jget stack ''itemId'')
      else stack_loop slots (jint (jget stack ''slot'') # used) stacks)"

definition stackDefect :: "js \<Rightarrow> int \<Rightarrow> string" where
  "stackDefect stacks slots =
     (if \<not> isArray stacks \<or> slots < int (length (jarr stacks)) then ''too many stacks''
      else stack_loop slots [] (jarr stacks))"

definition objective_ok :: "js \<Rightarrow> bool" where
  "objective_ok v \<longleftrightarrow> isCount (jget v ''current'') (uint32 LIMITS)
     \<and> isCount (jget v ''required'') (uint32 LIMITS) \<and> 1 \<le> jint (jget v ''required'')"

fun step_loop :: "string \<Rightarrow> js list \<Rightarrow> string" where
  "step_loop questCode [] = ''''"
| "step_loop questCode (step # steps) =
     (if \<not> isText (jget step ''stepId'') \<or> \<not> isArray (jget step ''objectives'')
        \<or> lim_objectives LIMITS < length (jarr (jget step ''objectives''))
      then ''bad step on '' @ questCode
      else if \<not> list_all objective_ok (jarr (jget step ''objectives'')) then ''bad objective on '' @ questCode
      else step_loop questCode steps)"

fun quest_loop :: "string list \<Rightarrow> js list \<Rightarrow> string" where
  "quest_loop codes [] = ''''"
| "quest_loop codes (quest # quests) =
     (let code = jstr (jget quest ''questCode'') in
      if \<not> isText (jget quest ''questCode'') \<or> code \<in> set codes then ''bad quest code''
      else if \<not> oneOf QUEST_STATUSES (jget quest ''status'') then ''bad status on '' @ code
      else if \<not> isArray (jget quest ''steps'') \<or> lim_steps LIMITS < length (jarr (jget quest ''steps''))
        then ''bad steps on '' @ code
      else if step_loop code (jarr (jget quest ''steps'')) \<noteq> ''''
        then step_loop code (jarr (jget quest ''steps''))
      else quest_loop (code # codes) quests)"

definition questDefect :: "js \<Rightarrow> string" where
  "questDefect quests =
     (if \<not> isArray quests \<or> lim_quests LIMITS < length (jarr quests) then ''too many quests''
      else quest_loop [] (jarr quests))"

fun vault_loop :: "string list \<Rightarrow> js list \<Rightarrow> string" where
  "vault_loop codes [] = ''''"
| "vault_loop codes (vault # vaults) =
     (let code = jstr (jget vault ''actionCode'') in
      if \<not> isText (jget vault ''actionCode'') \<or> code \<in> set codes then ''bad vault code''
      else if stackDefect (jget vault ''stacks'') (vaultSlots LIMITS) \<noteq> ''''
        then code @ '': '' @ stackDefect (jget vault ''stacks'') (vaultSlots LIMITS)
      else vault_loop (code # codes) vaults)"

definition held_ok :: "js \<Rightarrow> bool" where
  "held_ok v \<longleftrightarrow> oneOf CONTAINERS (jget v ''container'') \<and> oneOf HELD_REASONS (jget v ''reason'')
     \<and> stackDefect (Arr [jget v ''stack'']) (vaultSlots LIMITS) = ''''"

fun held_loop :: "js list \<Rightarrow> string" where
  "held_loop [] = ''''"
| "held_loop (h # hs) = (if \<not> held_ok h then ''bad held stack'' else held_loop hs)"

definition place_ok :: "js \<Rightarrow> bool" where
  "place_ok p \<longleftrightarrow> isText (jget p ''mapCode'') \<and> isFinite (jget p ''x'') \<and> isFinite (jget p ''y'')
     \<and> 0 \<le> jrat (jget p ''x'') \<and> 0 \<le> jrat (jget p ''y'')"

definition stateDefect :: "js \<Rightarrow> bool \<Rightarrow> bool \<Rightarrow> string" where
  "stateDefect state questsChanged positionChanged =
     (if \<not> truthy state \<or> \<not> isCount (jget state ''coins'') (uint32 LIMITS)
        \<or> \<not> isSafeInteger (jget state ''xp'') \<or> jint (jget state ''xp'') < 0 then ''bad coins or xp''
      else if stackDefect (jget state ''bag'') (cap_max INVENTORY_CAPACITY) \<noteq> ''''
        then stackDefect (jget state ''bag'') (cap_max INVENTORY_CAPACITY)
      else if stackDefect (jget state ''storage'') (cap_max STORAGE_CAPACITY) \<noteq> ''''
        then stackDefect (jget state ''storage'') (cap_max STORAGE_CAPACITY)
      else if \<not> isArray (jget state ''vaults'') \<or> lim_vaults LIMITS < length (jarr (jget state ''vaults''))
        then ''too many vaults''
      else if vault_loop [] (jarr (jget state ''vaults'')) \<noteq> ''''
        then vault_loop [] (jarr (jget state ''vaults''))
      else if \<not> isArray (jget state ''held'') \<or> lim_held LIMITS < length (jarr (jget state ''held''))
        then ''too many held stacks''
      else if held_loop (jarr (jget state ''held'')) \<noteq> '''' then held_loop (jarr (jget state ''held''))
      else if positionChanged \<and> (\<not> place_ok (jget state ''position'')
          \<or> \<not> positive (jget (jget state ''position'') ''seq''))
        then ''bad position''
      else if questsChanged then questDefect (jget state ''quests'')
      else '''')"

section \<open>Conversions\<close>

text \<open>\<open>stackOf\<close>, on a wire stack: the document the schema casts it to; and from a document.\<close>

definition stackOf :: "js \<Rightarrow> stack" where
  "stackOf v = \<lparr>st_itemId = jstr (jget v ''itemId''), st_olCid = jstr (jget v ''olCid''),
     st_quantity = jint (jget v ''quantity''), st_slot = jint (jget v ''slot''),
     st_active = truthy (jget v ''active'')\<rparr>"

definition wireStack :: "stack \<Rightarrow> js" where
  "wireStack st = Obj [(''itemId'', Str (st_itemId st)), (''olCid'', Str (st_olCid st)),
     (''quantity'', JInt (st_quantity st)), (''slot'', JInt (st_slot st)), (''active'', Bool (st_active st))]"

definition heldOf :: "js \<Rightarrow> held" where
  "heldOf v = \<lparr>hd_stack = stackOf (jget v ''stack''), hd_container = jstr (jget v ''container''),
     hd_actionCode = jstr (jget v ''actionCode''), hd_reason = jstr (jget v ''reason'')\<rparr>"

definition wireHeld :: "held \<Rightarrow> js" where
  "wireHeld h = Obj [(''stack'', wireStack (hd_stack h)), (''container'', Str (hd_container h)),
     (''actionCode'', Str (hd_actionCode h)), (''reason'', Str (hd_reason h))]"

definition vaultOf :: "js \<Rightarrow> vault" where
  "vaultOf v = \<lparr>va_actionCode = jstr (jget v ''actionCode''),
     va_stacks = map stackOf (jarr (jget v ''stacks''))\<rparr>"

definition wireVault :: "vault \<Rightarrow> js" where
  "wireVault v = Obj [(''actionCode'', Str (va_actionCode v)), (''stacks'', Arr (map wireStack (va_stacks v)))]"

definition questRecord :: "oid \<Rightarrow> string \<Rightarrow> ms \<Rightarrow> js \<Rightarrow> quest" where
  "questRecord player instanceCode now v = \<lparr>qu_player = player, qu_instanceCode = instanceCode,
     qu_questCode = jstr (jget v ''questCode''), qu_status = jstr (jget v ''status''),
     qu_steps = map (\<lambda>step. \<lparr>qs_stepId = jstr (jget step ''stepId''),
       qs_objectives = map (\<lambda>ob. \<lparr>ob_current = jint (jget ob ''current''), ob_required = jint (jget ob ''required'')\<rparr>)
         (jarr (jget step ''objectives''))\<rparr>) (jarr (jget v ''steps'')),
     qu_startedAt = (if truthy (jget v ''startedAtMs'') then jint (jget v ''startedAtMs'') else now),
     qu_completedAt = (if truthy (jget v ''completedAtMs'') then Some (jint (jget v ''completedAtMs'')) else None)\<rparr>"

definition wireQuest :: "quest \<Rightarrow> js" where
  "wireQuest q = Obj [(''questCode'', Str (qu_questCode q)), (''status'', Str (qu_status q)),
     (''steps'', Arr (map (\<lambda>step. Obj [(''stepId'', Str (qs_stepId step)),
        (''objectives'', Arr (map (\<lambda>ob. Obj [(''current'', JInt (ob_current ob)), (''required'', JInt (ob_required ob))])
          (qs_objectives step)))]) (qu_steps q))),
     (''startedAtMs'', JInt (qu_startedAt q)),
     (''completedAtMs'', JInt (case qu_completedAt q of None \<Rightarrow> 0 | Some t \<Rightarrow> t))]"

text \<open>\<open>worldOf\<close>: what a profile keeps in one world, empty for a world it never played.\<close>

definition worldOf :: "player \<Rightarrow> string \<Rightarrow> player_world" where
  "worldOf p instanceCode =
     (case List.find (\<lambda>w. wo_instanceCode w = instanceCode) (pl_worlds p) of
        Some w \<Rightarrow> w | None \<Rightarrow> new_world instanceCode)"

definition wireState :: "player \<Rightarrow> string \<Rightarrow> quest list \<Rightarrow> js" where
  "wireState p instanceCode quests =
     (let w = worldOf p instanceCode in
      Obj [(''coins'', JInt (pl_coins p)), (''xp'', JInt (pl_xp p)),
        (''bag'', Arr (map wireStack (pl_bag p))), (''storage'', Arr (map wireStack (pl_storage p))),
        (''vaults'', Arr (map wireVault (wo_vaults w))), (''held'', Arr (map wireHeld (pl_held p @ wo_held w))),
        (''position'', Obj [(''mapCode'', Str (po_mapCode (wo_position w))), (''x'', Num (Fin (po_x (wo_position w)))),
           (''y'', Num (Fin (po_y (wo_position w)))), (''seq'', JInt 0)]),
        (''quests'', Arr (map wireQuest quests)), (''revision'', JInt (pl_revision p))])"

definition loadState :: "mongo \<Rightarrow> player \<Rightarrow> string \<Rightarrow> db \<Rightarrow> js" where
  "loadState M p instanceCode s = wireState p instanceCode
     (drv_find (mg_quests M) (\<lambda>q. qu_player q = pl_id p \<and> qu_instanceCode q = instanceCode) (db_quests s))"

section \<open>What the checks accept\<close>

definition stack_ok :: "int \<Rightarrow> js \<Rightarrow> bool" where
  "stack_ok slots v \<longleftrightarrow> isText (jget v ''itemId'') \<and> short_string (jget v ''olCid'')
     \<and> isCount (jget v ''quantity'') (uint32 LIMITS) \<and> 1 \<le> jint (jget v ''quantity'')
     \<and> isCount (jget v ''slot'') (slots - 1)"

definition stacks_ok :: "int \<Rightarrow> js \<Rightarrow> bool" where
  "stacks_ok slots v \<longleftrightarrow> isArray v \<and> int (length (jarr v)) \<le> slots
     \<and> (\<forall>x\<in>set (jarr v). stack_ok slots x) \<and> distinct (map (\<lambda>x. jint (jget x ''slot'')) (jarr v))"

definition step_ok :: "js \<Rightarrow> bool" where
  "step_ok v \<longleftrightarrow> isText (jget v ''stepId'') \<and> isArray (jget v ''objectives'')
     \<and> length (jarr (jget v ''objectives'')) \<le> lim_objectives LIMITS
     \<and> (\<forall>x\<in>set (jarr (jget v ''objectives'')). objective_ok x)"

definition quest_ok :: "js \<Rightarrow> bool" where
  "quest_ok v \<longleftrightarrow> isText (jget v ''questCode'') \<and> oneOf QUEST_STATUSES (jget v ''status'')
     \<and> isArray (jget v ''steps'') \<and> length (jarr (jget v ''steps'')) \<le> lim_steps LIMITS
     \<and> (\<forall>x\<in>set (jarr (jget v ''steps'')). step_ok x)"

definition quests_ok :: "js \<Rightarrow> bool" where
  "quests_ok v \<longleftrightarrow> isArray v \<and> length (jarr v) \<le> lim_quests LIMITS
     \<and> (\<forall>x\<in>set (jarr v). quest_ok x) \<and> distinct (map (\<lambda>x. jstr (jget x ''questCode'')) (jarr v))"

definition vault_ok :: "js \<Rightarrow> bool" where
  "vault_ok v \<longleftrightarrow> isText (jget v ''actionCode'') \<and> stacks_ok (vaultSlots LIMITS) (jget v ''stacks'')"

definition vaults_ok :: "js \<Rightarrow> bool" where
  "vaults_ok v \<longleftrightarrow> isArray v \<and> length (jarr v) \<le> lim_vaults LIMITS
     \<and> (\<forall>x\<in>set (jarr v). vault_ok x) \<and> distinct (map (\<lambda>x. jstr (jget x ''actionCode'')) (jarr v))"

definition helds_ok :: "js \<Rightarrow> bool" where
  "helds_ok v \<longleftrightarrow> isArray v \<and> length (jarr v) \<le> lim_held LIMITS
     \<and> (\<forall>x\<in>set (jarr v). oneOf CONTAINERS (jget x ''container'') \<and> oneOf HELD_REASONS (jget x ''reason'')
          \<and> stack_ok (vaultSlots LIMITS) (jget x ''stack''))"

definition state_ok :: "js \<Rightarrow> bool \<Rightarrow> bool \<Rightarrow> bool" where
  "state_ok v questsChanged positionChanged \<longleftrightarrow>
     isCount (jget v ''coins'') (uint32 LIMITS)
     \<and> isSafeInteger (jget v ''xp'') \<and> 0 \<le> jint (jget v ''xp'')
     \<and> stacks_ok (cap_max INVENTORY_CAPACITY) (jget v ''bag'')
     \<and> stacks_ok (cap_max STORAGE_CAPACITY) (jget v ''storage'')
     \<and> vaults_ok (jget v ''vaults'') \<and> helds_ok (jget v ''held'')
     \<and> (positionChanged \<longrightarrow> place_ok (jget v ''position'') \<and> positive (jget (jget v ''position'') ''seq''))
     \<and> (questsChanged \<longrightarrow> quests_ok (jget v ''quests''))"

lemma stack_loop_iff:
  "stack_loop slots used vs = '''' \<longleftrightarrow> (\<forall>v\<in>set vs. stack_ok slots v)
     \<and> distinct (map (\<lambda>v. jint (jget v ''slot'')) vs)
     \<and> (\<forall>v\<in>set vs. jint (jget v ''slot'') \<notin> set used)"
proof (induction vs arbitrary: used)
  case (Cons v vs)
  have "stack_loop slots used (v # vs) = '''' \<longleftrightarrow> stack_ok slots v \<and> jint (jget v ''slot'') \<notin> set used
      \<and> stack_loop slots (jint (jget v ''slot'') # used) vs = ''''"
    by (auto simp: stack_ok_def)
  then show ?case
    using Cons.IH [of "jint (jget v ''slot'') # used"] by (auto simp: image_iff)
qed simp

lemma stackDefect_iff [checks]: "stackDefect v slots = '''' \<longleftrightarrow> stacks_ok slots v"
  by (auto simp: stackDefect_def stacks_ok_def stack_loop_iff not_less)

lemma stacks_ok_single: "stacks_ok slots (Arr [v]) \<longleftrightarrow> stack_ok slots v"
  by (auto simp: stacks_ok_def stack_ok_def isCount_def)

lemma step_loop_iff: "step_loop code vs = '''' \<longleftrightarrow> (\<forall>v\<in>set vs. step_ok v)"
proof (induction vs)
  case (Cons v vs)
  have "step_loop code (v # vs) = '''' \<longleftrightarrow> step_ok v \<and> step_loop code vs = ''''"
    by (auto simp: step_ok_def list_all_iff)
  then show ?case using Cons.IH by simp
qed simp

lemma quest_loop_iff:
  "quest_loop codes vs = '''' \<longleftrightarrow> (\<forall>v\<in>set vs. quest_ok v)
     \<and> distinct (map (\<lambda>v. jstr (jget v ''questCode'')) vs)
     \<and> (\<forall>v\<in>set vs. jstr (jget v ''questCode'') \<notin> set codes)"
proof (induction vs arbitrary: codes)
  case (Cons v vs)
  have "quest_loop codes (v # vs) = '''' \<longleftrightarrow> quest_ok v \<and> jstr (jget v ''questCode'') \<notin> set codes
      \<and> quest_loop (jstr (jget v ''questCode'') # codes) vs = ''''"
    by (auto simp: quest_ok_def step_loop_iff Let_def)
  then show ?case
    using Cons.IH [of "jstr (jget v ''questCode'') # codes"] by (auto simp: image_iff)
qed simp

lemma questDefect_iff [checks]: "questDefect v = '''' \<longleftrightarrow> quests_ok v"
  by (auto simp: questDefect_def quests_ok_def quest_loop_iff not_less)

lemma vault_loop_iff:
  "vault_loop codes vs = '''' \<longleftrightarrow> (\<forall>v\<in>set vs. vault_ok v)
     \<and> distinct (map (\<lambda>v. jstr (jget v ''actionCode'')) vs)
     \<and> (\<forall>v\<in>set vs. jstr (jget v ''actionCode'') \<notin> set codes)"
proof (induction vs arbitrary: codes)
  case (Cons v vs)
  have "vault_loop codes (v # vs) = '''' \<longleftrightarrow> vault_ok v \<and> jstr (jget v ''actionCode'') \<notin> set codes
      \<and> vault_loop (jstr (jget v ''actionCode'') # codes) vs = ''''"
    by (auto simp: vault_ok_def stackDefect_iff Let_def)
  then show ?case
    using Cons.IH [of "jstr (jget v ''actionCode'') # codes"] by (auto simp: image_iff)
qed simp

lemma held_loop_iff: "held_loop vs = '''' \<longleftrightarrow> (\<forall>v\<in>set vs. held_ok v)"
  by (induction vs) auto

text \<open>The check accepts a state exactly when it is well formed.\<close>

lemma stateDefect_iff [checks]:
  "stateDefect v questsChanged positionChanged = '''' \<longleftrightarrow> state_ok v questsChanged positionChanged"
proof -
  have "\<not> isCount (jget v ''coins'') n" if "\<not> truthy v" for n
    using that by (cases v) (auto simp: isCount_def)
  then have coins: "isCount (jget v ''coins'') n \<Longrightarrow> truthy v" for n by blast
  have step: "(if d \<noteq> [] then d else e) = [] \<longleftrightarrow> d = [] \<and> e = []"
    "(if b then c # cs else e) = [] \<longleftrightarrow> \<not> b \<and> e = []" for b d e and c :: char and cs :: string
    by simp_all
  have last: "(if b then e else []) = [] \<longleftrightarrow> (b \<longrightarrow> e = [])" for b and e :: string
    by simp
  show ?thesis
    unfolding stateDefect_def step last
    unfolding stackDefect_iff vault_loop_iff held_loop_iff held_ok_def
      stacks_ok_single questDefect_iff state_ok_def vaults_ok_def helds_ok_def de_Morgan_disj
      de_Morgan_conj not_not not_less not_le
    using coins by auto
qed

section \<open>Round trips\<close>

lemma stackOf_wireStack [simp]: "stackOf (wireStack st) = st"
  by (simp add: stackOf_def wireStack_def)

lemma map_stackOf_wireStack [simp]: "map (stackOf \<circ> wireStack) sts = sts"
  by (simp add: map_idI)

lemma heldOf_wireHeld [simp]: "heldOf (wireHeld h) = h"
  by (simp add: heldOf_def wireHeld_def)

lemma vaultOf_wireVault [simp]: "vaultOf (wireVault v) = v"
  by (simp add: vaultOf_def wireVault_def)

lemma questRecord_wireQuest:
  assumes "qu_player q = player" "qu_instanceCode q = code" "qu_startedAt q \<noteq> 0" "qu_completedAt q \<noteq> Some 0"
  shows "questRecord player code now (wireQuest q) = q"
  using assms
  by (auto simp: questRecord_def wireQuest_def comp_def map_idI split: option.splits)

lemma stack_ok_wireStack:
  "stack_ok slots v \<Longrightarrow> stack_ok slots (wireStack (stackOf v))"
  by (auto simp: stack_ok_def wireStack_def stackOf_def isCount_def isInteger_iff elim!: isText.elims short_string.elims)

lemma stacks_ok_wireStack:
  "stacks_ok slots v \<Longrightarrow> stacks_ok slots (Arr (map wireStack (map stackOf (jarr v))))"
  by (auto simp: stacks_ok_def stack_ok_wireStack comp_def) (simp add: wireStack_def stackOf_def)

lemma wire_slots: "stacks_ok slots (Arr (map wireStack sts)) \<Longrightarrow> distinct (map st_slot sts)"
  by (simp add: stacks_ok_def comp_def wireStack_def)

lemma wireState_fields [simp]:
  "jget (wireState p code qs) ''coins'' = JInt (pl_coins p)"
  "jget (wireState p code qs) ''xp'' = JInt (pl_xp p)"
  "jget (wireState p code qs) ''bag'' = Arr (map wireStack (pl_bag p))"
  "jget (wireState p code qs) ''storage'' = Arr (map wireStack (pl_storage p))"
  "jget (wireState p code qs) ''vaults'' = Arr (map wireVault (wo_vaults (worldOf p code)))"
  "jget (wireState p code qs) ''held'' = Arr (map wireHeld (pl_held p @ wo_held (worldOf p code)))"
  "jget (wireState p code qs) ''quests'' = Arr (map wireQuest qs)"
  "jget (wireState p code qs) ''revision'' = JInt (pl_revision p)"
  by (simp_all add: wireState_def Let_def)

end
