(* ===== verification/Samples.thy ===== *)
theory Samples imports Documents begin

text \<open>
  Concrete documents for the witnesses: two accounts with a profile each in the world \<open>w1\<close>, the
  leases of their sessions, and a wire state to commit.
\<close>

definition pid1 :: oid where "pid1 = replicate 24 CHR ''a''"
definition pid2 :: oid where "pid2 = replicate 24 CHR ''b''"
definition uid1 :: oid where "uid1 = replicate 24 CHR ''c''"
definition uid2 :: oid where "uid2 = replicate 24 CHR ''d''"
definition sid1 :: oid where "sid1 = replicate 24 CHR ''e''"
definition sid2 :: oid where "sid2 = replicate 24 CHR ''f''"

definition sample_player :: "oid \<Rightarrow> oid \<Rightarrow> player" where
  "sample_player pid user = (new_player pid user ''u1'')\<lparr>pl_epoch := 1, pl_coins := 500,
     pl_worlds := [new_world ''w1'']\<rparr>"

definition sample_lease :: "oid \<Rightarrow> oid \<Rightarrow> oid \<Rightarrow> game_session" where
  "sample_lease pid user account = \<lparr>gs_user = user, gs_player = pid, gs_instanceCode = ''w1'',
     gs_serverId = ''s1'', gs_connection = ''c1'', gs_epoch = 1, gs_accountSession = account,
     gs_mapCode = ''m1'', gs_startedAt = 1, gs_expiresAt = 60000, gs_health = new_health, gs_endedBy = None\<rparr>"

definition sample_user :: "oid \<Rightarrow> oid \<Rightarrow> string \<Rightarrow> user" where
  "sample_user user account name = \<lparr>us_id = user, us_username = name, us_role = ''user'',
     us_activeSessions = [account], us_restriction = None\<rparr>"

definition sample_universe :: universe where
  "sample_universe = \<lparr>un_id = pid1, un_code = ''u1'', un_creator = uid1,
     un_members = [\<lparr>um_instanceCode = ''w1'', um_x = 0, um_y = 0\<rparr>, \<lparr>um_instanceCode = ''w2'', um_x = 1, um_y = 0\<rparr>],
     un_links = [\<lparr>ul_source = ''w1'', ul_target = ''w2'', ul_bidirectional = False\<rparr>], un_revision = 1\<rparr>"

definition sample_db :: db where
  "sample_db = empty_db\<lparr>db_players := [sample_player pid1 uid1, sample_player pid2 uid2],
     db_sessions := [sample_lease pid1 uid1 sid1, sample_lease pid2 uid2 sid2],
     db_users := [sample_user uid1 sid1 ''ana'', sample_user uid2 sid2 ''bo''],
     db_universes := [sample_universe]\<rparr>"

lemma sample_player_simps [simp]:
  "pl_id (sample_player pid user) = pid" "pl_epoch (sample_player pid user) = 1"
  "pl_worlds (sample_player pid user) = [new_world ''w1'']" "pl_user (sample_player pid user) = user"
  by (simp_all add: sample_player_def new_player_def)

lemma sample_ids [simp]: "pid1 \<noteq> pid2" "pid2 \<noteq> pid1" "uid1 \<noteq> uid2" "uid2 \<noteq> uid1"
  by (simp_all add: pid1_def pid2_def uid1_def uid2_def)

lemma sample_db_players [simp]: "db_players sample_db = [sample_player pid1 uid1, sample_player pid2 uid2]"
  by (simp add: sample_db_def)

lemma unique_sample_db [simp]: "unique_db sample_db"
  by (simp add: unique_db_def sample_db_def empty_db_def unique_docs_def sample_player_def new_player_def
      sample_lease_def sample_user_def pid1_def pid2_def uid1_def uid2_def)

definition sample_state :: js where
  "sample_state = Obj [(''coins'', JInt 480), (''xp'', JInt 120),
     (''bag'', Arr [Obj [(''itemId'', Str ''wood''), (''olCid'', Str ''''), (''quantity'', JInt 3), (''slot'', JInt 0),
        (''active'', Bool False)]]),
     (''storage'', Arr []), (''vaults'', Arr []), (''held'', Arr []),
     (''position'', Obj [(''mapCode'', Str ''m1''), (''x'', JInt 4), (''y'', JInt 5), (''seq'', JInt 7)]),
     (''quests'', Arr [Obj [(''questCode'', Str ''q1''), (''status'', Str ''active''), (''steps'', Arr []),
        (''startedAtMs'', JInt 10), (''completedAtMs'', JInt 0)]])]"

end
