(* ===== verification/PlayerState.thy ===== *)
theory PlayerState imports StateChecks Samples begin

text \<open>
  The commit of one player state and the position writes of a checkpoint, from
  \<open>src/projects/cyberia/player/player-state.js\<close>. A commit applies under three guards: the profile's
  epoch, a sequence above the last applied one, and the lease of the account. It writes the profile,
  the world the lease names and the quest records of that world in one transaction.

  The ids of a request are in the canonical form of an ObjectId; another spelling of the same id
  fails the comparison with the lease, which the code makes on strings. The time of a call, \<open>now\<close>,
  is an argument.
\<close>

section \<open>Requests and answers\<close>

record commit =
  cm_playerId :: string
  cm_epoch :: int
  cm_seq :: int
  cm_state :: js
  cm_questsChanged :: bool
  cm_positionChanged :: bool

text \<open>The three shapes \<open>checkCommit\<close> answers, with the revision of the profile.\<close>

datatype checked =
    Refused string int
  | Repeated int
  | Ready player string

record commit_answer =
  an_refusal :: string
  an_duplicate :: bool
  an_revision :: int
  an_defect :: string

definition answer :: "string \<Rightarrow> bool \<Rightarrow> int \<Rightarrow> commit_answer" where
  "answer refusal duplicate revision = \<lparr>an_refusal = refusal, an_duplicate = duplicate,
     an_revision = revision, an_defect = ''''\<rparr>"

section \<open>Reads\<close>

definition findById :: "mongo \<Rightarrow> oid \<Rightarrow> db \<Rightarrow> player option" where
  "findById M pid s = drv_find_one (mg_players M) (\<lambda>p. pl_id p = pid) (db_players s)"

definition leaseOf :: "mongo \<Rightarrow> oid \<Rightarrow> db \<Rightarrow> game_session option" where
  "leaseOf M user s = drv_find_one (mg_sessions M) (\<lambda>g. gs_user g = user) (db_sessions s)"

definition checkCommit :: "mongo \<Rightarrow> commit \<Rightarrow> db \<Rightarrow> checked" where
  "checkCommit M c s =
     (case findById M (cm_playerId c) s of
        None \<Rightarrow> Refused ''unknown'' 0
      | Some doc \<Rightarrow>
          if pl_epoch doc \<noteq> cm_epoch c then Refused ''stale_session'' (pl_revision doc)
          else if cm_seq c \<le> pl_commitSeq doc then Repeated (pl_revision doc)
          else case leaseOf M (pl_user doc) s of
              None \<Rightarrow> Refused ''stale_session'' (pl_revision doc)
            | Some lease \<Rightarrow>
                if gs_player lease \<noteq> cm_playerId c \<or> gs_epoch lease \<noteq> cm_epoch c
                then Refused ''stale_session'' (pl_revision doc)
                else Ready doc (gs_instanceCode lease))"

section \<open>Writes\<close>

text \<open>An update through the array filter \<open>world.instanceCode\<close>: every world of that code.\<close>

definition in_world :: "string \<Rightarrow> (player_world \<Rightarrow> player_world) \<Rightarrow> player_world list \<Rightarrow> player_world list" where
  "in_world code f ws = map (\<lambda>w. if wo_instanceCode w = code then f w else w) ws"

definition writes_position :: "commit \<Rightarrow> player \<Rightarrow> string \<Rightarrow> bool" where
  "writes_position c doc code \<longleftrightarrow> cm_positionChanged c
     \<and> wo_positionSeq (worldOf doc code) < jint (jget (jget (cm_state c) ''position'') ''seq'')"

definition positionOf :: "js \<Rightarrow> ms \<Rightarrow> position" where
  "positionOf v now = \<lparr>po_mapCode = jstr (jget v ''mapCode''), po_x = jrat (jget v ''x''),
     po_y = jrat (jget v ''y''), po_at = Some now\<rparr>"

text \<open>The \<open>$set\<close> and \<open>$inc\<close> of \<open>writeCommit\<close>, on the world and on the profile.\<close>

definition commit_world :: "commit \<Rightarrow> player \<Rightarrow> string \<Rightarrow> ms \<Rightarrow> player_world \<Rightarrow> player_world" where
  "commit_world c doc code now w =
     (let state = cm_state c; held = map heldOf (jarr (jget state ''held''));
          w' = w\<lparr>wo_vaults := map vaultOf (jarr (jget state ''vaults'')),
                 wo_held := filter (\<lambda>h. hd_container h \<notin> set PROFILE_CONTAINERS) held\<rparr>
      in if writes_position c doc code
         then w'\<lparr>wo_position := positionOf (jget state ''position'') now,
                 wo_positionSeq := jint (jget (jget state ''position'') ''seq'')\<rparr>
         else w')"

definition commit_player :: "commit \<Rightarrow> player \<Rightarrow> string \<Rightarrow> ms \<Rightarrow> player \<Rightarrow> player" where
  "commit_player c doc code now p =
     (let state = cm_state c; held = map heldOf (jarr (jget state ''held''))
      in p\<lparr>pl_coins := jint (jget state ''coins''), pl_xp := jint (jget state ''xp''),
           pl_bag := map stackOf (jarr (jget state ''bag'')),
           pl_storage := map stackOf (jarr (jget state ''storage'')),
           pl_held := filter (\<lambda>h. hd_container h \<in> set PROFILE_CONTAINERS) held,
           pl_commitSeq := cm_seq c,
           pl_worlds := in_world code (commit_world c doc code now) (pl_worlds p),
           pl_revision := pl_revision p + 1\<rparr>)"

text \<open>\<open>replaceOne\<close> with \<open>upsert\<close>: replaces the record of the key, or inserts it.\<close>

definition replaceQuest :: "mongo \<Rightarrow> quest \<Rightarrow> quest docs \<Rightarrow> error + quest docs" where
  "replaceQuest M q c =
     (case drv_update_one (mg_quests M) (\<lambda>d. quest_key d = quest_key q) (\<lambda>_. q) c of
        (matched, _, c') \<Rightarrow> if matched = 0 then drv_create (mg_quests M) [q] c else Inr c')"

definition writeQuests :: "mongo \<Rightarrow> oid \<Rightarrow> string \<Rightarrow> ms \<Rightarrow> js list \<Rightarrow> (db, unit) work" where
  "writeQuests M pid code now quests =
     bindW (writeW (\<lambda>s. Inr (s\<lparr>db_quests := drv_delete_many (mg_quests M)
         (\<lambda>q. qu_player q = pid \<and> qu_instanceCode q = code
            \<and> qu_questCode q \<notin> set (map (\<lambda>v. jstr (jget v ''questCode'')) quests)) (db_quests s)\<rparr>)))
       (\<lambda>_. eachW (\<lambda>v. writeW (\<lambda>s. bindE (replaceQuest M (questRecord pid code now v) (db_quests s))
           (\<lambda>c. Inr (s\<lparr>db_quests := c\<rparr>)))) quests)"

definition writeCommit :: "mongo \<Rightarrow> ms \<Rightarrow> commit \<Rightarrow> player \<Rightarrow> string \<Rightarrow> (db, int) work" where
  "writeCommit M now c doc code =
     bindW (writeW (\<lambda>s. Inr (s\<lparr>db_players := snd (snd (drv_update_one (mg_players M)
         (\<lambda>p. pl_id p = cm_playerId c \<and> pl_epoch p = cm_epoch c \<and> pl_commitSeq p = pl_commitSeq doc)
         (commit_player c doc code now) (db_players s)))\<rparr>)))
       (\<lambda>_. bindW (if cm_questsChanged c
             then writeQuests M (cm_playerId c) code now (jarr (jget (cm_state c) ''quests'')) else retW ())
         (\<lambda>_. retW (pl_revision doc + 1)))"

section \<open>The commit\<close>

definition requestDefect :: "mongo \<Rightarrow> commit \<Rightarrow> string" where
  "requestDefect M c =
     (if \<not> isValidObjectId M (Str (cm_playerId c)) \<or> \<not> 0 < cm_epoch c \<or> \<not> 0 < cm_seq c then ''bad identity''
      else stateDefect (cm_state c) (cm_questsChanged c) (cm_positionChanged c))"

definition commitWork :: "mongo \<Rightarrow> ms \<Rightarrow> commit \<Rightarrow> (db, commit_answer) work" where
  "commitWork M now c s =
     (case checkCommit M c s of
        Refused refusal revision \<Rightarrow> (Inr (answer refusal False revision), s)
      | Repeated revision \<Rightarrow> (Inr (answer '''' True revision), s)
      | Ready doc code \<Rightarrow> bindW (writeCommit M now c doc code) (\<lambda>revision. retW (answer '''' False revision)) s)"

definition commitState :: "mongo \<Rightarrow> ms \<Rightarrow> attempt list \<Rightarrow> commit \<Rightarrow> (db, commit_answer) work" where
  "commitState M now as c s =
     (if requestDefect M c \<noteq> ''''
      then (Inr ((answer ''invalid'' False 0)\<lparr>an_defect := requestDefect M c\<rparr>), s)
      else commitTransaction as (commitWork M now c) (answer ''integrity'' False 0) s)"

section \<open>Position writes\<close>

record position_entry =
  pe_playerId :: string
  pe_epoch :: int
  pe_instanceCode :: string
  pe_position :: js

text \<open>The positional operator \<open>$\<close>: the first element that the filter matched.\<close>

fun first_world :: "(player_world \<Rightarrow> bool) \<Rightarrow> (player_world \<Rightarrow> player_world) \<Rightarrow> player_world list \<Rightarrow> player_world list" where
  "first_world P f [] = []"
| "first_world P f (w # ws) = (if P w then f w # ws else w # first_world P f ws)"

definition older :: "position_entry \<Rightarrow> player_world \<Rightarrow> bool" where
  "older e w \<longleftrightarrow> wo_instanceCode w = pe_instanceCode e \<and> wo_positionSeq w < jint (jget (pe_position e) ''seq'')"

definition writePosition :: "mongo \<Rightarrow> ms \<Rightarrow> position_entry \<Rightarrow> db \<Rightarrow> db" where
  "writePosition M now e s = s\<lparr>db_players := snd (snd (drv_update_one (mg_players M)
     (\<lambda>p. pl_id p = pe_playerId e \<and> pl_epoch p = pe_epoch e \<and> list_ex (older e) (pl_worlds p))
     (\<lambda>p. p\<lparr>pl_worlds := first_world (older e)
        (\<lambda>w. w\<lparr>wo_position := positionOf (pe_position e) now,
               wo_positionSeq := jint (jget (pe_position e) ''seq'')\<rparr>) (pl_worlds p)\<rparr>) (db_players s)))\<rparr>"

definition writePositions :: "mongo \<Rightarrow> ms \<Rightarrow> position_entry list \<Rightarrow> db \<Rightarrow> db" where
  "writePositions M now entries = fold (writePosition M now) (filter (\<lambda>e. place_ok (pe_position e)) entries)"

section \<open>What the reads find\<close>

lemma findById_Some:
  assumes "lawful_mongo M" "findById M pid s = Some p"
  shows "p \<in> set (db_players s) \<and> pl_id p = pid"
  using assms collection.find_one_some [OF lawful_mongoD(1)] unfolding findById_def by blast

lemma findById_None:
  "lawful_mongo M \<Longrightarrow> findById M pid s = None \<longleftrightarrow> (\<forall>p\<in>set (db_players s). pl_id p \<noteq> pid)"
  unfolding findById_def by (rule collection.find_one_none [OF lawful_mongoD(1)])

lemma findById_unique:
  assumes "lawful_mongo M" "unique_db s" "p \<in> set (db_players s)"
  shows "findById M (pl_id p) s = Some p"
proof (cases "findById M (pl_id p) s")
  case None
  then show ?thesis using assms by (auto simp: findById_None)
next
  case (Some q)
  then have q: "q \<in> set (db_players s)" "pl_id q = pl_id p" using findById_Some [OF assms(1)] by blast+
  have "distinct (map pl_id (db_players s))" using assms(2) by (simp add: unique_db_def unique_docs_def)
  then have "q = p" by (rule distinct_map_eq [OF _ q(1) assms(3) q(2)])
  with Some show ?thesis by simp
qed

lemma leaseOf_Some:
  assumes "lawful_mongo M" "leaseOf M u s = Some g"
  shows "g \<in> set (db_sessions s) \<and> gs_user g = u"
  using assms collection.find_one_some [OF lawful_mongoD(2)] unfolding leaseOf_def by blast

text \<open>The three guards a commit that is ready passed.\<close>

lemma checkCommit_Ready:
  "checkCommit M c s = Ready doc code \<longleftrightarrow>
     findById M (cm_playerId c) s = Some doc \<and> pl_epoch doc = cm_epoch c \<and> pl_commitSeq doc < cm_seq c
     \<and> (\<exists>g. leaseOf M (pl_user doc) s = Some g \<and> gs_player g = cm_playerId c \<and> gs_epoch g = cm_epoch c
          \<and> gs_instanceCode g = code)"
  by (auto simp: checkCommit_def split: option.splits if_splits)

lemma checkCommit_reads:
  assumes "db_players t = db_players s" "db_sessions t = db_sessions s"
  shows "checkCommit M c t = checkCommit M c s"
  using assms by (simp add: checkCommit_def findById_def leaseOf_def cong: option.case_cong if_cong)

section \<open>What a commit writes\<close>

lemma replaceQuest_ok:
  assumes M: "lawful_mongo M" and u: "unique_docs quest_key c"
  obtains c' where "replaceQuest M q c = Inr c'" "unique_docs quest_key c'"
    "set c' = insert q {d \<in> set c. quest_key d \<noteq> quest_key q}"
proof (cases "\<exists>d\<in>set c. quest_key d = quest_key q")
  case True
  note Q = lawful_mongoD(3) [OF M]
  have c: "snd (snd (drv_update_one (mg_quests M) (\<lambda>d. quest_key d = quest_key q) (\<lambda>_. q) c))
      = map (\<lambda>d. if quest_key d = quest_key q then q else d) c"
    by (rule collection.update_one_unique [OF Q u, where k = "quest_key q"]) simp
  have "replaceQuest M q c = Inr (snd (snd (drv_update_one (mg_quests M) (\<lambda>d. quest_key d = quest_key q) (\<lambda>_. q) c)))"
    using collection.update_one_matched [OF Q, of "\<lambda>d. quest_key d = quest_key q" "\<lambda>_. q" c] True
    by (auto simp: replaceQuest_def split: prod.splits)
  then have A: "replaceQuest M q c = Inr (map (\<lambda>d. if quest_key d = quest_key q then q else d) c)"
    by (simp only: c)
  have "map quest_key (map (\<lambda>d. if quest_key d = quest_key q then q else d) c) = map quest_key c"
    by simp
  with u have B: "unique_docs quest_key (map (\<lambda>d. if quest_key d = quest_key q then q else d) c)"
    by (simp only: unique_docs_def)
  have "set (map (\<lambda>d. if quest_key d = quest_key q then q else d) c)
      = insert q {d \<in> set c. quest_key d \<noteq> quest_key q}"
    using True by (auto simp: image_iff)
  with A B show ?thesis by (rule that)
next
  case False
  note Q = lawful_mongoD(3) [OF M]
  have "drv_update_one (mg_quests M) (\<lambda>d. quest_key d = quest_key q) (\<lambda>_. q) c = (0, 0, c)"
    using False by (intro collection.update_one_none [OF Q]) simp
  moreover have "drv_create (mg_quests M) [q] c = Inr (c @ [q])"
    using False u by (intro collection.create_ok [OF Q]) (auto simp: unique_docs_def)
  ultimately have "replaceQuest M q c = Inr (c @ [q])" by (simp add: replaceQuest_def)
  moreover have "unique_docs quest_key (c @ [q])" using False u by (auto simp: unique_docs_def)
  moreover have "set (c @ [q]) = insert q {d \<in> set c. quest_key d \<noteq> quest_key q}" using False by auto
  ultimately show ?thesis by (rule that)
qed

lemma questRecord_key [simp]:
  "quest_key (questRecord pid code now v) = (pid, code, jstr (jget v ''questCode''))"
  "qu_player (questRecord pid code now v) = pid" "qu_instanceCode (questRecord pid code now v) = code"
  by (simp_all add: quest_key_def questRecord_def)

lemma replaceQuests_ok:
  assumes "lawful_mongo M" "unique_docs quest_key (db_quests s)"
    and "distinct (map (\<lambda>v. jstr (jget v ''questCode'')) qs)"
  shows "\<exists>c'. eachW (\<lambda>v. writeW (\<lambda>s. bindE (replaceQuest M (questRecord pid code now v) (db_quests s))
             (\<lambda>c. Inr (s\<lparr>db_quests := c\<rparr>)))) qs s = (Inr (), s\<lparr>db_quests := c'\<rparr>)
     \<and> unique_docs quest_key c'
     \<and> set c' = {d \<in> set (db_quests s). quest_key d \<notin> set (map (\<lambda>v. (pid, code, jstr (jget v ''questCode''))) qs)}
         \<union> set (map (questRecord pid code now) qs)"
  using assms(2,3)
proof (induction qs arbitrary: s)
  case (Cons v qs)
  obtain c1 where c1: "replaceQuest M (questRecord pid code now v) (db_quests s) = Inr c1"
    "unique_docs quest_key c1"
    "set c1 = insert (questRecord pid code now v)
       {d \<in> set (db_quests s). quest_key d \<noteq> quest_key (questRecord pid code now v)}"
    using replaceQuest_ok [OF assms(1) Cons.prems(1)] by blast
  have "distinct (map (\<lambda>v. jstr (jget v ''questCode'')) qs)" using Cons.prems(2) by simp
  from Cons.IH [of "s\<lparr>db_quests := c1\<rparr>", OF _ this] c1(2)
  obtain c' where c': "eachW (\<lambda>v. writeW (\<lambda>s. bindE (replaceQuest M (questRecord pid code now v) (db_quests s))
             (\<lambda>c. Inr (s\<lparr>db_quests := c\<rparr>)))) qs (s\<lparr>db_quests := c1\<rparr>) = (Inr (), s\<lparr>db_quests := c'\<rparr>)"
    "unique_docs quest_key c'"
    "set c' = {d \<in> set c1. quest_key d \<notin> set (map (\<lambda>v. (pid, code, jstr (jget v ''questCode''))) qs)}
         \<union> set (map (questRecord pid code now) qs)"
    by auto
  show ?case
    using c1 c' Cons.prems(2) by (intro exI [of _ c']) auto
next
  case Nil
  then show ?case by (intro exI [of _ "db_quests s"]) (simp add: retW_def)
qed

text \<open>The changed quests replace the records of the player in that world, and no other record.\<close>

lemma writeQuests_ok:
  assumes M: "lawful_mongo M" and u: "unique_docs quest_key (db_quests s)"
    and d: "distinct (map (\<lambda>v. jstr (jget v ''questCode'')) qs)"
  obtains c' where "writeQuests M pid code now qs s = (Inr (), s\<lparr>db_quests := c'\<rparr>)" "unique_docs quest_key c'"
    "set c' = {d \<in> set (db_quests s). \<not> (qu_player d = pid \<and> qu_instanceCode d = code)}
         \<union> set (map (questRecord pid code now) qs)"
proof -
  define c1 where "c1 = drv_delete_many (mg_quests M)
         (\<lambda>q. qu_player q = pid \<and> qu_instanceCode q = code
            \<and> qu_questCode q \<notin> set (map (\<lambda>v. jstr (jget v ''questCode'')) qs)) (db_quests s)"
  have c1: "c1 = filter (\<lambda>q. \<not> (qu_player q = pid \<and> qu_instanceCode q = code
            \<and> qu_questCode q \<notin> set (map (\<lambda>v. jstr (jget v ''questCode'')) qs))) (db_quests s)"
    unfolding c1_def by (rule collection.delete_many [OF lawful_mongoD(3) [OF M]])
  have "unique_docs quest_key c1" using u by (simp add: c1 unique_docs_def distinct_map_filter)
  from replaceQuests_ok [OF M _ d, of "s\<lparr>db_quests := c1\<rparr>" pid code now] this
  obtain c' where c': "eachW (\<lambda>v. writeW (\<lambda>s. bindE (replaceQuest M (questRecord pid code now v) (db_quests s))
             (\<lambda>c. Inr (s\<lparr>db_quests := c\<rparr>)))) qs (s\<lparr>db_quests := c1\<rparr>) = (Inr (), s\<lparr>db_quests := c'\<rparr>)"
    "unique_docs quest_key c'"
    "set c' = {d \<in> set c1. quest_key d \<notin> set (map (\<lambda>v. (pid, code, jstr (jget v ''questCode''))) qs)}
         \<union> set (map (questRecord pid code now) qs)"
    by auto
  have "writeQuests M pid code now qs s = (Inr (), s\<lparr>db_quests := c'\<rparr>)"
    using c'(1) by (simp add: writeQuests_def bindW_def writeW_def c1_def)
  moreover have "set c' = {d \<in> set (db_quests s). \<not> (qu_player d = pid \<and> qu_instanceCode d = code)}
         \<union> set (map (questRecord pid code now) qs)"
    by (auto simp: c'(3) c1 quest_key_def)
  ultimately show ?thesis using that c'(2) by blast
qed

text \<open>
  The whole effect of a commit that is ready: its profile becomes \<open>commit_player\<close>, its quest records
  are replaced when they changed, and nothing else of the database moves. It never throws.
\<close>

lemma writeCommit_ok:
  assumes M: "lawful_mongo M" and u: "unique_db s"
    and doc: "findById M (cm_playerId c) s = Some doc" "pl_epoch doc = cm_epoch c"
    and qs: "cm_questsChanged c \<Longrightarrow> quests_ok (jget (cm_state c) ''quests'')"
  obtains qs' where "writeCommit M now c doc code s = (Inr (pl_revision doc + 1),
      s\<lparr>db_players := map (\<lambda>p. if pl_id p = cm_playerId c then commit_player c doc code now p else p)
           (db_players s), db_quests := qs'\<rparr>)"
    "unique_docs quest_key qs'"
    "set qs' = (if cm_questsChanged c
       then {d \<in> set (db_quests s). \<not> (qu_player d = cm_playerId c \<and> qu_instanceCode d = code)}
         \<union> set (map (questRecord (cm_playerId c) code now) (jarr (jget (cm_state c) ''quests'')))
       else set (db_quests s))"
proof -
  let ?P = "\<lambda>p. pl_id p = cm_playerId c \<and> pl_epoch p = cm_epoch c \<and> pl_commitSeq p = pl_commitSeq doc"
  let ?f = "commit_player c doc code now"
  let ?s1 = "s\<lparr>db_players := map (\<lambda>p. if pl_id p = cm_playerId c then ?f p else p) (db_players s)\<rparr>"
  have up: "unique_docs pl_id (db_players s)" and uq: "unique_docs quest_key (db_quests s)"
    using u by (simp_all add: unique_db_def)
  have only: "p = doc" if "p \<in> set (db_players s)" "pl_id p = cm_playerId c" for p
    using findById_unique [OF M u that(1)] that(2) doc(1) by simp
  have "snd (snd (drv_update_one (mg_players M) ?P ?f (db_players s)))
      = map (\<lambda>p. if ?P p then ?f p else p) (db_players s)"
    by (rule collection.update_one_unique [OF lawful_mongoD(1) [OF M] up, where k = "cm_playerId c"]) simp
  also have "\<dots> = map (\<lambda>p. if pl_id p = cm_playerId c then ?f p else p) (db_players s)"
    using only doc(2) by (intro map_cong) auto
  finally have pl: "snd (snd (drv_update_one (mg_players M) ?P ?f (db_players s))) = \<dots>" .
  show ?thesis
  proof (cases "cm_questsChanged c")
    case False
    with pl uq show ?thesis
      by (intro that [of "db_quests s"]) (simp_all add: writeCommit_def bindW_def writeW_def retW_def)
  next
    case True
    have "distinct (map (\<lambda>v. jstr (jget v ''questCode'')) (jarr (jget (cm_state c) ''quests'')))"
      using qs [OF True] by (simp add: quests_ok_def)
    from writeQuests_ok [OF M _ this, of ?s1 "cm_playerId c" code now] uq
    obtain qs' where q: "writeQuests M (cm_playerId c) code now (jarr (jget (cm_state c) ''quests'')) ?s1
        = (Inr (), ?s1\<lparr>db_quests := qs'\<rparr>)" "unique_docs quest_key qs'"
      "set qs' = {d \<in> set (db_quests ?s1). \<not> (qu_player d = cm_playerId c \<and> qu_instanceCode d = code)}
         \<union> set (map (questRecord (cm_playerId c) code now) (jarr (jget (cm_state c) ''quests'')))"
      by auto
    from True pl q show ?thesis
      by (intro that [of qs']) (simp_all add: writeCommit_def bindW_def writeW_def retW_def)
  qed
qed

lemma commit_player_id [simp]:
  "pl_id (commit_player c doc code now p) = pl_id p"
  "pl_user (commit_player c doc code now p) = pl_user p"
  "pl_universeCode (commit_player c doc code now p) = pl_universeCode p"
  "pl_epoch (commit_player c doc code now p) = pl_epoch p"
  "pl_commitSeq (commit_player c doc code now p) = cm_seq c"
  "pl_revision (commit_player c doc code now p) = pl_revision p + 1"
  "pl_coins (commit_player c doc code now p) = jint (jget (cm_state c) ''coins'')"
  by (simp_all add: commit_player_def Let_def)

lemma unique_db_commit:
  assumes "unique_db s" "unique_docs quest_key qs'"
  shows "unique_db (s\<lparr>db_players := map (\<lambda>p. if pl_id p = k then commit_player c doc code now p else p)
     (db_players s), db_quests := qs'\<rparr>)"
  using assms by (simp add: unique_db_def unique_docs_map)

text \<open>\<open>commitWork\<close> on every branch.\<close>

lemma commitWork_cases:
  assumes M: "lawful_mongo M" and u: "unique_db s" and ok: "requestDefect M c = ''''"
    and w: "commitWork M now c s = (r, t)"
  obtains (refused) refusal revision where "checkCommit M c s = Refused refusal revision"
      "r = Inr (answer refusal False revision)" "t = s"
    | (repeated) revision where "checkCommit M c s = Repeated revision"
      "r = Inr (answer '''' True revision)" "t = s"
    | (applied) doc code qs' where "checkCommit M c s = Ready doc code"
      "r = Inr (answer '''' False (pl_revision doc + 1))"
      "t = s\<lparr>db_players := map (\<lambda>p. if pl_id p = cm_playerId c then commit_player c doc code now p else p)
           (db_players s), db_quests := qs'\<rparr>"
      "unique_docs quest_key qs'"
      "set qs' = (if cm_questsChanged c
       then {d \<in> set (db_quests s). \<not> (qu_player d = cm_playerId c \<and> qu_instanceCode d = code)}
         \<union> set (map (questRecord (cm_playerId c) code now) (jarr (jget (cm_state c) ''quests'')))
       else set (db_quests s))"
proof (cases "checkCommit M c s")
  case (Ready doc code)
  have qs: "quests_ok (jget (cm_state c) ''quests'')" if "cm_questsChanged c"
    using ok that by (simp add: requestDefect_def stateDefect_iff state_ok_def split: if_splits)
  from Ready have doc: "findById M (cm_playerId c) s = Some doc" "pl_epoch doc = cm_epoch c"
    by (simp_all add: checkCommit_Ready)
  obtain qs' where q: "writeCommit M now c doc code s = (Inr (pl_revision doc + 1),
      s\<lparr>db_players := map (\<lambda>p. if pl_id p = cm_playerId c then commit_player c doc code now p else p)
           (db_players s), db_quests := qs'\<rparr>)"
    "unique_docs quest_key qs'"
    "set qs' = (if cm_questsChanged c
       then {d \<in> set (db_quests s). \<not> (qu_player d = cm_playerId c \<and> qu_instanceCode d = code)}
         \<union> set (map (questRecord (cm_playerId c) code now) (jarr (jget (cm_state c) ''quests'')))
       else set (db_quests s))"
    by (rule writeCommit_ok [OF M u doc qs])
  have "commitWork M now c s = (Inr (answer '''' False (pl_revision doc + 1)),
      s\<lparr>db_players := map (\<lambda>p. if pl_id p = cm_playerId c then commit_player c doc code now p else p)
           (db_players s), db_quests := qs'\<rparr>)"
    using Ready q(1) by (simp add: commitWork_def bindW_def retW_def)
  with w q Ready show ?thesis by (intro applied [of doc code qs']) simp_all
next
  case (Refused refusal revision)
  with w show ?thesis by (intro refused [of refusal revision]) (simp_all add: commitWork_def)
next
  case (Repeated revision)
  with w show ?thesis by (intro repeated [of revision]) (simp_all add: commitWork_def)
qed

section \<open>A stored state loads as it was committed\<close>

lemma worldOf_in_world:
  assumes "w \<in> set ws" "wo_instanceCode w = code" "pl_worlds p = ws" "\<And>w. wo_instanceCode (f w) = wo_instanceCode w"
  shows "worldOf (p\<lparr>pl_worlds := in_world code f ws\<rparr>) code = f (worldOf p code)"
  using assms(1,2)
proof -
  have "List.find (\<lambda>w. wo_instanceCode w = code) (in_world code f ws)
      = map_option f (List.find (\<lambda>w. wo_instanceCode w = code) ws)" for ws
    using assms(4) by (induction ws) (auto simp: in_world_def)
  moreover obtain v where "List.find (\<lambda>w. wo_instanceCode w = code) ws = Some v"
    using assms(1,2) by (cases "List.find (\<lambda>w. wo_instanceCode w = code) ws") (auto simp: find_None_iff_ball)
  ultimately show ?thesis using assms(3) by (simp add: worldOf_def)
qed

lemma commit_world_code [simp]:
  "wo_instanceCode (commit_world c doc code now w) = wo_instanceCode w"
  by (simp add: commit_world_def Let_def)

lemma commit_world_fields [simp]:
  "wo_vaults (commit_world c doc code now w) = map vaultOf (jarr (jget (cm_state c) ''vaults''))"
  "wo_held (commit_world c doc code now w)
     = filter (\<lambda>h. hd_container h \<notin> set PROFILE_CONTAINERS) (map heldOf (jarr (jget (cm_state c) ''held'')))"
  by (simp_all add: commit_world_def Let_def)

lemma worldOf_commit_player:
  assumes "w \<in> set (pl_worlds p)" "wo_instanceCode w = code"
  shows "worldOf (commit_player c doc code now p) code = commit_world c doc code now (worldOf p code)"
  using worldOf_in_world [OF assms, of "commit_player c doc code now p\<lparr>pl_worlds := pl_worlds p\<rparr>" "commit_world c doc code now"]
  by (simp add: commit_player_def Let_def worldOf_def)

lemma commit_player_fields [simp]:
  "pl_xp (commit_player c doc code now p) = jint (jget (cm_state c) ''xp'')"
  "pl_bag (commit_player c doc code now p) = map stackOf (jarr (jget (cm_state c) ''bag''))"
  "pl_storage (commit_player c doc code now p) = map stackOf (jarr (jget (cm_state c) ''storage''))"
  "pl_held (commit_player c doc code now p)
     = filter (\<lambda>h. hd_container h \<in> set PROFILE_CONTAINERS) (map heldOf (jarr (jget (cm_state c) ''held'')))"
  by (simp_all add: commit_player_def Let_def)

text \<open>What is stored of an accepted state is accepted again.\<close>

lemma vaults_ok_wireVault:
  "vaults_ok v \<Longrightarrow> vaults_ok (Arr (map wireVault (map vaultOf (jarr v))))"
  using stacks_ok_wireStack
  by (auto simp: vaults_ok_def vault_ok_def wireVault_def vaultOf_def comp_def elim!: isText.elims)

lemma heldOf_ok:
  assumes "helds_ok v" "h \<in> set (map heldOf (jarr v))"
  shows "oneOf CONTAINERS (jget (wireHeld h) ''container'') \<and> oneOf HELD_REASONS (jget (wireHeld h) ''reason'')
     \<and> stack_ok (vaultSlots LIMITS) (jget (wireHeld h) ''stack'')"
  using assms stack_ok_wireStack
  by (auto simp: helds_ok_def wireHeld_def heldOf_def oneOf_iff)

lemma helds_ok_wireHeld:
  assumes "length hs \<le> lim_held LIMITS" "\<And>h. h \<in> set hs \<Longrightarrow> oneOf CONTAINERS (jget (wireHeld h) ''container'')
     \<and> oneOf HELD_REASONS (jget (wireHeld h) ''reason'') \<and> stack_ok (vaultSlots LIMITS) (jget (wireHeld h) ''stack'')"
  shows "helds_ok (Arr (map wireHeld hs))"
  using assms by (simp add: helds_ok_def)

lemma helds_ok_split:
  assumes "helds_ok v"
  shows "helds_ok (Arr (map wireHeld (filter P (map heldOf (jarr v)) @ filter (\<lambda>h. \<not> P h) (map heldOf (jarr v)))))"
proof (rule helds_ok_wireHeld)
  have "length (filter P (map heldOf (jarr v))) + length (filter (\<lambda>h. \<not> P h) (map heldOf (jarr v)))
      = length (map heldOf (jarr v))"
    by (rule sum_length_filter_compl)
  then show "length (filter P (map heldOf (jarr v)) @ filter (\<lambda>h. \<not> P h) (map heldOf (jarr v))) \<le> lim_held LIMITS"
    using assms by (simp add: helds_ok_def del: filter_map)
next
  fix h assume "h \<in> set (filter P (map heldOf (jarr v)) @ filter (\<lambda>h. \<not> P h) (map heldOf (jarr v)))"
  then have "h \<in> set (map heldOf (jarr v))" unfolding set_append set_filter by blast
  then show "oneOf CONTAINERS (jget (wireHeld h) ''container'') \<and> oneOf HELD_REASONS (jget (wireHeld h) ''reason'')
      \<and> stack_ok (vaultSlots LIMITS) (jget (wireHeld h) ''stack'')"
    by (rule heldOf_ok [OF assms])
qed

section \<open>Properties\<close>

lemma commitState_cases:
  assumes M: "lawful_mongo M" and u: "unique_db s" and c: "commitState M now as c s = (r, t)"
  obtains (unchanged) "t = s"
      "\<And>a. r = Inr a \<Longrightarrow> an_refusal a = '''' \<Longrightarrow> requestDefect M c = ''''
         \<and> checkCommit M c s = Repeated (an_revision a) \<and> a = answer '''' True (an_revision a)"
    | (applied) doc code qs' where "requestDefect M c = ''''" "checkCommit M c s = Ready doc code"
      "r = Inr (answer '''' False (pl_revision doc + 1))"
      "t = s\<lparr>db_players := map (\<lambda>p. if pl_id p = cm_playerId c then commit_player c doc code now p else p)
           (db_players s), db_quests := qs'\<rparr>"
      "unique_docs quest_key qs'"
      "set qs' = (if cm_questsChanged c
       then {d \<in> set (db_quests s). \<not> (qu_player d = cm_playerId c \<and> qu_instanceCode d = code)}
         \<union> set (map (questRecord (cm_playerId c) code now) (jarr (jget (cm_state c) ''quests'')))
       else set (db_quests s))"
proof (cases "requestDefect M c = ''''")
  case False
  with c show ?thesis by (intro unchanged) (auto simp: commitState_def answer_def)
next
  case ok: True
  with c have "commitTransaction as (commitWork M now c) (answer ''integrity'' False 0) s = (r, t)"
    by (simp add: commitState_def)
  then show ?thesis
  proof (cases rule: commitTransaction_cases)
    case (committed a)
    from M u ok committed(2) show ?thesis
    proof (cases rule: commitWork_cases)
      case (refused refusal revision)
      then have "refusal \<noteq> ''''" by (auto simp: checkCommit_def split: option.splits if_splits)
      with refused committed show ?thesis by (intro unchanged) (auto simp: answer_def)
    next
      case (repeated revision)
      with committed ok show ?thesis by (intro unchanged) (auto simp: answer_def)
    next
      case (applied doc code qs')
      with committed ok that(2) show ?thesis by blast
    qed
  qed (auto simp: answer_def intro: unchanged)
qed

text \<open>C5: a retry of a commit that answered without a refusal is safe: whatever the first call did,
the same request answers \<open>duplicate\<close> with the revision the first answer carried, and writes
nothing, however many transient errors the retry meets.\<close>

theorem commit_retry:
  assumes "lawful_mongo M" "unique_db s" "commitState M now as c s = (Inr a, t)" "an_refusal a = ''''"
    and "set as' \<subseteq> {Transient}"
  shows "commitState M now' as' c t = (Inr (answer '''' True (an_revision a)), t)"
proof -
  have tx: "commitState M now' as' c t = commitState M now' [] c t"
    unfolding commitState_def commitTransaction_def runTransaction_retries [OF assms(5)] ..
  have again: "commitState M now' [] c t = (Inr (answer '''' True n), t)"
    if "requestDefect M c = ''''" "checkCommit M c t = Repeated n" for n
    using that by (simp add: commitState_def commitTransaction_def commitWork_def)
  from assms(1-3) show ?thesis
  proof (cases rule: commitState_cases)
    case unchanged
    with assms(4) again [of "an_revision a"] tx show ?thesis by auto
  next
    case (applied doc code qs')
    let ?p = "commit_player c doc code now doc"
    from applied(2) have doc: "findById M (cm_playerId c) s = Some doc" "pl_epoch doc = cm_epoch c"
      by (simp_all add: checkCommit_Ready)
    then have "doc \<in> set (db_players s)" "pl_id doc = cm_playerId c"
      using findById_Some [OF assms(1)] by blast+
    then have "?p \<in> set (db_players t)" "pl_id ?p = cm_playerId c"
      by (auto simp: applied(4) image_iff)
    moreover have "unique_db t" using unique_db_commit [OF assms(2) applied(5)] by (simp add: applied(4))
    ultimately have "findById M (cm_playerId c) t = Some ?p"
      using findById_unique [OF assms(1)] by metis
    then have "checkCommit M c t = Repeated (pl_revision doc + 1)"
      by (simp add: checkCommit_def doc(2))
    with applied(1,3) again tx show ?thesis by (simp add: answer_def)
  qed
qed

definition sample_commit :: commit where
  "sample_commit = \<lparr>cm_playerId = pid1, cm_epoch = 1, cm_seq = 1, cm_state = sample_state,
     cm_questsChanged = True, cm_positionChanged = True\<rparr>"

lemma sample_commit_applies:
  "fst (commitState ref_mongo 9 [] sample_commit sample_db) = Inr (answer '''' False 1)"
  by code_simp

lemma commit_retry_witness:
  "commitState ref_mongo 20 [Transient] sample_commit (snd (commitState ref_mongo 9 [] sample_commit sample_db))
     = (Inr (answer '''' True 1), snd (commitState ref_mongo 9 [] sample_commit sample_db))"
  using commit_retry [OF lawful_ref_mongo unique_sample_db, of 9 "[]" sample_commit "answer '''' False 1"
      "snd (commitState ref_mongo 9 [] sample_commit sample_db)" "[Transient]" 20]
    sample_commit_applies
  by (simp add: answer_def prod_eq_iff)

text \<open>C6: no commit writes past its guards: when the database changed, the request was well formed, the
profile was at the epoch of the request and below its sequence, the lease of the account named that
profile at that epoch, the answer reports the next revision, and only the profile of the request and
its quest records changed.\<close>

theorem commit_guarded:
  assumes "lawful_mongo M" "unique_db s" "commitState M now as c s = (r, t)" "t \<noteq> s"
  shows "\<exists>doc lease. findById M (cm_playerId c) s = Some doc \<and> leaseOf M (pl_user doc) s = Some lease
     \<and> state_ok (cm_state c) (cm_questsChanged c) (cm_positionChanged c)
     \<and> pl_epoch doc = cm_epoch c \<and> pl_commitSeq doc < cm_seq c
     \<and> gs_player lease = cm_playerId c \<and> gs_epoch lease = cm_epoch c
     \<and> r = Inr (answer '''' False (pl_revision doc + 1))
     \<and> findById M (cm_playerId c) t = Some (commit_player c doc (gs_instanceCode lease) now doc)
     \<and> (\<forall>p. pl_id p \<noteq> cm_playerId c \<longrightarrow> (p \<in> set (db_players t) \<longleftrightarrow> p \<in> set (db_players s)))
     \<and> (\<forall>q. qu_player q \<noteq> cm_playerId c \<longrightarrow> (q \<in> set (db_quests t) \<longleftrightarrow> q \<in> set (db_quests s)))
     \<and> t = s\<lparr>db_players := db_players t, db_quests := db_quests t\<rparr>"
  using assms(1-3)
proof (cases rule: commitState_cases)
  case unchanged
  with assms(4) show ?thesis by simp
next
  case (applied doc code qs')
  then obtain lease where guards: "findById M (cm_playerId c) s = Some doc" "pl_epoch doc = cm_epoch c"
    "pl_commitSeq doc < cm_seq c" "leaseOf M (pl_user doc) s = Some lease"
    "gs_player lease = cm_playerId c" "gs_epoch lease = cm_epoch c" "gs_instanceCode lease = code"
    by (auto simp: checkCommit_Ready)
  have ok: "state_ok (cm_state c) (cm_questsChanged c) (cm_positionChanged c)"
    using applied(1) by (simp add: requestDefect_def stateDefect_iff split: if_splits)
  have doc: "doc \<in> set (db_players s)" "pl_id doc = cm_playerId c"
    using findById_Some [OF assms(1) guards(1)] by blast+
  have "unique_db t" using unique_db_commit [OF assms(2) applied(5)] by (simp add: applied(4))
  moreover have "commit_player c doc code now doc \<in> set (db_players t)"
    using doc by (auto simp: applied(4) image_iff)
  ultimately have "findById M (pl_id (commit_player c doc code now doc)) t = Some (commit_player c doc code now doc)"
    by (rule findById_unique [OF assms(1)])
  then have found: "findById M (cm_playerId c) t = Some (commit_player c doc code now doc)"
    using doc(2) by simp
  have others: "p \<in> set (db_players t) \<longleftrightarrow> p \<in> set (db_players s)" if "pl_id p \<noteq> cm_playerId c" for p
    using that by (auto simp: applied(4) image_iff)
  have quests: "q \<in> set (db_quests t) \<longleftrightarrow> q \<in> set (db_quests s)" if "qu_player q \<noteq> cm_playerId c" for q
    using that applied(6) by (auto simp: applied(4))
  show ?thesis
    using guards ok applied(3) found others quests
    by (intro exI [of _ doc] exI [of _ lease]) (simp add: applied(4))
qed

lemma commit_guarded_witness:
  "\<exists>doc lease. findById ref_mongo pid1 sample_db = Some doc \<and> leaseOf ref_mongo (pl_user doc) sample_db = Some lease
     \<and> state_ok sample_state True True \<and> pl_epoch doc = 1 \<and> pl_commitSeq doc < 1
     \<and> gs_player lease = pid1 \<and> gs_epoch lease = 1"
proof -
  let ?t = "snd (commitState ref_mongo 9 [] sample_commit sample_db)"
  have "commitState ref_mongo 9 [] sample_commit sample_db = (Inr (answer '''' False 1), ?t)"
    using sample_commit_applies by (simp add: prod_eq_iff)
  moreover have "map pl_commitSeq (db_players ?t) \<noteq> map pl_commitSeq (db_players sample_db)" by code_simp
  then have "?t \<noteq> sample_db" by metis
  ultimately show ?thesis
    using commit_guarded [OF lawful_ref_mongo unique_sample_db, of 9 "[]" sample_commit _ ?t]
    by (fastforce simp: sample_commit_def)
qed



section \<open>Positions\<close>

text \<open>What a position write may do to a world and to a profile.\<close>

definition world_moved :: "player_world \<Rightarrow> player_world \<Rightarrow> bool" where
  "world_moved w w' \<longleftrightarrow> wo_instanceCode w' = wo_instanceCode w \<and> wo_vaults w' = wo_vaults w
     \<and> wo_held w' = wo_held w \<and> (w' = w \<or> wo_positionSeq w < wo_positionSeq w')"

definition player_moved :: "player \<Rightarrow> player \<Rightarrow> bool" where
  "player_moved p q \<longleftrightarrow> (\<exists>ws. q = p\<lparr>pl_worlds := ws\<rparr> \<and> list_all2 world_moved (pl_worlds p) ws)"

lemma world_moved_refl [simp]: "world_moved w w"
  by (simp add: world_moved_def)

lemma player_moved_refl [simp]: "player_moved p p"
  unfolding player_moved_def by (rule exI [of _ "pl_worlds p"]) (simp add: list_all2_refl)

lemma world_moved_trans: "world_moved a b \<Longrightarrow> world_moved b c \<Longrightarrow> world_moved a c"
  by (auto simp: world_moved_def)

lemma player_moved_trans:
  assumes "player_moved a b" "player_moved b c"
  shows "player_moved a c"
proof -
  from assms obtain vs ws where "b = a\<lparr>pl_worlds := vs\<rparr>" "list_all2 world_moved (pl_worlds a) vs"
    "c = b\<lparr>pl_worlds := ws\<rparr>" "list_all2 world_moved (pl_worlds b) ws"
    by (auto simp: player_moved_def)
  then have "c = a\<lparr>pl_worlds := ws\<rparr> \<and> list_all2 world_moved (pl_worlds a) ws"
    using list_all2_trans [of world_moved world_moved world_moved, OF world_moved_trans] by auto
  then show ?thesis unfolding player_moved_def ..
qed

lemma first_world_moved:
  assumes "\<And>w. P w \<Longrightarrow> world_moved w (f w)"
  shows "list_all2 world_moved ws (first_world P f ws)"
  using assms by (induction ws) (auto simp: list_all2_refl)

definition placed :: "position_entry \<Rightarrow> ms \<Rightarrow> player \<Rightarrow> player" where
  "placed e now p = p\<lparr>pl_worlds := first_world (older e)
        (\<lambda>w. w\<lparr>wo_position := positionOf (pe_position e) now,
               wo_positionSeq := jint (jget (pe_position e) ''seq'')\<rparr>) (pl_worlds p)\<rparr>"

lemma placed_moved: "player_moved p (placed e now p)"
proof -
  have "world_moved w (w\<lparr>wo_position := positionOf (pe_position e) now,
               wo_positionSeq := jint (jget (pe_position e) ''seq'')\<rparr>)" if "older e w" for w
    using that by (simp add: world_moved_def older_def)
  then show ?thesis by (auto simp: player_moved_def placed_def first_world_moved)
qed

lemma writePosition_eq:
  assumes "lawful_mongo M" "unique_docs pl_id (db_players s)"
  shows "writePosition M now e s = s\<lparr>db_players := map (\<lambda>p. if pl_id p = pe_playerId e
      \<and> pl_epoch p = pe_epoch e then placed e now p else p) (db_players s)\<rparr>"
proof -
  have idle: "placed e now p = p" if "\<not> list_ex (older e) (pl_worlds p)" for p
  proof -
    have "first_world (older e) f ws = ws" if "\<not> list_ex (older e) ws" for f ws
      using that by (induction ws) auto
    with that show ?thesis by (simp add: placed_def)
  qed
  have "snd (snd (drv_update_one (mg_players M)
     (\<lambda>p. pl_id p = pe_playerId e \<and> pl_epoch p = pe_epoch e \<and> list_ex (older e) (pl_worlds p)) (placed e now) (db_players s)))
     = map (\<lambda>p. if pl_id p = pe_playerId e \<and> pl_epoch p = pe_epoch e \<and> list_ex (older e) (pl_worlds p)
         then placed e now p else p) (db_players s)"
    by (rule collection.update_one_unique [OF lawful_mongoD(1) [OF assms(1)] assms(2), where k = "pe_playerId e"]) simp
  also have "\<dots> = map (\<lambda>p. if pl_id p = pe_playerId e \<and> pl_epoch p = pe_epoch e then placed e now p else p) (db_players s)"
    using idle by (intro map_cong) auto
  finally show ?thesis by (simp add: writePosition_def placed_def [abs_def])
qed

definition moves :: "position_entry list \<Rightarrow> ms \<Rightarrow> player \<Rightarrow> player" where
  "moves es now = fold (\<lambda>e p. if pl_id p = pe_playerId e \<and> pl_epoch p = pe_epoch e then placed e now p else p) es"

lemma moves_Cons [simp]: "moves (e # es) now p =
    moves es now (if pl_id p = pe_playerId e \<and> pl_epoch p = pe_epoch e then placed e now p else p)"
  by (simp add: moves_def)

lemma moves_Nil [simp]: "moves [] now p = p"
  by (simp add: moves_def)

lemma placed_fields [simp]:
  "pl_id (placed e now p) = pl_id p" "pl_epoch (placed e now p) = pl_epoch p"
  by (simp_all add: placed_def)

lemma moves_moved: "player_moved p (moves es now p)"
proof (induction es arbitrary: p)
  case (Cons e es)
  then show ?case using player_moved_trans [OF placed_moved Cons.IH] by simp
qed simp

lemma moves_fields [simp]: "pl_id (moves es now p) = pl_id p" "pl_epoch (moves es now p) = pl_epoch p"
  by (induction es arbitrary: p) simp_all

lemma fold_writePosition:
  assumes "lawful_mongo M" "unique_docs pl_id (db_players s)"
  shows "fold (writePosition M now) es s = s\<lparr>db_players := map (moves es now) (db_players s)\<rparr>"
  using assms(2)
proof (induction es arbitrary: s)
  case (Cons e es)
  have "unique_docs pl_id (db_players (writePosition M now e s))"
    using Cons.prems by (simp add: writePosition_eq [OF assms(1)] unique_docs_map)
  from Cons.IH [OF this] Cons.prems show ?case
    by (simp add: writePosition_eq [OF assms(1)] comp_def if_distrib cong: if_cong)
qed (simp add: moves_def)

lemma moves_other:
  "\<forall>e\<in>set es. \<not> (pe_playerId e = pl_id p \<and> pe_epoch e = pl_epoch p) \<Longrightarrow> moves es now p = p"
  by (induction es) auto

lemma moved_worlds:
  assumes "player_moved p q" "w' \<in> set (pl_worlds q)"
  obtains w where "w \<in> set (pl_worlds p)" "wo_instanceCode w' = wo_instanceCode w" "wo_positionSeq w \<le> wo_positionSeq w'"
proof -
  from assms obtain w where "w \<in> set (pl_worlds p)" "world_moved w w'"
    by (force simp: player_moved_def in_set_conv_nth list_all2_conv_all_nth)
  then show ?thesis by (intro that [of w]) (auto simp: world_moved_def)
qed

lemma first_world_newest:
  assumes "distinct (map wo_instanceCode ws)"
    and "w \<in> set (first_world (older e) (\<lambda>w. w\<lparr>wo_position := x, wo_positionSeq := jint (jget (pe_position e) ''seq'')\<rparr>) ws)"
    and "wo_instanceCode w = pe_instanceCode e"
  shows "jint (jget (pe_position e) ''seq'') \<le> wo_positionSeq w"
  using assms
proof (induction ws)
  case (Cons v ws)
  then show ?case by (force simp: older_def split: if_splits)
qed simp

lemma moves_newest:
  assumes "distinct (map wo_instanceCode (pl_worlds p))" "e \<in> set es" "pe_playerId e = pl_id p" "pe_epoch e = pl_epoch p"
    and "w \<in> set (pl_worlds (moves es now p))" "wo_instanceCode w = pe_instanceCode e"
  shows "jint (jget (pe_position e) ''seq'') \<le> wo_positionSeq w"
  using assms
proof (induction es arbitrary: p)
  case (Cons d es)
  have codes: "map wo_instanceCode (first_world P f ws) = map wo_instanceCode ws"
    if "\<And>w. wo_instanceCode (f w) = wo_instanceCode w" for P f ws
    using that by (induction ws) auto
  let ?p = "if pl_id p = pe_playerId d \<and> pl_epoch p = pe_epoch d then placed d now p else p"
  show ?case
  proof (cases "e \<in> set es")
    case True
    have "distinct (map wo_instanceCode (pl_worlds ?p))"
      using Cons.prems(1) by (simp add: placed_def codes)
    with True Cons.prems show ?thesis by (intro Cons.IH [of ?p]) auto
  next
    case False
    then have d: "d = e" using Cons.prems(2) by simp
    then have w: "w \<in> set (pl_worlds (moves es now (placed e now p)))" using Cons.prems(3-5) by simp
    obtain w0 where "w0 \<in> set (pl_worlds (placed e now p))" "wo_instanceCode w = wo_instanceCode w0"
      "wo_positionSeq w0 \<le> wo_positionSeq w"
      using moved_worlds [OF moves_moved w] by metis
    with Cons.prems(1,6) show ?thesis
      using first_world_newest [of "pl_worlds p" w0 e "positionOf (pe_position e) now"] by (simp add: placed_def)
  qed
qed simp


definition sample_entry :: position_entry where
  "sample_entry = \<lparr>pe_playerId = pid1, pe_epoch = 1, pe_instanceCode = ''w1'',
     pe_position = Obj [(''mapCode'', Str ''m2''), (''x'', JInt 8), (''y'', JInt 9), (''seq'', JInt 11)]\<rparr>"


end
