(* ===== verification/WorldDrops.thy ===== *)
theory WorldDrops imports PlayerState begin

text \<open>
  The world drop records of \<open>src/projects/cyberia/player/world-drops.js\<close>: what a drop creates, what a
  pickup claims and what a world restores at boot. A record is public until one pickup claims it or
  its time ends. Its bounds are those of \<open>LIMITS\<close>, which the file repeats.
\<close>

section \<open>Operations\<close>

definition worldDropDefect :: "js \<Rightarrow> string" where
  "worldDropDefect dr =
     (if \<not> isText (jget dr ''mapCode'') \<or> \<not> isText (jget dr ''itemId'') then ''drop without map or item''
      else if \<not> short_string (jget dr ''olCid'') then ''bad drop olCid''
      else if \<not> isFinite (jget dr ''x'') \<or> \<not> isFinite (jget dr ''y'')
        \<or> jrat (jget dr ''x'') < 0 \<or> jrat (jget dr ''y'') < 0 then ''bad drop position''
      else if \<not> isInteger (jget dr ''quantity'') \<or> jint (jget dr ''quantity'') < 1
        \<or> 4294967295 < jint (jget dr ''quantity'') then ''bad drop quantity''
      else if \<not> isInteger (jget dr ''lifetimeMs'') \<or> jint (jget dr ''lifetimeMs'') < 1
        \<or> WORLD_DROP_MAX_LIFETIME_MS < jint (jget dr ''lifetimeMs'') then ''bad drop lifetime''
      else '''')"

definition new_drop :: "ms \<Rightarrow> string \<Rightarrow> string \<Rightarrow> oid \<Rightarrow> js \<Rightarrow> world_drop" where
  "new_drop now dropId instanceCode owner dr = \<lparr>wd_dropId = dropId, wd_instanceCode = instanceCode,
     wd_mapCode = jstr (jget dr ''mapCode''), wd_x = jrat (jget dr ''x''), wd_y = jrat (jget dr ''y''),
     wd_itemId = jstr (jget dr ''itemId''), wd_olCid = jstr (jget dr ''olCid''),
     wd_quantity = jint (jget dr ''quantity''), wd_owner = owner, wd_status = Public,
     wd_claimedBy = None, wd_claimedAt = None, wd_expiresAt = now + jint (jget dr ''lifetimeMs'')\<rparr>"

definition createWorldDrop :: "mongo \<Rightarrow> ms \<Rightarrow> string \<Rightarrow> string \<Rightarrow> oid \<Rightarrow> js \<Rightarrow> (db, unit) work" where
  "createWorldDrop M now dropId instanceCode owner dr = writeW (\<lambda>s.
     bindE (drv_create (mg_drops M) [new_drop now dropId instanceCode owner dr] (db_drops s))
       (\<lambda>c. Inr (s\<lparr>db_drops := c\<rparr>)))"

text \<open>The records on the ground of a world: public and not expired.\<close>

definition on_ground :: "ms \<Rightarrow> string \<Rightarrow> world_drop \<Rightarrow> bool" where
  "on_ground now instanceCode d \<longleftrightarrow> wd_instanceCode d = instanceCode \<and> wd_status d = Public
     \<and> now < wd_expiresAt d"

definition claimed_by :: "oid \<Rightarrow> ms \<Rightarrow> world_drop \<Rightarrow> world_drop" where
  "claimed_by collector now d = d\<lparr>wd_status := Claimed, wd_claimedBy := Some collector, wd_claimedAt := Some now\<rparr>"

definition claimWorldDrop :: "mongo \<Rightarrow> ms \<Rightarrow> string \<Rightarrow> string \<Rightarrow> oid \<Rightarrow> (db, bool) work" where
  "claimWorldDrop M now dropId instanceCode collector s =
     (case drv_update_one (mg_drops M) (\<lambda>d. wd_dropId d = dropId \<and> on_ground now instanceCode d)
        (claimed_by collector now) (db_drops s) of
      (_, modifiedCount, c) \<Rightarrow> (Inr (modifiedCount = 1), s\<lparr>db_drops := c\<rparr>))"

record wire_drop =
  wr_dropId :: string
  wr_mapCode :: string
  wr_x :: rat
  wr_y :: rat
  wr_itemId :: string
  wr_olCid :: string
  wr_quantity :: int
  wr_ownerPlayerId :: string
  wr_expiresAtMs :: ms

definition wireDrop :: "world_drop \<Rightarrow> wire_drop" where
  "wireDrop d = \<lparr>wr_dropId = wd_dropId d, wr_mapCode = wd_mapCode d, wr_x = wd_x d, wr_y = wd_y d,
     wr_itemId = wd_itemId d, wr_olCid = wd_olCid d, wr_quantity = wd_quantity d,
     wr_ownerPlayerId = wd_owner d, wr_expiresAtMs = wd_expiresAt d\<rparr>"

definition listWorldDrops :: "mongo \<Rightarrow> ms \<Rightarrow> js \<Rightarrow> db \<Rightarrow> wire_drop list" where
  "listWorldDrops M now instanceCode s =
     (if \<not> isText instanceCode then []
      else map wireDrop (drv_find (mg_drops M) (on_ground now (jstr instanceCode)) (db_drops s)))"

section \<open>What they do\<close>

lemma new_drop_fields [simp]:
  "wd_dropId (new_drop now dropId code owner dr) = dropId"
  "wd_instanceCode (new_drop now dropId code owner dr) = code"
  "wd_status (new_drop now dropId code owner dr) = Public"
  "wd_quantity (new_drop now dropId code owner dr) = jint (jget dr ''quantity'')"
  "wd_itemId (new_drop now dropId code owner dr) = jstr (jget dr ''itemId'')"
  by (simp_all add: new_drop_def)

lemma claimed_by_fields [simp]:
  "wd_dropId (claimed_by collector now d) = wd_dropId d" "wd_status (claimed_by collector now d) = Claimed"
  "wd_instanceCode (claimed_by collector now d) = wd_instanceCode d"
  by (simp_all add: claimed_by_def)

lemma claimed_by_other: "on_ground now code d \<Longrightarrow> claimed_by collector now d \<noteq> d"
  by (metis claimed_by_fields(2) drop_status.distinct(1) on_ground_def)

lemma worldDropDefect_schema:
  assumes "worldDropDefect dr = ''''" "dropId \<noteq> ''''" "code \<noteq> ''''"
  shows "world_drop_schema (new_drop now dropId code owner dr)"
  using assms
  by (auto simp: worldDropDefect_def world_drop_schema_def new_drop_def split: if_splits elim!: isText.elims)

text \<open>A claim answers true exactly when the record was on the ground, and takes it off the ground.\<close>

lemma claimWorldDrop_eq:
  assumes M: "lawful_mongo M" and u: "unique_db s"
  shows "claimWorldDrop M now dropId code collector s =
    (Inr (\<exists>d\<in>set (db_drops s). wd_dropId d = dropId \<and> on_ground now code d),
     s\<lparr>db_drops := map (\<lambda>d. if wd_dropId d = dropId \<and> on_ground now code d then claimed_by collector now d else d)
        (db_drops s)\<rparr>)"
proof -
  note D = lawful_mongoD(4) [OF M]
  let ?P = "\<lambda>d. wd_dropId d = dropId \<and> on_ground now code d"
  have "snd (snd (drv_update_one (mg_drops M) ?P (claimed_by collector now) (db_drops s)))
      = map (\<lambda>d. if ?P d then claimed_by collector now d else d) (db_drops s)"
    using u by (intro collection.update_one_unique [OF D, where k = dropId]) (simp_all add: unique_db_def)
  moreover have "fst (snd (drv_update_one (mg_drops M) ?P (claimed_by collector now) (db_drops s)))
      = (if \<exists>d\<in>set (db_drops s). ?P d then 1 else 0)"
    using claimed_by_other by (intro collection.update_one_modified [OF D]) blast
  ultimately show ?thesis
    by (auto simp: claimWorldDrop_def split: prod.splits if_splits)
qed

lemma claimWorldDrop_fails:
  assumes "lawful_mongo M" "unique_db s" "claimWorldDrop M now dropId code collector s = (Inr False, t)"
  shows "t = s"
proof -
  have "map (\<lambda>d. if wd_dropId d = dropId \<and> on_ground now code d then claimed_by collector now d else d)
      (db_drops s) = db_drops s"
    using assms by (intro map_if_none) (auto simp: claimWorldDrop_eq)
  then show ?thesis using assms by (simp add: claimWorldDrop_eq)
qed

lemma unique_db_drops:
  "unique_db s \<Longrightarrow> (\<And>d. d \<in> set (db_drops s) \<Longrightarrow> wd_dropId (f d) = wd_dropId d) \<Longrightarrow>
   unique_db (s\<lparr>db_drops := map f (db_drops s)\<rparr>)"
  by (simp add: unique_db_def unique_docs_map)

text \<open>A drop a claim took is claimed for good: no record of its id is on the ground of any world again.\<close>

lemma claimed_for_good:
  assumes "lawful_mongo M" "unique_db s" "claimWorldDrop M now dropId code collector s = (Inr True, t)"
  shows "\<forall>e\<in>set (db_drops t). wd_dropId e = dropId \<longrightarrow> wd_status e = Claimed"
    and "\<exists>d\<in>set (db_drops s). wd_dropId d = dropId \<and> on_ground now code d \<and> claimed_by collector now d \<in> set (db_drops t)"
proof -
  let ?f = "\<lambda>d. if wd_dropId d = dropId \<and> on_ground now code d then claimed_by collector now d else d"
  have ex: "\<exists>d\<in>set (db_drops s). wd_dropId d = dropId \<and> on_ground now code d"
    and t: "t = s\<lparr>db_drops := map ?f (db_drops s)\<rparr>"
    using assms by (auto simp: claimWorldDrop_eq)
  then obtain d where d: "d \<in> set (db_drops s)" "wd_dropId d = dropId" "on_ground now code d" by blast
  show "\<forall>e\<in>set (db_drops t). wd_dropId e = dropId \<longrightarrow> wd_status e = Claimed"
  proof (intro ballI impI)
    fix e assume "e \<in> set (db_drops t)" and dropId: "wd_dropId e = dropId"
    then have "e \<in> ?f ` set (db_drops s)" by (simp add: t)
    then obtain x where x: "x \<in> set (db_drops s)" "e = ?f x" by (elim imageE)
    have "wd_dropId x = dropId" using x(2) dropId by (simp split: if_splits)
    then have "x = d" using assms(2) x(1) d by (intro unique_docs_eq [of wd_dropId "db_drops s"]) (simp_all add: unique_db_def)
    with x(2) d show "wd_status e = Claimed" by simp
  qed
  have "claimed_by collector now d \<in> set (db_drops t)"
    using d by (auto simp: t image_iff)
  with d show "\<exists>d\<in>set (db_drops s). wd_dropId d = dropId \<and> on_ground now code d \<and> claimed_by collector now d \<in> set (db_drops t)"
    by blast
qed

lemma claimed_not_listed:
  assumes "lawful_mongo M" "\<forall>e\<in>set (db_drops t). wd_dropId e = dropId \<longrightarrow> wd_status e = Claimed"
  shows "dropId \<notin> wr_dropId ` set (listWorldDrops M now code t)"
  using assms(2) collection.find_docs [OF lawful_mongoD(4) [OF assms(1)]]
  by (auto simp: listWorldDrops_def wireDrop_def on_ground_def)

end
