(* ===== verification/Market.thy ===== *)
theory Market imports PlayerState begin

text \<open>
  The listings and claims of \<open>src/projects/cyberia/player/market.js\<close>: the check of a market operation,
  the operation of each kind in the transaction of its joint commit, and the settlement of a listing
  that ended. \<open>newId\<close> is the ObjectId the driver gives a listing it creates.

  A listing the code identifies by \<open>_id\<close> is \<open>li_id\<close>; a claim is identified by its unique \<open>claimId\<close>.
  \<open>findOneAndUpdate\<close> is the find and the update of the same filter, which names a listing by its
  unique id. The bounds of the checks are those of \<open>LIMITS\<close>, which the file repeats.
\<close>

section \<open>Checks\<close>

definition MARKET_KINDS :: "string list" where
  "MARKET_KINDS = filter (\<lambda>kind. take 7 kind = ''market_'') ECONOMY_OPERATION_KINDS"

record market_refusals =
  gone :: string
  changed :: string
  bidLow :: string
  full :: string
  claimGone :: string
  closed :: string
  marketChanged :: string
  terms :: string

definition MARKET_REFUSALS :: market_refusals where
  "MARKET_REFUSALS = \<lparr>gone = ''listing_gone'', changed = ''listing_changed'', bidLow = ''bid_low'',
     full = ''market_full'', claimGone = ''claim_gone'', closed = ''market_closed'',
     marketChanged = ''market_changed'', terms = ''terms_refused''\<rparr>"

definition isPrice :: "js \<Rightarrow> bool" where
  "isPrice value \<longleftrightarrow> isCount value (uint32 LIMITS) \<and> 1 \<le> jint value"

definition isStack :: "js \<Rightarrow> bool" where
  "isStack v \<longleftrightarrow> isText (jget v ''itemId'') \<and> short_string (jget v ''olCid'')
     \<and> isCount (jget v ''quantity'') (uint32 LIMITS) \<and> 1 \<le> jint (jget v ''quantity'')"

definition isHours :: "int list \<Rightarrow> js \<Rightarrow> bool" where
  "isHours hours v \<longleftrightarrow> isInteger v \<and> jint v \<in> set hours"

definition marketOpDefect :: "string \<Rightarrow> js \<Rightarrow> string" where
  "marketOpDefect kind market =
     (if \<not> isText (jget market ''marketCode'') then ''bad market''
      else if kind = ''market_list'' then
        (if \<not> oneOf MARKET_MODES (jget market ''mode'') \<or> \<not> isStack market then ''bad listing stack or mode''
         else if \<not> isPrice (jget market ''price'') \<or> \<not> isHours MARKET_HOURS (jget market ''hours'') then ''bad price or hours''
         else if isCount (jget market ''listingFee'') (uint32 LIMITS) \<and> isCount (jget market ''saleFee'') (uint32 LIMITS)
         then '''' else ''bad fees'')
      else if kind = ''market_cancel'' then
        (if isText (jget market ''listingId'') \<and> isStack market then '''' else ''bad cancel'')
      else if kind = ''market_buy'' then
        (if isText (jget market ''listingId'') \<and> isStack market \<and> isPrice (jget market ''price'') then '''' else ''bad buy'')
      else if kind = ''market_bid'' then
        (if isText (jget market ''listingId'') \<and> isPrice (jget market ''price'') then '''' else ''bad bid'')
      else if kind = ''market_collect'' then
        (if \<not> isArray (jget market ''claimIds'') \<or> length (jarr (jget market ''claimIds'')) < 1
            \<or> MARKET_PAGE < length (jarr (jget market ''claimIds'')) then ''bad claims''
         else if \<not> list_all isText (jarr (jget market ''claimIds''))
            \<or> \<not> distinct (map jstr (jarr (jget market ''claimIds''))) then ''bad claims''
         else if isCount (jget market ''coins'') (uint32 LIMITS) \<and> list_all isStack (jarr (jget market ''stacks''))
         then '''' else ''bad claim goods'')
      else ''bad market kind'')"

section \<open>Terms\<close>

definition purgeDate :: "ms \<Rightarrow> ms" where
  "purgeDate now = now + MARKET_RECORD_DAYS * 86400000"

definition proceeds :: "int \<Rightarrow> int \<Rightarrow> error + int" where
  "proceeds price saleFee =
     (if price < saleFee then Inl (plain_error (''sale fee '' @ int_string saleFee @ '' above price '' @ int_string price))
      else Inr (price - saleFee))"

definition findProfile :: "mongo \<Rightarrow> string \<Rightarrow> db \<Rightarrow> market_profile option" where
  "findProfile M code s = drv_find_one (mg_markets M) (\<lambda>p. mk_code p = code) (db_markets s)"

text \<open>\<open>scopeKeyOf\<close> of \<open>economy/market-profile.js\<close>.\<close>

definition scopeKeyOf :: "mongo \<Rightarrow> db \<Rightarrow> string \<Rightarrow> string \<Rightarrow> string" where
  "scopeKeyOf M s scope instanceCode =
     (if scope = ''universe'' then universeCodeOf M s instanceCode else instanceCode)"

definition listingRefusal :: "mongo \<Rightarrow> js \<Rightarrow> db \<Rightarrow> string" where
  "listingRefusal M listingId s =
     (if drv_find_one (mg_listings M) (\<lambda>l. Str (li_listingId l) = listingId \<and> li_status l = Open) (db_listings s) \<noteq> None
      then changed MARKET_REFUSALS else gone MARKET_REFUSALS)"

definition listingTermsRefusal :: "market_profile option \<Rightarrow> js \<Rightarrow> string" where
  "listingTermsRefusal profile market =
     (case profile of
        None \<Rightarrow> closed MARKET_REFUSALS
      | Some p \<Rightarrow>
          if mk_status p \<noteq> ''active'' then closed MARKET_REFUSALS
          else if JInt (mk_listingFee p) \<noteq> jget market ''listingFee'' \<or> JInt (mk_saleFee p) \<noteq> jget market ''saleFee''
            then marketChanged MARKET_REFUSALS
          else if \<not> oneOf (mk_modes p) (jget market ''mode'') \<or> \<not> isHours (mk_hours p) (jget market ''hours'')
            then terms MARKET_REFUSALS
          else if jint (jget market ''price'') < mk_priceMin p \<or> mk_priceMax p < jint (jget market ''price'')
            then terms MARKET_REFUSALS
          else '''')"

text \<open>The stack a claim carries is the one asked for: \<open>sameStack\<close>.\<close>

definition sameStack :: "js \<Rightarrow> claim \<Rightarrow> bool" where
  "sameStack a c \<longleftrightarrow> jget a ''itemId'' = Str (cl_itemId c) \<and> jget a ''olCid'' = Str (cl_olCid c)
     \<and> jget a ''quantity'' = JInt (cl_quantity c)"

section \<open>Operations\<close>

record market_op =
  mo_kind :: string
  mo_market :: js
  mo_operationId :: string
  mo_playerId :: oid
  mo_instanceCode :: string

text \<open>The filter \<open>open\<close>, and the filter \<open>...stack\<close>, on a listing.\<close>

definition is_open :: "ms \<Rightarrow> js \<Rightarrow> listing \<Rightarrow> bool" where
  "is_open now market l \<longleftrightarrow> Str (li_listingId l) = jget market ''listingId'' \<and> li_status l = Open
     \<and> JInt (li_revision l) = jget market ''revision'' \<and> now < li_endsAt l"

definition has_stack :: "js \<Rightarrow> listing \<Rightarrow> bool" where
  "has_stack market l \<longleftrightarrow> Str (li_itemId l) = jget market ''itemId'' \<and> Str (li_olCid l) = jget market ''olCid''
     \<and> JInt (li_quantity l) = jget market ''quantity''"

definition ended :: "ms \<Rightarrow> listing_status \<Rightarrow> oid option \<Rightarrow> listing \<Rightarrow> listing" where
  "ended now status buyer l = l\<lparr>li_status := status, li_buyer := buyer, li_settledAt := Some now,
     li_purgeAt := Some (purgeDate now), li_revision := li_revision l + 1\<rparr>"

definition new_listing :: "ms \<Rightarrow> oid \<Rightarrow> market_op \<Rightarrow> market_profile \<Rightarrow> string \<Rightarrow> listing" where
  "new_listing now newId op p scopeKey = (let market = mo_market op in
     \<lparr>li_id = newId, li_listingId = mo_operationId op, li_marketCode = mk_code p, li_scope = mk_scope p,
      li_scopeKey = scopeKey, li_instanceCode = mo_instanceCode op, li_seller = mo_playerId op,
      li_sellerName = jstr (jget market ''sellerName''), li_itemId = jstr (jget market ''itemId''),
      li_olCid = jstr (jget market ''olCid''), li_quantity = jint (jget market ''quantity''),
      li_mode = jstr (jget market ''mode''), li_price = jint (jget market ''price''), li_bid = 0, li_bidder = None,
      li_bids = 0, li_marketRevision = mk_revision p, li_listingFee = mk_listingFee p, li_saleFee = mk_saleFee p,
      li_raisePercent = mk_raisePercent p, li_minRaise = mk_minRaise p, li_priceMax = mk_priceMax p,
      li_status = Open, li_revision = 0, li_endsAt = now + jint (jget market ''hours'') * 3600000,
      li_buyer = None, li_settledAt = None, li_purgeAt = None\<rparr>)"

text \<open>A claim of the market of a listing, for coins or for the stack.\<close>

definition coin_claim :: "listing \<Rightarrow> string \<Rightarrow> oid \<Rightarrow> claim_reason \<Rightarrow> int \<Rightarrow> claim" where
  "coin_claim l cid player reason coins = \<lparr>cl_claimId = cid, cl_player = player, cl_listingId = li_listingId l,
     cl_marketCode = li_marketCode l, cl_scope = li_scope l, cl_scopeKey = li_scopeKey l, cl_reason = reason,
     cl_coins = coins, cl_itemId = '''', cl_olCid = '''', cl_quantity = 0, cl_status = Pending,
     cl_collectedAt = None, cl_purgeAt = None\<rparr>"

definition stack_claim :: "listing \<Rightarrow> string \<Rightarrow> oid \<Rightarrow> claim_reason \<Rightarrow> claim" where
  "stack_claim l cid player reason = (coin_claim l cid player reason 0)\<lparr>cl_itemId := li_itemId l,
     cl_olCid := li_olCid l, cl_quantity := li_quantity l\<rparr>"

definition createClaims :: "mongo \<Rightarrow> claim list \<Rightarrow> (db, unit) work" where
  "createClaims M cs = writeW (\<lambda>s. bindE (drv_create (mg_claims M) cs (db_claims s)) (\<lambda>c. Inr (s\<lparr>db_claims := c\<rparr>)))"

text \<open>An \<open>updateOne\<close> on the listings: the count it changed.\<close>

definition updateListing :: "mongo \<Rightarrow> (listing \<Rightarrow> bool) \<Rightarrow> (listing \<Rightarrow> listing) \<Rightarrow> (db, nat) work" where
  "updateListing M P f s =
     (case drv_update_one (mg_listings M) P f (db_listings s) of (_, n, c) \<Rightarrow> (Inr n, s\<lparr>db_listings := c\<rparr>))"

definition market_list :: "mongo \<Rightarrow> ms \<Rightarrow> oid \<Rightarrow> market_op \<Rightarrow> (db, string) work" where
  "market_list M now newId op s =
     (let market = mo_market op; profile = findProfile M (jstr (jget market ''marketCode'')) s;
          refusal = listingTermsRefusal profile market in
      if refusal \<noteq> '''' then (Inr refusal, s)
      else let p = the profile; scopeKey = scopeKeyOf M s (mk_scope p) (mo_instanceCode op) in
        if scopeKey = '''' then (Inr (closed MARKET_REFUSALS), s)
        else if mk_listingsPerPlayer p \<le> int (length (drv_find (mg_listings M)
            (\<lambda>l. li_marketCode l = mk_code p \<and> li_scope l = mk_scope p \<and> li_scopeKey l = scopeKey
               \<and> li_seller l = mo_playerId op \<and> li_status l = Open) (db_listings s)))
          then (Inr (full MARKET_REFUSALS), s)
        else bindW (writeW (\<lambda>s. bindE (drv_create (mg_listings M) [new_listing now newId op p scopeKey] (db_listings s))
            (\<lambda>c. Inr (s\<lparr>db_listings := c\<rparr>)))) (\<lambda>_. retW '''') s)"

definition market_cancel :: "mongo \<Rightarrow> ms \<Rightarrow> market_op \<Rightarrow> (db, string) work" where
  "market_cancel M now op = (let market = mo_market op in
     bindW (updateListing M (\<lambda>l. is_open now market l \<and> li_seller l = mo_playerId op \<and> li_bids l = 0
           \<and> has_stack market l) (\<lambda>l. ended now Cancelled (li_buyer l) l))
       (\<lambda>modifiedCount s. (Inr (if modifiedCount = 1 then '''' else listingRefusal M (jget market ''listingId'') s), s)))"

definition market_buy :: "mongo \<Rightarrow> ms \<Rightarrow> market_op \<Rightarrow> (db, string) work" where
  "market_buy M now op s = (let market = mo_market op;
       P = (\<lambda>l. is_open now market l \<and> li_mode l = ''fixed'' \<and> JInt (li_price l) = jget market ''price''
              \<and> li_seller l \<noteq> mo_playerId op \<and> has_stack market l) in
     case drv_find_one (mg_listings M) P (db_listings s) of
       None \<Rightarrow> (Inr (listingRefusal M (jget market ''listingId'') s), s)
     | Some sold \<Rightarrow>
         bindW (updateListing M P (ended now Sold (Some (mo_playerId op)))) (\<lambda>_ s.
           (case proceeds (li_price sold) (li_saleFee sold) of
              Inl e \<Rightarrow> (Inl e, s)
            | Inr coins \<Rightarrow> bindW (createClaims M [coin_claim sold (li_listingId sold @ '':sale'') (li_seller sold) Sale coins])
                (\<lambda>_. retW '''') s)) s)"

definition market_bid :: "mongo \<Rightarrow> ms \<Rightarrow> market_op \<Rightarrow> (db, string) work" where
  "market_bid M now op s = (let market = mo_market op; price = jint (jget market ''price'') in
     case drv_find_one (mg_listings M) (\<lambda>l. is_open now market l \<and> li_mode l = ''auction''
            \<and> li_seller l \<noteq> mo_playerId op) (db_listings s) of
       None \<Rightarrow> (Inr (listingRefusal M (jget market ''listingId'') s), s)
     | Some l \<Rightarrow>
         if li_priceMax l < price then (Inr (terms MARKET_REFUSALS), s)
         else if price < minBid (li_price l) (li_bid l) (li_raisePercent l) (li_minRaise l)
           then (Inr (bidLow MARKET_REFUSALS), s)
         else bindW (updateListing M (\<lambda>k. li_id k = li_id l \<and> li_revision k = li_revision l)
             (\<lambda>k. k\<lparr>li_bid := price, li_bidder := Some (mo_playerId op), li_bids := li_bids k + 1,
                    li_revision := li_revision k + 1\<rparr>))
           (\<lambda>modifiedCount. if modifiedCount \<noteq> 1 then retW (changed MARKET_REFUSALS)
             else case li_bidder l of None \<Rightarrow> retW ''''
               | Some bidder \<Rightarrow> bindW (createClaims M [coin_claim l
                    (li_listingId l @ '':outbid:'' @ int_string (li_revision l)) bidder Outbid (li_bid l)])
                  (\<lambda>_. retW '''')) s)"

definition market_collect :: "mongo \<Rightarrow> ms \<Rightarrow> market_op \<Rightarrow> (db, string) work" where
  "market_collect M now op s = (let market = mo_market op; claimIds = map jstr (jarr (jget market ''claimIds''));
       claims = drv_find (mg_claims M) (\<lambda>c. cl_claimId c \<in> set claimIds \<and> cl_player c = mo_playerId op
            \<and> cl_status c = Pending) (db_claims s);
       stacks = filter (\<lambda>c. 0 < cl_quantity c) claims; asked = jarr (jget market ''stacks'') in
     if length claims \<noteq> length claimIds \<or> JInt (sum_list (map cl_coins claims)) \<noteq> jget market ''coins''
        \<or> length stacks \<noteq> length asked \<or> \<not> list_all (\<lambda>c. list_ex (\<lambda>st. sameStack st c) asked) stacks
     then (Inr (claimGone MARKET_REFUSALS), s)
     else (Inr '''', s\<lparr>db_claims := drv_update_many (mg_claims M) (\<lambda>c. cl_claimId c \<in> set (map cl_claimId claims))
        (\<lambda>c. c\<lparr>cl_status := Collected, cl_collectedAt := Some now, cl_purgeAt := Some (purgeDate now)\<rparr>) (db_claims s)\<rparr>))"

definition applyMarketOp :: "mongo \<Rightarrow> ms \<Rightarrow> oid \<Rightarrow> market_op \<Rightarrow> (db, string) work" where
  "applyMarketOp M now newId op =
     (if mo_kind op = ''market_list'' then market_list M now newId op
      else if mo_kind op = ''market_cancel'' then market_cancel M now op
      else if mo_kind op = ''market_buy'' then market_buy M now op
      else if mo_kind op = ''market_bid'' then market_bid M now op
      else if mo_kind op = ''market_collect'' then market_collect M now op
      else retW (gone MARKET_REFUSALS))"

section \<open>Settlement\<close>

definition settle_claims :: "listing \<Rightarrow> error + claim list" where
  "settle_claims l =
     (case li_bidder l of
        Some bidder \<Rightarrow> (if li_mode l = ''auction''
          then bindE (proceeds (li_bid l) (li_saleFee l)) (\<lambda>coins. Inr
            [stack_claim l (li_listingId l @ '':won'') bidder Won,
             coin_claim l (li_listingId l @ '':sale'') (li_seller l) Sale coins])
          else Inr [stack_claim l (li_listingId l @ '':unsold'') (li_seller l) Unsold])
      | None \<Rightarrow> Inr [stack_claim l (li_listingId l @ '':unsold'') (li_seller l) Unsold])"

definition is_won :: "listing \<Rightarrow> bool" where
  "is_won l \<longleftrightarrow> li_mode l = ''auction'' \<and> li_bidder l \<noteq> None"

definition settleWork :: "mongo \<Rightarrow> ms \<Rightarrow> listing \<Rightarrow> (db, unit) work" where
  "settleWork M now l =
     bindW (updateListing M (\<lambda>k. li_id k = li_id l \<and> li_status k = Open \<and> li_revision k = li_revision l
           \<and> li_endsAt k \<le> now)
         (ended now (if is_won l then Sold else Expired) (if is_won l then li_bidder l else None)))
       (\<lambda>modifiedCount. if modifiedCount \<noteq> 1 then retW ()
         else (\<lambda>s. case settle_claims l of Inl e \<Rightarrow> (Inl e, s) | Inr cs \<Rightarrow> createClaims M cs s))"

definition settleListing :: "mongo \<Rightarrow> ms \<Rightarrow> attempt list \<Rightarrow> listing \<Rightarrow> (db, unit) work" where
  "settleListing M now as l = runTransaction as (settleWork M now l)"

text \<open>One page, and a round. The result of a sorted find is its documents in that order.\<close>

definition SETTLE_PAGES :: nat where "SETTLE_PAGES = 5"

definition settleDue :: "mongo \<Rightarrow> ms \<Rightarrow> (listing \<Rightarrow> bool) \<Rightarrow> (db, nat) work" where
  "settleDue M now P s =
     (let due = take MARKET_PAGE (sort_key li_endsAt (drv_find (mg_listings M)
           (\<lambda>l. P l \<and> li_status l = Open \<and> li_endsAt l \<le> now) (db_listings s)))
      in bindW (eachW (settleListing M now []) due) (\<lambda>_. retW (length due)) s)"

fun settle_pages :: "mongo \<Rightarrow> ms \<Rightarrow> nat \<Rightarrow> nat \<Rightarrow> (db, nat) work" where
  "settle_pages M now 0 settled = retW settled"
| "settle_pages M now (Suc pages) settled = bindW (settleDue M now (\<lambda>_. True))
     (\<lambda>count. if count < MARKET_PAGE then retW (settled + count) else settle_pages M now pages (settled + count))"

definition settleEnded :: "mongo \<Rightarrow> ms \<Rightarrow> (db, nat) work" where
  "settleEnded M now = settle_pages M now SETTLE_PAGES 0"

end
