(* ===== verification/MarketSafety.thy ===== *)
theory MarketSafety imports Market begin

text \<open>
  What keeps the market sound: the invariant of its listings and claims, the effect of an operation
  on every branch, and the proofs that no accepted operation meets a duplicate claim or a failed
  schema, that a refusal writes nothing, and that every coin and stack is accounted for.
\<close>

section \<open>Claim ids\<close>

text \<open>The id of a claim names its listing, its reason and, for an outbid claim, the revision.\<close>

fun claim_id :: "string \<Rightarrow> claim_reason \<Rightarrow> int \<Rightarrow> string" where
  "claim_id lid Sale n = lid @ '':sale''"
| "claim_id lid Won n = lid @ '':won''"
| "claim_id lid Unsold n = lid @ '':unsold''"
| "claim_id lid Outbid n = lid @ '':outbid:'' @ int_string n"

fun claim_tail :: "claim_reason \<Rightarrow> int \<Rightarrow> string" where
  "claim_tail Sale n = ''sale''"
| "claim_tail Won n = ''won''"
| "claim_tail Unsold n = ''unsold''"
| "claim_tail Outbid n = int_string n"

definition claim_head :: "string \<Rightarrow> claim_reason \<Rightarrow> string" where
  "claim_head lid reason = (if reason = Outbid then lid @ '':outbid'' else lid)"

lemma claim_id_split: "claim_id lid reason n = claim_head lid reason @ CHR '':'' # claim_tail reason n"
  by (cases reason) (simp_all add: claim_head_def)

lemma int_string_nat: "0 \<le> n \<Longrightarrow> int_string n = nat_string (nat n)"
  by (simp add: int_string_def)

lemma claim_tail_no_colon: "0 \<le> n \<Longrightarrow> CHR '':'' \<notin> set (claim_tail reason n)"
  by (cases reason) (auto simp: int_string_nat dest: colon_no_digit [OF nat_string_digits, THEN notE])

lemma not_digits: "0 \<le> n \<Longrightarrow> \<not> is_digit c \<Longrightarrow> c \<in> set cs \<Longrightarrow> int_string n \<noteq> cs"
  using nat_string_digits by (auto simp: int_string_nat)

lemma claim_tail_inj:
  assumes "claim_tail r m = claim_tail q n" "0 \<le> m" "0 \<le> n"
  shows "r = q \<and> (r = Outbid \<longrightarrow> m = n)"
proof -
  have word: "int_string i \<noteq> ''sale''" "int_string i \<noteq> ''won''" "int_string i \<noteq> ''unsold''" if "0 \<le> i" for i
    using that not_digits [of i "CHR ''s''" "''sale''"] not_digits [of i "CHR ''w''" "''won''"]
      not_digits [of i "CHR ''u''" "''unsold''"] by (simp_all add: is_digit_def)
  show ?thesis
    using assms word [of m] word [of n] nat_string_inj [of "nat m" "nat n"]
    by (cases r; cases q) (auto simp: int_string_nat)
qed

text \<open>Two claims with one id are of the same listing, reason and revision.\<close>

lemma claim_id_inj:
  assumes "claim_id a r m = claim_id b q n" "0 \<le> m" "0 \<le> n"
  shows "a = b \<and> r = q \<and> (r = Outbid \<longrightarrow> m = n)"
proof -
  have "claim_head a r @ CHR '':'' # claim_tail r m = claim_head b q @ CHR '':'' # claim_tail q n"
    using assms(1) by (simp only: claim_id_split)
  from append_colon_unique [OF this claim_tail_no_colon [OF assms(2)] claim_tail_no_colon [OF assms(3)]]
  have h: "claim_head a r = claim_head b q" and t: "claim_tail r m = claim_tail q n" by simp_all
  from claim_tail_inj [OF t assms(2,3)] h show ?thesis by (simp add: claim_head_def split: if_splits)
qed

declare claim_id.simps [simp del]

section \<open>The invariant\<close>

definition profile_ok :: "market_profile \<Rightarrow> bool" where
  "profile_ok p \<longleftrightarrow> mk_code p \<noteq> '''' \<and> mk_scope p \<in> set MARKET_SCOPES \<and> 0 \<le> mk_revision p
     \<and> 1 \<le> mk_raisePercent p \<and> 1 \<le> mk_minRaise p \<and> 0 \<le> mk_listingFee p \<and> 0 \<le> mk_saleFee p
     \<and> mk_saleFee p \<le> mk_priceMin p \<and> 1 \<le> mk_priceMax p"

definition listing_ok :: "listing \<Rightarrow> bool" where
  "listing_ok l \<longleftrightarrow> listing_schema l \<and> li_saleFee l \<le> li_price l \<and> 0 \<le> li_revision l \<and> 0 \<le> li_bids l
     \<and> (case li_bidder l of None \<Rightarrow> li_bid l = 0 \<and> li_bids l = 0
        | Some b \<Rightarrow> b \<noteq> li_seller l \<and> li_mode l = ''auction'' \<and> li_price l \<le> li_bid l \<and> li_bid l \<le> li_priceMax l \<and> 1 \<le> li_bids l)
     \<and> (li_purgeAt l = None \<longleftrightarrow> li_status l = Open)"

definition claim_ok :: "claim \<Rightarrow> bool" where
  "claim_ok c \<longleftrightarrow> claim_schema c \<and> (\<exists>n\<ge>0. cl_claimId c = claim_id (cl_listingId c) (cl_reason c) n)
     \<and> (cl_purgeAt c = None \<longleftrightarrow> cl_status c = Pending)"

text \<open>An open listing owes nothing yet but the bids that were passed before its revision.\<close>

definition owes_only_passed :: "listing \<Rightarrow> claim list \<Rightarrow> bool" where
  "owes_only_passed l cs \<longleftrightarrow> (\<forall>c\<in>set cs. cl_listingId c = li_listingId l \<longrightarrow>
     (\<exists>n. 0 \<le> n \<and> n < li_revision l \<and> cl_claimId c = claim_id (li_listingId l) Outbid n))"

definition market_inv :: "db \<Rightarrow> bool" where
  "market_inv s \<longleftrightarrow> unique_db s \<and> distinct (map li_id (db_listings s))
     \<and> (\<forall>p\<in>set (db_markets s). profile_ok p)
     \<and> (\<forall>l\<in>set (db_listings s). listing_ok l) \<and> (\<forall>c\<in>set (db_claims s). claim_ok c)
     \<and> (\<forall>l\<in>set (db_listings s). li_status l = Open \<longrightarrow> owes_only_passed l (db_claims s))"

text \<open>Profiles are stored as \<open>resolveMarketProfile\<close> resolved them.\<close>

definition stored_profile :: "string \<Rightarrow> string \<Rightarrow> int \<Rightarrow> market_rules \<Rightarrow> market_profile" where
  "stored_profile code status revision r = \<lparr>mk_code = code, mk_status = status, mk_revision = revision,
     mk_scope = mr_scope r, mk_currencyCode = mr_currencyCode r, mk_modes = mr_modes r, mk_hours = mr_hours r,
     mk_raisePercent = block_int (mr_auction r) ''raisePercent'', mk_minRaise = block_int (mr_auction r) ''minRaise'',
     mk_listingFee = block_int (mr_fees r) ''listing'', mk_saleFee = block_int (mr_fees r) ''sale'',
     mk_priceMin = block_int (mr_limits r) ''priceMin'', mk_priceMax = block_int (mr_limits r) ''priceMax'',
     mk_listingsPerPlayer = block_int (mr_limits r) ''listingsPerPlayer''\<rparr>"

lemma stored_profile_ok:
  assumes "resolveMarketProfile input = Inr r" "code \<noteq> ''''" "0 \<le> revision"
  shows "profile_ok (stored_profile code status revision r)"
  using resolveMarketProfile_ok [OF assms(1)] assms(2,3)
  by (simp add: profile_ok_def stored_profile_def market_rules_ok_def)

section \<open>Writes on a unique collection\<close>

lemma updateListing_cases:
  assumes "lawful_mongo M" "\<And>l. f l \<noteq> l"
  obtains (none) "\<forall>l\<in>set (db_listings s). \<not> P l" "updateListing M P f s = (Inr 0, s)"
    | (one) i where "i < length (db_listings s)" "P (db_listings s ! i)"
      "updateListing M P f s = (Inr 1, s\<lparr>db_listings := (db_listings s)[i := f (db_listings s ! i)]\<rparr>)"
proof (cases "\<exists>l\<in>set (db_listings s). P l")
  case True
  from collection.update_one_some [OF lawful_mongoD(5) [OF assms(1)] True, of f] obtain i where
    "i < length (db_listings s)" "P (db_listings s ! i)" "drv_update_one (mg_listings M) P f (db_listings s)
       = (1, if f (db_listings s ! i) = db_listings s ! i then 0 else 1, (db_listings s)[i := f (db_listings s ! i)])"
    by blast
  then show ?thesis using assms(2) by (intro one [of i]) (simp_all add: updateListing_def)
next
  case False
  then have "drv_update_one (mg_listings M) P f (db_listings s) = (0, 0, db_listings s)"
    by (intro collection.update_one_none [OF lawful_mongoD(5) [OF assms(1)]]) simp
  with False show ?thesis by (intro none) (simp_all add: updateListing_def)
qed

lemma createClaims_ok:
  assumes "lawful_mongo M" "unique_docs cl_claimId (db_claims s @ cs)" "list_all claim_schema cs"
  shows "createClaims M cs s = (Inr (), s\<lparr>db_claims := db_claims s @ cs\<rparr>)"
  using collection.create_ok [OF lawful_mongoD(6) [OF assms(1)] assms(3,2)]
  by (simp add: createClaims_def writeW_def)

lemma proceeds_ok: "saleFee \<le> price \<Longrightarrow> proceeds price saleFee = Inr (price - saleFee)"
  by (simp add: proceeds_def)

lemma ended_fields [simp]:
  "li_id (ended now st b l) = li_id l" "li_listingId (ended now st b l) = li_listingId l"
  "li_status (ended now st b l) = st" "li_revision (ended now st b l) = li_revision l + 1"
  by (simp_all add: ended_def)

lemma ended_other [simp]: "ended now st b l \<noteq> l"
  by (metis ended_fields(4) add_cancel_right_right zero_neq_one)

lemma refusals_nonempty [simp]:
  "gone MARKET_REFUSALS \<noteq> ''''" "changed MARKET_REFUSALS \<noteq> ''''" "bidLow MARKET_REFUSALS \<noteq> ''''"
  "full MARKET_REFUSALS \<noteq> ''''" "claimGone MARKET_REFUSALS \<noteq> ''''" "closed MARKET_REFUSALS \<noteq> ''''"
  "marketChanged MARKET_REFUSALS \<noteq> ''''" "terms MARKET_REFUSALS \<noteq> ''''"
  by (simp_all add: MARKET_REFUSALS_def)

lemma listingRefusal_nonempty [simp]: "listingRefusal M v s \<noteq> ''''"
  by (simp add: listingRefusal_def)

lemma market_invD:
  assumes "market_inv s" "l \<in> set (db_listings s)"
  shows "listing_ok l" "li_status l = Open \<Longrightarrow> owes_only_passed l (db_claims s)"
  using assms by (simp_all add: market_inv_def)

lemma listing_same:
  assumes "market_inv s" "k \<in> set (db_listings s)" "l \<in> set (db_listings s)"
    and "li_listingId k = li_listingId l \<or> li_id k = li_id l"
  shows "k = l"
  using assms unique_docs_eq [of li_listingId "db_listings s" k l] distinct_map_eq [of li_id "db_listings s" k l]
  by (auto simp: market_inv_def unique_db_def)

text \<open>The claim an open listing is about to owe is not there yet.\<close>

lemma fresh_claim:
  assumes inv: "market_inv s" and l: "l \<in> set (db_listings s)" "li_status l = Open"
    and n: "0 \<le> n" "reason = Outbid \<Longrightarrow> li_revision l \<le> n"
  shows "claim_id (li_listingId l) reason n \<notin> cl_claimId ` set (db_claims s)"
proof
  assume "claim_id (li_listingId l) reason n \<in> cl_claimId ` set (db_claims s)"
  then obtain c where c: "c \<in> set (db_claims s)" "cl_claimId c = claim_id (li_listingId l) reason n" by auto
  with inv obtain m where "0 \<le> m" "cl_claimId c = claim_id (cl_listingId c) (cl_reason c) m"
    by (auto simp: market_inv_def claim_ok_def)
  then have "cl_listingId c = li_listingId l" using c(2) n(1) claim_id_inj by metis
  with market_invD(2) [OF inv l] c(1) obtain k where "0 \<le> k" "k < li_revision l"
    "cl_claimId c = claim_id (li_listingId l) Outbid k"
    by (auto simp: owes_only_passed_def)
  then show False using c(2) n claim_id_inj [of "li_listingId l" reason n "li_listingId l" Outbid k] by auto
qed

lemma unique_claims_append:
  assumes "market_inv s" "distinct (map cl_claimId cs)" "\<And>c. c \<in> set cs \<Longrightarrow> cl_claimId c \<notin> cl_claimId ` set (db_claims s)"
  shows "unique_docs cl_claimId (db_claims s @ cs)"
proof -
  have "distinct (map cl_claimId (db_claims s))"
    using assms(1) by (simp add: market_inv_def unique_db_def unique_docs_def)
  moreover have "cl_claimId c \<notin> cl_claimId ` set cs" if "c \<in> set (db_claims s)" for c
    using assms(3) that by (metis imageE imageI)
  ultimately show ?thesis using assms(2) by (auto simp: unique_docs_def)
qed

lemma is_open_same: "is_open now market k \<Longrightarrow> is_open now market l \<Longrightarrow> li_listingId k = li_listingId l"
  unfolding is_open_def by (metis js.inject(3))

lemma coin_claim_fields [simp]:
  "cl_claimId (coin_claim l i p r n) = i" "cl_listingId (coin_claim l i p r n) = li_listingId l"
  "cl_reason (coin_claim l i p r n) = r" "cl_status (coin_claim l i p r n) = Pending"
  "cl_purgeAt (coin_claim l i p r n) = None" "cl_coins (coin_claim l i p r n) = n"
  "cl_quantity (coin_claim l i p r n) = 0" "cl_player (coin_claim l i p r n) = p"
  "cl_claimId (stack_claim l i p r) = i" "cl_listingId (stack_claim l i p r) = li_listingId l"
  "cl_reason (stack_claim l i p r) = r" "cl_status (stack_claim l i p r) = Pending"
  "cl_purgeAt (stack_claim l i p r) = None" "cl_coins (stack_claim l i p r) = 0"
  "cl_quantity (stack_claim l i p r) = li_quantity l" "cl_player (stack_claim l i p r) = p"
  "cl_itemId (stack_claim l i p r) = li_itemId l" "cl_olCid (stack_claim l i p r) = li_olCid l"
  by (simp_all add: coin_claim_def stack_claim_def)

lemma claim_id_nonempty [simp]: "claim_id lid reason n \<noteq> ''''"
  by (cases reason) (simp_all add: claim_id.simps)

lemma coin_claim_schema:
  "listing_ok l \<Longrightarrow> 0 \<le> n \<Longrightarrow> i \<noteq> '''' \<Longrightarrow> claim_schema (coin_claim l i p r n)"
  by (simp add: claim_schema_def coin_claim_def listing_ok_def listing_schema_def)

lemma stack_claim_schema:
  "listing_ok l \<Longrightarrow> i \<noteq> '''' \<Longrightarrow> claim_schema (stack_claim l i p r)"
  by (simp add: claim_schema_def stack_claim_def coin_claim_def listing_ok_def listing_schema_def)

section \<open>The effect of each operation\<close>

lemma market_buy_cases:
  assumes M: "lawful_mongo M" and inv: "market_inv s"
  obtains (refused) r where "r \<noteq> ''''" "market_buy M now op s = (Inr r, s)"
    | (sold) i l where "i < length (db_listings s)" "l = db_listings s ! i" "is_open now (mo_market op) l"
        "li_mode l = ''fixed''" "JInt (li_price l) = jget (mo_market op) ''price''" "li_seller l \<noteq> mo_playerId op"
        "has_stack (mo_market op) l"
        "market_buy M now op s = (Inr '''', s\<lparr>db_listings := (db_listings s)[i := ended now Sold (Some (mo_playerId op)) l],
           db_claims := db_claims s @ [coin_claim l (claim_id (li_listingId l) Sale 0) (li_seller l) Sale (li_price l - li_saleFee l)]\<rparr>)"
proof -
  let ?P = "\<lambda>l. is_open now (mo_market op) l \<and> li_mode l = ''fixed'' \<and> JInt (li_price l) = jget (mo_market op) ''price''
              \<and> li_seller l \<noteq> mo_playerId op \<and> has_stack (mo_market op) l"
  let ?f = "ended now Sold (Some (mo_playerId op))"
  show ?thesis
  proof (cases "drv_find_one (mg_listings M) ?P (db_listings s)")
    case None
    then show ?thesis by (intro refused) (simp_all add: market_buy_def Let_def)
  next
    case (Some l)
    then have l: "l \<in> set (db_listings s)" "?P l"
      using collection.find_one_some [OF lawful_mongoD(5) [OF M]] by blast+
    have ok: "listing_ok l" by (rule market_invD(1) [OF inv l(1)])
    from M show ?thesis
    proof (rule updateListing_cases [of M ?f s ?P])
      fix i assume i: "i < length (db_listings s)" "?P (db_listings s ! i)"
        and up: "updateListing M ?P ?f s = (Inr 1, s\<lparr>db_listings := (db_listings s)[i := ?f (db_listings s ! i)]\<rparr>)"
      have li: "l = db_listings s ! i"
        using i l is_open_same [of now "mo_market op" l] by (intro listing_same [OF inv]) simp_all
      let ?c = "coin_claim l (claim_id (li_listingId l) Sale 0) (li_seller l) Sale (li_price l - li_saleFee l)"
      let ?s1 = "s\<lparr>db_listings := (db_listings s)[i := ?f l]\<rparr>"
      have "claim_schema ?c" using ok by (intro coin_claim_schema) (simp_all add: listing_ok_def)
      moreover have "unique_docs cl_claimId (db_claims s @ [?c])"
        using fresh_claim [OF inv l(1), of 0 Sale] l(2)
        by (intro unique_claims_append [OF inv]) (auto simp: is_open_def)
      ultimately have "createClaims M [?c] ?s1 = (Inr (), ?s1\<lparr>db_claims := db_claims s @ [?c]\<rparr>)"
        using createClaims_ok [OF M, of ?s1 "[?c]"] by simp
      then have "market_buy M now op s = (Inr '''', ?s1\<lparr>db_claims := db_claims s @ [?c]\<rparr>)"
        using Some up ok by (simp add: market_buy_def Let_def bindW_def li [symmetric] proceeds_ok listing_ok_def retW_def
            claim_id.simps)
      with i l li show ?thesis by (intro sold [of i l]) simp_all
    qed (use l in auto)
  qed
qed

lemma market_cancel_cases:
  assumes M: "lawful_mongo M" and inv: "market_inv s"
  obtains (refused) r where "r \<noteq> ''''" "market_cancel M now op s = (Inr r, s)"
    | (cancelled) i l where "i < length (db_listings s)" "l = db_listings s ! i" "is_open now (mo_market op) l"
        "li_seller l = mo_playerId op" "li_bids l = 0" "has_stack (mo_market op) l"
        "market_cancel M now op s = (Inr '''', s\<lparr>db_listings := (db_listings s)[i := ended now Cancelled (li_buyer l) l]\<rparr>)"
proof -
  let ?P = "\<lambda>l. is_open now (mo_market op) l \<and> li_seller l = mo_playerId op \<and> li_bids l = 0 \<and> has_stack (mo_market op) l"
  show ?thesis
  proof (rule updateListing_cases [of M "\<lambda>l. ended now Cancelled (li_buyer l) l" s ?P])
    assume "updateListing M ?P (\<lambda>l. ended now Cancelled (li_buyer l) l) s = (Inr 0, s)"
    then show ?thesis by (intro refused) (simp_all add: market_cancel_def Let_def bindW_def)
  next
    fix i assume "i < length (db_listings s)" "?P (db_listings s ! i)"
      "updateListing M ?P (\<lambda>l. ended now Cancelled (li_buyer l) l) s = (Inr 1, s\<lparr>db_listings := (db_listings s)
        [i := ended now Cancelled (li_buyer (db_listings s ! i)) (db_listings s ! i)]\<rparr>)"
    then show ?thesis
      by (intro cancelled [of i "db_listings s ! i"]) (simp_all add: market_cancel_def Let_def bindW_def)
  qed (use M in simp_all)
qed

definition bid_raised :: "int \<Rightarrow> oid \<Rightarrow> listing \<Rightarrow> listing" where
  "bid_raised price bidder l = l\<lparr>li_bid := price, li_bidder := Some bidder, li_bids := li_bids l + 1,
     li_revision := li_revision l + 1\<rparr>"

lemma bid_raised_fields [simp]:
  "li_id (bid_raised n b l) = li_id l" "li_listingId (bid_raised n b l) = li_listingId l"
  "li_status (bid_raised n b l) = li_status l" "li_revision (bid_raised n b l) = li_revision l + 1"
  "li_bid (bid_raised n b l) = n" "li_bidder (bid_raised n b l) = Some b"
  by (simp_all add: bid_raised_def)

lemma bid_raised_other [simp]: "bid_raised n b l \<noteq> l"
  by (metis bid_raised_fields(4) add_cancel_right_right zero_neq_one)

text \<open>The claim the bidder before is owed: the bid it had in the market, whole.\<close>

definition outbid_claims :: "listing \<Rightarrow> claim list" where
  "outbid_claims l = (case li_bidder l of None \<Rightarrow> []
     | Some b \<Rightarrow> [coin_claim l (claim_id (li_listingId l) Outbid (li_revision l)) b Outbid (li_bid l)])"

lemma market_bid_cases:
  assumes M: "lawful_mongo M" and inv: "market_inv s"
  obtains (refused) r where "r \<noteq> ''''" "market_bid M now op s = (Inr r, s)"
    | (bid) i l price where "i < length (db_listings s)" "l = db_listings s ! i" "is_open now (mo_market op) l"
        "li_mode l = ''auction''" "li_seller l \<noteq> mo_playerId op" "price = jint (jget (mo_market op) ''price'')"
        "price \<le> li_priceMax l" "minBid (li_price l) (li_bid l) (li_raisePercent l) (li_minRaise l) \<le> price"
        "market_bid M now op s = (Inr '''', s\<lparr>db_listings := (db_listings s)[i := bid_raised price (mo_playerId op) l],
           db_claims := db_claims s @ outbid_claims l\<rparr>)"
proof -
  let ?price = "jint (jget (mo_market op) ''price'')"
  let ?P = "\<lambda>l. is_open now (mo_market op) l \<and> li_mode l = ''auction'' \<and> li_seller l \<noteq> mo_playerId op"
  show ?thesis
  proof (cases "drv_find_one (mg_listings M) ?P (db_listings s)")
    case None
    then show ?thesis by (intro refused) (simp_all add: market_bid_def Let_def)
  next
    case (Some l)
    then have l: "l \<in> set (db_listings s)" "?P l"
      using collection.find_one_some [OF lawful_mongoD(5) [OF M]] by blast+
    have ok: "listing_ok l" by (rule market_invD(1) [OF inv l(1)])
    let ?Q = "\<lambda>k. li_id k = li_id l \<and> li_revision k = li_revision l"
    let ?f = "bid_raised ?price (mo_playerId op)"
    consider (terms) "li_priceMax l < ?price"
      | (low) "\<not> li_priceMax l < ?price" "?price < minBid (li_price l) (li_bid l) (li_raisePercent l) (li_minRaise l)"
      | (fits) "\<not> li_priceMax l < ?price" "\<not> ?price < minBid (li_price l) (li_bid l) (li_raisePercent l) (li_minRaise l)"
      by blast
    then show ?thesis
    proof cases
      case terms
      with Some show ?thesis by (intro refused) (simp_all add: market_bid_def Let_def)
    next
      case low
      with Some show ?thesis by (intro refused) (simp_all add: market_bid_def Let_def)
    next
      case fits
      have expand: "market_bid M now op s = bindW (updateListing M ?Q ?f)
           (\<lambda>modifiedCount. if modifiedCount \<noteq> 1 then retW (changed MARKET_REFUSALS)
             else case li_bidder l of None \<Rightarrow> retW ''''
               | Some bidder \<Rightarrow> bindW (createClaims M (outbid_claims l)) (\<lambda>_. retW '''')) s"
        using Some fits
        by (cases "li_bidder l") (simp_all add: market_bid_def Let_def bid_raised_def [abs_def] outbid_claims_def
              claim_id.simps cong: if_cong)
      from M show ?thesis
      proof (rule updateListing_cases [of M ?f s ?Q])
        fix i assume i: "i < length (db_listings s)" "?Q (db_listings s ! i)"
          and up: "updateListing M ?Q ?f s = (Inr 1, s\<lparr>db_listings := (db_listings s)[i := ?f (db_listings s ! i)]\<rparr>)"
        have li: "l = db_listings s ! i"
          using i l by (intro listing_same [OF inv]) simp_all
        let ?s1 = "s\<lparr>db_listings := (db_listings s)[i := ?f l]\<rparr>"
        have "list_all claim_schema (outbid_claims l)"
          using ok by (auto simp: outbid_claims_def listing_ok_def listing_schema_def split: option.splits
              intro!: coin_claim_schema [unfolded listing_ok_def listing_schema_def])
        moreover have "unique_docs cl_claimId (db_claims s @ outbid_claims l)"
          using fresh_claim [OF inv l(1), of "li_revision l" Outbid] l(2) ok
          by (intro unique_claims_append [OF inv]) (auto simp: outbid_claims_def is_open_def listing_ok_def split: option.splits)
        ultimately have "createClaims M (outbid_claims l) ?s1 = (Inr (), ?s1\<lparr>db_claims := db_claims s @ outbid_claims l\<rparr>)"
          using createClaims_ok [OF M, of ?s1 "outbid_claims l"] by simp
        then have "market_bid M now op s = (Inr '''', ?s1\<lparr>db_claims := db_claims s @ outbid_claims l\<rparr>)"
          unfolding expand using up
          by (cases "li_bidder l") (simp_all add: bindW_def li [symmetric] retW_def outbid_claims_def)
        with i l li fits show ?thesis by (intro bid [of i l ?price]) simp_all
      qed (use l in auto)
    qed
  qed
qed

definition collected :: "ms \<Rightarrow> claim \<Rightarrow> claim" where
  "collected now c = c\<lparr>cl_status := Collected, cl_collectedAt := Some now, cl_purgeAt := Some (purgeDate now)\<rparr>"

definition claims_asked :: "market_op \<Rightarrow> db \<Rightarrow> claim list" where
  "claims_asked op s = filter (\<lambda>c. cl_claimId c \<in> set (map jstr (jarr (jget (mo_market op) ''claimIds'')))
     \<and> cl_player c = mo_playerId op \<and> cl_status c = Pending) (db_claims s)"

lemma market_collect_cases:
  assumes M: "lawful_mongo M" and inv: "market_inv s"
  obtains (refused) r where "r \<noteq> ''''" "market_collect M now op s = (Inr r, s)"
    | (collected) "length (claims_asked op s) = length (jarr (jget (mo_market op) ''claimIds''))"
        "jget (mo_market op) ''coins'' = JInt (sum_list (map cl_coins (claims_asked op s)))"
        "market_collect M now op s = (Inr '''', s\<lparr>db_claims :=
           map (\<lambda>c. if c \<in> set (claims_asked op s) then collected now c else c) (db_claims s)\<rparr>)"
proof -
  have find: "drv_find (mg_claims M) P c = filter P c" for P c
    by (rule collection.find_docs [OF lawful_mongoD(6) [OF M]])
  have many: "drv_update_many (mg_claims M) P f c = map (\<lambda>d. if P d then f d else d) c" for P f c
    by (rule collection.update_many [OF lawful_mongoD(6) [OF M]])
  have ids: "cl_claimId c \<in> cl_claimId ` set (claims_asked op s) \<longleftrightarrow> c \<in> set (claims_asked op s)"
    if "c \<in> set (db_claims s)" for c
    using that inv unique_docs_eq [of cl_claimId "db_claims s"]
    by (auto simp: claims_asked_def market_inv_def unique_db_def image_iff)
  have upd: "map (\<lambda>c. if cl_claimId c \<in> set (map cl_claimId (claims_asked op s)) then collected now c else c) (db_claims s)
      = map (\<lambda>c. if c \<in> set (claims_asked op s) then collected now c else c) (db_claims s)"
    using ids by (intro map_cong) simp_all
  have eq: "market_collect M now op s = (if length (claims_asked op s) \<noteq> length (jarr (jget (mo_market op) ''claimIds''))
        \<or> JInt (sum_list (map cl_coins (claims_asked op s))) \<noteq> jget (mo_market op) ''coins''
        \<or> length (filter (\<lambda>c. 0 < cl_quantity c) (claims_asked op s)) \<noteq> length (jarr (jget (mo_market op) ''stacks''))
        \<or> \<not> list_all (\<lambda>c. list_ex (\<lambda>st. sameStack st c) (jarr (jget (mo_market op) ''stacks'')))
             (filter (\<lambda>c. 0 < cl_quantity c) (claims_asked op s))
      then (Inr (claimGone MARKET_REFUSALS), s)
      else (Inr '''', s\<lparr>db_claims := map (\<lambda>c. if c \<in> set (claims_asked op s) then collected now c else c) (db_claims s)\<rparr>))"
    unfolding upd [symmetric]
    by (simp only: market_collect_def Let_def find many claims_asked_def collected_def length_map)
  show ?thesis
  proof (cases "fst (market_collect M now op s) = Inr ''''")
    case True
    then show ?thesis unfolding eq by (intro collected) (auto simp: eq split: if_splits)
  next
    case False
    then show ?thesis by (intro refused [of "claimGone MARKET_REFUSALS"]) (auto simp: eq split: if_splits)
  qed
qed

lemma findProfile_Some:
  assumes "lawful_mongo M" "findProfile M code s = Some p"
  shows "p \<in> set (db_markets s) \<and> mk_code p = code"
  using assms collection.find_one_some [OF lawful_mongoD(8)] unfolding findProfile_def by blast

lemma new_listing_fields [simp]:
  "li_id (new_listing now newId op p k) = newId" "li_listingId (new_listing now newId op p k) = mo_operationId op"
  "li_status (new_listing now newId op p k) = Open" "li_revision (new_listing now newId op p k) = 0"
  "li_bidder (new_listing now newId op p k) = None" "li_bid (new_listing now newId op p k) = 0"
  "li_quantity (new_listing now newId op p k) = jint (jget (mo_market op) ''quantity'')"
  "li_itemId (new_listing now newId op p k) = jstr (jget (mo_market op) ''itemId'')"
  "li_olCid (new_listing now newId op p k) = jstr (jget (mo_market op) ''olCid'')"
  by (simp_all add: new_listing_def Let_def)

text \<open>The terms a listing is accepted under: inside the profile, whose sale fee no price is below.\<close>

lemma new_listing_ok:
  assumes d: "marketOpDefect ''market_list'' (mo_market op) = ''''"
    and t: "listingTermsRefusal (Some p) (mo_market op) = ''''" and p: "profile_ok p"
    and n: "mo_operationId op \<noteq> ''''" "mo_instanceCode op \<noteq> ''''" "scopeKey \<noteq> ''''"
  shows "listing_ok (new_listing now newId op p scopeKey)"
proof -
  let ?m = "mo_market op"
  have d': "oneOf MARKET_MODES (jget ?m ''mode'')" "isStack ?m" "isPrice (jget ?m ''price'')"
    using d by (auto simp: marketOpDefect_def split: if_splits)
  have t': "mk_priceMin p \<le> jint (jget ?m ''price'')"
    using t by (auto simp: listingTermsRefusal_def split: if_splits)
  show ?thesis
    using d' t' p n
    by (auto simp: listing_ok_def listing_schema_def new_listing_def Let_def profile_ok_def isStack_def isPrice_def
        oneOf_iff elim!: isText.elims)
qed

lemma market_list_cases:
  assumes M: "lawful_mongo M" and inv: "market_inv s"
    and d: "marketOpDefect ''market_list'' (mo_market op) = ''''"
    and n: "mo_operationId op \<noteq> ''''" "mo_instanceCode op \<noteq> ''''"
    and fresh: "mo_operationId op \<notin> li_listingId ` set (db_listings s)"
  obtains (refused) r where "r \<noteq> ''''" "market_list M now newId op s = (Inr r, s)"
    | (listed) p scopeKey where "p \<in> set (db_markets s)" "listingTermsRefusal (Some p) (mo_market op) = ''''"
        "scopeKey = scopeKeyOf M s (mk_scope p) (mo_instanceCode op)"
        "listing_ok (new_listing now newId op p scopeKey)"
        "int (length (filter (\<lambda>l. li_marketCode l = mk_code p \<and> li_scope l = mk_scope p \<and> li_scopeKey l = scopeKey
               \<and> li_seller l = mo_playerId op \<and> li_status l = Open) (db_listings s))) < mk_listingsPerPlayer p"
        "market_list M now newId op s = (Inr '''', s\<lparr>db_listings := db_listings s @ [new_listing now newId op p scopeKey]\<rparr>)"
proof -
  note L = lawful_mongoD(5) [OF M]
  have find: "drv_find (mg_listings M) P c = filter P c" for P c
    by (rule collection.find_docs [OF L])
  let ?profile = "findProfile M (jstr (jget (mo_market op) ''marketCode'')) s"
  show ?thesis
  proof (cases "listingTermsRefusal ?profile (mo_market op) = ''''")
    case False
    then show ?thesis by (intro refused) (simp_all add: market_list_def Let_def)
  next
    case True
    then obtain p where p: "?profile = Some p" by (cases ?profile) (auto simp: listingTermsRefusal_def)
    let ?k = "scopeKeyOf M s (mk_scope p) (mo_instanceCode op)"
    have mem: "p \<in> set (db_markets s)" using findProfile_Some [OF M p] ..
    then have "profile_ok p" using inv by (simp add: market_inv_def)
    show ?thesis
    proof (cases "?k = '''' \<or> mk_listingsPerPlayer p \<le> int (length (filter (\<lambda>l. li_marketCode l = mk_code p
          \<and> li_scope l = mk_scope p \<and> li_scopeKey l = ?k \<and> li_seller l = mo_playerId op \<and> li_status l = Open) (db_listings s)))")
      case True
      with p \<open>listingTermsRefusal ?profile (mo_market op) = ''''\<close> show ?thesis
        by (intro refused [of "if ?k = '''' then closed MARKET_REFUSALS else full MARKET_REFUSALS"])
          (auto simp: market_list_def Let_def find)
    next
      case False
      have ok: "listing_ok (new_listing now newId op p ?k)"
        using new_listing_ok [OF d _ \<open>profile_ok p\<close> n] True p False by simp
      then have "listing_schema (new_listing now newId op p ?k)" by (simp add: listing_ok_def)
      moreover have "unique_docs li_listingId (db_listings s @ [new_listing now newId op p ?k])"
        using inv fresh by (simp add: market_inv_def unique_db_def unique_docs_def)
      ultimately have "drv_create (mg_listings M) [new_listing now newId op p ?k] (db_listings s)
          = Inr (db_listings s @ [new_listing now newId op p ?k])"
        by (intro collection.create_ok [OF L]) simp_all
      with False True p have "market_list M now newId op s
          = (Inr '''', s\<lparr>db_listings := db_listings s @ [new_listing now newId op p ?k]\<rparr>)"
        by (simp add: market_list_def Let_def find bindW_def writeW_def retW_def)
      with False True p mem ok show ?thesis by (intro listed [of p ?k]) simp_all
    qed
  qed
qed

text \<open>What a listing owes when it ends: the stack to the winner and the proceeds to the seller, or the
stack back to the seller.\<close>

definition settled_claims :: "listing \<Rightarrow> claim list" where
  "settled_claims l = (case li_bidder l of
     Some b \<Rightarrow> [stack_claim l (claim_id (li_listingId l) Won 0) b Won,
        coin_claim l (claim_id (li_listingId l) Sale 0) (li_seller l) Sale (li_bid l - li_saleFee l)]
   | None \<Rightarrow> [stack_claim l (claim_id (li_listingId l) Unsold 0) (li_seller l) Unsold])"

definition settled :: "ms \<Rightarrow> listing \<Rightarrow> listing" where
  "settled now l = ended now (if is_won l then Sold else Expired) (if is_won l then li_bidder l else None) l"

lemma settle_claims_ok: "listing_ok l \<Longrightarrow> settle_claims l = Inr (settled_claims l)"
  by (auto simp: settle_claims_def settled_claims_def listing_ok_def proceeds_ok claim_id.simps split: option.splits)

lemma settleWork_cases:
  assumes M: "lawful_mongo M" and inv: "market_inv s"
    and read: "\<forall>k\<in>set (db_listings s). li_id k = li_id l \<and> li_revision k = li_revision l \<longrightarrow> k = l"
  obtains (idle) "\<not> (l \<in> set (db_listings s) \<and> li_status l = Open \<and> li_endsAt l \<le> now)" "settleWork M now l s = (Inr (), s)"
    | (settled) i where "i < length (db_listings s)" "l = db_listings s ! i" "li_status l = Open" "li_endsAt l \<le> now"
        "settleWork M now l s = (Inr (), s\<lparr>db_listings := (db_listings s)[i := settled now l],
           db_claims := db_claims s @ settled_claims l\<rparr>)"
proof -
  let ?P = "\<lambda>k. li_id k = li_id l \<and> li_status k = Open \<and> li_revision k = li_revision l \<and> li_endsAt k \<le> now"
  let ?f = "ended now (if is_won l then Sold else Expired) (if is_won l then li_bidder l else None)"
  from M show ?thesis
  proof (rule updateListing_cases [of M ?f s ?P])
    assume none: "\<forall>k\<in>set (db_listings s). \<not> ?P k" and up: "updateListing M ?P ?f s = (Inr 0, s)"
    have "settleWork M now l s = (Inr (), s)"
      unfolding settleWork_def bindW_def up by (simp add: retW_def)
    with none show ?thesis by (intro idle) auto
  next
    fix i assume i: "i < length (db_listings s)" "?P (db_listings s ! i)"
      and up: "updateListing M ?P ?f s = (Inr 1, s\<lparr>db_listings := (db_listings s)[i := ?f (db_listings s ! i)]\<rparr>)"
    have li: "l = db_listings s ! i" using read i by (metis nth_mem)
    then have l: "l \<in> set (db_listings s)" "li_status l = Open" using i by auto
    have ok: "listing_ok l" by (rule market_invD(1) [OF inv l(1)])
    let ?s1 = "s\<lparr>db_listings := (db_listings s)[i := ?f l]\<rparr>"
    have "list_all claim_schema (settled_claims l)"
      using ok coin_claim_schema [OF ok] stack_claim_schema [OF ok]
      by (auto simp: settled_claims_def listing_ok_def split: option.splits)
    moreover have "unique_docs cl_claimId (db_claims s @ settled_claims l)"
    proof (rule unique_claims_append [OF inv])
      show "distinct (map cl_claimId (settled_claims l))"
        using claim_id_inj [of "li_listingId l" Won 0 "li_listingId l" Sale 0]
        by (auto simp: settled_claims_def split: option.splits)
      show "cl_claimId c \<notin> cl_claimId ` set (db_claims s)" if "c \<in> set (settled_claims l)" for c
        using that fresh_claim [OF inv l, of 0 Won] fresh_claim [OF inv l, of 0 Sale] fresh_claim [OF inv l, of 0 Unsold]
        by (auto simp: settled_claims_def split: option.splits)
    qed
    ultimately have "createClaims M (settled_claims l) ?s1 = (Inr (), ?s1\<lparr>db_claims := db_claims s @ settled_claims l\<rparr>)"
      using createClaims_ok [OF M, of ?s1] by simp
    then have "settleWork M now l s = (Inr (), ?s1\<lparr>db_claims := db_claims s @ settled_claims l\<rparr>)"
      unfolding settleWork_def bindW_def up li [symmetric] by (simp add: settle_claims_ok [OF ok])
    with i li l show ?thesis by (intro settled [of i]) (simp_all add: settled_def)
  qed simp
qed

section \<open>The invariant is kept\<close>

lemma map_update_same: "i < length c \<Longrightarrow> k x = k (c ! i) \<Longrightarrow> map k (c[i := x]) = map k c"
  by (simp add: map_update list_update_same_conv)

lemma market_inv_update:
  assumes inv: "market_inv s" and i: "i < length (db_listings s)" "l = db_listings s ! i"
    and l': "li_id l' = li_id l" "li_listingId l' = li_listingId l" "listing_ok l'" "li_revision l \<le> li_revision l'"
    and cs: "unique_docs cl_claimId (db_claims s @ cs)" "\<And>c. c \<in> set cs \<Longrightarrow> claim_ok c \<and> cl_listingId c = li_listingId l"
    and own: "li_status l' = Open \<Longrightarrow> li_status l = Open \<and> owes_only_passed l' cs"
  shows "market_inv (s\<lparr>db_listings := (db_listings s)[i := l'], db_claims := db_claims s @ cs\<rparr>)"
proof -
  have ids: "map li_id ((db_listings s)[i := l']) = map li_id (db_listings s)"
    "map li_listingId ((db_listings s)[i := l']) = map li_listingId (db_listings s)"
    using i l' by (simp_all add: map_update_same)
  have other: "li_listingId k \<noteq> li_listingId l" if "k \<in> set (db_listings s)" "k \<noteq> l" for k
    using listing_same [OF inv that(1), of l] that(2) i by auto
  have owed: "owes_only_passed k (db_claims s @ cs)"
    if k: "k \<in> set ((db_listings s)[i := l'])" and live: "li_status k = Open" for k
  proof -
    from inv i(1) have "db_listings s ! j \<noteq> l" if "j < length (db_listings s)" "j \<noteq> i" for j
      using that i(2) unfolding market_inv_def by (metis distinct_conv_nth length_map nth_map)
    then consider "k = l'" | "k \<in> set (db_listings s)" "k \<noteq> l"
      using k i(1) by (auto simp: in_set_conv_nth nth_list_update split: if_splits)
    then show ?thesis
    proof cases
      case 1
      have "owes_only_passed l (db_claims s)"
        using market_invD(2) [OF inv, of l] i own live 1 by simp
      then show ?thesis using 1 l' own live by (fastforce simp: owes_only_passed_def)
    next
      case 2
      then show ?thesis using market_invD(2) [OF inv 2(1) live] other [OF 2] cs(2) by (auto simp: owes_only_passed_def)
    qed
  qed
  show ?thesis
    using inv ids cs l'(3) owed set_update_subset_insert [of "db_listings s" i l']
    by (auto simp: market_inv_def unique_db_def unique_docs_def)
qed

section \<open>What the market holds\<close>

type_synonym item = "string \<times> string \<times> int"

definition open_bid :: "listing \<Rightarrow> int" where
  "open_bid l = (if li_status l = Open then li_bid l else 0)"

definition pending_coins :: "claim \<Rightarrow> int" where
  "pending_coins c = (if cl_status c = Pending then cl_coins c else 0)"

definition open_goods :: "listing \<Rightarrow> item multiset" where
  "open_goods l = (if li_status l = Open then {#(li_itemId l, li_olCid l, li_quantity l)#} else {#})"

definition pending_goods :: "claim \<Rightarrow> item multiset" where
  "pending_goods c = (if cl_status c = Pending \<and> 0 < cl_quantity c then {#(cl_itemId c, cl_olCid c, cl_quantity c)#} else {#})"

definition escrow_coins :: "db \<Rightarrow> int" where
  "escrow_coins s = sum_list (map open_bid (db_listings s)) + sum_list (map pending_coins (db_claims s))"

definition escrow_goods :: "db \<Rightarrow> item multiset" where
  "escrow_goods s = sum_list (map open_goods (db_listings s)) + sum_list (map pending_goods (db_claims s))"

text \<open>What an accepted operation moves between its player and the market, and the fee a sale burns.\<close>

definition op_stack :: "market_op \<Rightarrow> item" where
  "op_stack op = (jstr (jget (mo_market op) ''itemId''), jstr (jget (mo_market op) ''olCid''), jint (jget (mo_market op) ''quantity''))"

definition coins_in :: "market_op \<Rightarrow> int" where
  "coins_in op = (if mo_kind op \<in> {''market_buy'', ''market_bid''} then jint (jget (mo_market op) ''price'') else 0)"

definition coins_out :: "market_op \<Rightarrow> int" where
  "coins_out op = (if mo_kind op = ''market_collect'' then jint (jget (mo_market op) ''coins'') else 0)"

definition sale_fee :: "db \<Rightarrow> market_op \<Rightarrow> int" where
  "sale_fee s op = (if mo_kind op = ''market_buy'' then
     (case List.find (\<lambda>l. Str (li_listingId l) = jget (mo_market op) ''listingId'') (db_listings s) of
        None \<Rightarrow> 0 | Some l \<Rightarrow> li_saleFee l) else 0)"

definition goods_in :: "market_op \<Rightarrow> item multiset" where
  "goods_in op = (if mo_kind op = ''market_list'' then {#op_stack op#} else {#})"

definition goods_out :: "db \<Rightarrow> market_op \<Rightarrow> item multiset" where
  "goods_out s op = (if mo_kind op \<in> {''market_cancel'', ''market_buy''} then {#op_stack op#}
     else if mo_kind op = ''market_collect'' then sum_list (map pending_goods (claims_asked op s)) else {#})"

definition balanced :: "db \<Rightarrow> market_op \<Rightarrow> db \<Rightarrow> bool" where
  "balanced s op t \<longleftrightarrow> escrow_coins t + coins_out op + sale_fee s op = escrow_coins s + coins_in op
     \<and> escrow_goods t + goods_out s op = escrow_goods s + goods_in op"

text \<open>A listing that changes moves to a higher revision.\<close>

definition aged :: "oid \<Rightarrow> db \<Rightarrow> db \<Rightarrow> bool" where
  "aged newId s t \<longleftrightarrow> (\<forall>k\<in>set (db_listings t). k \<in> set (db_listings s) \<or> li_id k = newId
     \<or> (\<exists>l\<in>set (db_listings s). li_id k = li_id l \<and> li_revision l < li_revision k))"

definition op_sound :: "oid \<Rightarrow> db \<Rightarrow> market_op \<Rightarrow> (error + string) \<times> db \<Rightarrow> bool" where
  "op_sound newId s op res \<longleftrightarrow> (\<exists>r t. res = (Inr r, t) \<and> (r \<noteq> '''' \<longrightarrow> t = s)
     \<and> market_inv t \<and> aged newId s t \<and> (r = '''' \<longrightarrow> balanced s op t))"

lemma op_sound_refused: "market_inv s \<Longrightarrow> r \<noteq> '''' \<Longrightarrow> op_sound newId s op (Inr r, s)"
  by (simp add: op_sound_def aged_def)

lemma op_sound_applied:
  "market_inv t \<Longrightarrow> aged newId s t \<Longrightarrow> balanced s op t \<Longrightarrow> op_sound newId s op (Inr '''', t)"
  by (simp add: op_sound_def)

lemma aged_update:
  assumes "db_listings t = (db_listings s)[i := l']" "i < length (db_listings s)"
    and "li_id l' = li_id (db_listings s ! i)" "li_revision (db_listings s ! i) < li_revision l'"
  shows "aged newId s t"
  using assms set_update_subset_insert [of "db_listings s" i l'] nth_mem [of i "db_listings s"]
  by (fastforce simp: aged_def)

text \<open>The change of escrow when one listing changes and its claims are added.\<close>

lemma escrow_update:
  assumes "i < length (db_listings s)"
  shows "escrow_coins (s\<lparr>db_listings := (db_listings s)[i := l'], db_claims := db_claims s @ cs\<rparr>) + open_bid (db_listings s ! i)
      = escrow_coins s + open_bid l' + sum_list (map pending_coins cs)"
    and "escrow_goods (s\<lparr>db_listings := (db_listings s)[i := l'], db_claims := db_claims s @ cs\<rparr>) + open_goods (db_listings s ! i)
      = escrow_goods s + open_goods l' + sum_list (map pending_goods cs)"
  using sum_list_update_map [OF assms, of open_bid l'] sum_list_update_map [OF assms, of open_goods l']
  by (simp_all add: escrow_coins_def escrow_goods_def algebra_simps union_ac)

lemma listing_ok_ended: "listing_ok l \<Longrightarrow> st \<noteq> Open \<Longrightarrow> listing_ok (ended now st b l)"
  by (auto simp: listing_ok_def listing_schema_def ended_def split: option.splits)

lemma listing_ok_raised:
  assumes "listing_ok l" "li_status l = Open" "li_mode l = ''auction''" "b \<noteq> li_seller l" "price \<le> li_priceMax l"
    and "minBid (li_price l) (li_bid l) (li_raisePercent l) (li_minRaise l) \<le> price"
  shows "listing_ok (bid_raised price b l)"
proof -
  have "li_price l \<le> price"
    using assms minBid_raises [of "li_bid l" "li_minRaise l" "li_price l" "li_raisePercent l"]
    by (cases "li_bidder l") (auto simp: listing_ok_def listing_schema_def minBid_def)
  then show ?thesis
    using assms by (auto simp: listing_ok_def listing_schema_def bid_raised_def)
qed

lemma coin_claim_ok:
  "listing_ok l \<Longrightarrow> 0 \<le> coins \<Longrightarrow> 0 \<le> n \<Longrightarrow> claim_ok (coin_claim l (claim_id (li_listingId l) r n) p r coins)"
  using coin_claim_schema by (auto simp: claim_ok_def)

lemma stack_claim_ok:
  "listing_ok l \<Longrightarrow> 0 \<le> n \<Longrightarrow> claim_ok (stack_claim l (claim_id (li_listingId l) r n) p r)"
  using stack_claim_schema by (auto simp: claim_ok_def)

section \<open>Each operation is sound\<close>

lemma has_stack_item: "has_stack (mo_market op) l \<Longrightarrow> op_stack op = (li_itemId l, li_olCid l, li_quantity l)"
  unfolding has_stack_def op_stack_def by (metis jint_JInt jstr.simps(1))

lemma sum_list_pending_outbid:
  "sum_list (map pending_coins (outbid_claims l)) = (case li_bidder l of None \<Rightarrow> 0 | Some b \<Rightarrow> li_bid l)"
  "sum_list (map pending_goods (outbid_claims l)) = {#}"
  by (auto simp: outbid_claims_def pending_coins_def pending_goods_def split: option.splits)

lemma market_cancel_sound:
  assumes M: "lawful_mongo M" and inv: "market_inv s" and k: "mo_kind op = ''market_cancel''"
  shows "op_sound newId s op (market_cancel M now op s)"
  using M inv
proof (cases rule: market_cancel_cases [where now = now and op = op])
  case (refused r)
  with inv show ?thesis by (simp add: op_sound_refused)
next
  case (cancelled i l)
  let ?l = "ended now Cancelled (li_buyer l) l"
  let ?t = "s\<lparr>db_listings := (db_listings s)[i := ?l]\<rparr>"
  have l: "l \<in> set (db_listings s)" "listing_ok l" "li_status l = Open"
    using cancelled market_invD(1) [OF inv] by (auto simp: is_open_def)
  have "market_inv (s\<lparr>db_listings := (db_listings s)[i := ?l], db_claims := db_claims s @ []\<rparr>)"
    using cancelled l inv
    by (intro market_inv_update [OF inv cancelled(1,2)]) (simp_all add: listing_ok_ended market_inv_def unique_db_def)
  then have "market_inv ?t" by simp
  moreover have "aged newId s ?t" using cancelled by (intro aged_update [of _ _ i ?l]) simp_all
  moreover have "balanced s op ?t"
    using escrow_update [OF cancelled(1), where l' = ?l and cs = "[]"] cancelled(2,5) l k has_stack_item [OF cancelled(6)]
    by (auto simp: balanced_def open_bid_def open_goods_def coins_in_def coins_out_def sale_fee_def goods_in_def
        goods_out_def listing_ok_def split: option.splits)
  ultimately show ?thesis using cancelled(7) by (simp add: op_sound_applied)
qed

lemma market_bid_sound:
  assumes M: "lawful_mongo M" and inv: "market_inv s" and k: "mo_kind op = ''market_bid''"
  shows "op_sound newId s op (market_bid M now op s)"
  using M inv
proof (cases rule: market_bid_cases [where now = now and op = op])
  case (refused r)
  with inv show ?thesis by (simp add: op_sound_refused)
next
  case (bid i l price)
  let ?l = "bid_raised price (mo_playerId op) l"
  let ?t = "s\<lparr>db_listings := (db_listings s)[i := ?l], db_claims := db_claims s @ outbid_claims l\<rparr>"
  have l: "l \<in> set (db_listings s)" "listing_ok l" "li_status l = Open" "0 \<le> li_revision l"
    using bid market_invD(1) [OF inv] by (auto simp: is_open_def listing_ok_def)
  have ok: "listing_ok ?l" using bid l by (intro listing_ok_raised) auto
  have own: "owes_only_passed ?l (outbid_claims l)"
    using l by (auto simp: owes_only_passed_def outbid_claims_def split: option.splits)
  have cs: "claim_ok c \<and> cl_listingId c = li_listingId l" if "c \<in> set (outbid_claims l)" for c
    using that l coin_claim_ok [OF l(2)]
    by (auto simp: outbid_claims_def listing_ok_def listing_schema_def split: option.splits)
  have u: "unique_docs cl_claimId (db_claims s @ outbid_claims l)"
    using fresh_claim [OF inv l(1,3,4), of Outbid]
    by (intro unique_claims_append [OF inv]) (auto simp: outbid_claims_def split: option.splits)
  have "market_inv ?t"
    using l ok own cs u by (intro market_inv_update [OF inv bid(1,2)]) simp_all
  moreover have "aged newId s ?t" using bid by (intro aged_update [of _ _ i ?l]) simp_all
  moreover have "balanced s op ?t"
    using escrow_update [OF bid(1), where l' = ?l and cs = "outbid_claims l"] bid(2,6) l k
    by (auto simp: balanced_def open_bid_def open_goods_def coins_in_def coins_out_def sale_fee_def goods_in_def
        goods_out_def listing_ok_def sum_list_pending_outbid bid_raised_def split: option.splits)
  ultimately show ?thesis using bid(9) by (simp add: op_sound_applied)
qed

lemma market_buy_sound:
  assumes M: "lawful_mongo M" and inv: "market_inv s" and k: "mo_kind op = ''market_buy''"
  shows "op_sound newId s op (market_buy M now op s)"
  using M inv
proof (cases rule: market_buy_cases [where now = now and op = op])
  case (refused r)
  with inv show ?thesis by (simp add: op_sound_refused)
next
  case (sold i l)
  let ?l = "ended now Sold (Some (mo_playerId op)) l"
  let ?c = "coin_claim l (claim_id (li_listingId l) Sale 0) (li_seller l) Sale (li_price l - li_saleFee l)"
  let ?t = "s\<lparr>db_listings := (db_listings s)[i := ?l], db_claims := db_claims s @ [?c]\<rparr>"
  have l: "l \<in> set (db_listings s)" "listing_ok l" "li_status l = Open"
    using sold market_invD(1) [OF inv] by (auto simp: is_open_def)
  have bidder: "li_bidder l = None" "li_bid l = 0" "li_saleFee l \<le> li_price l"
    using l(2) sold(4) by (auto simp: listing_ok_def split: option.splits)
  have u: "unique_docs cl_claimId (db_claims s @ [?c])"
    using fresh_claim [OF inv l(1,3), of 0 Sale] by (intro unique_claims_append [OF inv]) auto
  have "claim_ok ?c" using l(2) bidder by (intro coin_claim_ok) simp_all
  then have "market_inv ?t"
    using l u by (intro market_inv_update [OF inv sold(1,2)]) (simp_all add: listing_ok_ended)
  moreover have "aged newId s ?t" using sold by (intro aged_update [of _ _ i ?l]) simp_all
  moreover have "List.find (\<lambda>k. Str (li_listingId k) = jget (mo_market op) ''listingId'') (db_listings s) = Some l"
  proof -
    have "Str (li_listingId l) = jget (mo_market op) ''listingId''" using sold(3) by (simp add: is_open_def)
    then show ?thesis
      using find_SomeD [of "\<lambda>k. Str (li_listingId k) = jget (mo_market op) ''listingId''" "db_listings s"]
        listing_same [OF inv _ l(1)] l(1)
      by (cases "List.find (\<lambda>k. Str (li_listingId k) = jget (mo_market op) ''listingId'') (db_listings s)")
        (auto simp: find_None_iff_ball, metis js.inject(3))
  qed
  then have fee: "sale_fee s op = li_saleFee l" using k by (simp add: sale_fee_def)
  have price: "jint (jget (mo_market op) ''price'') = li_price l" using sold(5) by (metis jint_JInt)
  have "balanced s op ?t"
    using escrow_update [OF sold(1), where l' = ?l and cs = "[?c]"] sold(2) l k bidder fee price has_stack_item [OF sold(7)]
    by (simp add: balanced_def open_bid_def open_goods_def coins_in_def coins_out_def goods_in_def
        goods_out_def pending_coins_def pending_goods_def)
  ultimately show ?thesis using sold(8) \<open>market_inv ?t\<close> \<open>aged newId s ?t\<close> by (simp add: op_sound_applied)
qed

lemma collected_fields [simp]:
  "cl_claimId (collected now c) = cl_claimId c" "cl_listingId (collected now c) = cl_listingId c"
  "pending_coins (collected now c) = 0" "pending_goods (collected now c) = {#}"
  "claim_ok c \<Longrightarrow> claim_ok (collected now c)"
  by (simp_all add: collected_def pending_coins_def pending_goods_def claim_ok_def claim_schema_def)

lemma sum_list_taken:
  fixes g :: "'a \<Rightarrow> 'b::comm_monoid_add"
  assumes "\<And>x. g (f x) = 0"
  shows "sum_list (map g (map (\<lambda>x. if P x then f x else x) xs)) + sum_list (map g (filter P xs)) = sum_list (map g xs)"
  by (induction xs) (auto simp: assms add_ac)

lemma claims_asked_pending: "c \<in> set (claims_asked op s) \<Longrightarrow> c \<in> set (db_claims s) \<and> cl_status c = Pending"
  by (simp add: claims_asked_def)

lemma filter_claims_asked: "filter (\<lambda>c. c \<in> set (claims_asked op s)) (db_claims s) = claims_asked op s"
  unfolding claims_asked_def by (intro filter_cong) auto

lemma owes_collected:
  "owes_only_passed l cs \<Longrightarrow> owes_only_passed l (map (\<lambda>c. if P c then collected now c else c) cs)"
  by (auto simp: owes_only_passed_def)

lemma market_collect_sound:
  assumes M: "lawful_mongo M" and inv: "market_inv s" and k: "mo_kind op = ''market_collect''"
  shows "op_sound newId s op (market_collect M now op s)"
  using M inv
proof (cases rule: market_collect_cases [where now = now and op = op])
  case (refused r)
  with inv show ?thesis by (simp add: op_sound_refused)
next
  case collected
  let ?A = "\<lambda>c. c \<in> set (claims_asked op s)"
  let ?cs = "map (\<lambda>c. if ?A c then collected now c else c) (db_claims s)"
  let ?t = "s\<lparr>db_claims := ?cs\<rparr>"
  have "unique_docs cl_claimId ?cs \<longleftrightarrow> unique_docs cl_claimId (db_claims s)" by (simp add: unique_docs_map)
  with inv have "market_inv ?t"
    using owes_collected by (auto simp: market_inv_def unique_db_def)
  moreover have "aged newId s ?t" by (simp add: aged_def)
  moreover have "balanced s op ?t"
  proof -
    have "sum_list (map pending_coins (claims_asked op s)) = sum_list (map cl_coins (claims_asked op s))"
      by (intro arg_cong [where f = sum_list] map_cong) (simp_all add: claims_asked_def pending_coins_def)
    moreover have "sum_list (map pending_coins ?cs) + sum_list (map pending_coins (claims_asked op s))
        = sum_list (map pending_coins (db_claims s))"
      using sum_list_taken [of pending_coins "collected now" ?A "db_claims s"] by (simp add: filter_claims_asked)
    moreover have "sum_list (map pending_goods ?cs) + sum_list (map pending_goods (claims_asked op s))
        = sum_list (map pending_goods (db_claims s))"
      using sum_list_taken [of pending_goods "collected now" ?A "db_claims s"] by (simp add: filter_claims_asked)
    ultimately show ?thesis
      using k collected(2)
      by (simp add: balanced_def escrow_coins_def escrow_goods_def coins_in_def coins_out_def sale_fee_def goods_in_def
          goods_out_def union_ac)
  qed
  ultimately show ?thesis using collected(3) by (simp add: op_sound_applied)
qed

lemma market_list_sound:
  assumes M: "lawful_mongo M" and inv: "market_inv s" and k: "mo_kind op = ''market_list''"
    and d: "marketOpDefect ''market_list'' (mo_market op) = ''''"
    and n: "mo_operationId op \<noteq> ''''" "mo_instanceCode op \<noteq> ''''"
    and fresh: "mo_operationId op \<notin> li_listingId ` set (db_listings s)" "mo_operationId op \<notin> cl_listingId ` set (db_claims s)"
      "newId \<notin> li_id ` set (db_listings s)"
  shows "op_sound newId s op (market_list M now newId op s)"
  using M inv d n fresh(1)
proof (cases rule: market_list_cases [where now = now and newId = newId])
  case (refused r)
  with inv show ?thesis by (simp add: op_sound_refused)
next
  case (listed p scopeKey)
  let ?l = "new_listing now newId op p scopeKey"
  let ?t = "s\<lparr>db_listings := db_listings s @ [?l]\<rparr>"
  have "owes_only_passed ?l (db_claims s)" using fresh(2) by (auto simp: owes_only_passed_def image_iff)
  then have "market_inv ?t"
    using inv listed(4) fresh by (auto simp: market_inv_def unique_db_def unique_docs_def image_iff)
  moreover have "aged newId s ?t" by (simp add: aged_def)
  moreover have "balanced s op ?t"
    using k by (simp add: balanced_def escrow_coins_def escrow_goods_def coins_in_def coins_out_def sale_fee_def goods_in_def
          goods_out_def open_bid_def open_goods_def op_stack_def)
  ultimately show ?thesis using listed(6) by (simp add: op_sound_applied)
qed

definition fresh_op :: "oid \<Rightarrow> db \<Rightarrow> market_op \<Rightarrow> bool" where
  "fresh_op newId s op \<longleftrightarrow> mo_operationId op \<noteq> '''' \<and> mo_instanceCode op \<noteq> ''''
     \<and> mo_operationId op \<notin> li_listingId ` set (db_listings s) \<and> mo_operationId op \<notin> cl_listingId ` set (db_claims s)
     \<and> newId \<notin> li_id ` set (db_listings s)"

lemma applyMarketOp_sound:
  assumes M: "lawful_mongo M" and inv: "market_inv s"
    and d: "marketOpDefect (mo_kind op) (mo_market op) = ''''" and f: "mo_kind op = ''market_list'' \<Longrightarrow> fresh_op newId s op"
  shows "op_sound newId s op (applyMarketOp M now newId op s)"
proof -
  consider "mo_kind op = ''market_list''" | "mo_kind op = ''market_cancel''" | "mo_kind op = ''market_buy''"
    | "mo_kind op = ''market_bid''" | "mo_kind op = ''market_collect''"
    using d by (auto simp: marketOpDefect_def split: if_splits)
  then show ?thesis
  proof cases
    case 1
    then show ?thesis using market_list_sound [OF M inv 1] d f by (simp add: applyMarketOp_def fresh_op_def)
  next
    case 2
    then show ?thesis using market_cancel_sound [OF M inv 2] by (simp add: applyMarketOp_def)
  next
    case 3
    then show ?thesis using market_buy_sound [OF M inv 3] by (simp add: applyMarketOp_def)
  next
    case 4
    then show ?thesis using market_bid_sound [OF M inv 4] by (simp add: applyMarketOp_def)
  next
    case 5
    then show ?thesis using market_collect_sound [OF M inv 5] by (simp add: applyMarketOp_def)
  qed
qed

section \<open>A settlement is sound\<close>

lemma settled_claims_pending:
  assumes "listing_ok l" "li_status l = Open"
  shows "sum_list (map pending_coins (settled_claims l)) + (if is_won l then li_saleFee l else 0) = open_bid l"
    and "sum_list (map pending_goods (settled_claims l)) = open_goods l"
  using assms
  by (auto simp: settled_claims_def pending_coins_def pending_goods_def open_bid_def open_goods_def is_won_def
      listing_ok_def listing_schema_def split: option.splits)

lemma settled_claims_ok:
  assumes "listing_ok l" "c \<in> set (settled_claims l)"
  shows "claim_ok c \<and> cl_listingId c = li_listingId l"
  using assms coin_claim_ok [OF assms(1)] stack_claim_ok [OF assms(1)]
  by (auto simp: settled_claims_def listing_ok_def split: option.splits)

lemma settleWork_sound:
  assumes M: "lawful_mongo M" and inv: "market_inv s"
    and read: "\<forall>k\<in>set (db_listings s). li_id k = li_id l \<and> li_revision k = li_revision l \<longrightarrow> k = l"
  obtains t where "settleWork M now l s = (Inr (), t)" "market_inv t" "aged newId s t"
    "escrow_coins t + (if t \<noteq> s \<and> is_won l then li_saleFee l else 0) = escrow_coins s" "escrow_goods t = escrow_goods s"
    "t \<noteq> s \<longleftrightarrow> l \<in> set (db_listings s) \<and> li_status l = Open \<and> li_endsAt l \<le> now"
    "t \<noteq> s \<Longrightarrow> settled now l \<in> set (db_listings t) \<and> db_claims t = db_claims s @ settled_claims l"
  using M inv read
proof (cases rule: settleWork_cases [where now = now])
  case idle
  with inv show ?thesis by (intro that [of s]) (simp_all add: aged_def)
next
  case (settled i)
  let ?l = "settled now l"
  let ?t = "s\<lparr>db_listings := (db_listings s)[i := ?l], db_claims := db_claims s @ settled_claims l\<rparr>"
  have l: "l \<in> set (db_listings s)" "listing_ok l"
    using settled market_invD(1) [OF inv] by auto
  have "unique_docs cl_claimId (db_claims s @ settled_claims l)"
  proof (rule unique_claims_append [OF inv])
    show "distinct (map cl_claimId (settled_claims l))"
      using claim_id_inj [of "li_listingId l" Won 0 "li_listingId l" Sale 0]
      by (auto simp: settled_claims_def split: option.splits)
    show "cl_claimId c \<notin> cl_claimId ` set (db_claims s)" if "c \<in> set (settled_claims l)" for c
      using that fresh_claim [OF inv l(1) settled(3), of 0 Won] fresh_claim [OF inv l(1) settled(3), of 0 Sale]
        fresh_claim [OF inv l(1) settled(3), of 0 Unsold]
      by (auto simp: settled_claims_def split: option.splits)
  qed
  moreover have "listing_ok ?l" using l(2) by (simp add: settled_def listing_ok_ended)
  ultimately have "market_inv ?t"
    using settled_claims_ok [OF l(2)]
    by (intro market_inv_update [OF inv settled(1,2)]) (simp_all add: settled_def split: if_splits)
  moreover have "aged newId s ?t" using settled by (intro aged_update [of _ _ i ?l]) (simp_all add: settled_def)
  moreover have "?t \<noteq> s"
  proof
    assume "?t = s"
    then have "db_listings ?t = db_listings s" by simp
    then have "(db_listings s)[i := ?l] = db_listings s" by simp
    then have "?l = l" using settled(1,2) by (metis nth_list_update_eq)
    then show False by (simp add: settled_def)
  qed
  moreover have "open_bid ?l = 0" "open_goods ?l = {#}"
    by (simp_all add: settled_def open_bid_def open_goods_def)
  then have "escrow_coins ?t + (if is_won l then li_saleFee l else 0) = escrow_coins s" "escrow_goods ?t = escrow_goods s"
    using escrow_update [OF settled(1), where l' = ?l and cs = "settled_claims l"] settled_claims_pending [OF l(2) settled(3)]
    unfolding settled(2) [symmetric] by (linarith, simp)
  moreover have "?l \<in> set (db_listings ?t)" using settled(1) by (simp add: set_update_memI)
  ultimately show ?thesis using settled l by (intro that [of ?t]) simp_all
qed

end
