(* ===== verification/JointCommit.thy ===== *)
theory JointCommit imports WorldDrops MarketSafety begin

text \<open>
  The joint commit of \<open>src/projects/cyberia/player/player-state.js\<close>: \<open>commitStates\<close> commits the states
  of the players of one operation and its effect (a drop, a pickup or a market operation) in one
  transaction, under an idempotency record.

  The fingerprint of a request is a digest of its bytes, \<open>fp\<close>, which the code takes from the crypto
  module; it is an argument.
\<close>

section \<open>Requests and answers\<close>

record joint =
  jo_operationId :: string
  jo_kind :: string
  jo_commits :: "commit list"
  jo_drop :: js
  jo_claimDropId :: string
  jo_market :: js

record joint_answer =
  ja_refusal :: string
  ja_playerId :: string
  ja_duplicate :: bool
  ja_defect :: string

definition joint_answer :: "string \<Rightarrow> string \<Rightarrow> bool \<Rightarrow> joint_answer" where
  "joint_answer refusal playerId duplicate = \<lparr>ja_refusal = refusal, ja_playerId = playerId,
     ja_duplicate = duplicate, ja_defect = ''''\<rparr>"

definition invalid :: "string \<Rightarrow> string \<Rightarrow> joint_answer" where
  "invalid defect playerId = (joint_answer ''invalid'' playerId False)\<lparr>ja_defect := defect\<rparr>"

definition operationDefect :: "joint \<Rightarrow> string" where
  "operationDefect r =
     (if \<not> distinct (map cm_playerId (jo_commits r)) then ''an operation joins distinct players''
      else if jo_kind r \<in> set MARKET_KINDS then
        (if length (jo_commits r) = 1 \<and> \<not> truthy (jo_drop r) \<and> jo_claimDropId r = ''''
         then marketOpDefect (jo_kind r) (jo_market r) else ''a market joins one player'')
      else if truthy (jo_market r) then ''only a market operation carries a market''
      else if jo_kind r = ''trade'' then
        (if 2 \<le> length (jo_commits r) \<and> \<not> truthy (jo_drop r) \<and> jo_claimDropId r = '''' then ''''
         else ''a trade joins two or more players and no drop'')
      else if jo_kind r = ''drop'' then
        (if length (jo_commits r) = 1 \<and> jo_claimDropId r = '''' then worldDropDefect (jo_drop r)
         else ''a drop joins one player and its drop'')
      else if jo_kind r = ''pickup'' then
        (if length (jo_commits r) = 1 \<and> \<not> truthy (jo_drop r) \<and> isText (Str (jo_claimDropId r)) then ''''
         else ''a pickup joins one player and one claim'')
      else ''bad operation kind'')"

section \<open>The transaction\<close>

text \<open>The checks of the commits, in order; the first refusal answers.\<close>

fun checkCommits :: "mongo \<Rightarrow> db \<Rightarrow> commit list \<Rightarrow> joint_answer + (player \<times> string) list" where
  "checkCommits M s [] = Inr []"
| "checkCommits M s (c # cs) =
     (case checkCommit M c s of
        Refused refusal revision \<Rightarrow> Inl (joint_answer refusal (cm_playerId c) False)
      | Repeated revision \<Rightarrow> Inl (invalid ''a sequence of the operation was applied alone'' (cm_playerId c))
      | Ready doc code \<Rightarrow> bindE (checkCommits M s cs) (\<lambda>checks. Inr ((doc, code) # checks)))"

definition writeCommits :: "mongo \<Rightarrow> ms \<Rightarrow> (commit \<times> player \<times> string) list \<Rightarrow> (db, unit) work" where
  "writeCommits M now = eachW (\<lambda>(c, doc, code). bindW (writeCommit M now c doc code) (\<lambda>_. retW ()))"

definition recordOperation :: "mongo \<Rightarrow> ms \<Rightarrow> (joint \<Rightarrow> string) \<Rightarrow> joint \<Rightarrow> string \<Rightarrow> (db, unit) work" where
  "recordOperation M now fp r instanceCode = writeW (\<lambda>s. bindE (drv_create (mg_operations M)
       [\<lparr>op_operationId = jo_operationId r, op_kind = jo_kind r, op_instanceCode = instanceCode,
         op_players = map cm_playerId (jo_commits r), op_seqs = map cm_seq (jo_commits r), op_fingerprint = fp r,
         op_expiresAt = now + OPERATION_RECORD_DAYS * 86400000\<rparr>] (db_operations s))
     (\<lambda>c. Inr (s\<lparr>db_operations := c\<rparr>)))"

definition marketOpOf :: "joint \<Rightarrow> string \<Rightarrow> string \<Rightarrow> market_op" where
  "marketOpOf r playerId instanceCode = \<lparr>mo_kind = jo_kind r, mo_market = jo_market r,
     mo_operationId = jo_operationId r, mo_playerId = playerId, mo_instanceCode = instanceCode\<rparr>"

definition recordedOperation :: "mongo \<Rightarrow> string \<Rightarrow> db \<Rightarrow> operation option" where
  "recordedOperation M operationId s =
     drv_find_one (mg_operations M) (\<lambda>p. op_operationId p = operationId) (db_operations s)"

text \<open>The work of the transaction once no record of the operation was found and every commit is ready.\<close>

definition applyJoint ::
    "mongo \<Rightarrow> ms \<Rightarrow> oid \<Rightarrow> (joint \<Rightarrow> string) \<Rightarrow> joint \<Rightarrow> (player \<times> string) list \<Rightarrow> (db, joint_answer) work" where
  "applyJoint M now newId fp r checks =
     (let playerId = cm_playerId (hd (jo_commits r)); instanceCode = snd (hd checks) in
      bindW (if jo_claimDropId r \<noteq> '''' then claimWorldDrop M now (jo_claimDropId r) instanceCode playerId else retW True)
        (\<lambda>claimed. if \<not> claimed then retW (joint_answer ''drop_gone'' playerId False)
         else bindW (if truthy (jo_market r) then applyMarketOp M now newId (marketOpOf r playerId instanceCode) else retW '''')
           (\<lambda>refusal. if refusal \<noteq> '''' then retW (joint_answer refusal playerId False)
            else bindW (writeCommits M now (zip (jo_commits r) checks)) (\<lambda>_.
              bindW (if truthy (jo_drop r) then createWorldDrop M now (jo_operationId r) instanceCode playerId (jo_drop r)
                     else retW ()) (\<lambda>_.
              bindW (recordOperation M now fp r instanceCode) (\<lambda>_. retW (joint_answer '''' '''' False)))))))"

definition jointWork :: "mongo \<Rightarrow> ms \<Rightarrow> oid \<Rightarrow> (joint \<Rightarrow> string) \<Rightarrow> joint \<Rightarrow> (db, joint_answer) work" where
  "jointWork M now newId fp r s =
     (case recordedOperation M (jo_operationId r) s of
        Some recorded \<Rightarrow> (Inr (if op_fingerprint recorded = fp r then joint_answer '''' '''' True
           else invalid ''operation id reused with another request'' ''''), s)
      | None \<Rightarrow>
          (case checkCommits M s (jo_commits r) of
             Inl a \<Rightarrow> (Inr a, s)
           | Inr checks \<Rightarrow> applyJoint M now newId fp r checks s))"

text \<open>The first defect of the commits, with its player.\<close>

fun commitsDefect :: "mongo \<Rightarrow> commit list \<Rightarrow> joint_answer option" where
  "commitsDefect M [] = None"
| "commitsDefect M (c # cs) = (if requestDefect M c \<noteq> '''' then Some (invalid (requestDefect M c) (cm_playerId c))
     else commitsDefect M cs)"

definition jointDefect :: "mongo \<Rightarrow> joint \<Rightarrow> joint_answer option" where
  "jointDefect M r =
     (if \<not> isText (Str (jo_operationId r)) then Some (invalid ''bad operation id'' '''')
      else if jo_kind r \<notin> set ECONOMY_OPERATION_KINDS then Some (invalid ''bad operation kind'' '''')
      else if operationDefect r \<noteq> '''' then Some (invalid (operationDefect r) '''')
      else commitsDefect M (jo_commits r))"

definition commitStates ::
    "mongo \<Rightarrow> ms \<Rightarrow> oid \<Rightarrow> (joint \<Rightarrow> string) \<Rightarrow> attempt list \<Rightarrow> joint \<Rightarrow> (db, joint_answer) work" where
  "commitStates M now newId fp as r s =
     (case jointDefect M r of
        Some a \<Rightarrow> (Inr a, s)
      | None \<Rightarrow> commitTransaction as (jointWork M now newId fp r) (joint_answer ''integrity'' '''' False) s)"

section \<open>Refusals write nothing\<close>

lemma updateListing_none:
  assumes "lawful_mongo M" "\<And>l. f l \<noteq> l" "updateListing M P f s = (Inr n, t)" "n \<noteq> 1"
  shows "t = s"
  using assms(1,2) by (rule updateListing_cases [of M f s P]) (use assms(3,4) in auto)

lemma market_refusal_idle:
  assumes M: "lawful_mongo M" and r: "applyMarketOp M now newId op s = (Inr r, t)" "r \<noteq> ''''"
  shows "t = s"
proof -
  have list: "market_list M now newId op s = (Inr r, t) \<Longrightarrow> t = s"
    using r(2) by (auto simp: market_list_def Let_def split: if_splits)
  have cancel: "market_cancel M now op s = (Inr r, t) \<Longrightarrow> t = s"
    using r(2) updateListing_none [OF M, where f = "\<lambda>l. ended now Cancelled (li_buyer l) l", OF ended_other]
    by (auto simp: market_cancel_def Let_def split: if_splits)
  have buy: "market_buy M now op s = (Inr r, t) \<Longrightarrow> t = s"
    using r(2) by (auto simp: market_buy_def Let_def split: option.splits sum.splits) (metis sumE)
  have bid: "market_bid M now op s = (Inr r, t) \<Longrightarrow> t = s"
    using r(2) updateListing_none [OF M bid_raised_other, unfolded bid_raised_def [abs_def]]
    by (auto simp: market_bid_def Let_def split: option.splits if_splits)
  have collect: "market_collect M now op s = (Inr r, t) \<Longrightarrow> t = s"
    using r(2) by (auto simp: market_collect_def Let_def split: if_splits)
  show ?thesis
    using r list cancel buy bid collect by (auto simp: applyMarketOp_def split: if_splits)
qed

lemma claim_refusal_idle:
  assumes M: "lawful_mongo M" and "claimWorldDrop M now d code collector s = (Inr False, t)"
  shows "t = s"
proof -
  let ?P = "\<lambda>x. wd_dropId x = d \<and> on_ground now code x"
  have n: "fst (snd (drv_update_one (mg_drops M) ?P (claimed_by collector now) (db_drops s)))
      = (if \<exists>x\<in>set (db_drops s). ?P x then 1 else 0)"
    using claimed_by_other by (intro collection.update_one_modified [OF lawful_mongoD(4) [OF M]]) blast
  show ?thesis
  proof (cases "\<exists>x\<in>set (db_drops s). ?P x")
    case True
    then show ?thesis using assms(2) n by (auto simp: claimWorldDrop_def split: prod.splits)
  next
    case False
    then have "drv_update_one (mg_drops M) ?P (claimed_by collector now) (db_drops s) = (0, 0, db_drops s)"
      by (intro collection.update_one_none [OF lawful_mongoD(4) [OF M]]) simp
    then show ?thesis using assms(2) by (simp add: claimWorldDrop_def)
  qed
qed

section \<open>The writes of several commits\<close>

lemma checkCommits_Inr:
  "checkCommits M s cs = Inr checks \<longleftrightarrow> list_all2 (\<lambda>c (doc, code). checkCommit M c s = Ready doc code) cs checks"
  by (induction cs arbitrary: checks) (auto simp: list_all2_Cons1 split: checked.splits)

lemma findById_commit_other:
  assumes M: "lawful_mongo M" and u: "unique_db s" "unique_db t" and ne: "pid \<noteq> k"
    and t: "db_players t = map (\<lambda>p. if pl_id p = k then commit_player c doc code now p else p) (db_players s)"
    and f: "findById M pid s = Some p"
  shows "findById M pid t = Some p"
proof -
  have "p \<in> set (db_players s)" "pl_id p = pid" using findById_Some [OF M f] by blast+
  then have "p \<in> set (db_players t)" using ne by (auto simp: t image_iff)
  then show ?thesis using findById_unique [OF M u(2)] \<open>pl_id p = pid\<close> by blast
qed

text \<open>Each profile a commit names is written from the document it was checked against; no other moves.\<close>

lemma writeCommits_ok:
  assumes M: "lawful_mongo M"
  shows "unique_db s \<Longrightarrow> distinct (map (\<lambda>cd. cm_playerId (fst cd)) cds) \<Longrightarrow>
    (\<forall>(c, doc, code)\<in>set cds. findById M (cm_playerId c) s = Some doc \<and> pl_epoch doc = cm_epoch c
       \<and> (cm_questsChanged c \<longrightarrow> quests_ok (jget (cm_state c) ''quests''))) \<Longrightarrow>
    \<exists>t. writeCommits M now cds s = (Inr (), t) \<and> unique_db t
      \<and> t = s\<lparr>db_players := db_players t, db_quests := db_quests t\<rparr>
      \<and> (\<forall>(c, doc, code)\<in>set cds. findById M (cm_playerId c) t = Some (commit_player c doc code now doc))
      \<and> (\<forall>pid p. pid \<notin> (\<lambda>cd. cm_playerId (fst cd)) ` set cds \<longrightarrow> findById M pid s = Some p \<longrightarrow> findById M pid t = Some p)"
proof (induction cds arbitrary: s)
  case Nil
  then show ?case by (intro exI [of _ s]) (simp add: writeCommits_def retW_def)
next
  case (Cons cd cds)
  obtain c doc code where cd: "cd = (c, doc, code)" by (metis prod_cases3)
  have doc: "findById M (cm_playerId c) s = Some doc" "pl_epoch doc = cm_epoch c"
    and qs: "cm_questsChanged c \<Longrightarrow> quests_ok (jget (cm_state c) ''quests'')"
    using Cons.prems(3) cd by auto
  obtain qs' where w: "writeCommit M now c doc code s = (Inr (pl_revision doc + 1),
      s\<lparr>db_players := map (\<lambda>p. if pl_id p = cm_playerId c then commit_player c doc code now p else p)
           (db_players s), db_quests := qs'\<rparr>)" "unique_docs quest_key qs'"
    by (rule writeCommit_ok [OF M Cons.prems(1) doc qs])
  let ?s1 = "s\<lparr>db_players := map (\<lambda>p. if pl_id p = cm_playerId c then commit_player c doc code now p else p)
           (db_players s), db_quests := qs'\<rparr>"
  have u1: "unique_db ?s1" using unique_db_commit [OF Cons.prems(1) w(2)] .
  have keep: "findById M pid ?s1 = Some p" if "pid \<noteq> cm_playerId c" "findById M pid s = Some p" for pid p
    using findById_commit_other [OF M Cons.prems(1) u1 that(1) _ that(2), of c doc code now] by simp
  have mine: "findById M (cm_playerId c) ?s1 = Some (commit_player c doc code now doc)"
  proof -
    have "doc \<in> set (db_players s)" "pl_id doc = cm_playerId c" using findById_Some [OF M doc(1)] by blast+
    then have "commit_player c doc code now doc \<in> set (db_players ?s1)" by (auto simp: image_iff)
    from findById_unique [OF M u1 this] show ?thesis by (simp add: \<open>pl_id doc = cm_playerId c\<close>)
  qed
  have fresh: "cm_playerId c \<notin> (\<lambda>cd. cm_playerId (fst cd)) ` set cds" using Cons.prems(2) cd by simp
  have "\<forall>(c, doc, code)\<in>set cds. findById M (cm_playerId c) ?s1 = Some doc \<and> pl_epoch doc = cm_epoch c
       \<and> (cm_questsChanged c \<longrightarrow> quests_ok (jget (cm_state c) ''quests''))"
  proof (intro ballI)
    fix x assume x: "x \<in> set cds"
    obtain c' doc' code' where x': "x = (c', doc', code')" by (metis prod_cases3)
    have "cm_playerId c' \<noteq> cm_playerId c" using fresh x x' by force
    then show "case x of (c, doc, code) \<Rightarrow> findById M (cm_playerId c) ?s1 = Some doc \<and> pl_epoch doc = cm_epoch c
       \<and> (cm_questsChanged c \<longrightarrow> quests_ok (jget (cm_state c) ''quests''))"
      using Cons.prems(3) x x' keep by auto
  qed
  from Cons.IH [OF u1 _ this] Cons.prems(2) cd obtain t where t: "writeCommits M now cds ?s1 = (Inr (), t)" "unique_db t"
    "t = ?s1\<lparr>db_players := db_players t, db_quests := db_quests t\<rparr>"
    "\<forall>(c, doc, code)\<in>set cds. findById M (cm_playerId c) t = Some (commit_player c doc code now doc)"
    "\<forall>pid p. pid \<notin> (\<lambda>cd. cm_playerId (fst cd)) ` set cds \<longrightarrow> findById M pid ?s1 = Some p \<longrightarrow> findById M pid t = Some p"
    by auto
  have "writeCommits M now (cd # cds) s = (Inr (), t)"
    using t(1) w(1) cd by (simp add: writeCommits_def bindW_def retW_def)
  moreover have "findById M (cm_playerId c) t = Some (commit_player c doc code now doc)"
    using t(5) fresh mine by blast
  moreover have "findById M pid t = Some p"
    if "pid \<notin> (\<lambda>cd. cm_playerId (fst cd)) ` set (cd # cds)" "findById M pid s = Some p" for pid p
    using t(5) keep that cd by auto
  moreover have "t = s\<lparr>db_players := db_players t, db_quests := db_quests t\<rparr>"
    using t(3) by (cases s; cases t) simp
  ultimately show ?case using t(2,4) cd by (intro exI [of _ t]) auto
qed

section \<open>What an operation leaves alone\<close>

definition market_frame :: "db \<Rightarrow> db \<Rightarrow> bool" where
  "market_frame s t \<longleftrightarrow> t = s\<lparr>db_listings := db_listings t, db_claims := db_claims t\<rparr> \<and> (unique_db s \<longrightarrow> unique_db t)"

lemma market_frame_refl [simp]: "market_frame s s"
  by (simp add: market_frame_def)

lemma market_frame_trans:
  assumes "market_frame s t" "market_frame t u"
  shows "market_frame s u"
  using assms unfolding market_frame_def by (cases s; cases t; cases u) simp

lemma create_unique:
  assumes "collection drv key valid" "unique_docs key c" "drv_create drv ds c = Inr c'"
  shows "unique_docs key c' \<and> c' = c @ ds"
  using assms(1,2) by (rule collection.create_cases [where ds = ds]) (use assms(3) in auto)

lemma updateListing_frame:
  assumes M: "lawful_mongo M" and f: "\<And>l. li_listingId (f l) = li_listingId l" and up: "updateListing M P f s = (Inr n, t)"
  shows "market_frame s t"
proof (cases "\<exists>l\<in>set (db_listings s). P l")
  case True
  from collection.update_one_some [OF lawful_mongoD(5) [OF M] True, of f] obtain i where
    "i < length (db_listings s)" "t = s\<lparr>db_listings := (db_listings s)[i := f (db_listings s ! i)]\<rparr>"
    using up by (auto simp: updateListing_def)
  then show ?thesis
    using f by (simp add: market_frame_def unique_db_def unique_docs_def map_update_same)
next
  case False
  then have "drv_update_one (mg_listings M) P f (db_listings s) = (0, 0, db_listings s)"
    by (intro collection.update_one_none [OF lawful_mongoD(5) [OF M]]) simp
  then show ?thesis using up by (simp add: updateListing_def)
qed

lemma createClaims_frame:
  assumes M: "lawful_mongo M" and c: "createClaims M cs s = (Inr u, t)"
  shows "market_frame s t"
proof -
  obtain c' where c': "drv_create (mg_claims M) cs (db_claims s) = Inr c'" "t = s\<lparr>db_claims := c'\<rparr>"
    using c by (auto simp: createClaims_def)
  then show ?thesis
    using create_unique [OF lawful_mongoD(6) [OF M] _ c'(1)] by (auto simp: market_frame_def unique_db_def)
qed

lemma market_op_frame:
  assumes M: "lawful_mongo M" and r: "applyMarketOp M now newId op s = (Inr r, t)"
  shows "market_frame s t"
proof -
  have up: "market_frame s t" if "updateListing M P (\<lambda>l. ended now st (b l) l) s = (Inr n, t)" for P st b n s t
    using M _ that by (rule updateListing_frame) simp
  have raise: "market_frame s t" if "updateListing M P (bid_raised k b) s = (Inr n, t)" for P k b n s t
    using M _ that by (rule updateListing_frame) simp
  note claims = createClaims_frame [OF M]
  have list: "market_frame s t" if "market_list M now newId op s = (Inr r, t)"
    using that create_unique [OF lawful_mongoD(5) [OF M], of "db_listings s"]
    by (auto simp: market_list_def Let_def market_frame_def unique_db_def split: if_splits)
  have cancel: "market_frame s t" if "market_cancel M now op s = (Inr r, t)"
    using that by (auto simp: market_cancel_def Let_def dest: up)
  have buy: "market_frame s t" if "market_buy M now op s = (Inr r, t)"
    using that by (auto simp: market_buy_def Let_def proceeds_def split: option.splits if_splits dest!: up claims
          intro: market_frame_trans)
  have bid: "market_frame s t" if "market_bid M now op s = (Inr r, t)"
    using that raise [unfolded bid_raised_def [abs_def]]
    by (auto simp: market_bid_def Let_def split: option.splits if_splits dest: claims) (blast intro: market_frame_trans dest: claims)
  have collect: "market_frame s t" if "market_collect M now op s = (Inr r, t)"
    using that collection.update_many [OF lawful_mongoD(6) [OF M]]
    by (auto simp: market_collect_def Let_def market_frame_def unique_db_def unique_docs_map split: if_splits)
  show ?thesis
    using r list cancel buy bid collect by (auto simp: applyMarketOp_def split: if_splits)
qed

section \<open>The effect of a joint commit\<close>

lemma commitsDefect_None:
  "commitsDefect M cs = None \<longleftrightarrow> (\<forall>c\<in>set cs. requestDefect M c = '''')"
  by (induction cs) auto

text \<open>What the database is after a joint commit that applied.\<close>

definition joint_effect :: "mongo \<Rightarrow> ms \<Rightarrow> oid \<Rightarrow> (joint \<Rightarrow> string) \<Rightarrow> joint \<Rightarrow> db \<Rightarrow> db \<Rightarrow> bool" where
  "joint_effect M now newId fp r s t \<longleftrightarrow>
     (\<exists>code u. (\<forall>c\<in>set (jo_commits r). \<exists>doc world. checkCommit M c s = Ready doc world
           \<and> findById M (cm_playerId c) t = Some (commit_player c doc world now doc))
      \<and> (\<forall>pid p. pid \<notin> cm_playerId ` set (jo_commits r) \<longrightarrow> findById M pid s = Some p \<longrightarrow> findById M pid t = Some p)
      \<and> (jo_claimDropId r \<noteq> '''' \<longrightarrow> claimWorldDrop M now (jo_claimDropId r) code (cm_playerId (hd (jo_commits r))) s
           = (Inr True, s\<lparr>db_drops := db_drops t\<rparr>))
      \<and> (truthy (jo_drop r) \<longrightarrow> db_drops t = db_drops s @ [new_drop now (jo_operationId r) code (cm_playerId (hd (jo_commits r))) (jo_drop r)])
      \<and> (if truthy (jo_market r)
         then applyMarketOp M now newId (marketOpOf r (cm_playerId (hd (jo_commits r))) code) s = (Inr '''', u)
           \<and> db_listings t = db_listings u \<and> db_claims t = db_claims u
         else db_listings t = db_listings s \<and> db_claims t = db_claims s)
      \<and> recordedOperation M (jo_operationId r) s = None
      \<and> (\<exists>p. recordedOperation M (jo_operationId r) t = Some p \<and> op_fingerprint p = fp r))"

lemma operationDefect_exclusive:
  assumes "operationDefect r = ''''"
  shows "jo_claimDropId r \<noteq> '''' \<Longrightarrow> \<not> truthy (jo_market r) \<and> \<not> truthy (jo_drop r)"
    and "truthy (jo_market r) \<Longrightarrow> \<not> truthy (jo_drop r)" "jo_commits r \<noteq> []" "distinct (map cm_playerId (jo_commits r))"
proof -
  have "marketOpDefect kind Undefined \<noteq> ''''" "marketOpDefect kind Null \<noteq> ''''" for kind
    by (simp_all add: marketOpDefect_def)
  then show "jo_claimDropId r \<noteq> '''' \<Longrightarrow> \<not> truthy (jo_market r) \<and> \<not> truthy (jo_drop r)"
    "truthy (jo_market r) \<Longrightarrow> \<not> truthy (jo_drop r)" "jo_commits r \<noteq> []" "distinct (map cm_playerId (jo_commits r))"
    using assms by (auto simp: operationDefect_def split: if_splits)
qed

lemma checkCommits_Inl: "checkCommits M s cs = Inl a \<Longrightarrow> ja_refusal a \<noteq> ''''"
proof (induction cs)
  case (Cons c cs)
  have "checkCommit M c s = Refused x n \<Longrightarrow> x \<noteq> ''''" for x n
    by (auto simp: checkCommit_def split: option.splits if_splits)
  with Cons show ?case
    by (cases "checkCommits M s cs") (auto simp: joint_answer_def invalid_def split: checked.splits)
qed simp

lemma jointWork_applied:
  assumes M: "lawful_mongo M" and u: "unique_db s" and d: "jointDefect M r = None"
    and w: "jointWork M now newId fp r s = (Inr a, t)" and ne: "t \<noteq> s \<or> ja_refusal a = '''' \<and> \<not> ja_duplicate a"
  shows "a = joint_answer '''' '''' False \<and> joint_effect M now newId fp r s t \<and> unique_db t"
proof -
  have shape: "operationDefect r = ''''" and oks: "\<forall>c\<in>set (jo_commits r). requestDefect M c = ''''"
    using d by (auto simp: jointDefect_def commitsDefect_None split: if_splits)
  note excl = operationDefect_exclusive [OF shape]
  let ?pid = "cm_playerId (hd (jo_commits r))"
  obtain checks where none: "recordedOperation M (jo_operationId r) s = None"
    and checks: "checkCommits M s (jo_commits r) = Inr checks" and app: "applyJoint M now newId fp r checks s = (Inr a, t)"
    using w ne checkCommits_Inl by (auto simp: jointWork_def joint_answer_def invalid_def split: option.splits sum.splits if_splits)
  let ?code = "snd (hd checks)"
  obtain claimed s1 where s1: "(if jo_claimDropId r \<noteq> '''' then claimWorldDrop M now (jo_claimDropId r) ?code ?pid else retW True) s = (Inr claimed, s1)"
    and app1: "(if \<not> claimed then retW (joint_answer ''drop_gone'' ?pid False)
         else bindW (if truthy (jo_market r) then applyMarketOp M now newId (marketOpOf r ?pid ?code) else retW '''')
           (\<lambda>refusal. if refusal \<noteq> '''' then retW (joint_answer refusal ?pid False)
            else bindW (writeCommits M now (zip (jo_commits r) checks)) (\<lambda>_.
              bindW (if truthy (jo_drop r) then createWorldDrop M now (jo_operationId r) ?code ?pid (jo_drop r)
                     else retW ()) (\<lambda>_.
              bindW (recordOperation M now fp r ?code) (\<lambda>_. retW (joint_answer '''' '''' False)))))) s1 = (Inr a, t)"
    using app unfolding applyJoint_def Let_def bindW_Inr by blast
  have claimed
    using s1 app1 ne claim_refusal_idle [OF M] by (cases claimed) (auto simp: joint_answer_def split: if_splits)
  then obtain refusal s2 where s2: "(if truthy (jo_market r) then applyMarketOp M now newId (marketOpOf r ?pid ?code) else retW '''') s1 = (Inr refusal, s2)"
    and app2: "(if refusal \<noteq> '''' then retW (joint_answer refusal ?pid False)
            else bindW (writeCommits M now (zip (jo_commits r) checks)) (\<lambda>_.
              bindW (if truthy (jo_drop r) then createWorldDrop M now (jo_operationId r) ?code ?pid (jo_drop r)
                     else retW ()) (\<lambda>_.
              bindW (recordOperation M now fp r ?code) (\<lambda>_. retW (joint_answer '''' '''' False))))) s2 = (Inr a, t)"
    using app1 by auto
  have refusal: "refusal = ''''"
  proof (rule ccontr)
    assume r: "refusal \<noteq> ''''"
    then have "truthy (jo_market r)" using s2 by (auto simp: retW_def split: if_splits)
    with s2 r market_refusal_idle [OF M] have "s2 = s1" by auto
    moreover have "s1 = s" using s1 excl(1) \<open>truthy (jo_market r)\<close> by (auto simp: retW_def split: if_splits)
    ultimately show False using app2 r ne by (auto simp: joint_answer_def)
  qed
  have u2: "unique_db s2 \<and> db_players s2 = db_players s \<and> db_sessions s2 = db_sessions s \<and> db_operations s2 = db_operations s"
  proof (cases "truthy (jo_market r)")
    case True
    then have "s1 = s" using s1 excl(1) by (auto simp: retW_def split: if_splits)
    with True s2 market_op_frame [OF M] have "market_frame s s2" by simp
    then show ?thesis using u unfolding market_frame_def by (cases s; cases s2) simp
  next
    case False
    then have "s2 = s1" using s2 by (simp add: retW_def)
    with s1 u unique_db_drops [OF u] show ?thesis
      by (cases "jo_claimDropId r = ''''") (auto simp: retW_def claimWorldDrop_eq [OF M u])
  qed
  let ?cds = "zip (jo_commits r) checks"
  have all2: "list_all2 (\<lambda>c (doc, code). checkCommit M c s = Ready doc code) (jo_commits r) checks"
    using checks by (simp add: checkCommits_Inr)
  have ids: "map (\<lambda>cd. cm_playerId (fst cd)) ?cds = map cm_playerId (jo_commits r)"
  proof -
    have "map (\<lambda>cd. cm_playerId (fst cd)) ?cds = map cm_playerId (map fst ?cds)" by (simp add: comp_def)
    then show ?thesis using list_all2_lengthD [OF all2] by (simp only: map_fst_zip)
  qed
  have ready: "checkCommit M c s = Ready doc code \<and> c \<in> set (jo_commits r)" if "(c, doc, code) \<in> set ?cds" for c doc code
    using all2 that by (auto simp: list_all2_iff dest: set_zip_leftD)
  have find: "findById M pid s2 = findById M pid s" for pid using u2 by (simp add: findById_def)
  have "\<forall>(c, doc, code)\<in>set ?cds. findById M (cm_playerId c) s2 = Some doc \<and> pl_epoch doc = cm_epoch c
       \<and> (cm_questsChanged c \<longrightarrow> quests_ok (jget (cm_state c) ''quests''))"
  proof (intro ballI)
    fix x assume x: "x \<in> set ?cds"
    obtain c doc code where x': "x = (c, doc, code)" by (metis prod_cases3)
    with ready x have "checkCommit M c s = Ready doc code" "requestDefect M c = ''''" using oks by auto
    then show "case x of (c, doc, code) \<Rightarrow> findById M (cm_playerId c) s2 = Some doc \<and> pl_epoch doc = cm_epoch c
       \<and> (cm_questsChanged c \<longrightarrow> quests_ok (jget (cm_state c) ''quests''))"
      using x' by (auto simp: find checkCommit_Ready requestDefect_def stateDefect_iff state_ok_def split: if_splits)
  qed
  from writeCommits_ok [OF M _ _ this, where now = now] u2 ids excl(4)
  obtain s3 where s3: "writeCommits M now ?cds s2 = (Inr (), s3)" "unique_db s3"
    "s3 = s2\<lparr>db_players := db_players s3, db_quests := db_quests s3\<rparr>"
    "\<forall>(c, doc, code)\<in>set ?cds. findById M (cm_playerId c) s3 = Some (commit_player c doc code now doc)"
    "\<forall>pid p. pid \<notin> (\<lambda>cd. cm_playerId (fst cd)) ` set ?cds \<longrightarrow> findById M pid s2 = Some p \<longrightarrow> findById M pid s3 = Some p"
    by auto
  then obtain s4 where s4: "(if truthy (jo_drop r) then createWorldDrop M now (jo_operationId r) ?code ?pid (jo_drop r) else retW ()) s3 = (Inr (), s4)"
    and rec: "recordOperation M now fp r ?code s4 = (Inr (), t)" and a: "a = joint_answer '''' '''' False"
    using app2 refusal by auto
  have s4': "s4 = s3\<lparr>db_drops := db_drops s4\<rparr>
     \<and> db_drops s4 = (if truthy (jo_drop r) then db_drops s3 @ [new_drop now (jo_operationId r) ?code ?pid (jo_drop r)] else db_drops s3)"
    using s4 s3(2) create_unique [OF lawful_mongoD(4) [OF M], of "db_drops s3"]
    by (auto simp: createWorldDrop_def retW_def unique_db_def split: if_splits)
  have t: "t = s4\<lparr>db_operations := db_operations t\<rparr>" "db_operations t = db_operations s @
       [\<lparr>op_operationId = jo_operationId r, op_kind = jo_kind r, op_instanceCode = ?code,
         op_players = map cm_playerId (jo_commits r), op_seqs = map cm_seq (jo_commits r), op_fingerprint = fp r,
         op_expiresAt = now + OPERATION_RECORD_DAYS * 86400000\<rparr>]"
  proof -
    have ops: "db_operations s4 = db_operations s" "unique_docs op_operationId (db_operations s)"
      using s4' s3(3) u2 u unfolding unique_db_def by (cases s3; cases s4; cases s2; simp)+
    show "t = s4\<lparr>db_operations := db_operations t\<rparr>" using rec by (auto simp: recordOperation_def)
    show "db_operations t = db_operations s @
       [\<lparr>op_operationId = jo_operationId r, op_kind = jo_kind r, op_instanceCode = ?code,
         op_players = map cm_playerId (jo_commits r), op_seqs = map cm_seq (jo_commits r), op_fingerprint = fp r,
         op_expiresAt = now + OPERATION_RECORD_DAYS * 86400000\<rparr>]"
      using rec create_unique [OF lawful_mongoD(7) [OF M] ops(2)] ops(1) by (auto simp: recordOperation_def)
  qed
  have u4: "unique_db s4"
    using s4 s3(2) create_unique [OF lawful_mongoD(4) [OF M], of "db_drops s3"]
    by (auto simp: createWorldDrop_def retW_def unique_db_def split: if_splits)
  then have ut: "unique_db t"
    using rec create_unique [OF lawful_mongoD(7) [OF M], of "db_operations s4"] by (auto simp: recordOperation_def unique_db_def)
  have players: "findById M pid t = findById M pid s3" for pid
    using t(1) s4' by (simp add: findById_def) (metis db.select_convs(1) db.surjective db.update_convs(4,7))
  have fields: "db_drops t = db_drops s4" "db_listings t = db_listings s2" "db_claims t = db_claims s2" "db_drops s3 = db_drops s2"
    using t(1) s4' s3(3) by (cases t; cases s4; cases s3; cases s2; simp)+
  show ?thesis
    unfolding joint_effect_def
  proof (intro conjI exI [of _ ?code] exI [of _ s2] a ut ballI allI impI)
    fix c assume "c \<in> set (jo_commits r)"
    then obtain doc code where "(c, doc, code) \<in> set ?cds"
      using list_all2_lengthD [OF all2] by (metis in_set_impl_in_set_zip1 prod_cases3 surj_pair)
    then show "\<exists>doc world. checkCommit M c s = Ready doc world \<and> findById M (cm_playerId c) t = Some (commit_player c doc world now doc)"
      using ready s3(4) players by auto
  next
    fix pid p assume "pid \<notin> cm_playerId ` set (jo_commits r)" "findById M pid s = Some p"
    moreover have "(\<lambda>cd. cm_playerId (fst cd)) ` set ?cds = cm_playerId ` set (jo_commits r)"
      using arg_cong [OF ids, of set] by simp
    ultimately show "findById M pid t = Some p" using s3(5) players find by auto
  next
    assume c: "jo_claimDropId r \<noteq> ''''"
    then have "s2 = s1" "\<not> truthy (jo_drop r)" using excl(1) s2 by (simp_all add: retW_def)
    with c s1 \<open>claimed\<close> show "claimWorldDrop M now (jo_claimDropId r) ?code ?pid s = (Inr True, s\<lparr>db_drops := db_drops t\<rparr>)"
      using fields s4' by (auto simp: claimWorldDrop_eq [OF M u])
  next
    assume d: "truthy (jo_drop r)"
    then have "jo_claimDropId r = ''''" "\<not> truthy (jo_market r)" using excl by auto
    then have "s2 = s" using s1 s2 by (simp add: retW_def)
    with d show "db_drops t = db_drops s @ [new_drop now (jo_operationId r) ?code ?pid (jo_drop r)]"
      using fields s4' by simp
  next
    show "if truthy (jo_market r)
         then applyMarketOp M now newId (marketOpOf r ?pid ?code) s = (Inr '''', s2)
           \<and> db_listings t = db_listings s2 \<and> db_claims t = db_claims s2
         else db_listings t = db_listings s \<and> db_claims t = db_claims s"
    proof (cases "truthy (jo_market r)")
      case True
      then have "s1 = s" using s1 excl(1) by (auto simp: retW_def split: if_splits)
      with True s2 refusal show ?thesis using fields by simp
    next
      case False
      then have "s2 = s1" using s2 by (simp add: retW_def)
      with False s1 show ?thesis using fields
        by (cases "jo_claimDropId r = ''''") (auto simp: retW_def claimWorldDrop_eq [OF M u])
    qed
  next
    show "recordedOperation M (jo_operationId r) s = None" by (rule none)
    have old: "op_operationId p \<noteq> jo_operationId r" if "p \<in> set (db_operations s)" for p
      using none that collection.find_one_none [OF lawful_mongoD(7) [OF M]] by (auto simp: recordedOperation_def)
    show "\<exists>p. recordedOperation M (jo_operationId r) t = Some p \<and> op_fingerprint p = fp r"
    proof (cases "recordedOperation M (jo_operationId r) t")
      case None
      then show ?thesis using t(2) collection.find_one_none [OF lawful_mongoD(7) [OF M]] by (simp add: recordedOperation_def)
    next
      case (Some p)
      then have "p \<in> set (db_operations t)" "op_operationId p = jo_operationId r"
        using collection.find_one_some [OF lawful_mongoD(7) [OF M]] unfolding recordedOperation_def by blast+
      then have "op_fingerprint p = fp r" using t(2) old by auto
      with Some show ?thesis by simp
    qed
  qed
qed

section \<open>Properties\<close>

lemma commitStates_cases:
  assumes M: "lawful_mongo M" and u: "unique_db s" and c: "commitStates M now newId fp as r s = (res, t)"
  obtains (unchanged) "t = s"
      "\<And>a. res = Inr a \<Longrightarrow> ja_refusal a = '''' \<Longrightarrow> jointDefect M r = None \<and> a = joint_answer '''' '''' True
         \<and> (\<exists>p. recordedOperation M (jo_operationId r) s = Some p \<and> op_fingerprint p = fp r)"
    | (applied) "jointDefect M r = None" "res = Inr (joint_answer '''' '''' False)"
      "joint_effect M now newId fp r s t" "unique_db t"
proof (cases "jointDefect M r")
  case (Some a)
  have "ja_refusal a \<noteq> ''''"
  proof -
    have "commitsDefect M cs = Some b \<Longrightarrow> ja_refusal b = ''invalid''" for cs b
      by (induction cs) (auto simp: invalid_def joint_answer_def split: if_splits)
    then show ?thesis using Some by (auto simp: jointDefect_def invalid_def joint_answer_def split: if_splits)
  qed
  with Some c show ?thesis by (intro unchanged) (auto simp: commitStates_def)
next
  case None
  with c have "commitTransaction as (jointWork M now newId fp r) (joint_answer ''integrity'' '''' False) s = (res, t)"
    by (simp add: commitStates_def)
  then show ?thesis
  proof (cases rule: commitTransaction_cases)
    case (committed a)
    show ?thesis
    proof (cases "t \<noteq> s \<or> ja_refusal a = '''' \<and> \<not> ja_duplicate a")
      case True
      from jointWork_applied [OF M u None committed(2) True] committed(1) None show ?thesis
        by (intro applied) auto
    next
      case False
      have "a = joint_answer '''' '''' True
         \<and> (\<exists>p. recordedOperation M (jo_operationId r) s = Some p \<and> op_fingerprint p = fp r)" if "ja_refusal a = ''''"
      proof (cases "recordedOperation M (jo_operationId r) s")
        case (Some p)
        with committed(2) that show ?thesis by (auto simp: jointWork_def invalid_def joint_answer_def split: if_splits)
      next
        case none: None
        have "ja_duplicate a" using False that by simp
        then show ?thesis using committed(2) none that checkCommits_Inl [of M s]
          by (auto simp: jointWork_def applyJoint_def Let_def joint_answer_def split: sum.splits if_splits)
      qed
      with False None committed show ?thesis by (intro unchanged) auto
    qed
  qed (auto simp: joint_answer_def intro: unchanged)
qed

text \<open>C3: a joint commit applies whole or not at all. Either the database stays as it was, or the
operation answers success, every state of it passed every guard and was written, its drop, its claim
of a drop or its market operation took effect, it was recorded under its id, and no other profile
changed.\<close>

theorem joint_all_or_nothing:
  assumes "lawful_mongo M" "unique_db s" "commitStates M now newId fp as r s = (res, t)"
  shows "t = s \<or> jointDefect M r = None \<and> res = Inr (joint_answer '''' '''' False) \<and> joint_effect M now newId fp r s t \<and> unique_db t"
  using assms by (cases rule: commitStates_cases) auto

text \<open>C8: a retry of a joint commit that succeeded answers \<open>duplicate\<close> and writes nothing, and the same
operation id with another request is refused and writes nothing.\<close>

theorem joint_retry:
  assumes M: "lawful_mongo M" and u: "unique_db s"
    and c: "commitStates M now newId fp as r s = (Inr a, t)" "ja_refusal a = ''''"
    and r': "jo_operationId r' = jo_operationId r" "fp r' \<noteq> fp r" and as': "set as' \<subseteq> {Transient}"
  shows "commitStates M now' newId' fp as' r t = (Inr (joint_answer '''' '''' True), t)
     \<and> (\<exists>b. commitStates M now' newId' fp as' r' t = (Inr b, t) \<and> ja_refusal b = ''invalid'')"
proof -
  have rec: "jointDefect M r = None \<and> (\<exists>p. recordedOperation M (jo_operationId r) t = Some p \<and> op_fingerprint p = fp r)"
    using M u c(1)
  proof (cases rule: commitStates_cases)
    case unchanged
    with c(2) show ?thesis by blast
  next
    case applied
    then show ?thesis by (auto simp: joint_effect_def)
  qed
  then obtain p where p: "jointDefect M r = None" "recordedOperation M (jo_operationId r) t = Some p" "op_fingerprint p = fp r"
    by blast
  have once: "commitStates M n i fp as' q t = commitStates M n i fp [] q t" for n i q
    unfolding commitStates_def commitTransaction_def runTransaction_retries [OF as'] ..
  have "commitStates M now' newId' fp [] r t = (Inr (joint_answer '''' '''' True), t)"
    using p by (simp add: commitStates_def commitTransaction_def jointWork_def)
  moreover have "\<exists>b. commitStates M now' newId' fp [] r' t = (Inr b, t) \<and> ja_refusal b = ''invalid''"
  proof (cases "jointDefect M r'")
    case None
    then show ?thesis using p r'
      by (simp add: commitStates_def commitTransaction_def jointWork_def invalid_def joint_answer_def)
  next
    case (Some b)
    moreover have "commitsDefect M cs = Some b \<Longrightarrow> ja_refusal b = ''invalid''" for cs
      by (induction cs) (auto simp: invalid_def joint_answer_def split: if_splits)
    ultimately have "ja_refusal b = ''invalid''"
      by (auto simp: jointDefect_def invalid_def joint_answer_def split: if_splits)
    with Some show ?thesis by (simp add: commitStates_def)
  qed
  ultimately show ?thesis by (simp add: once)
qed

text \<open>C9: a drop is picked up at most once: after a pickup that applied, no operation that claims the
same drop writes anything, whoever asks, in whatever world and at whatever time; the record is claimed
by the collector of the first, and no world lists it.\<close>

theorem pickup_once:
  assumes M: "lawful_mongo M" and u: "unique_db s"
    and c: "commitStates M now newId fp as r s = (Inr (joint_answer '''' '''' False), t)" "jo_claimDropId r \<noteq> ''''"
    and r': "jo_claimDropId r' = jo_claimDropId r" and c': "commitStates M now' newId' fp as' r' t = (res, t')"
  shows "t' = t \<and> jo_claimDropId r \<notin> wr_dropId ` set (listWorldDrops M now' code' t)
     \<and> (\<exists>d\<in>set (db_drops t). wd_dropId d = jo_claimDropId r \<and> wd_claimedBy d = Some (cm_playerId (hd (jo_commits r))))"
proof -
  from M u c(1) have eff: "joint_effect M now newId fp r s t \<and> unique_db t"
  proof (cases rule: commitStates_cases)
    case unchanged
    from unchanged(2) [OF refl] show ?thesis by (simp add: joint_answer_def)
  qed simp
  then obtain code where claim: "claimWorldDrop M now (jo_claimDropId r) code (cm_playerId (hd (jo_commits r))) s
      = (Inr True, s\<lparr>db_drops := db_drops t\<rparr>)"
    using c(2) by (auto simp: joint_effect_def)
  have off: "\<forall>e\<in>set (db_drops t). wd_dropId e = jo_claimDropId r \<longrightarrow> wd_status e = Claimed"
    using claimed_for_good(1) [OF M u claim] by simp
  have "t' = t"
    using M conjunct2 [OF eff] c'
  proof (cases rule: commitStates_cases)
    case applied
    then obtain code where "claimWorldDrop M now' (jo_claimDropId r) code (cm_playerId (hd (jo_commits r'))) t
        = (Inr True, t\<lparr>db_drops := db_drops t'\<rparr>)"
      using c(2) r' by (auto simp: joint_effect_def)
    from claimed_for_good(2) [OF M conjunct2 [OF eff] this] off show ?thesis by (auto simp: on_ground_def)
  qed simp
  moreover obtain d where d: "wd_dropId d = jo_claimDropId r"
    "claimed_by (cm_playerId (hd (jo_commits r))) now d \<in> set (db_drops t)"
    using claimed_for_good(2) [OF M u claim] by auto
  then have "\<exists>d\<in>set (db_drops t). wd_dropId d = jo_claimDropId r \<and> wd_claimedBy d = Some (cm_playerId (hd (jo_commits r)))"
    by (intro bexI [OF _ d(2)]) (simp add: claimed_by_def)
  ultimately show ?thesis using claimed_not_listed [OF M off] by blast
qed

section \<open>A pickup\<close>

definition sample_drop :: world_drop where
  "sample_drop = new_drop 0 ''d1'' ''w1'' pid2 (Obj [(''mapCode'', Str ''m1''), (''x'', JInt 1), (''y'', JInt 2),
     (''itemId'', Str ''wood''), (''olCid'', Str ''''), (''quantity'', JInt 3), (''lifetimeMs'', JInt 1000)])"

definition drop_db :: db where
  "drop_db = sample_db\<lparr>db_drops := [sample_drop]\<rparr>"

definition sample_pickup :: "string \<Rightarrow> int \<Rightarrow> joint" where
  "sample_pickup oid seq = \<lparr>jo_operationId = oid, jo_kind = ''pickup'', jo_commits = [sample_commit\<lparr>cm_seq := seq\<rparr>],
     jo_drop = Null, jo_claimDropId = ''d1'', jo_market = Null\<rparr>"

definition sample_fp :: "joint \<Rightarrow> string" where
  "sample_fp r = jo_operationId r @ jo_kind r"

definition picked_db :: db where
  "picked_db = snd (commitStates ref_mongo 9 sid1 sample_fp [] (sample_pickup ''o1'' 1) drop_db)"

lemma unique_drop_db: "unique_db drop_db"
  using unique_sample_db by (simp add: drop_db_def unique_db_def unique_docs_def)

lemma pickup_applies:
  "commitStates ref_mongo 9 sid1 sample_fp [] (sample_pickup ''o1'' 1) drop_db = (Inr (joint_answer '''' '''' False), picked_db)"
proof -
  have "fst (commitStates ref_mongo 9 sid1 sample_fp [] (sample_pickup ''o1'' 1) drop_db) = Inr (joint_answer '''' '''' False)"
    by code_simp
  then show ?thesis by (simp add: picked_db_def prod_eq_iff)
qed

lemma joint_all_or_nothing_witness:
  "picked_db = drop_db \<or> joint_effect ref_mongo 9 sid1 sample_fp (sample_pickup ''o1'' 1) drop_db picked_db"
  using joint_all_or_nothing [OF lawful_ref_mongo unique_drop_db pickup_applies] by blast

lemma joint_retry_witness:
  "commitStates ref_mongo 20 sid2 sample_fp [Transient] (sample_pickup ''o1'' 1) picked_db
     = (Inr (joint_answer '''' '''' True), picked_db)"
  using joint_retry [OF lawful_ref_mongo unique_drop_db pickup_applies, of "(sample_pickup ''o1'' 1)\<lparr>jo_kind := ''drop''\<rparr>"
      "[Transient]" 20 sid2]
  by (simp add: sample_pickup_def joint_answer_def sample_fp_def)

lemma pickup_once_witness:
  "snd (commitStates ref_mongo 10 sid2 sample_fp [] (sample_pickup ''o2'' 2) picked_db) = picked_db"
  using pickup_once [OF lawful_ref_mongo unique_drop_db pickup_applies, of "sample_pickup ''o2'' 2" 10 sid2 "[]"]
  by (cases "commitStates ref_mongo 10 sid2 sample_fp [] (sample_pickup ''o2'' 2) picked_db") (simp add: sample_pickup_def)

end
