(* ===== verification/MarketMachine.thy ===== *)
theory MarketMachine imports MarketSafety begin

text \<open>
  The market as a state machine. Between two operations of players any process may read a listing
  as due, settle a listing it read earlier, whatever happened since, and the database may purge the
  records whose time came (the TTL indexes on \<open>purgeAt\<close>). The machine keeps, beside the database, the
  listings the processes have read and a ledger of what players gave the market and took from it.
\<close>

section \<open>Steps\<close>

record ledger =
  lg_in :: int
  lg_out :: int
  lg_fees :: int
  lg_given :: "item multiset"
  lg_taken :: "item multiset"

definition no_ledger :: ledger where
  "no_ledger = \<lparr>lg_in = 0, lg_out = 0, lg_fees = 0, lg_given = {#}, lg_taken = {#}\<rparr>"

record market_state =
  ma_db :: db
  ma_read :: "listing list"
  ma_ledger :: ledger

definition book_op :: "db \<Rightarrow> market_op \<Rightarrow> ledger \<Rightarrow> ledger" where
  "book_op s op g = g\<lparr>lg_in := lg_in g + coins_in op, lg_out := lg_out g + coins_out op,
     lg_fees := lg_fees g + sale_fee s op, lg_given := lg_given g + goods_in op,
     lg_taken := lg_taken g + goods_out s op\<rparr>"

definition book_fee :: "listing \<Rightarrow> ledger \<Rightarrow> ledger" where
  "book_fee l g = g\<lparr>lg_fees := lg_fees g + (if is_won l then li_saleFee l else 0)\<rparr>"

definition expired :: "ms option \<Rightarrow> ms \<Rightarrow> bool" where
  "expired purgeAt now \<longleftrightarrow> (case purgeAt of None \<Rightarrow> False | Some p \<Rightarrow> p \<le> now)"

definition purged :: "ms \<Rightarrow> db \<Rightarrow> db" where
  "purged now s = s\<lparr>db_listings := filter (\<lambda>l. \<not> expired (li_purgeAt l) now) (db_listings s),
     db_claims := filter (\<lambda>c. \<not> expired (cl_purgeAt c) now) (db_claims s)\<rparr>"

definition market_start :: "db \<Rightarrow> bool" where
  "market_start s \<longleftrightarrow> unique_db s \<and> db_listings s = [] \<and> db_claims s = [] \<and> (\<forall>p\<in>set (db_markets s). profile_ok p)"

inductive market_step :: "mongo \<Rightarrow> market_state \<Rightarrow> market_state \<Rightarrow> bool" for M where
  operate: "marketOpDefect (mo_kind op) (mo_market op) = '''' \<Longrightarrow>
    (mo_kind op = ''market_list'' \<longrightarrow> fresh_op newId (ma_db x) op) \<Longrightarrow> newId \<notin> li_id ` set (ma_read x) \<Longrightarrow>
    applyMarketOp M now newId op (ma_db x) = (Inr r, t) \<Longrightarrow>
    market_step M x (x\<lparr>ma_db := t, ma_ledger := (if r = '''' then book_op (ma_db x) op else id) (ma_ledger x)\<rparr>)"
| read: "l \<in> set (db_listings (ma_db x)) \<Longrightarrow> market_step M x (x\<lparr>ma_read := l # ma_read x\<rparr>)"
| settle: "l \<in> set (ma_read x) \<Longrightarrow> settleListing M now as l (ma_db x) = (Inr (), t) \<Longrightarrow>
    market_step M x (x\<lparr>ma_db := t, ma_ledger := (if t = ma_db x then id else book_fee l) (ma_ledger x)\<rparr>)"
| purge: "market_step M x (x\<lparr>ma_db := purged now (ma_db x)\<rparr>)"

inductive market_reach :: "mongo \<Rightarrow> market_state \<Rightarrow> bool" for M where
  start: "market_start s \<Longrightarrow> market_reach M \<lparr>ma_db = s, ma_read = [], ma_ledger = no_ledger\<rparr>"
| more: "market_reach M x \<Longrightarrow> market_step M x y \<Longrightarrow> market_reach M y"

section \<open>What every reachable state satisfies\<close>

text \<open>A listing a process read is the one stored, until its revision passes.\<close>

definition reads_ok :: "listing list \<Rightarrow> db \<Rightarrow> bool" where
  "reads_ok rs s \<longleftrightarrow> (\<forall>l\<in>set rs. \<forall>k\<in>set (db_listings s). li_id k = li_id l \<longrightarrow>
     li_revision l \<le> li_revision k \<and> (li_revision k = li_revision l \<longrightarrow> k = l))"

definition books_ok :: "ledger \<Rightarrow> db \<Rightarrow> bool" where
  "books_ok g s \<longleftrightarrow> lg_in g = escrow_coins s + lg_out g + lg_fees g \<and> lg_given g = escrow_goods s + lg_taken g"

definition machine_inv :: "market_state \<Rightarrow> bool" where
  "machine_inv x \<longleftrightarrow> market_inv (ma_db x) \<and> reads_ok (ma_read x) (ma_db x) \<and> books_ok (ma_ledger x) (ma_db x)"

lemma reads_ok_aged:
  assumes "reads_ok rs s" "aged newId s t" "newId \<notin> li_id ` set rs"
  shows "reads_ok rs t"
  unfolding reads_ok_def
proof (intro ballI impI)
  fix l k assume l: "l \<in> set rs" and k: "k \<in> set (db_listings t)" and same: "li_id k = li_id l"
  from assms(2) k have "k \<in> set (db_listings s) \<or> li_id k = newId
      \<or> (\<exists>j\<in>set (db_listings s). li_id k = li_id j \<and> li_revision j < li_revision k)"
    by (simp add: aged_def)
  then consider "k \<in> set (db_listings s)" | "li_id k = newId"
    | j where "j \<in> set (db_listings s)" "li_id k = li_id j" "li_revision j < li_revision k"
    by blast
  then show "li_revision l \<le> li_revision k \<and> (li_revision k = li_revision l \<longrightarrow> k = l)"
  proof cases
    case 1
    then show ?thesis using assms(1) l same by (simp add: reads_ok_def)
  next
    case 2
    then show ?thesis using assms(3) l same by auto
  next
    case 3
    then have "li_revision l \<le> li_revision j" using assms(1) l same by (simp add: reads_ok_def)
    then show ?thesis using 3 by auto
  qed
qed

lemma purge_keeps:
  assumes "market_inv s"
  shows "market_inv (purged now s) \<and> escrow_coins (purged now s) = escrow_coins s \<and> escrow_goods (purged now s) = escrow_goods s"
proof (intro conjI)
  have live: "li_status l \<noteq> Open" if "l \<in> set (db_listings s)" "expired (li_purgeAt l) now" for l
    using market_invD(1) [OF assms that(1)] that(2) by (auto simp: listing_ok_def expired_def)
  have due: "cl_status c \<noteq> Pending" if "c \<in> set (db_claims s)" "expired (cl_purgeAt c) now" for c
    using assms that by (auto simp: market_inv_def claim_ok_def expired_def)
  have sums: "sum_list (map open_bid (db_listings (purged now s))) = sum_list (map open_bid (db_listings s))"
    "sum_list (map open_goods (db_listings (purged now s))) = sum_list (map open_goods (db_listings s))"
    "sum_list (map pending_coins (db_claims (purged now s))) = sum_list (map pending_coins (db_claims s))"
    "sum_list (map pending_goods (db_claims (purged now s))) = sum_list (map pending_goods (db_claims s))"
    unfolding purged_def using live due
    by (auto intro!: sum_list_map_filter simp: open_bid_def open_goods_def pending_coins_def pending_goods_def)
  show "escrow_coins (purged now s) = escrow_coins s" "escrow_goods (purged now s) = escrow_goods s"
    by (simp_all add: escrow_coins_def escrow_goods_def sums)
  show "market_inv (purged now s)"
    using assms
    by (auto simp: market_inv_def purged_def unique_db_def unique_docs_filter distinct_map_filter owes_only_passed_def)
qed

lemma market_step_keeps:
  assumes M: "lawful_mongo M" and step: "market_step M x y" and inv: "machine_inv x"
  shows "machine_inv y"
  using step inv
proof (cases rule: market_step.cases)
  case (operate op newId now r t)
  have i: "market_inv (ma_db x)" "reads_ok (ma_read x) (ma_db x)" "books_ok (ma_ledger x) (ma_db x)"
    using inv by (simp_all add: machine_inv_def)
  have "op_sound newId (ma_db x) op (Inr r, t)"
    using applyMarketOp_sound [OF M i(1) operate(2), of newId now] operate(3,5) by simp
  then have t: "r \<noteq> '''' \<longrightarrow> t = ma_db x" "market_inv t" "aged newId (ma_db x) t" "r = '''' \<longrightarrow> balanced (ma_db x) op t"
    by (auto simp: op_sound_def)
  have "reads_ok (ma_read x) t" using reads_ok_aged [OF i(2) t(3) operate(4)] .
  moreover have "books_ok ((if r = '''' then book_op (ma_db x) op else id) (ma_ledger x)) t"
    using t(1,4) i(3) by (cases "r = ''''") (auto simp: books_ok_def book_op_def balanced_def union_ac)
  ultimately show ?thesis using t(2) by (simp add: machine_inv_def operate(1))
next
  case (read l)
  then show ?thesis
    using inv listing_same [of "ma_db x"] by (auto simp: machine_inv_def reads_ok_def)
next
  case (settle l now as t)
  have i: "market_inv (ma_db x)" "reads_ok (ma_read x) (ma_db x)" "books_ok (ma_ledger x) (ma_db x)"
    using inv by (simp_all add: machine_inv_def)
  have t: "settleWork M now l (ma_db x) = (Inr (), t)"
    using settle(3) unfolding settleListing_def by (rule tx.committed)
  obtain n where n: "n \<notin> li_id ` set (ma_read x)"
    using ex_new_if_finite [OF infinite_UNIV_listI, of "li_id ` set (ma_read x)"] by blast
  have "\<forall>k\<in>set (db_listings (ma_db x)). li_id k = li_id l \<and> li_revision k = li_revision l \<longrightarrow> k = l"
    using i(2) settle(2) by (auto simp: reads_ok_def)
  with M i(1) show ?thesis
  proof (rule settleWork_sound [where now = now and newId = n])
    fix u assume u: "settleWork M now l (ma_db x) = (Inr (), u)" "market_inv u" "aged n (ma_db x) u"
      "escrow_coins u + (if u \<noteq> ma_db x \<and> is_won l then li_saleFee l else 0) = escrow_coins (ma_db x)"
      "escrow_goods u = escrow_goods (ma_db x)"
    then have "u = t" using t by simp
    have "reads_ok (ma_read x) t" using reads_ok_aged [OF i(2) u(3) n] \<open>u = t\<close> by simp
    moreover have "books_ok ((if t = ma_db x then id else book_fee l) (ma_ledger x)) t"
      using u(4,5) i(3) \<open>u = t\<close> by (auto simp: books_ok_def book_fee_def split: if_splits)
    ultimately show ?thesis using u(2) \<open>u = t\<close> by (simp add: machine_inv_def settle(1))
  qed
qed (use inv purge_keeps in \<open>auto simp: machine_inv_def reads_ok_def books_ok_def purged_def\<close>)

lemma machine_inv_reach:
  assumes "lawful_mongo M" "market_reach M x"
  shows "machine_inv x"
  using assms(2)
proof (induction rule: market_reach.induct)
  case (start s)
  then show ?case
    by (auto simp: machine_inv_def market_inv_def market_start_def reads_ok_def books_ok_def no_ledger_def
        escrow_coins_def escrow_goods_def)
next
  case (more x y)
  then show ?case using market_step_keeps [OF assms(1)] by blast
qed

text \<open>The revision of a listing has passed: it is gone, or at a higher one.\<close>

definition passed :: "listing \<Rightarrow> db \<Rightarrow> bool" where
  "passed l s \<longleftrightarrow> (\<forall>k\<in>set (db_listings s). li_id k = li_id l \<longrightarrow> li_revision l < li_revision k)"

lemma passed_aged: "passed l s \<Longrightarrow> aged newId s t \<Longrightarrow> newId \<noteq> li_id l \<Longrightarrow> passed l t"
  by (force simp: passed_def aged_def)

lemma passed_step:
  assumes M: "lawful_mongo M" and step: "market_step M x y" and inv: "machine_inv x"
    and l: "l \<in> set (ma_read x)" "passed l (ma_db x)"
  shows "l \<in> set (ma_read y) \<and> passed l (ma_db y)"
  using step
proof (cases rule: market_step.cases)
  case (operate op newId now r t)
  have "market_inv (ma_db x)" using inv by (simp add: machine_inv_def)
  from applyMarketOp_sound [OF M this operate(2), of newId now] operate(3,5)
  have "aged newId (ma_db x) t" by (auto simp: op_sound_def)
  with l operate(4) show ?thesis by (auto simp: operate(1) intro: passed_aged)
next
  case (settle k now as t)
  have t: "settleWork M now k (ma_db x) = (Inr (), t)"
    using settle(3) unfolding settleListing_def by (rule tx.committed)
  obtain n where n: "n \<noteq> li_id l"
    using ex_new_if_finite [OF infinite_UNIV_listI, of "{li_id l}"] by blast
  have i: "market_inv (ma_db x)" "\<forall>j\<in>set (db_listings (ma_db x)). li_id j = li_id k \<and> li_revision j = li_revision k \<longrightarrow> j = k"
    using inv settle(2) by (auto simp: machine_inv_def reads_ok_def)
  from M i have "aged n (ma_db x) t"
    by (rule settleWork_sound [where now = now and newId = n]) (use t in simp)
  with l n show ?thesis by (auto simp: settle(1) intro: passed_aged)
qed (use l in \<open>auto simp: passed_def purged_def\<close>)

section \<open>Properties\<close>



text \<open>C4: a listing settles once: when a settlement of a listing read at any earlier time writes, the
listing was open and due, exactly its winner and seller (or its seller) are owed, and no later
settlement of that read writes again, whatever steps came between.\<close>

theorem listing_settles_once:
  assumes M: "lawful_mongo M" and x: "market_reach M x" and l: "l \<in> set (ma_read x)"
    and t: "settleListing M now as l (ma_db x) = (Inr (), t)" "t \<noteq> ma_db x"
    and y: "(market_step M)\<^sup>*\<^sup>* (x\<lparr>ma_db := t, ma_ledger := book_fee l (ma_ledger x)\<rparr>) y"
  shows "l \<in> set (db_listings (ma_db x)) \<and> li_status l = Open \<and> li_endsAt l \<le> now
     \<and> db_claims t = db_claims (ma_db x) @ settled_claims l
     \<and> snd (settleListing M now' as' l (ma_db y)) = ma_db y"
proof -
  let ?x' = "x\<lparr>ma_db := t, ma_ledger := book_fee l (ma_ledger x)\<rparr>"
  have inv: "machine_inv x" by (rule machine_inv_reach [OF M x])
  have work: "settleWork M now l (ma_db x) = (Inr (), t)"
    using t(1) unfolding settleListing_def by (rule tx.committed)
  have i: "market_inv (ma_db x)" "\<forall>j\<in>set (db_listings (ma_db x)). li_id j = li_id l \<and> li_revision j = li_revision l \<longrightarrow> j = l"
    using inv l by (auto simp: machine_inv_def reads_ok_def)
  have facts: "l \<in> set (db_listings (ma_db x)) \<and> li_status l = Open \<and> li_endsAt l \<le> now
     \<and> db_claims t = db_claims (ma_db x) @ settled_claims l \<and> settled now l \<in> set (db_listings t)"
    using M i by (rule settleWork_sound [where now = now]) (use work t(2) in auto)
  have step: "market_step M x ?x'" using market_step.settle [OF l t(1)] t(2) by simp
  then have inv': "machine_inv ?x'" by (rule market_step_keeps [OF M _ inv])
  have "passed l (ma_db ?x')"
    unfolding passed_def
  proof (intro ballI impI)
    fix k assume k: "k \<in> set (db_listings (ma_db ?x'))" "li_id k = li_id l"
    then have "k = settled now l"
      using inv' facts by (intro listing_same [of t]) (auto simp: machine_inv_def settled_def)
    then show "li_revision l < li_revision k" by (simp add: settled_def)
  qed
  with y inv' l have "machine_inv y \<and> l \<in> set (ma_read y) \<and> passed l (ma_db y)"
    by (induction rule: rtranclp_induct) (auto dest: passed_step [OF M] market_step_keeps [OF M])
  then have j: "market_inv (ma_db y)" "\<forall>k\<in>set (db_listings (ma_db y)). li_id k = li_id l \<and> li_revision k = li_revision l \<longrightarrow> k = l"
    "l \<notin> set (db_listings (ma_db y))"
    by (auto simp: machine_inv_def passed_def)
  have "settleWork M now' l (ma_db y) = (Inr (), ma_db y)"
    using M j(1,2) by (rule settleWork_cases [where now = now']) (use j(3) in auto)
  then have "snd (settleListing M now' as' l (ma_db y)) = ma_db y"
    using tx.keeps [of "\<lambda>s. s = ma_db y" "ma_db y" "settleWork M now' l" as'] by (simp add: settleListing_def)
  with facts show ?thesis by simp
qed

text \<open>C10: a bid is accepted only above the highest one and up to the price cap of the listing, it becomes
the highest, and the bidder it passes is owed its whole bid, no more and no less.\<close>

theorem bid_outbids:
  assumes M: "lawful_mongo M" and x: "market_reach M x" and k: "mo_kind op = ''market_bid''"
    and ok: "applyMarketOp M now newId op (ma_db x) = (Inr '''', t)"
  shows "\<exists>l l'. l \<in> set (db_listings (ma_db x)) \<and> l' \<in> set (db_listings t) \<and> li_id l' = li_id l
     \<and> li_bid l < li_bid l' \<and> li_price l \<le> li_bid l' \<and> li_bid l' \<le> li_priceMax l
     \<and> li_bid l' = jint (jget (mo_market op) ''price'') \<and> li_bidder l' = Some (mo_playerId op)
     \<and> mo_playerId op \<noteq> li_seller l \<and> now < li_endsAt l
     \<and> db_claims t = db_claims (ma_db x) @ outbid_claims l"
proof -
  have inv: "market_inv (ma_db x)" using machine_inv_reach [OF M x] by (simp add: machine_inv_def)
  have bid: "market_bid M now op (ma_db x) = (Inr '''', t)" using ok k by (simp add: applyMarketOp_def)
  from M inv show ?thesis
  proof (cases rule: market_bid_cases [where now = now and op = op])
    case (bid i l price)
    let ?l = "bid_raised price (mo_playerId op) l"
    have l: "l \<in> set (db_listings (ma_db x))" "listing_ok l" using bid(1,2) market_invD(1) [OF inv] by auto
    have "listing_ok ?l"
      using bid l by (intro listing_ok_raised) (auto simp: is_open_def)
    then have "li_price l \<le> price" by (simp add: listing_ok_def bid_raised_def)
    moreover have "li_bid l < price"
    proof (cases "0 < li_bid l")
      case True
      then show ?thesis using minBid_raises [OF True, of "li_minRaise l" "li_price l" "li_raisePercent l"] bid(8) l(2)
        by (simp add: listing_ok_def listing_schema_def)
    next
      case False
      then show ?thesis using \<open>li_price l \<le> price\<close> l(2) by (simp add: listing_ok_def listing_schema_def)
    qed
    moreover have "?l \<in> set (db_listings t)" "db_claims t = db_claims (ma_db x) @ outbid_claims l"
      using bid(1,9) \<open>market_bid M now op (ma_db x) = (Inr '''', t)\<close> by (auto intro: set_update_memI)
    ultimately show ?thesis using bid l
      by (intro exI [of _ l] exI [of _ ?l]) (simp add: is_open_def)
  qed (use bid in simp)
qed

section \<open>A run of the market\<close>

definition sample_market :: market_profile where
  "sample_market = \<lparr>mk_code = ''bazaar'', mk_status = ''active'', mk_revision = 1, mk_scope = ''instance'',
     mk_currencyCode = ''coin'', mk_modes = [''fixed'', ''auction''], mk_hours = [1], mk_raisePercent = 5, mk_minRaise = 1,
     mk_listingFee = 2, mk_saleFee = 3, mk_priceMin = 5, mk_priceMax = 100, mk_listingsPerPlayer = 4\<rparr>"

definition sample_list :: market_op where
  "sample_list = \<lparr>mo_kind = ''market_list'', mo_market = Obj [(''marketCode'', Str ''bazaar''), (''mode'', Str ''auction''),
       (''itemId'', Str ''wood''), (''olCid'', Str ''''), (''quantity'', JInt 3), (''price'', JInt 10), (''hours'', JInt 1),
       (''saleFee'', JInt 3), (''listingFee'', JInt 2), (''sellerName'', Str ''ana'')],
     mo_operationId = ''o1'', mo_playerId = pid1, mo_instanceCode = ''w1''\<rparr>"

definition sample_bid :: "oid \<Rightarrow> int \<Rightarrow> int \<Rightarrow> market_op" where
  "sample_bid pid revision price = \<lparr>mo_kind = ''market_bid'', mo_market = Obj [(''marketCode'', Str ''bazaar''),
       (''listingId'', Str ''o1''), (''revision'', JInt revision), (''price'', JInt price)],
     mo_operationId = ''o2'', mo_playerId = pid, mo_instanceCode = ''w1''\<rparr>"

definition market_db :: db where
  "market_db = sample_db\<lparr>db_markets := [sample_market]\<rparr>"

definition listed_db :: db where
  "listed_db = snd (applyMarketOp ref_mongo 0 sid1 sample_list market_db)"

definition bid_db :: db where
  "bid_db = snd (applyMarketOp ref_mongo 5 sid2 (sample_bid pid2 0 20) listed_db)"

definition listed_state :: market_state where
  "listed_state = \<lparr>ma_db = listed_db, ma_read = [], ma_ledger = book_op market_db sample_list no_ledger\<rparr>"

definition bid_state :: market_state where
  "bid_state = \<lparr>ma_db = bid_db, ma_read = [], ma_ledger = book_op listed_db (sample_bid pid2 0 20) (ma_ledger listed_state)\<rparr>"

lemma unique_market_db: "unique_db market_db"
  using unique_sample_db by (simp add: market_db_def unique_db_def unique_docs_def)

lemma listed_reach: "market_reach ref_mongo listed_state"
proof -
  have "market_start market_db"
    using unique_market_db by (auto simp: market_start_def market_db_def sample_db_def empty_db_def profile_ok_def
        sample_market_def MARKET_SCOPES_def)
  note s0 = market_reach.start [OF this, of ref_mongo]
  have d: "marketOpDefect (mo_kind sample_list) (mo_market sample_list) = ''''" by code_simp
  have f: "fresh_op sid1 market_db sample_list" by code_simp
  have "fst (applyMarketOp ref_mongo 0 sid1 sample_list market_db) = Inr ''''" by code_simp
  then have a: "applyMarketOp ref_mongo 0 sid1 sample_list market_db = (Inr '''', listed_db)"
    by (simp add: listed_db_def prod_eq_iff)
  show ?thesis
    using market_reach.more [OF s0 market_step.operate [OF d, where newId = sid1 and now = 0 and r = "''''" and t = listed_db]] f a
    by (simp add: listed_state_def)
qed

lemma bid_applies: "applyMarketOp ref_mongo 5 sid2 (sample_bid pid2 0 20) listed_db = (Inr '''', bid_db)"
proof -
  have "fst (applyMarketOp ref_mongo 5 sid2 (sample_bid pid2 0 20) listed_db) = Inr ''''" by code_simp
  then show ?thesis by (simp add: bid_db_def prod_eq_iff)
qed

lemma bid_reach: "market_reach ref_mongo bid_state"
proof -
  have d: "marketOpDefect (mo_kind (sample_bid pid2 0 20)) (mo_market (sample_bid pid2 0 20)) = ''''" by code_simp
  show ?thesis
    using market_reach.more [OF listed_reach market_step.operate [OF d, where newId = sid2 and now = 5 and r = "''''" and t = bid_db]] bid_applies
    by (simp add: bid_state_def listed_state_def sample_bid_def)
qed



lemma bid_outbids_witness:
  "\<exists>l l'. l \<in> set (db_listings listed_db) \<and> l' \<in> set (db_listings bid_db) \<and> li_bid l < li_bid l' \<and> li_bid l' = 20"
  using bid_outbids [OF lawful_ref_mongo listed_reach, of "sample_bid pid2 0 20" 5 sid2 bid_db] bid_applies
  by (auto simp: listed_state_def sample_bid_def jint_def)

definition due_listing :: listing where
  "due_listing = hd (db_listings bid_db)"

definition settled_db :: db where
  "settled_db = snd (settleListing ref_mongo 3600000 [] due_listing bid_db)"

lemma listing_settles_once_witness:
  "db_claims settled_db = db_claims bid_db @ settled_claims due_listing
     \<and> snd (settleListing ref_mongo 3600001 [Transient] due_listing settled_db) = settled_db"
proof -
  let ?x = "bid_state\<lparr>ma_read := [due_listing]\<rparr>"
  have ne: "db_listings bid_db \<noteq> []" by code_simp
  have "due_listing \<in> set (db_listings (ma_db bid_state))"
    using hd_in_set [OF ne] by (simp add: due_listing_def bid_state_def)
  from market_reach.more [OF bid_reach market_step.read [OF this]]
  have x: "market_reach ref_mongo ?x" by (simp add: bid_state_def)
  have "fst (settleListing ref_mongo 3600000 [] due_listing bid_db) = Inr ()" by code_simp
  then have t: "settleListing ref_mongo 3600000 [] due_listing (ma_db ?x) = (Inr (), settled_db)"
    by (simp add: settled_db_def bid_state_def prod_eq_iff)
  have "length (db_claims settled_db) \<noteq> length (db_claims bid_db)" by code_simp
  then have "settled_db \<noteq> ma_db ?x" by (auto simp: bid_state_def)
  from listing_settles_once [OF lawful_ref_mongo x _ t this rtranclp.rtrancl_refl, of 3600001 "[Transient]"]
  show ?thesis by (simp add: bid_state_def)
qed

section \<open>Where the code and its description part\<close>

text \<open>A collect compares the stacks asked with the stacks owed in one direction: two claims of the same
stack answer a request for that stack and another one, which the market never held.\<close>

definition wood_claim :: "string \<Rightarrow> claim" where
  "wood_claim lid = \<lparr>cl_claimId = lid @ '':unsold'', cl_player = pid1, cl_listingId = lid, cl_marketCode = ''bazaar'',
     cl_scope = ''instance'', cl_scopeKey = ''w1'', cl_reason = Unsold, cl_coins = 0, cl_itemId = ''wood'', cl_olCid = '''',
     cl_quantity = 3, cl_status = Pending, cl_collectedAt = None, cl_purgeAt = None\<rparr>"

definition wire_item :: "string \<Rightarrow> js" where
  "wire_item item = Obj [(''itemId'', Str item), (''olCid'', Str ''''), (''quantity'', JInt 3)]"

definition odd_collect :: market_op where
  "odd_collect = \<lparr>mo_kind = ''market_collect'', mo_market = Obj [(''marketCode'', Str ''bazaar''),
       (''claimIds'', Arr [Str ''o8:unsold'', Str ''o9:unsold'']), (''coins'', JInt 0),
       (''stacks'', Arr [wire_item ''wood'', wire_item ''crown''])],
     mo_operationId = ''o3'', mo_playerId = pid1, mo_instanceCode = ''w1''\<rparr>"

lemma collect_accepts_other_goods:
  "marketOpDefect (mo_kind odd_collect) (mo_market odd_collect) = '''' \<and>
   fst (applyMarketOp ref_mongo 9 sid1 odd_collect (market_db\<lparr>db_claims := [wood_claim ''o8'', wood_claim ''o9'']\<rparr>)) = Inr ''''"
  by code_simp

text \<open>The market code of an operation is compared with nothing but its format, except by a list: a player
cancels, buys, bids and collects under any code, of whatever market the listing or the claim is.\<close>

lemma market_code_ignored:
  assumes "mo_kind op \<noteq> ''market_list''"
    and "\<And>key. key \<noteq> ''marketCode'' \<Longrightarrow> jget m key = jget (mo_market op) key"
  shows "applyMarketOp M now newId (op\<lparr>mo_market := m\<rparr>) s = applyMarketOp M now newId op s"
proof -
  have "is_open now m = is_open now (mo_market op)" "has_stack m = has_stack (mo_market op)"
    by (simp_all add: fun_eq_iff is_open_def has_stack_def assms(2))
  then show ?thesis
    using assms(1) by (simp add: applyMarketOp_def market_cancel_def market_buy_def market_bid_def market_collect_def Let_def assms(2)
        cong: if_cong option.case_cong)
qed

end
