(* ===== verification/Registry.thy ===== *)
theory Registry imports Documents "HOL-Library.Char_ord" "HOL-Library.List_Lexorder" begin

text \<open>
  Where the worlds live: the path of a world on its client (\<open>worldPathOf\<close> of
  \<open>SharedDefaultsCyberia.js\<close>) and the live game servers of
  \<open>src/api/cyberia-server-registry/cyberia-server-registry.service.js\<close>. A server reports itself under
  its id with a sequence that orders its reports; a read skips a server past its time.

  The URL parser is the platform's (\<open>new URL\<close>), so it is an argument of \<open>normalizePublicUrl\<close>. The text
  fields of a report are strings, absent ones empty. The order of strings is that of their units.
\<close>

section \<open>World paths\<close>

definition DEFAULT_INSTANCE_CODE :: string where
  "DEFAULT_INSTANCE_CODE = ''amethyst-strata-expansion''"

text \<open>\<open>encodeURIComponent\<close> on characters below 256: the UTF-8 bytes of what is not unreserved.\<close>

definition unreserved :: "char \<Rightarrow> bool" where
  "unreserved c \<longleftrightarrow> is_digit c \<or> is_letter c \<or> c \<in> set ''-_.!~*'' \<or> c = CHR 0x27 \<or> c = CHR ''('' \<or> c = CHR '')''"

definition hex_digit :: "nat \<Rightarrow> char" where
  "hex_digit d = (if d < 10 then digit d else char_of (55 + d))"

definition percent :: "nat \<Rightarrow> string" where
  "percent b = [CHR ''%'', hex_digit (b div 16), hex_digit (b mod 16)]"

definition encode_char :: "char \<Rightarrow> string" where
  "encode_char c = (let n = of_char c in
     if unreserved c then [c]
     else if n < 128 then percent n
     else percent (192 + n div 64) @ percent (128 + n mod 64))"

definition encodeURIComponent :: "string \<Rightarrow> string" where
  "encodeURIComponent s = concat (map encode_char s)"

definition worldPathOf :: "string \<Rightarrow> string" where
  "worldPathOf code =
     (if code \<noteq> '''' \<and> code \<noteq> DEFAULT_INSTANCE_CODE then ''/'' @ encodeURIComponent code else '''')"

section \<open>Patterns\<close>

text \<open>\<open>/^[A-Za-z0-9][A-Za-z0-9._-]*$/\<close>, the shape of a code, an id and a path segment.\<close>

definition code_char :: "char \<Rightarrow> bool" where
  "code_char c \<longleftrightarrow> is_word c \<or> c = CHR ''.'' \<or> c = CHR ''-''"

fun code_pattern :: "string \<Rightarrow> bool" where
  "code_pattern [] = False"
| "code_pattern (c # cs) = ((is_digit c \<or> is_letter c) \<and> list_all code_char cs)"

definition SERVER_ID_PATTERN :: "string \<Rightarrow> bool" where
  "SERVER_ID_PATTERN s \<longleftrightarrow> code_pattern s \<and> length s \<le> 128"

fun BASE_PATH_PATTERN :: "string \<Rightarrow> bool" where
  "BASE_PATH_PATTERN [] = False"
| "BASE_PATH_PATTERN (c # cs) = (c = CHR ''/'' \<and> code_pattern cs)"

definition is_lower_hex :: "char \<Rightarrow> bool" where
  "is_lower_hex c \<longleftrightarrow> is_digit c \<or> (97 \<le> (of_char c :: nat) \<and> (of_char c :: nat) \<le> 102)"

definition BUILD_PATTERN :: "string \<Rightarrow> bool" where
  "BUILD_PATTERN s \<longleftrightarrow> list_all is_lower_hex s \<and> length s \<le> 64"

definition is_lower :: "char \<Rightarrow> bool" where
  "is_lower c \<longleftrightarrow> 97 \<le> (of_char c :: nat) \<and> (of_char c :: nat) \<le> 122"

fun RELEASE_ID_PATTERN :: "string \<Rightarrow> bool" where
  "RELEASE_ID_PATTERN [] = False"
| "RELEASE_ID_PATTERN (c # cs) = ((is_lower c \<or> is_digit c) \<and> length cs \<le> 47
     \<and> list_all (\<lambda>d. is_lower d \<or> is_digit d \<or> d = CHR ''-'') cs)"

section \<open>Public endpoints\<close>

definition MAX_URL_LENGTH :: nat where "MAX_URL_LENGTH = 512"
definition SERVER_LIST_LIMIT :: nat where "SERVER_LIST_LIMIT = 1000"
definition MAX_NAME_LENGTH :: nat where "MAX_NAME_LENGTH = 120"

definition LOOPBACK_HOSTS :: "string list" where
  "LOOPBACK_HOSTS = [''localhost'', ''127.0.0.1'', ''[::1]'']"

definition INTERNAL_SUFFIXES :: "string list" where
  "INTERNAL_SUFFIXES = [''.local'', ''.localhost'', ''.internal'', ''.svc'', ''.cluster.local'']"

definition ends_with :: "string \<Rightarrow> string \<Rightarrow> bool" where
  "ends_with s suffix \<longleftrightarrow> length suffix \<le> length s \<and> drop (length s - length suffix) s = suffix"

text \<open>\<open>/^\d{1,3}(\.\d{1,3}){3}$/\<close>: four groups of one to three digits.\<close>

fun split_at :: "char \<Rightarrow> string \<Rightarrow> string list" where
  "split_at c [] = [[]]"
| "split_at c (d # ds) = (if d = c then [] # split_at c ds
     else case split_at c ds of [] \<Rightarrow> [[d]] | w # ws \<Rightarrow> (d # w) # ws)"

definition ip_literal :: "string \<Rightarrow> bool" where
  "ip_literal s \<longleftrightarrow> length (split_at (CHR ''.'') s) = 4
     \<and> list_all (\<lambda>g. 1 \<le> length g \<and> length g \<le> 3 \<and> list_all is_digit g) (split_at (CHR ''.'') s)"

definition isInternalHost :: "string \<Rightarrow> bool" where
  "isInternalHost hostname \<longleftrightarrow> ip_literal hostname \<or> take 1 hostname = ''[''
     \<or> CHR ''.'' \<notin> set hostname \<or> list_ex (ends_with hostname) INTERNAL_SUFFIXES"

record url =
  url_protocol :: string
  url_username :: string
  url_password :: string
  url_search :: string
  url_hash :: string
  url_pathname :: string
  url_hostname :: string
  url_origin :: string

definition strip_slashes :: "string \<Rightarrow> string" where
  "strip_slashes s = rev (dropWhile (\<lambda>c. c = CHR ''/'') (rev s))"

definition normalizePublicUrl :: "(string \<Rightarrow> url option) \<Rightarrow> bool \<Rightarrow> string \<Rightarrow> string" where
  "normalizePublicUrl URL production raw =
     (let trimmed = trim raw in
      if trimmed = '''' \<or> MAX_URL_LENGTH < length trimmed then ''''
      else case URL trimmed of None \<Rightarrow> '''' | Some u \<Rightarrow>
        if url_protocol u \<noteq> ''https:'' \<and> url_protocol u \<noteq> ''http:'' then ''''
        else if url_username u \<noteq> '''' \<or> url_password u \<noteq> '''' \<or> url_search u \<noteq> '''' \<or> url_hash u \<noteq> '''' then ''''
        else let path = strip_slashes (url_pathname u); loopback = url_hostname u \<in> set LOOPBACK_HOSTS in
          if path \<noteq> '''' \<and> \<not> BASE_PATH_PATTERN path then ''''
          else if loopback \<and> production then ''''
          else if \<not> loopback \<and> (url_protocol u \<noteq> ''https:'' \<or> isInternalHost (url_hostname u)) then ''''
          else url_origin u @ path)"

section \<open>Reports\<close>

record report =
  rp_serverId :: string
  rp_url :: string
  rp_instanceCode :: string
  rp_name :: string
  rp_state :: js
  rp_seq :: js
  rp_build :: string
  rp_releaseId :: string

text \<open>The first check of a report that fails, as the message of its 400.\<close>

definition reportDefect :: "(string \<Rightarrow> url option) \<Rightarrow> bool \<Rightarrow> report \<Rightarrow> string" where
  "reportDefect URL production r =
     (if \<not> SERVER_ID_PATTERN (rp_serverId r) then ''serverId is invalid''
      else if normalizePublicUrl URL production (rp_url r) = '''' then ''url must be a public https endpoint''
      else if \<not> code_pattern (rp_instanceCode r) then ''instanceCode is invalid''
      else if \<not> oneOf SERVER_STATES (rp_state r) then ''state must be ready or draining''
      else if \<not> isSafeInteger (rp_seq r) \<or> jint (rp_seq r) < 1 then ''seq must be a positive integer''
      else if \<not> BUILD_PATTERN (rp_build r) then ''build must be a hex digest''
      else if rp_releaseId r \<noteq> '''' \<and> \<not> RELEASE_ID_PATTERN (rp_releaseId r) then ''releaseId is invalid''
      else '''')"

definition reported :: "(string \<Rightarrow> url option) \<Rightarrow> bool \<Rightarrow> ms \<Rightarrow> report \<Rightarrow> server \<Rightarrow> server" where
  "reported URL production now r d = d\<lparr>sv_url := normalizePublicUrl URL production (rp_url r),
     sv_instanceCode := rp_instanceCode r, sv_name := take MAX_NAME_LENGTH (trim (rp_name r)),
     sv_state := jstr (rp_state r), sv_seq := jint (rp_seq r), sv_build := rp_build r,
     sv_releaseId := rp_releaseId r, sv_lastSeen := now\<rparr>"

text \<open>What an upsert inserts before its update: the fields of the filter and of \<open>$setOnInsert\<close>.\<close>

definition inserted_server :: "string \<Rightarrow> ms \<Rightarrow> server" where
  "inserted_server serverId now = \<lparr>sv_serverId = serverId, sv_url = '''', sv_instanceCode = '''', sv_name = '''',
     sv_state = '''', sv_seq = 0, sv_build = '''', sv_releaseId = '''', sv_startedAt = now, sv_lastSeen = now\<rparr>"

definition reportServer :: "mongo \<Rightarrow> (string \<Rightarrow> url option) \<Rightarrow> bool \<Rightarrow> ms \<Rightarrow> report \<Rightarrow> (db, bool \<times> server option) work" where
  "reportServer M URL production now r s =
     (if reportDefect URL production r \<noteq> '''' then (Inl (http_error (reportDefect URL production r) 400), s)
      else case find_one_and_upsert (mg_servers M)
            (\<lambda>d. sv_serverId d = rp_serverId r \<and> sv_seq d < jint (rp_seq r))
            (reported URL production now r) (inserted_server (rp_serverId r) now) (db_servers s) of
          Inr (d, c) \<Rightarrow> (Inr (False, Some d), s\<lparr>db_servers := c\<rparr>)
        | Inl e \<Rightarrow>
            if err_code e \<noteq> Some 11000 then (Inl e, s)
            else (Inr (True, drv_find_one (mg_servers M) (\<lambda>d. sv_serverId d = rp_serverId r) (db_servers s)), s))"

section \<open>Reads\<close>

definition liveSince :: "ms \<Rightarrow> ms" where
  "liveSince now = now - SERVER_TTL_SECONDS * 1000"

definition worldAvailable :: "mongo \<Rightarrow> ms \<Rightarrow> string \<Rightarrow> db \<Rightarrow> bool" where
  "worldAvailable M now instanceCode s \<longleftrightarrow>
     drv_find_one (mg_servers M) (\<lambda>d. sv_instanceCode d = instanceCode \<and> sv_state d = ''ready''
        \<and> liveSince now < sv_lastSeen d) (db_servers s) \<noteq> None"

definition liveServers :: "mongo \<Rightarrow> ms \<Rightarrow> db \<Rightarrow> server list" where
  "liveServers M now s = take SERVER_LIST_LIMIT (sort_key (\<lambda>d. sv_instanceCode d)
     (sort_key (\<lambda>d. - sv_lastSeen d) (drv_find (mg_servers M) (\<lambda>d. liveSince now < sv_lastSeen d) (db_servers s))))"

record endpoint =
  ep_instanceCode :: string
  ep_url :: string
  ep_name :: string
  ep_status :: string
  ep_ready :: nat
  ep_draining :: nat
  ep_build :: string
  ep_releases :: "string list"

text \<open>One group of the aggregation, from its servers, the newest first.\<close>

definition endpoint_of :: "server list \<Rightarrow> string \<times> string \<Rightarrow> endpoint" where
  "endpoint_of ds g = (let es = filter (\<lambda>d. (sv_instanceCode d, sv_url d) = g) ds;
       ready = length (filter (\<lambda>d. sv_state d = ''ready'') es); builds = remdups (map sv_build es)
     in \<lparr>ep_instanceCode = fst g, ep_url = snd g, ep_name = (case es of [] \<Rightarrow> '''' | d # _ \<Rightarrow> sv_name d),
         ep_status = (if 0 < ready then ''available'' else ''draining''), ep_ready = ready,
         ep_draining = length (filter (\<lambda>d. sv_state d = ''draining'') es),
         ep_build = (case builds of [b] \<Rightarrow> b | _ \<Rightarrow> ''''),
         ep_releases = sort (remdups (map sv_releaseId es))\<rparr>)"

definition liveEndpoints :: "mongo \<Rightarrow> ms \<Rightarrow> string list option \<Rightarrow> db \<Rightarrow> endpoint list" where
  "liveEndpoints M now instanceCodes s =
     (let ds = sort_key (\<lambda>d. - sv_lastSeen d) (drv_find (mg_servers M)
            (\<lambda>d. liveSince now < sv_lastSeen d
               \<and> (case instanceCodes of None \<Rightarrow> True | Some cs \<Rightarrow> sv_instanceCode d \<in> set cs)) (db_servers s));
          groups = sort_key fst (sort_key snd (remdups (map (\<lambda>d. (sv_instanceCode d, sv_url d)) ds)))
      in take SERVER_LIST_LIMIT (map (endpoint_of ds) groups))"

section \<open>World paths are apart\<close>

lemma of_char_hex_digit: "d < 16 \<Longrightarrow> (of_char (hex_digit d) :: nat) = (if d < 10 then 48 + d else 55 + d)"
  by (simp add: hex_digit_def of_char_digit)

lemma hex_digit_inj:
  assumes "d < 16" "e < 16" "hex_digit d = hex_digit e"
  shows "d = e"
proof -
  have "(if d < 10 then 48 + d else 55 + d) = (if e < 10 then 48 + e else 55 + e)"
    using of_char_hex_digit [OF assms(1)] of_char_hex_digit [OF assms(2)] assms(3) by argo
  then show ?thesis by (cases "d < 10"; cases "e < 10") simp_all
qed

lemma percent_inj: "a < 256 \<Longrightarrow> b < 256 \<Longrightarrow> percent a @ x = percent b @ y \<Longrightarrow> a = b \<and> x = y"
proof -
  assume a: "a < 256" "b < 256" "percent a @ x = percent b @ y"
  then have lt: "a div 16 < 16" "b div 16 < 16" by linarith+
  have "hex_digit (a div 16) = hex_digit (b div 16)" "hex_digit (a mod 16) = hex_digit (b mod 16)" "x = y"
    using a(3) unfolding percent_def by simp_all
  note h = this
  have "a div 16 = b div 16" by (rule hex_digit_inj [OF lt h(1)])
  moreover have "a mod 16 = b mod 16" by (rule hex_digit_inj [OF _ _ h(2)]) simp_all
  ultimately have "a = b" using div_mult_mod_eq [of a 16] div_mult_mod_eq [of b 16] by argo
  with h(3) show ?thesis by simp
qed

lemma percent_reserved: "\<not> unreserved (CHR ''%'')"
  by (simp add: unreserved_def is_digit_def is_letter_def)

lemma encode_char_prefix:
  assumes "encode_char a @ x = encode_char b @ y"
  shows "a = b \<and> x = y"
proof -
  define m n :: nat where "m = of_char a" and "n = of_char b"
  have mn: "m < 256" "n < 256" by (simp_all add: m_def n_def)
  have inj: "m = n \<Longrightarrow> a = b" by (simp add: m_def n_def)
  have enc: "encode_char c = (if unreserved c then [c] else if of_char c < (128 :: nat) then percent (of_char c)
      else percent (192 + of_char c div 64) @ percent (128 + of_char c mod 64))" for c
    by (simp add: encode_char_def Let_def)
  have pct: "percent k @ z = c # w \<Longrightarrow> \<not> unreserved c" for k z c w
    using percent_reserved by (auto simp: percent_def)
  have low: "192 + k div 64 < (256 :: nat)" "128 + k mod 64 < (256 :: nat)" if "k < 256" for k :: nat
    using that by linarith+
  show ?thesis
  proof (cases "unreserved a"; cases "unreserved b")
    assume "unreserved a" "\<not> unreserved b"
    with assms pct [OF sym] show ?thesis by (auto simp: enc split: if_splits)
  next
    assume "\<not> unreserved a" "unreserved b"
    with assms pct show ?thesis by (auto simp: enc split: if_splits)
  next
    assume u: "\<not> unreserved a" "\<not> unreserved b"
    show ?thesis
    proof (cases "m < 128"; cases "n < 128")
      assume "m < 128" "n < 128"
      with u assms inj show ?thesis
        using percent_inj [of m n x y] by (simp add: enc m_def n_def)
    next
      assume c: "m < 128" "\<not> n < 128"
      then have "m = 192 + n div 64"
        using u assms percent_inj [of m "192 + n div 64" x "percent (128 + n mod 64) @ y"] low mn
        by (simp add: enc m_def n_def)
      with c show ?thesis by simp
    next
      assume c: "\<not> m < 128" "n < 128"
      then have "192 + m div 64 = n"
        using u assms percent_inj [of "192 + m div 64" n "percent (128 + m mod 64) @ x" y] low mn
        by (simp add: enc m_def n_def)
      with c show ?thesis by simp
    next
      assume "\<not> m < 128" "\<not> n < 128"
      then have a: "192 + m div 64 = 192 + n div 64 \<and> percent (128 + m mod 64) @ x = percent (128 + n mod 64) @ y"
        using u assms percent_inj [of "192 + m div 64" "192 + n div 64" "percent (128 + m mod 64) @ x" "percent (128 + n mod 64) @ y"]
          low mn
        by (simp add: enc m_def n_def)
      then have "128 + m mod 64 = 128 + n mod 64 \<and> x = y"
        using percent_inj [of "128 + m mod 64" "128 + n mod 64" x y] low mn by blast
      with a inj show ?thesis by (metis add_left_cancel div_mult_mod_eq)
    qed
  qed (use assms in \<open>simp add: enc\<close>)
qed

lemma encode_char_nonempty [simp]: "encode_char c \<noteq> []"
  by (simp add: encode_char_def Let_def percent_def)

lemma encodeURIComponent_inj: "encodeURIComponent a = encodeURIComponent b \<Longrightarrow> a = b"
proof (induction a arbitrary: b)
  case Nil
  then show ?case by (cases b) (simp_all add: encodeURIComponent_def)
next
  case (Cons c cs)
  then obtain d ds where b: "b = d # ds" by (cases b) (simp_all add: encodeURIComponent_def)
  with Cons.prems have "encode_char c @ encodeURIComponent cs = encode_char d @ encodeURIComponent ds"
    by (simp add: encodeURIComponent_def)
  from encode_char_prefix [OF this] Cons.IH b show ?case by simp
qed



section \<open>Reports are ordered\<close>

lemma reported_fields [simp]:
  "sv_serverId (reported URL production now r d) = sv_serverId d"
  "sv_seq (reported URL production now r d) = jint (rp_seq r)"
  "sv_serverId (inserted_server i now) = i"
  by (simp_all add: reported_def inserted_server_def)

lemma reportServer_cases:
  assumes M: "lawful_mongo M" and u: "unique_db s" and ok: "reportServer M URL production now r s = (a, t)"
  obtains (refused) "reportDefect URL production r \<noteq> ''''"
      "a = Inl (http_error (reportDefect URL production r) 400)" "t = s"
    | (stale) d where "reportDefect URL production r = ''''" "d \<in> set (db_servers s)"
      "sv_serverId d = rp_serverId r" "jint (rp_seq r) \<le> sv_seq d" "a = Inr (True, Some d)" "t = s"
    | (newer) d where "reportDefect URL production r = ''''" "d \<in> set (db_servers s)"
      "sv_serverId d = rp_serverId r" "sv_seq d < jint (rp_seq r)"
      "a = Inr (False, Some (reported URL production now r d))"
      "t = s\<lparr>db_servers := map (\<lambda>e. if e = d then reported URL production now r e else e) (db_servers s)\<rparr>"
    | (first) "reportDefect URL production r = ''''" "\<forall>d\<in>set (db_servers s). sv_serverId d \<noteq> rp_serverId r"
      "a = Inr (False, Some (reported URL production now r (inserted_server (rp_serverId r) now)))"
      "t = s\<lparr>db_servers := db_servers s @ [reported URL production now r (inserted_server (rp_serverId r) now)]\<rparr>"
proof (cases "reportDefect URL production r = ''''")
  case False
  with ok show ?thesis by (intro refused) (auto simp: reportServer_def)
next
  case defect: True
  note S = lawful_mongoD(12) [OF M]
  have us: "unique_docs sv_serverId (db_servers s)" using u by (simp add: unique_db_def)
  let ?P = "\<lambda>d. sv_serverId d = rp_serverId r \<and> sv_seq d < jint (rp_seq r)"
  let ?f = "reported URL production now r" and ?new = "inserted_server (rp_serverId r) now"
  show ?thesis
  proof (cases rule: collection.find_one_and_update_cases [OF S us, of ?P ?f])
    case (2 d)
    with ok defect show ?thesis
      by (intro newer [of d]) (auto simp: reportServer_def find_one_and_upsert_def)
  next
    case 1
    then have up: "find_one_and_upsert (mg_servers M) ?P ?f ?new (db_servers s)
        = bindE (drv_create (mg_servers M) [?f ?new] (db_servers s)) (\<lambda>c. Inr (?f ?new, c))"
      by (simp add: find_one_and_upsert_def)
    show ?thesis
    proof (cases "\<exists>d\<in>set (db_servers s). sv_serverId d = rp_serverId r")
      case False
      then have "drv_create (mg_servers M) [?f ?new] (db_servers s) = Inr (db_servers s @ [?f ?new])"
        using us by (intro collection.create_ok [OF S]) (auto simp: unique_docs_def)
      with up ok defect False show ?thesis by (intro first) (auto simp: reportServer_def)
    next
      case True
      then have "\<not> unique_docs sv_serverId (db_servers s @ [?f ?new])"
        by (force simp: unique_docs_def image_iff)
      with us obtain e where e: "drv_create (mg_servers M) [?f ?new] (db_servers s) = Inl e" "err_code e = Some 11000"
        using collection.create_duplicate [OF S, of "[?f ?new]" "db_servers s"] by auto
      obtain d where d: "drv_find_one (mg_servers M) (\<lambda>d. sv_serverId d = rp_serverId r) (db_servers s) = Some d"
        using True collection.find_one_none [OF S] by (metis (mono_tags, lifting) not_Some_eq)
      then have dd: "d \<in> set (db_servers s)" "sv_serverId d = rp_serverId r"
        using collection.find_one_some [OF S d] by simp_all
      with 1(1) have "jint (rp_seq r) \<le> sv_seq d" by auto
      with up e d dd ok defect show ?thesis by (intro stale [of d]) (auto simp: reportServer_def)
    qed
  qed
qed

definition reportServers :: "mongo \<Rightarrow> (string \<Rightarrow> url option) \<Rightarrow> bool \<Rightarrow> (ms \<times> report) list \<Rightarrow> db \<Rightarrow> db" where
  "reportServers M URL production = fold (\<lambda>(now, r) s. snd (reportServer M URL production now r s))"

lemma unique_db_reportServer:
  assumes M: "lawful_mongo M" and u: "unique_db s"
  shows "unique_db (snd (reportServer M URL production now r s))"
proof -
  obtain a t where at: "reportServer M URL production now r s = (a, t)" by force
  from M u at show ?thesis
  proof (cases rule: reportServer_cases)
    case (newer d)
    with u at show ?thesis by (simp add: unique_db_def unique_docs_map)
  next
    case first
    with u at show ?thesis by (auto simp: unique_db_def unique_docs_def)
  qed (use u at in simp_all)
qed

text \<open>Who a server document is after a report: the one before it, or what the report says.\<close>

definition says :: "(string \<Rightarrow> url option) \<Rightarrow> bool \<Rightarrow> ms \<times> report \<Rightarrow> server \<Rightarrow> bool" where
  "says URL production nr d \<longleftrightarrow> sv_serverId d = rp_serverId (snd nr) \<and> d = reported URL production (fst nr) (snd nr) d"

lemma says_reported: "sv_serverId d = rp_serverId r \<Longrightarrow> says URL production (now, r) (reported URL production now r d)"
  by (simp add: says_def reported_def)

lemma reportServer_origin:
  assumes "lawful_mongo M" "unique_db s" "d \<in> set (db_servers (snd (reportServer M URL production now r s)))"
  shows "d \<in> set (db_servers s) \<or> reportDefect URL production r = '''' \<and> says URL production (now, r) d"
proof -
  obtain a t where at: "reportServer M URL production now r s = (a, t)" by force
  from assms(1,2) at show ?thesis
    by (cases rule: reportServer_cases) (use at assms(3) in \<open>auto intro: says_reported split: if_splits\<close>)
qed

lemma reportServer_seq:
  assumes "lawful_mongo M" "unique_db s" "d \<in> set (db_servers s)"
  shows "\<exists>e\<in>set (db_servers (snd (reportServer M URL production now r s))).
    sv_serverId e = sv_serverId d \<and> sv_seq d \<le> sv_seq e"
proof -
  obtain a t where at: "reportServer M URL production now r s = (a, t)" by force
  from assms(1,2) at show ?thesis
    by (cases rule: reportServer_cases) (use at assms(3) in \<open>auto intro: bexI [of _ d]\<close>)
qed

lemma reportServer_taken:
  assumes "lawful_mongo M" "unique_db s" "reportDefect URL production r = ''''"
  shows "\<exists>e\<in>set (db_servers (snd (reportServer M URL production now r s))).
    sv_serverId e = rp_serverId r \<and> jint (rp_seq r) \<le> sv_seq e"
proof -
  obtain a t where at: "reportServer M URL production now r s = (a, t)" by force
  from assms(1,2) at show ?thesis
    by (cases rule: reportServer_cases) (use at assms(3) in auto)
qed

lemma reportServers_seq:
  assumes "lawful_mongo M" "unique_db s" "d \<in> set (db_servers s)"
  shows "\<exists>e\<in>set (db_servers (reportServers M URL production rs s)).
    sv_serverId e = sv_serverId d \<and> sv_seq d \<le> sv_seq e"
  using assms(2,3)
proof (induction rs arbitrary: s d)
  case (Cons nr rs)
  obtain now r where nr: "nr = (now, r)" by force
  obtain e where e: "e \<in> set (db_servers (snd (reportServer M URL production now r s)))"
    "sv_serverId e = sv_serverId d" "sv_seq d \<le> sv_seq e"
    using reportServer_seq [OF assms(1) Cons.prems] by blast
  from Cons.IH [OF unique_db_reportServer [OF assms(1) Cons.prems(1)] e(1)] e(2,3)
  show ?case by (force simp: reportServers_def nr)
qed (auto simp: reportServers_def)

lemma reportServers_origin:
  assumes "lawful_mongo M" "unique_db s" "d \<in> set (db_servers (reportServers M URL production rs s))"
  shows "d \<in> set (db_servers s) \<or> (\<exists>nr\<in>set rs. reportDefect URL production (snd nr) = '''' \<and> says URL production nr d)"
  using assms(2,3)
proof (induction rs arbitrary: s)
  case (Cons nr rs)
  obtain now r where nr: "nr = (now, r)" by force
  have "d \<in> set (db_servers (reportServers M URL production rs (snd (reportServer M URL production now r s))))"
    using Cons.prems(2) by (simp add: reportServers_def nr)
  from Cons.IH [OF unique_db_reportServer [OF assms(1) Cons.prems(1)] this]
    reportServer_origin [OF assms(1) Cons.prems(1)]
  show ?case by (fastforce simp: nr)
qed (simp add: reportServers_def)

lemma reportServers_taken:
  assumes "lawful_mongo M" "unique_db s" "(now, r) \<in> set rs" "reportDefect URL production r = ''''"
  shows "\<exists>e\<in>set (db_servers (reportServers M URL production rs s)).
    sv_serverId e = rp_serverId r \<and> jint (rp_seq r) \<le> sv_seq e"
  using assms(2,3)
proof (induction rs arbitrary: s)
  case (Cons nr rs)
  obtain now' r' where nr: "nr = (now', r')" by force
  let ?s = "snd (reportServer M URL production now' r' s)"
  have u: "unique_db ?s" by (rule unique_db_reportServer [OF assms(1) Cons.prems(1)])
  have step: "reportServers M URL production (nr # rs) s = reportServers M URL production rs ?s"
    by (simp add: reportServers_def nr)
  show ?case
  proof (cases "(now, r) \<in> set rs")
    case True
    then show ?thesis unfolding step by (rule Cons.IH [OF u])
  next
    case False
    with Cons.prems nr have r: "r' = r" by simp
    obtain e where e: "e \<in> set (db_servers ?s)" "sv_serverId e = rp_serverId r" "jint (rp_seq r) \<le> sv_seq e"
      using reportServer_taken [OF assms(1) Cons.prems(1) assms(4)] unfolding r by blast
    from reportServers_seq [OF assms(1) u e(1), of URL production rs] e(2,3) show ?thesis
      unfolding step by force
  qed
qed simp

text \<open>C12: the newest report of a server wins in any order: after any sequence of reports, each server
has one document, at least as new as every accepted report of it, and the document is what one of
those accepted reports says, or the one there was before. A late report changes nothing.\<close>

theorem newest_report_wins:
  assumes "lawful_mongo M" "unique_db s"
  shows "unique_docs sv_serverId (db_servers (reportServers M URL production rs s))
    \<and> (\<forall>(now, r)\<in>set rs. reportDefect URL production r = '''' \<longrightarrow>
       (\<exists>d\<in>set (db_servers (reportServers M URL production rs s)).
          sv_serverId d = rp_serverId r \<and> jint (rp_seq r) \<le> sv_seq d))
    \<and> (\<forall>d\<in>set (db_servers (reportServers M URL production rs s)). d \<in> set (db_servers s)
       \<or> (\<exists>nr\<in>set rs. reportDefect URL production (snd nr) = '''' \<and> says URL production nr d))
    \<and> (\<forall>now r d t. reportServer M URL production now r s = (Inr (True, d), t) \<longrightarrow> t = s)"
proof (intro conjI allI impI)
  have "unique_db (reportServers M URL production rs s)"
    using assms(2)
  proof (induction rs arbitrary: s)
    case (Cons nr rs)
    then show ?case
      using unique_db_reportServer [OF assms(1)] by (cases nr) (simp add: reportServers_def)
  qed (simp add: reportServers_def)
  then show "unique_docs sv_serverId (db_servers (reportServers M URL production rs s))"
    by (simp add: unique_db_def)
next
  show "\<forall>(now, r)\<in>set rs. reportDefect URL production r = '''' \<longrightarrow>
       (\<exists>d\<in>set (db_servers (reportServers M URL production rs s)).
          sv_serverId d = rp_serverId r \<and> jint (rp_seq r) \<le> sv_seq d)"
    using reportServers_taken [OF assms] by fast
  show "\<forall>d\<in>set (db_servers (reportServers M URL production rs s)). d \<in> set (db_servers s)
       \<or> (\<exists>nr\<in>set rs. reportDefect URL production (snd nr) = '''' \<and> says URL production nr d)"
    using reportServers_origin [OF assms] by blast
  show "t = s" if "reportServer M URL production now r s = (Inr (True, d), t)" for now r d t
    using assms that by (cases rule: reportServer_cases) simp_all
qed

definition sample_url :: "string \<Rightarrow> url option" where
  "sample_url s = (if s = ''https://play.example.com/w1/'' then Some \<lparr>url_protocol = ''https:'', url_username = '''',
     url_password = '''', url_search = '''', url_hash = '''', url_pathname = ''/w1/'',
     url_hostname = ''play.example.com'', url_origin = ''https://play.example.com''\<rparr> else None)"

definition sample_report :: "int \<Rightarrow> string \<Rightarrow> report" where
  "sample_report n state = \<lparr>rp_serverId = ''s1'', rp_url = ''https://play.example.com/w1/'', rp_instanceCode = ''w1'',
     rp_name = ''One'', rp_state = Str state, rp_seq = JInt n, rp_build = ''ab12'', rp_releaseId = ''r1''\<rparr>"

lemma sample_report_accepted: "reportDefect sample_url True (sample_report 1 ''ready'') = ''''"
    "reportDefect sample_url True (sample_report 2 ''draining'') = ''''"
  by code_simp+

lemma newest_report_wins_witness:
  "\<exists>d\<in>set (db_servers (reportServers ref_mongo sample_url True
       [(10, sample_report 2 ''draining''), (20, sample_report 1 ''ready'')] empty_db)).
     sv_serverId d = ''s1'' \<and> 2 \<le> sv_seq d"
proof -
  have r: "rp_serverId (sample_report 2 ''draining'') = ''s1''" "jint (rp_seq (sample_report 2 ''draining'')) = 2"
    by (simp_all add: sample_report_def jint_def)
  show ?thesis
    using newest_report_wins [OF lawful_ref_mongo unique_empty_db, of sample_url True
        "[(10, sample_report 2 ''draining''), (20, sample_report 1 ''ready'')]"]
      sample_report_accepted(2) r by simp
qed

text \<open>C13: discovery and the launch check agree: a world takes sessions exactly when discovery lists an
endpoint of it as available, as long as the list is not cut at its limit.\<close>

theorem available_endpoints:
  assumes "lawful_mongo M" "length (db_servers s) \<le> SERVER_LIST_LIMIT"
  shows "worldAvailable M now code s \<longleftrightarrow>
    (\<exists>e\<in>set (liveEndpoints M now None s). ep_instanceCode e = code \<and> ep_status e = ''available'')"
proof -
  note S = lawful_mongoD(12) [OF assms(1)]
  define ds where "ds = sort_key (\<lambda>d. - sv_lastSeen d) (filter (\<lambda>d. liveSince now < sv_lastSeen d) (db_servers s))"
  define groups where "groups = sort_key fst (sort_key snd (remdups (map (\<lambda>d. (sv_instanceCode d, sv_url d)) ds)))"
  have "length groups \<le> length (map (\<lambda>d. (sv_instanceCode d, sv_url d)) ds)"
    using length_remdups_leq [of "map (\<lambda>d. (sv_instanceCode d, sv_url d)) ds"]
    by (simp only: groups_def length_sort)
  also have "\<dots> \<le> length (db_servers s)" by (simp add: ds_def)
  finally have "liveEndpoints M now None s = map (endpoint_of ds) groups"
    using assms(2) by (simp add: liveEndpoints_def Let_def collection.find_docs [OF S] ds_def groups_def)
  then have ends: "set (liveEndpoints M now None s) = endpoint_of ds ` (\<lambda>d. (sv_instanceCode d, sv_url d)) ` set ds"
    by (simp add: groups_def)
  have fields: "ep_instanceCode (endpoint_of ds g) = fst g"
    "ep_status (endpoint_of ds g) = ''available'' \<longleftrightarrow>
       (\<exists>d\<in>set ds. (sv_instanceCode d, sv_url d) = g \<and> sv_state d = ''ready'')" for g
    by (auto simp: endpoint_of_def Let_def filter_empty_conv)
  have "worldAvailable M now code s \<longleftrightarrow>
      (\<exists>d\<in>set ds. sv_instanceCode d = code \<and> sv_state d = ''ready'')"
    unfolding worldAvailable_def collection.find_one_none [OF S] by (auto simp: ds_def)
  then show ?thesis unfolding ends by (auto simp: fields)
qed

lemma available_endpoints_witness:
  "worldAvailable ref_mongo 20 ''w1'' (reportServers ref_mongo sample_url True [(10, sample_report 1 ''ready'')] empty_db)
   \<and> (\<exists>e\<in>set (liveEndpoints ref_mongo 20 None
        (reportServers ref_mongo sample_url True [(10, sample_report 1 ''ready'')] empty_db)).
      ep_instanceCode e = ''w1'' \<and> ep_status e = ''available'')"
proof -
  let ?s = "reportServers ref_mongo sample_url True [(10, sample_report 1 ''ready'')] empty_db"
  have "length (db_servers ?s) \<le> SERVER_LIST_LIMIT" and a: "worldAvailable ref_mongo 20 ''w1'' ?s" by code_simp+
  from available_endpoints [OF lawful_ref_mongo this(1), of 20 "''w1''"] a show ?thesis by blast
qed

end
