(* ===== verification/Tickets.thy ===== *)
theory Tickets imports Registry Samples begin

text \<open>
  Launch tickets, from \<open>src/api/cyberia-game-ticket/cyberia-game-ticket.service.js\<close>. The portal asks
  for a ticket for its account or its guest, a game server of the same world consumes it once, for
  one connection. Only the hash of a ticket is stored.

  A \<open>host\<close> holds what the service takes from elsewhere: the settings of the environment (none when a
  setting is no number), the SHA-256 of a token, the worlds that exist as content, and the guests
  the key-value store holds. The random token of a new ticket and the time are arguments. The unique
  index of \<open>connection\<close> makes the consumption throw when another ticket names the connection.
\<close>

record host =
  ho_ticketSeconds :: "rat option"
  ho_resumeSeconds :: "rat option"
  ho_leaseSeconds :: "rat option"
  hashToken :: "string \<Rightarrow> string"
  instanceExists :: "string \<Rightarrow> bool"
  guestFound :: "string \<Rightarrow> bool"

section \<open>Issue\<close>

definition OPEN_TICKETS_MAX :: nat where "OPEN_TICKETS_MAX = 5"

text \<open>\<open>/^[A-Za-z0-9_-]{43}$/\<close>.\<close>

definition TICKET_PATTERN :: "string \<Rightarrow> bool" where
  "TICKET_PATTERN t \<longleftrightarrow> length t = 43 \<and> list_all (\<lambda>c. is_word c \<or> c = CHR ''-'') t"

text \<open>\<open>Math.max(least, Number(setting) || standard)\<close>, for a finite setting.\<close>

definition seconds :: "rat \<Rightarrow> rat \<Rightarrow> rat option \<Rightarrow> rat" where
  "seconds least standard setting =
     max least (case setting of None \<Rightarrow> standard | Some q \<Rightarrow> if q = 0 then standard else q)"

definition ticketTtlSeconds :: "host \<Rightarrow> rat" where
  "ticketTtlSeconds H = seconds 5 60 (ho_ticketSeconds H)"

definition resumeTtlSeconds :: "host \<Rightarrow> rat" where
  "resumeTtlSeconds H = seconds 30 300 (ho_resumeSeconds H)"

definition after_seconds :: "ms \<Rightarrow> rat \<Rightarrow> ms" where
  "after_seconds now q = now + \<lfloor>q * 1000\<rfloor>"

record issued =
  is_ticket :: string
  is_expiresAt :: ms

definition insertTicket :: "host \<Rightarrow> mongo \<Rightarrow> ms \<Rightarrow> string \<Rightarrow> ticket \<Rightarrow> rat \<Rightarrow> (db, issued) work" where
  "insertTicket H M now token doc secs s =
     (let expiresAt = after_seconds now secs;
          t = doc\<lparr>tk_tokenHash := hashToken H token, tk_expiresAt := expiresAt\<rparr>
      in case drv_create (mg_tickets M) [t] (db_tickets s) of
           Inl e \<Rightarrow> (Inl e, s)
         | Inr c \<Rightarrow> (Inr \<lparr>is_ticket = token, is_expiresAt = expiresAt\<rparr>, s\<lparr>db_tickets := c\<rparr>))"

record ticket_request =
  tr_principal :: principal
  tr_user :: oid
  tr_session :: oid
  tr_guest :: string
  tr_instanceCode :: js

definition new_ticket :: "principal \<Rightarrow> oid \<Rightarrow> oid \<Rightarrow> string \<Rightarrow> int option \<Rightarrow> string \<Rightarrow> ticket" where
  "new_ticket who user session guest epoch code = \<lparr>tk_tokenHash = '''', tk_principal = who,
     tk_user = user, tk_session = session, tk_guest = guest, tk_epoch = epoch, tk_instanceCode = code,
     tk_expiresAt = 0, tk_consumedAt = None, tk_connection = ''''\<rparr>"

text \<open>The world a request names, or the default one.\<close>

definition requested_world :: "ticket_request \<Rightarrow> string" where
  "requested_world r = (case tr_instanceCode r of
     Str s \<Rightarrow> (if trim s = '''' then DEFAULT_INSTANCE_CODE else trim s) | _ \<Rightarrow> DEFAULT_INSTANCE_CODE)"

definition holds :: "ticket_request \<Rightarrow> ticket \<Rightarrow> bool" where
  "holds r t \<longleftrightarrow> (if tr_principal r = Guest then tk_guest t = tr_guest r else tk_user t = tr_user r)"

definition open_ticket :: "ticket_request \<Rightarrow> ms \<Rightarrow> ticket \<Rightarrow> bool" where
  "open_ticket r now t \<longleftrightarrow> holds r t \<and> tk_epoch t = None \<and> tk_consumedAt t = None \<and> now < tk_expiresAt t"

definition createGameTicket :: "host \<Rightarrow> mongo \<Rightarrow> ms \<Rightarrow> string \<Rightarrow> ticket_request \<Rightarrow> (db, issued \<times> string) work" where
  "createGameTicket H M now token r s =
     (let code = requested_world r in
      if \<not> instanceExists H code then (Inl (http_error (''unknown world '' @ code) 404), s)
      else if \<not> worldAvailable M now code s
        then (Inl (http_error (''world '' @ code @ '' has no server taking sessions now'') 503), s)
      else if tr_principal r = Account \<and> universeCodeOf M s code = ''''
        then (Inl (http_error (''world '' @ code @ '' belongs to no universe'') 409), s)
      else if OPEN_TICKETS_MAX \<le> length (drv_find (mg_tickets M) (open_ticket r now) (db_tickets s))
        then (Inl (http_error ''too many open launch tickets'' 429), s)
      else bindW (insertTicket H M now token
            (if tr_principal r = Guest then new_ticket Guest '''' (tr_session r) (tr_guest r) None code
             else new_ticket Account (tr_user r) (tr_session r) '''' None code) (ticketTtlSeconds H))
          (\<lambda>i. retW (i, worldPathOf code)) s)"

definition createResumeTicket :: "host \<Rightarrow> mongo \<Rightarrow> ms \<Rightarrow> string \<Rightarrow> oid \<Rightarrow> oid \<Rightarrow> string \<Rightarrow> int \<Rightarrow> (db, issued) work" where
  "createResumeTicket H M now token user session instanceCode epoch =
     bindW (writeW (\<lambda>s. Inr (s\<lparr>db_tickets := drv_delete_many (mg_tickets M)
          (\<lambda>t. tk_user t = user \<and> tk_session t = session \<and> tk_epoch t \<noteq> None \<and> tk_consumedAt t = None)
          (db_tickets s)\<rparr>)))
       (\<lambda>_. insertTicket H M now token (new_ticket Account user session '''' (Some epoch) instanceCode)
          (resumeTtlSeconds H))"

section \<open>Consumption\<close>

datatype consumption = Rejected string | Consumed ticket

definition consumed_by :: "ms \<Rightarrow> string \<Rightarrow> ticket \<Rightarrow> ticket" where
  "consumed_by now connection t = t\<lparr>tk_consumedAt := Some now, tk_connection := connection\<rparr>"

definition connection_taken :: "string \<Rightarrow> string \<Rightarrow> ticket docs \<Rightarrow> bool" where
  "connection_taken hash connection = list_ex (\<lambda>t. tk_tokenHash t \<noteq> hash \<and> tk_connection t = connection)"

definition consumeGameTicket :: "host \<Rightarrow> mongo \<Rightarrow> ms \<Rightarrow> string \<Rightarrow> string \<Rightarrow> string \<Rightarrow> (db, consumption) work" where
  "consumeGameTicket H M now token instanceCode connection s =
     (if \<not> TICKET_PATTERN token \<or> connection = '''' then (Inr (Rejected ''unknown''), s)
      else let hash = hashToken H token in
        case find_one_and_update (mg_tickets M)
            (\<lambda>t. tk_tokenHash t = hash \<and> tk_consumedAt t = None \<and> now < tk_expiresAt t \<and> tk_instanceCode t = instanceCode)
            (consumed_by now connection) (db_tickets s) of
          (Some doc, c) \<Rightarrow>
            if connection_taken hash connection (db_tickets s) then (Inl duplicate_key, s)
            else (Inr (Consumed doc), s\<lparr>db_tickets := c\<rparr>)
        | (None, _) \<Rightarrow>
            (case drv_find_one (mg_tickets M) (\<lambda>t. tk_tokenHash t = hash) (db_tickets s) of
               None \<Rightarrow> (Inr (Rejected ''unknown''), s)
             | Some doc \<Rightarrow>
                 (Inr (if tk_connection doc \<noteq> connection
                    then if tk_consumedAt doc \<noteq> None then Rejected ''replayed''
                      else if tk_instanceCode doc \<noteq> instanceCode then Rejected ''wrong_instance''
                      else Rejected ''expired''
                    else Consumed doc), s)))"

definition findGameTicket :: "host \<Rightarrow> mongo \<Rightarrow> string \<Rightarrow> db \<Rightarrow> ticket option" where
  "findGameTicket H M token s =
     (if TICKET_PATTERN token
      then drv_find_one (mg_tickets M) (\<lambda>t. tk_tokenHash t = hashToken H token) (db_tickets s) else None)"

definition ticketOfConnection :: "mongo \<Rightarrow> string \<Rightarrow> db \<Rightarrow> ticket option" where
  "ticketOfConnection M connection s =
     (if connection = '''' then None
      else drv_find_one (mg_tickets M) (\<lambda>t. tk_connection t = connection) (db_tickets s))"

section \<open>What the operations do\<close>

lemma unique_tickets: "unique_db s \<Longrightarrow> unique_docs tk_tokenHash (db_tickets s)"
  by (simp add: unique_db_def)

lemma consumed_by_fields [simp]:
  "tk_tokenHash (consumed_by now c t) = tk_tokenHash t" "tk_connection (consumed_by now c t) = c"
  "tk_consumedAt (consumed_by now c t) = Some now"
  by (simp_all add: consumed_by_def)

lemma only_ticket:
  assumes "unique_db s" "d \<in> set (db_tickets s)" "tk_tokenHash d = h"
  shows "\<forall>e\<in>set (db_tickets s). tk_tokenHash e = h \<longrightarrow> e = d"
proof (intro ballI impI)
  fix e assume "e \<in> set (db_tickets s)" "tk_tokenHash e = h"
  with assms(3) show "e = d" by (intro unique_docs_eq [OF unique_tickets [OF assms(1)] _ assms(2)]) simp_all
qed

text \<open>A consumption, on every branch: the ticket of the token is taken for the connection, or the call
writes nothing and its answer is what the stored ticket says.\<close>

lemma consumeGameTicket_cases:
  assumes M: "lawful_mongo M" and u: "unique_db s"
    and ok: "consumeGameTicket H M now token code connection s = (a, t)"
  obtains (taken) d where "d \<in> set (db_tickets s)" "tk_tokenHash d = hashToken H token" "tk_consumedAt d = None"
      "now < tk_expiresAt d" "tk_instanceCode d = code" "connection \<noteq> ''''"
      "a = Inr (Consumed (consumed_by now connection d))"
      "t = s\<lparr>db_tickets := map (\<lambda>e. if e = d then consumed_by now connection e else e) (db_tickets s)\<rparr>"
      "\<not> connection_taken (hashToken H token) connection (db_tickets s)"
    | (same) d where "t = s" "d \<in> set (db_tickets s)" "tk_tokenHash d = hashToken H token"
      "tk_connection d = connection" "connection \<noteq> ''''" "a = Inr (Consumed d)"
    | (used) d where "t = s" "d \<in> set (db_tickets s)" "tk_tokenHash d = hashToken H token" "TICKET_PATTERN token"
      "tk_connection d \<noteq> connection" "connection \<noteq> ''''" "tk_consumedAt d \<noteq> None" "a = Inr (Rejected ''replayed'')"
    | (left) d where "t = s" "d \<in> set (db_tickets s)" "tk_tokenHash d = hashToken H token" "tk_consumedAt d = None"
      "a = Inl duplicate_key \<or> a = Inr (Rejected ''wrong_instance'') \<or> a = Inr (Rejected ''expired'')"
    | (none) "t = s" "a = Inr (Rejected ''unknown'')" "TICKET_PATTERN token \<Longrightarrow> connection \<noteq> '''' \<Longrightarrow>
         \<forall>d\<in>set (db_tickets s). tk_tokenHash d \<noteq> hashToken H token"
proof -
  note T = lawful_mongoD(9) [OF M] and ut = unique_tickets [OF u]
  let ?P = "\<lambda>t. tk_tokenHash t = hashToken H token \<and> tk_consumedAt t = None \<and> now < tk_expiresAt t \<and> tk_instanceCode t = code"
  show ?thesis
  proof (cases "TICKET_PATTERN token \<and> connection \<noteq> ''''")
    case False
    with ok show ?thesis by (intro none) (auto simp: consumeGameTicket_def)
  next
    case wf: True
    show ?thesis
    proof (cases rule: collection.find_one_and_update_cases [OF T ut, of ?P "consumed_by now connection"])
      case (2 d)
      show ?thesis
      proof (cases "connection_taken (hashToken H token) connection (db_tickets s)")
        case True
        with 2(3) wf ok have "t = s" "a = Inl duplicate_key" by (simp_all add: consumeGameTicket_def Let_def)
        then show ?thesis using 2(1,2) by (intro left [of d]) simp_all
      next
        case False
        with 2(3) wf ok have "t = s\<lparr>db_tickets := map (\<lambda>e. if e = d then consumed_by now connection e else e) (db_tickets s)\<rparr>"
          "a = Inr (Consumed (consumed_by now connection d))"
          by (simp_all add: consumeGameTicket_def Let_def)
        with 2(1,2) wf False show ?thesis by (intro taken [of d]) simp_all
      qed
    next
      case 1
      show ?thesis
      proof (cases "drv_find_one (mg_tickets M) (\<lambda>t. tk_tokenHash t = hashToken H token) (db_tickets s)")
        case None
        then have "\<forall>d\<in>set (db_tickets s). tk_tokenHash d \<noteq> hashToken H token"
          by (simp only: collection.find_one_none [OF T])
        moreover have "t = s" "a = Inr (Rejected ''unknown'')"
          using None 1 wf ok by (simp_all add: consumeGameTicket_def Let_def)
        ultimately show ?thesis by (intro none)
      next
        case (Some d)
        then have d: "d \<in> set (db_tickets s)" "tk_tokenHash d = hashToken H token"
          using collection.find_one_some [OF T] by fast+
        have a: "t = s" "a = Inr (if tk_connection d \<noteq> connection
            then if tk_consumedAt d \<noteq> None then Rejected ''replayed''
              else if tk_instanceCode d \<noteq> code then Rejected ''wrong_instance'' else Rejected ''expired''
            else Consumed d)"
          using Some 1 wf ok by (auto simp: consumeGameTicket_def Let_def)
        show ?thesis
        proof (cases "tk_connection d = connection")
          case True
          with a d wf show ?thesis by (intro same [of d]) auto
        next
          case False
          show ?thesis
          proof (cases "tk_consumedAt d")
            case None
            with a False have "a = Inr (Rejected ''wrong_instance'') \<or> a = Inr (Rejected ''expired'')" by simp
            then show ?thesis using a(1) d None by (intro left [of d]) simp_all
          next
            case (Some c)
            with a d wf False show ?thesis by (intro used [of d]) auto
          qed
        qed
      qed
    qed
  qed
qed

lemma insertTicket_cases:
  assumes "lawful_mongo M" "unique_db s" "insertTicket H M now token doc secs s = (a, t)"
  obtains (stored) "a = Inr \<lparr>is_ticket = token, is_expiresAt = after_seconds now secs\<rparr>"
      "t = s\<lparr>db_tickets := db_tickets s
        @ [doc\<lparr>tk_tokenHash := hashToken H token, tk_expiresAt := after_seconds now secs\<rparr>]\<rparr>" "unique_db t"
    | (failed) e where "a = Inl e" "t = s"
proof (cases "drv_create (mg_tickets M)
    [doc\<lparr>tk_tokenHash := hashToken H token, tk_expiresAt := after_seconds now secs\<rparr>] (db_tickets s)")
  case (Inl e)
  with assms(3) show ?thesis by (intro failed [of e]) (auto simp: insertTicket_def Let_def)
next
  case (Inr c)
  note T = lawful_mongoD(9) [OF assms(1)]
  from collection.create_cases [OF T unique_tickets [OF assms(2)]]
  have c: "c = db_tickets s @ [doc\<lparr>tk_tokenHash := hashToken H token, tk_expiresAt := after_seconds now secs\<rparr>]"
    "unique_docs tk_tokenHash c"
    using Inr by (metis Inl_Inr_False sum.inject(2))+
  with Inr assms(2,3) show ?thesis by (intro stored) (auto simp: insertTicket_def Let_def unique_db_def)
qed

text \<open>A launch ticket is refused and nothing written, or one ticket is stored for its holder.\<close>

lemma createGameTicket_cases:
  assumes "lawful_mongo M" "unique_db s" "createGameTicket H M now token r s = (a, t)"
  obtains (issued) d where "a = Inr (\<lparr>is_ticket = token, is_expiresAt = tk_expiresAt d\<rparr>, worldPathOf (requested_world r))"
      "t = s\<lparr>db_tickets := db_tickets s @ [d]\<rparr>" "unique_db t" "instanceExists H (requested_world r)"
      "worldAvailable M now (requested_world r) s"
      "tr_principal r = Account \<longrightarrow> universeCodeOf M s (requested_world r) \<noteq> ''''"
      "length (filter (open_ticket r now) (db_tickets s)) < OPEN_TICKETS_MAX"
      "tk_tokenHash d = hashToken H token" "tk_consumedAt d = None" "tk_connection d = ''''" "tk_epoch d = None"
      "tk_instanceCode d = requested_world r" "tk_principal d = tr_principal r" "holds r d"
      "tk_expiresAt d = after_seconds now (ticketTtlSeconds H)"
    | (refused) e where "a = Inl e" "t = s"
proof (cases "instanceExists H (requested_world r) \<and> worldAvailable M now (requested_world r) s
    \<and> (tr_principal r = Account \<longrightarrow> universeCodeOf M s (requested_world r) \<noteq> '''')
    \<and> length (drv_find (mg_tickets M) (open_ticket r now) (db_tickets s)) < OPEN_TICKETS_MAX")
  case False
  with assms(3) show ?thesis
    by (auto simp: createGameTicket_def Let_def intro: refused split: if_splits)
next
  case True
  note T = lawful_mongoD(9) [OF assms(1)]
  define doc where "doc = (if tr_principal r = Guest then new_ticket Guest '''' (tr_session r) (tr_guest r) None (requested_world r)
             else new_ticket Account (tr_user r) (tr_session r) '''' None (requested_world r))"
  obtain b u where i: "insertTicket H M now token doc (ticketTtlSeconds H) s = (b, u)" by force
  have c: "createGameTicket H M now token r s = bindW (insertTicket H M now token doc (ticketTtlSeconds H))
      (\<lambda>i. retW (i, worldPathOf (requested_world r))) s"
    using True by (auto simp: createGameTicket_def Let_def doc_def not_le [symmetric])
  show ?thesis
  proof (cases rule: insertTicket_cases [OF assms(1,2) i])
    case 1
    have f: "holds r (doc\<lparr>tk_tokenHash := h, tk_expiresAt := x\<rparr>)" "tk_principal doc = tr_principal r"
      "tk_consumedAt doc = None" "tk_connection doc = ''''" "tk_epoch doc = None" "tk_instanceCode doc = requested_world r" for h x
      by (cases "tr_principal r"; simp add: doc_def new_ticket_def holds_def)+
    from 1 True f assms(3) show ?thesis
      by (intro issued [of "doc\<lparr>tk_tokenHash := hashToken H token, tk_expiresAt := after_seconds now (ticketTtlSeconds H)\<rparr>"])
        (auto simp: c i bindW_def retW_def collection.find_docs [OF T])
  next
    case (2 e)
    with assms(3) show ?thesis by (intro refused [of e]) (simp_all add: c i bindW_def)
  qed
qed

text \<open>A resume ticket replaces the open resume tickets of its account session.\<close>

lemma createResumeTicket_cases:
  assumes "lawful_mongo M" "unique_db s" "createResumeTicket H M now token user session code epoch s = (a, t)"
  obtains (issued) d where "a = Inr \<lparr>is_ticket = token, is_expiresAt = tk_expiresAt d\<rparr>"
      "t = s\<lparr>db_tickets := filter (\<lambda>t. \<not> (tk_user t = user \<and> tk_session t = session \<and> tk_epoch t \<noteq> None
          \<and> tk_consumedAt t = None)) (db_tickets s) @ [d]\<rparr>" "unique_db t"
      "d = (new_ticket Account user session '''' (Some epoch) code)
        \<lparr>tk_tokenHash := hashToken H token, tk_expiresAt := after_seconds now (resumeTtlSeconds H)\<rparr>"
    | (failed) e where "a = Inl e" "t = s\<lparr>db_tickets := filter (\<lambda>t. \<not> (tk_user t = user \<and> tk_session t = session
          \<and> tk_epoch t \<noteq> None \<and> tk_consumedAt t = None)) (db_tickets s)\<rparr>" "unique_db t"
proof -
  let ?s = "s\<lparr>db_tickets := filter (\<lambda>t. \<not> (tk_user t = user \<and> tk_session t = session
          \<and> tk_epoch t \<noteq> None \<and> tk_consumedAt t = None)) (db_tickets s)\<rparr>"
  let ?d = "new_ticket Account user session '''' (Some epoch) code"
  have u: "unique_db ?s" using assms(2) by (simp add: unique_db_def unique_docs_filter)
  have c: "insertTicket H M now token ?d (resumeTtlSeconds H) ?s = (a, t)"
    using assms(3) by (simp add: createResumeTicket_def bindW_def writeW_def
        collection.delete_many [OF lawful_mongoD(9) [OF assms(1)]])
  show ?thesis
  proof (cases rule: insertTicket_cases [OF assms(1) u c])
    case 1
    then show ?thesis
      by (intro issued [of "?d\<lparr>tk_tokenHash := hashToken H token, tk_expiresAt := after_seconds now (resumeTtlSeconds H)\<rparr>"])
        simp_all
  next
    case (2 e)
    with u that(2) show ?thesis by simp
  qed
qed

section \<open>Single use\<close>

definition TICKET_RETENTION_SECONDS :: int where "TICKET_RETENTION_SECONDS = 300"

text \<open>What may come between two uses of a ticket of hash \<open>h\<close>: any issue of another token, any
consumption, the expiry of old tickets, and any write elsewhere. A token is drawn once.\<close>

inductive ticket_step :: "host \<Rightarrow> mongo \<Rightarrow> string \<Rightarrow> db \<Rightarrow> db \<Rightarrow> bool" for H M h where
  issue: "createGameTicket H M now token r s = (a, t) \<Longrightarrow> hashToken H token \<noteq> h \<Longrightarrow> ticket_step H M h s t"
| resume: "createResumeTicket H M now token user session code epoch s = (a, t) \<Longrightarrow> hashToken H token \<noteq> h \<Longrightarrow>
    ticket_step H M h s t"
| consume: "consumeGameTicket H M now token code connection s = (a, t) \<Longrightarrow> ticket_step H M h s t"
| expire: "t = s\<lparr>db_tickets := filter (\<lambda>d. now \<le> tk_expiresAt d + TICKET_RETENTION_SECONDS * 1000) (db_tickets s)\<rparr> \<Longrightarrow>
    ticket_step H M h s t"
| elsewhere: "db_tickets t = db_tickets s \<Longrightarrow> unique_db t \<Longrightarrow> ticket_step H M h s t"

definition tickets_ok :: "db \<Rightarrow> bool" where
  "tickets_ok s \<longleftrightarrow> unique_db s \<and> (\<forall>t\<in>set (db_tickets s). tk_connection t \<noteq> '''' \<longrightarrow> tk_consumedAt t \<noteq> None)"

text \<open>A consumed ticket stays as it is, or goes.\<close>

lemma consumed_stays:
  assumes M: "lawful_mongo M" and d: "tk_consumedAt d \<noteq> None"
    and inv: "unique_db s \<and> (\<forall>e\<in>set (db_tickets s). tk_tokenHash e = h \<longrightarrow> e = d)"
    and step: "ticket_step H M h s t"
  shows "unique_db t \<and> (\<forall>e\<in>set (db_tickets t). tk_tokenHash e = h \<longrightarrow> e = d)"
  using step
proof cases
  case (issue now token r a)
  show ?thesis
    by (cases rule: createGameTicket_cases [OF M conjunct1 [OF inv] issue(1)]) (use issue(2) inv in simp_all)
next
  case (resume now token user session code epoch a)
  show ?thesis
    by (cases rule: createResumeTicket_cases [OF M conjunct1 [OF inv] resume(1)])
      (use resume(2) inv in \<open>simp_all add: new_ticket_def\<close>)
next
  case (consume now token code connection a)
  show ?thesis
  proof (cases rule: consumeGameTicket_cases [OF M conjunct1 [OF inv] consume])
    case (1 e)
    then have "tk_tokenHash e \<noteq> h" using inv d by auto
    moreover have "unique_db t"
      using inv unfolding 1(8) by (simp add: unique_db_def unique_docs_map)
    ultimately show ?thesis using inv 1(8) by auto
  qed (use inv in simp_all)
next
  case (expire now)
  with inv show ?thesis by (auto simp: unique_db_def unique_docs_filter)
next
  case elsewhere
  with inv show ?thesis by simp
qed

lemma consumed_stays_steps:
  assumes "lawful_mongo M" "tk_consumedAt d \<noteq> None" "(ticket_step H M h)\<^sup>*\<^sup>* s t"
    and "unique_db s \<and> (\<forall>e\<in>set (db_tickets s). tk_tokenHash e = h \<longrightarrow> e = d)"
  shows "unique_db t \<and> (\<forall>e\<in>set (db_tickets t). tk_tokenHash e = h \<longrightarrow> e = d)"
  using assms(3,4)
proof (induction rule: rtranclp_induct)
  case (step y z)
  show ?case by (rule consumed_stays [OF assms(1,2) step.IH [OF step.prems] step.hyps(2)])
qed

text \<open>C15: a ticket is used once: after it was consumed for a connection, whatever issues, consumptions,
expiries and other writes come next, the same connection reads the same ticket again and every other
connection is refused, \<open>replayed\<close> while the record stays and \<open>unknown\<close> once it expired away; neither
writes anything.\<close>

theorem ticket_single_use:
  assumes "lawful_mongo M" "tickets_ok s"
    and "consumeGameTicket H M now token code connection s = (Inr (Consumed d), t)"
    and "(ticket_step H M (hashToken H token))\<^sup>*\<^sup>* t u"
  shows "consumeGameTicket H M now' token code' connection' u =
    (Inr (if connection' = '''' \<or> d \<notin> set (db_tickets u) then Rejected ''unknown''
          else if connection' = connection then Consumed d else Rejected ''replayed''), u)"
proof -
  have u: "unique_db s" using assms(2) by (simp add: tickets_ok_def)
  have d: "tk_tokenHash d = hashToken H token \<and> tk_consumedAt d \<noteq> None \<and> tk_connection d = connection
      \<and> (unique_db t \<and> (\<forall>e\<in>set (db_tickets t). tk_tokenHash e = hashToken H token \<longrightarrow> e = d))"
    using assms(1) u assms(3)
  proof (cases rule: consumeGameTicket_cases)
    case (taken e)
    have "unique_db t" using u unfolding taken(8) by (simp add: unique_db_def unique_docs_map)
    moreover have "d = consumed_by now connection e" using taken(7) by simp
    moreover have "\<forall>x\<in>set (db_tickets t). tk_tokenHash x = hashToken H token \<longrightarrow> x = consumed_by now connection e"
      using only_ticket [OF u taken(1,2)] unfolding taken(8) by auto
    ultimately show ?thesis using taken(2) by simp
  next
    case (same e)
    have "\<forall>x\<in>set (db_tickets s). tk_tokenHash x = hashToken H token \<longrightarrow> x = e"
      by (rule only_ticket [OF u same(2,3)])
    moreover have "d = e" "t = s" using same by simp_all
    moreover have "tk_consumedAt e \<noteq> None" using same assms(2) by (simp add: tickets_ok_def)
    ultimately show ?thesis using same(3,4) u by blast
  qed simp_all
  then have inv: "unique_db u" "\<forall>e\<in>set (db_tickets u). tk_tokenHash e = hashToken H token \<longrightarrow> e = d"
    using consumed_stays_steps [OF assms(1) _ assms(4), of d] by blast+
  have wf: "TICKET_PATTERN token"
    using assms(3) by (auto simp: consumeGameTicket_def split: if_splits)
  obtain a v where av: "consumeGameTicket H M now' token code' connection' u = (a, v)" by force
  from assms(1) inv(1) av show ?thesis
  proof (cases rule: consumeGameTicket_cases)
    case (none)
    with d wf show ?thesis unfolding av by (cases "connection' = ''''") auto
  next
    case (taken e)
    then have "e = d" using inv(2) by blast
    with taken d show ?thesis by simp
  next
    case (left e)
    then have "e = d" using inv(2) by blast
    with left d show ?thesis by simp
  next
    case (same e)
    then have "e = d" using inv(2) by blast
    with same d show ?thesis unfolding av by simp
  next
    case (used e)
    then have "e = d" using inv(2) by blast
    with used d show ?thesis unfolding av by simp
  qed
qed

definition sample_host :: host where
  "sample_host = \<lparr>ho_ticketSeconds = None, ho_resumeSeconds = None, ho_leaseSeconds = None,
     hashToken = (\<lambda>t. ''sha'' @ t), instanceExists = (\<lambda>c. c \<in> {''w1'', ''w2''}), guestFound = (\<lambda>g. g = ''guest1'')\<rparr>"

definition sample_token :: string where "sample_token = replicate 43 CHR ''A''"

definition sample_server :: server where
  "sample_server = reported sample_url True 10 (sample_report 1 ''ready'') (inserted_server ''s1'' 10)"

definition ticket_db :: db where
  "ticket_db = sample_db\<lparr>db_servers := [sample_server]\<rparr>"

definition sample_request :: ticket_request where
  "sample_request = \<lparr>tr_principal = Account, tr_user = uid1, tr_session = sid1, tr_guest = '''', tr_instanceCode = Str ''w1''\<rparr>"

definition launch_db :: db where
  "launch_db = snd (createGameTicket sample_host ref_mongo 20 sample_token sample_request ticket_db)"

lemma unique_ticket_db [simp]: "unique_db ticket_db"
  using unique_sample_db by (simp add: unique_db_def ticket_db_def unique_docs_def)

lemma unique_launch_db: "unique_db launch_db"
proof -
  have e: "createGameTicket sample_host ref_mongo 20 sample_token sample_request ticket_db
      = (fst (createGameTicket sample_host ref_mongo 20 sample_token sample_request ticket_db), launch_db)"
    by (simp add: launch_db_def)
  show ?thesis by (cases rule: createGameTicket_cases [OF lawful_ref_mongo unique_ticket_db e]) simp_all
qed

lemma tickets_ok_launch_db: "tickets_ok launch_db"
  unfolding tickets_ok_def using unique_launch_db by (rule conjI) code_simp

lemma ticket_single_use_witness:
  "consumeGameTicket sample_host ref_mongo 40 sample_token ''w1'' ''c2''
       (snd (consumeGameTicket sample_host ref_mongo 30 sample_token ''w1'' ''c1'' launch_db))
     = (Inr (Rejected ''replayed''), snd (consumeGameTicket sample_host ref_mongo 30 sample_token ''w1'' ''c1'' launch_db))"
proof -
  let ?c = "consumeGameTicket sample_host ref_mongo 30 sample_token ''w1'' ''c1'' launch_db"
  let ?d = "hd (db_tickets (snd ?c))"
  have "fst ?c = Inr (Consumed ?d)" "?d \<in> set (db_tickets (snd ?c))" by code_simp+
  then have "?c = (Inr (Consumed ?d), snd ?c)" and m: "?d \<in> set (db_tickets (snd ?c))" by (simp_all add: prod_eq_iff)
  from ticket_single_use [OF lawful_ref_mongo tickets_ok_launch_db this(1) rtranclp.rtrancl_refl, of 40 "''w1''" "''c2''"] m
  show ?thesis by simp
qed

text \<open>C20: the cap on open tickets holds: a holder with at most five open launch tickets has at most five
after any request; a request that is granted stores one ticket of that holder, for a world that
exists, has a server taking sessions and, for an account, belongs to a universe, and it returns the
path of that world; a refused one stores nothing.\<close>

theorem open_tickets_bounded:
  assumes "lawful_mongo M" "unique_db s" "createGameTicket H M now token r s = (a, t)"
    and "length (filter (open_ticket q now) (db_tickets s)) \<le> OPEN_TICKETS_MAX"
    and "holds q = holds r"
  shows "length (filter (open_ticket q now) (db_tickets t)) \<le> OPEN_TICKETS_MAX
    \<and> (case a of Inl e \<Rightarrow> t = s
        | Inr (i, path) \<Rightarrow> \<exists>d. t = s\<lparr>db_tickets := db_tickets s @ [d]\<rparr> \<and> holds r d \<and> tk_consumedAt d = None
            \<and> tk_tokenHash d = hashToken H (is_ticket i) \<and> is_expiresAt i = tk_expiresAt d
            \<and> path = worldPathOf (tk_instanceCode d) \<and> instanceExists H (tk_instanceCode d)
            \<and> worldAvailable M now (tk_instanceCode d) s
            \<and> (tk_principal d = Account \<longrightarrow> universeCodeOf M s (tk_instanceCode d) \<noteq> ''''))"
proof -
  have same: "open_ticket q now = open_ticket r now" using assms(5) by (simp add: open_ticket_def fun_eq_iff)
  from assms(1-3) show ?thesis
  proof (cases rule: createGameTicket_cases)
    case (issued d)
    then show ?thesis by (auto simp: same)
  next
    case (refused e)
    with assms(4) show ?thesis by simp
  qed
qed

lemma open_tickets_bounded_witness:
  "length (filter (open_ticket sample_request 20) (db_tickets launch_db)) \<le> OPEN_TICKETS_MAX
   \<and> map tk_instanceCode (db_tickets launch_db) = [''w1'']"
proof
  have e: "createGameTicket sample_host ref_mongo 20 sample_token sample_request ticket_db
      = (fst (createGameTicket sample_host ref_mongo 20 sample_token sample_request ticket_db), launch_db)"
    by (simp add: launch_db_def)
  have "db_tickets ticket_db = []" by (simp add: ticket_db_def sample_db_def empty_db_def)
  then show "length (filter (open_ticket sample_request 20) (db_tickets launch_db)) \<le> OPEN_TICKETS_MAX"
    using open_tickets_bounded [OF lawful_ref_mongo unique_ticket_db e, of sample_request] by simp
  show "map tk_instanceCode (db_tickets launch_db) = [''w1'']" by code_simp
qed

end
