(* ===== verification/Sessions.thy ===== *)
theory Sessions imports Tickets PlayerState begin

text \<open>
  Gameplay sessions, from \<open>src/projects/cyberia/player/player-session.js\<close>: the launch, the lease that
  makes one connection the writer of a profile, the checkpoints that renew it and its release. An
  account holds one lease, in any world. An acquisition raises the epoch of the profile, so a write
  of an older session is refused.

  The id of a new profile, the random token of a ticket and the time are arguments. A lease is named
  by its account, its unique key. The answer of a call is its refusal on the left of an inner sum, or
  what it carries on the right; the outer error is what the call throws. An account outside the
  canonical form of an ObjectId names no document.
\<close>

section \<open>Leases\<close>

definition leaseSeconds :: "host \<Rightarrow> rat" where
  "leaseSeconds H = seconds 15 60 (ho_leaseSeconds H)"

definition leaseEnd :: "host \<Rightarrow> ms \<Rightarrow> ms" where
  "leaseEnd H now = after_seconds now (leaseSeconds H)"

definition liveAccount :: "mongo \<Rightarrow> oid \<Rightarrow> oid \<Rightarrow> db \<Rightarrow> user option" where
  "liveAccount M user session s = drv_find_one (mg_users M)
     (\<lambda>u. us_id u = user \<and> session \<in> set (us_activeSessions u) \<and> us_role u \<noteq> ''guest'') (db_users s)"

definition writesElsewhere :: "game_session option \<Rightarrow> string \<Rightarrow> ms \<Rightarrow> bool" where
  "writesElsewhere lease serverId now \<longleftrightarrow>
     (case lease of None \<Rightarrow> False
      | Some l \<Rightarrow> gs_serverId l \<noteq> serverId \<and> now < gs_expiresAt l \<and> he_durability (gs_health l) \<noteq> ''recovery'')"

definition resumeWaits :: "host \<Rightarrow> mongo \<Rightarrow> ms \<Rightarrow> string \<Rightarrow> string \<Rightarrow> db \<Rightarrow> bool" where
  "resumeWaits H M now token serverId s \<longleftrightarrow>
     (case findGameTicket H M token s of
        None \<Rightarrow> False
      | Some pending \<Rightarrow> tk_epoch pending \<noteq> None \<and> tk_consumedAt pending = None
          \<and> writesElsewhere (leaseOf M (tk_user pending) s) serverId now)"

section \<open>Launch\<close>

datatype launch = GuestLaunch | AccountLaunch oid string

definition consumeLaunch :: "host \<Rightarrow> mongo \<Rightarrow> ms \<Rightarrow> string \<Rightarrow> string \<Rightarrow> string \<Rightarrow> string \<Rightarrow> (db, string + launch) work" where
  "consumeLaunch H M now token instanceCode connectionId serverId s =
     (if resumeWaits H M now token serverId s then (Inr (Inl ''busy''), s)
      else case consumeGameTicket H M now token instanceCode connectionId s of
          (Inl e, t) \<Rightarrow> (Inl e, t)
        | (Inr (Rejected refusal), t) \<Rightarrow> (Inr (Inl refusal), t)
        | (Inr (Consumed ticket), t) \<Rightarrow>
            (Inr (if tk_principal ticket = Guest
                then if guestFound H (tk_guest ticket) then Inr GuestLaunch else Inl ''revoked''
                else case liveAccount M (tk_user ticket) (tk_session ticket) t of
                    None \<Rightarrow> Inl ''revoked''
                  | Some account \<Rightarrow>
                      if tk_epoch ticket \<noteq> None
                        \<and> drv_find_one (mg_players M) (\<lambda>p. pl_user p = tk_user ticket
                            \<and> pl_universeCode p = universeCodeOf M t instanceCode
                            \<and> Some (pl_epoch p) = tk_epoch ticket) (db_players t) = None
                      then Inl ''signed_in_elsewhere''
                      else Inr (AccountLaunch (us_id account) (us_username account))), t))"

record session_ref =
  sr_playerId :: string
  sr_accountId :: string
  sr_epoch :: int
  sr_instanceCode :: string

definition liveLease :: "mongo \<Rightarrow> session_ref \<Rightarrow> db \<Rightarrow> string + game_session" where
  "liveLease M r s =
     (if \<not> isValidObjectId M (Str (sr_accountId r)) \<or> \<not> isValidObjectId M (Str (sr_playerId r)) then Inl ''revoked''
      else case leaseOf M (sr_accountId r) s of
          None \<Rightarrow> Inl ''signed_in_elsewhere''
        | Some lease \<Rightarrow>
            if gs_player lease \<noteq> sr_playerId r \<or> gs_epoch lease \<noteq> sr_epoch r
              \<or> gs_instanceCode lease \<noteq> sr_instanceCode r then Inl ''signed_in_elsewhere''
            else if gs_endedBy lease \<noteq> None then Inl ''ended''
            else if liveAccount M (sr_accountId r) (gs_accountSession lease) s = None then Inl ''revoked''
            else Inr lease)"

definition issueResume :: "host \<Rightarrow> mongo \<Rightarrow> ms \<Rightarrow> string \<Rightarrow> session_ref \<Rightarrow> (db, string + issued) work" where
  "issueResume H M now token r s =
     (case liveLease M r s of
        Inl refusal \<Rightarrow> (Inr (Inl refusal), s)
      | Inr lease \<Rightarrow> bindW (createResumeTicket H M now token (gs_user lease) (gs_accountSession lease)
            (gs_instanceCode lease) (gs_epoch lease)) (\<lambda>i. retW (Inr i)) s)"

definition issueTravel :: "host \<Rightarrow> mongo \<Rightarrow> ms \<Rightarrow> string \<Rightarrow> session_ref \<Rightarrow> string \<Rightarrow> (db, string + issued) work" where
  "issueTravel H M now token r targetCode s =
     (case liveLease M r s of
        Inl refusal \<Rightarrow> (Inr (Inl refusal), s)
      | Inr lease \<Rightarrow>
          if \<not> routeLeads M s (gs_instanceCode lease) targetCode then (Inr (Inl ''no_route''), s)
          else case createGameTicket H M now token \<lparr>tr_principal = Account, tr_user = gs_user lease,
                 tr_session = gs_accountSession lease, tr_guest = '''', tr_instanceCode = Str targetCode\<rparr> s of
              (Inr (i, _), t) \<Rightarrow> (Inr (Inr i), t)
            | (Inl e, t) \<Rightarrow> if err_status e = None then (Inl e, t) else (Inr (Inl ''unavailable''), t))"

section \<open>Acquisition\<close>

text \<open>The health an acquisition stores: its time is null and every other field is absent.\<close>

definition blank_health :: health where
  "blank_health = \<lparr>he_durability = '''', he_closing = False, he_seq = 0, he_durableSeq = 0, he_unsavedMs = 0,
     he_failure = '''', he_at = None\<rparr>"

definition raised :: "ms \<Rightarrow> player \<Rightarrow> player" where
  "raised now p = p\<lparr>pl_epoch := pl_epoch p + 1, pl_commitSeq := 0, pl_lastPlayedAt := Some now\<rparr>"

definition with_world :: "string \<Rightarrow> player \<Rightarrow> player" where
  "with_world code p = p\<lparr>pl_worlds := pl_worlds p @ [new_world code]\<rparr>"

definition position_reset :: "string \<Rightarrow> player \<Rightarrow> player" where
  "position_reset code p = p\<lparr>pl_worlds := in_world code (\<lambda>w. w\<lparr>wo_positionSeq := 0\<rparr>) (pl_worlds p)\<rparr>"

definition acquired_lease :: "host \<Rightarrow> ms \<Rightarrow> ticket \<Rightarrow> player \<Rightarrow> string \<Rightarrow> string \<Rightarrow> string \<Rightarrow> game_session" where
  "acquired_lease H now ticket p connectionId instanceCode serverId = \<lparr>gs_user = tk_user ticket, gs_player = pl_id p,
     gs_instanceCode = instanceCode, gs_serverId = serverId, gs_connection = connectionId, gs_epoch = pl_epoch p,
     gs_accountSession = tk_session ticket, gs_mapCode = '''', gs_startedAt = now, gs_expiresAt = leaseEnd H now,
     gs_health = blank_health, gs_endedBy = None\<rparr>"

definition type_error :: error where
  "type_error = (plain_error ''Cannot read properties of null'')\<lparr>err_name := ''TypeError''\<rparr>"

definition upsertProfile :: "mongo \<Rightarrow> ms \<Rightarrow> oid \<Rightarrow> oid \<Rightarrow> string \<Rightarrow> (db, player) work" where
  "upsertProfile M now newId user universeCode s =
     (case find_one_and_upsert (mg_players M) (\<lambda>p. pl_user p = user \<and> pl_universeCode p = universeCode)
          (raised now) (new_player newId user universeCode) (db_players s) of
        Inl e \<Rightarrow> (Inl e, s)
      | Inr (p, c) \<Rightarrow> (Inr p, s\<lparr>db_players := c\<rparr>))"

definition enterWorld :: "mongo \<Rightarrow> oid \<Rightarrow> string \<Rightarrow> (db, player option) work" where
  "enterWorld M pid code s =
     (let c = snd (snd (drv_update_one (mg_players M)
            (\<lambda>p. pl_id p = pid \<and> list_all (\<lambda>w. wo_instanceCode w \<noteq> code) (pl_worlds p)) (with_world code) (db_players s)))
      in case find_one_and_update (mg_players M) (\<lambda>p. pl_id p = pid) (position_reset code) c of
           (p, c') \<Rightarrow> (Inr p, s\<lparr>db_players := c'\<rparr>))"

definition putLease :: "mongo \<Rightarrow> game_session \<Rightarrow> (db, unit) work" where
  "putLease M lease = writeW (\<lambda>s. bindE (update_or_insert (mg_sessions M) (\<lambda>g. gs_user g = gs_user lease)
     (\<lambda>_. lease) lease (db_sessions s)) (\<lambda>c. Inr (s\<lparr>db_sessions := c\<rparr>)))"

text \<open>The work of the transaction: whether it waits for a closing session, and the profile it plays.\<close>

definition acquireWork :: "host \<Rightarrow> mongo \<Rightarrow> ms \<Rightarrow> oid \<Rightarrow> ticket \<Rightarrow> string \<Rightarrow> string \<Rightarrow> string \<Rightarrow> string \<Rightarrow> (db, bool \<times> player option) work" where
  "acquireWork H M now newId ticket connectionId instanceCode serverId universeCode s =
     (let current = leaseOf M (tk_user ticket) s in
      if (case current of None \<Rightarrow> False | Some l \<Rightarrow> gs_connection l = connectionId \<and> gs_endedBy l = None)
      then (Inr (False, findById M (gs_player (the current)) s), s)
      else if writesElsewhere current serverId now \<and> he_closing (gs_health (the current)) then (Inr (True, None), s)
      else bindW (upsertProfile M now newId (tk_user ticket) universeCode)
        (\<lambda>profile. bindW (enterWorld M (pl_id profile) instanceCode)
          (\<lambda>entered. case entered of None \<Rightarrow> (\<lambda>s. (Inl type_error, s))
            | Some p \<Rightarrow> bindW (putLease M (acquired_lease H now ticket p connectionId instanceCode serverId))
                (\<lambda>_. retW (False, Some p)))) s)"

record acquisition =
  aq_playerId :: oid
  aq_epoch :: int
  aq_state :: js
  aq_created :: bool
  aq_leaseSeconds :: rat

definition acquireSession :: "host \<Rightarrow> mongo \<Rightarrow> ms \<Rightarrow> attempt list \<Rightarrow> oid \<Rightarrow> string \<Rightarrow> string \<Rightarrow> string \<Rightarrow> (db, string + acquisition) work" where
  "acquireSession H M now as newId connectionId instanceCode serverId s =
     (case ticketOfConnection M connectionId s of
        None \<Rightarrow> (Inr (Inl ''unknown''), s)
      | Some ticket \<Rightarrow>
          if tk_instanceCode ticket \<noteq> instanceCode \<or> tk_principal ticket \<noteq> Account then (Inr (Inl ''unknown''), s)
          else if liveAccount M (tk_user ticket) (tk_session ticket) s = None then (Inr (Inl ''revoked''), s)
          else if universeCodeOf M s instanceCode = '''' then (Inr (Inl ''unavailable''), s)
          else case runTransaction as (acquireWork H M now newId ticket connectionId instanceCode serverId
                      (universeCodeOf M s instanceCode)) s of
              (Inl e, t) \<Rightarrow> (Inl e, t)
            | (Inr (True, _), t) \<Rightarrow> (Inr (Inl ''saving''), t)
            | (Inr (False, None), t) \<Rightarrow> (Inl type_error, t)
            | (Inr (False, Some p), t) \<Rightarrow>
                (Inr (Inr \<lparr>aq_playerId = pl_id p, aq_epoch = pl_epoch p, aq_state = loadState M p instanceCode t,
                   aq_created = (pl_revision p = 0), aq_leaseSeconds = leaseSeconds H\<rparr>), t))"

section \<open>Checkpoints and release\<close>

definition healthOf :: "js \<Rightarrow> ms \<Rightarrow> health" where
  "healthOf h now = \<lparr>
     he_durability = (if oneOf SESSION_DURABILITY (jget h ''durability'') then jstr (jget h ''durability'') else ''saved''),
     he_closing = truthy (jget h ''closing''), he_seq = jint (jget h ''seq''),
     he_durableSeq = jint (jget h ''durableSeq''), he_unsavedMs = jint (jget h ''unsavedMs''),
     he_failure = (if oneOf SESSION_FAILURES (jget h ''failure'') then jstr (jget h ''failure'') else ''''),
     he_at = Some now\<rparr>"

record checkpoint_entry =
  ce_playerId :: string
  ce_accountId :: string
  ce_epoch :: int
  ce_mapCode :: string
  ce_position :: js
  ce_health :: js

datatype verdict = Ended string | Renewed game_session

text \<open>What the loop decides of one entry, from the leases and accounts it read.\<close>

definition verdictOf :: "game_session list \<Rightarrow> user list \<Rightarrow> checkpoint_entry \<Rightarrow> verdict" where
  "verdictOf leases accounts e =
     (case List.find (\<lambda>g. gs_user g = ce_accountId e) (rev leases) of
        None \<Rightarrow> Ended ''signed_in_elsewhere''
      | Some lease \<Rightarrow>
          if gs_player lease \<noteq> ce_playerId e \<or> gs_epoch lease \<noteq> ce_epoch e then Ended ''signed_in_elsewhere''
          else if gs_endedBy lease \<noteq> None then Ended ''ended''
          else if \<not> (case List.find (\<lambda>u. us_id u = ce_accountId e) (rev accounts) of None \<Rightarrow> False
                   | Some u \<Rightarrow> gs_accountSession lease \<in> set (us_activeSessions u)) then Ended ''revoked''
          else Renewed lease)"

definition renewed :: "host \<Rightarrow> ms \<Rightarrow> checkpoint_entry \<Rightarrow> game_session \<Rightarrow> game_session" where
  "renewed H now e g = g\<lparr>gs_expiresAt := leaseEnd H now, gs_mapCode := ce_mapCode e, gs_health := healthOf (ce_health e) now\<rparr>"

definition renewLease :: "host \<Rightarrow> mongo \<Rightarrow> ms \<Rightarrow> checkpoint_entry \<times> game_session \<Rightarrow> db \<Rightarrow> db" where
  "renewLease H M now el s = s\<lparr>db_sessions := snd (snd (drv_update_one (mg_sessions M)
     (\<lambda>g. gs_user g = gs_user (snd el) \<and> gs_player g = gs_player (snd el) \<and> gs_epoch g = gs_epoch (snd el) \<and> gs_endedBy g = None)
     (renewed H now (fst el)) (db_sessions s)))\<rparr>"

fun renewals :: "(checkpoint_entry \<times> verdict) list \<Rightarrow> (checkpoint_entry \<times> game_session) list" where
  "renewals [] = []"
| "renewals ((e, Renewed g) # vs) = (e, g) # renewals vs"
| "renewals ((e, Ended r) # vs) = renewals vs"

fun endings :: "(checkpoint_entry \<times> verdict) list \<Rightarrow> (string \<times> string) list" where
  "endings [] = []"
| "endings ((e, Ended r) # vs) = (ce_playerId e, r) # endings vs"
| "endings ((e, Renewed g) # vs) = endings vs"

definition checkpoint_entries :: "mongo \<Rightarrow> checkpoint_entry list \<Rightarrow> checkpoint_entry list" where
  "checkpoint_entries M = filter (\<lambda>e. isValidObjectId M (Str (ce_playerId e)) \<and> isValidObjectId M (Str (ce_accountId e))
     \<and> 0 < ce_epoch e)"

definition positions_of :: "(checkpoint_entry \<times> game_session) list \<Rightarrow> position_entry list" where
  "positions_of rs = map (\<lambda>(e, g). \<lparr>pe_playerId = ce_playerId e, pe_epoch = ce_epoch e,
       pe_instanceCode = gs_instanceCode g, pe_position = ce_position e\<rparr>)
     (filter (\<lambda>(e, g). truthy (jget (ce_position e) ''mapCode'')) rs)"

definition checkpointSessions :: "host \<Rightarrow> mongo \<Rightarrow> ms \<Rightarrow> checkpoint_entry list \<Rightarrow> db \<Rightarrow> (string \<times> string) list \<times> db" where
  "checkpointSessions H M now sessions s =
     (let entries = checkpoint_entries M sessions; users = map ce_accountId entries;
          leases = drv_find (mg_sessions M) (\<lambda>g. gs_user g \<in> set users) (db_sessions s);
          accounts = drv_find (mg_users M) (\<lambda>u. us_id u \<in> set users) (db_users s);
          verdicts = map (\<lambda>e. (e, verdictOf leases accounts e)) entries;
          renews = renewals verdicts
      in (endings verdicts, writePositions M now (positions_of renews) (fold (renewLease H M now) renews s)))"

definition releaseSession :: "mongo \<Rightarrow> session_ref \<Rightarrow> db \<Rightarrow> db" where
  "releaseSession M r s =
     (if \<not> isValidObjectId M (Str (sr_playerId r)) \<or> \<not> isValidObjectId M (Str (sr_accountId r)) then s
      else s\<lparr>db_sessions := drv_delete_one (mg_sessions M)
        (\<lambda>g. gs_user g = sr_accountId r \<and> gs_player g = sr_playerId r \<and> gs_epoch g = sr_epoch r) (db_sessions s)\<rparr>)"

definition presenceOf :: "mongo \<Rightarrow> ms \<Rightarrow> oid list \<Rightarrow> db \<Rightarrow> (oid \<times> string \<times> string) list" where
  "presenceOf M now users s = map (\<lambda>g. (gs_user g, gs_instanceCode g, gs_mapCode g))
     (drv_find (mg_sessions M) (\<lambda>g. gs_user g \<in> set users \<and> now < gs_expiresAt g) (db_sessions s))"

section \<open>What an acquisition does\<close>

text \<open>The profile an acquisition leaves: a new epoch, no sequence, and the world of the ticket with its
position sequence from the start.\<close>

definition acquired_player :: "ms \<Rightarrow> string \<Rightarrow> player \<Rightarrow> player" where
  "acquired_player now code p = position_reset code
     (if list_all (\<lambda>w. wo_instanceCode w \<noteq> code) (pl_worlds p) then with_world code (raised now p) else raised now p)"

lemma raised_fields [simp]:
  "pl_id (raised now p) = pl_id p" "pl_user (raised now p) = pl_user p" "pl_worlds (raised now p) = pl_worlds p"
  "pl_universeCode (raised now p) = pl_universeCode p" "pl_epoch (raised now p) = pl_epoch p + 1"
  by (simp_all add: raised_def)

lemma with_world_fields [simp]:
  "pl_id (with_world code p) = pl_id p" "pl_user (with_world code p) = pl_user p"
  "pl_worlds (with_world code p) = pl_worlds p @ [new_world code]" "pl_epoch (with_world code p) = pl_epoch p"
  "pl_universeCode (with_world code p) = pl_universeCode p"
  by (simp_all add: with_world_def)

lemma position_reset_fields [simp]:
  "pl_id (position_reset code p) = pl_id p" "pl_user (position_reset code p) = pl_user p"
  "pl_universeCode (position_reset code p) = pl_universeCode p" "pl_epoch (position_reset code p) = pl_epoch p"
  "map wo_instanceCode (pl_worlds (position_reset code p)) = map wo_instanceCode (pl_worlds p)"
  by (simp_all add: position_reset_def in_world_def comp_def)

lemma acquired_player_fields [simp]:
  "pl_id (acquired_player now code p) = pl_id p" "pl_user (acquired_player now code p) = pl_user p"
  "pl_universeCode (acquired_player now code p) = pl_universeCode p"
  "pl_epoch (acquired_player now code p) = pl_epoch p + 1" "pl_commitSeq (acquired_player now code p) = 0"
  "pl_revision (acquired_player now code p) = pl_revision p" "pl_coins (acquired_player now code p) = pl_coins p"
  "map wo_instanceCode (pl_worlds (acquired_player now code p)) = map wo_instanceCode (pl_worlds p)
     @ (if code \<in> set (map wo_instanceCode (pl_worlds p)) then [] else [code])"
  by (auto simp: acquired_player_def list_all_iff new_world_def)
    (simp_all add: position_reset_def with_world_def raised_def)

lemma acquired_world [simp]: "code \<in> wo_instanceCode ` set (pl_worlds (acquired_player now code p))"
  unfolding set_map [symmetric] acquired_player_fields(8) by simp

lemma map_eq_key:
  assumes "unique_docs key c" "d \<in> set c"
  shows "map (\<lambda>e. if e = d then f e else e) c = map (\<lambda>e. if key e = key d then f e else e) c"
proof (rule map_cong [OF refl])
  fix e assume "e \<in> set c"
  then have "e = d \<longleftrightarrow> key e = key d" using unique_docs_eq [OF assms(1) _ assms(2)] by blast
  then show "(if e = d then f e else e) = (if key e = key d then f e else e)" by simp
qed

lemma enterWorld_eq:
  assumes M: "lawful_mongo M" and u: "unique_docs pl_id (db_players s)" and p: "p \<in> set (db_players s)" "pl_id p = k"
  shows "enterWorld M k code s = (Inr (Some (position_reset code
       (if list_all (\<lambda>w. wo_instanceCode w \<noteq> code) (pl_worlds p) then with_world code p else p))),
     s\<lparr>db_players := map (\<lambda>e. if pl_id e = k then position_reset code
       (if list_all (\<lambda>w. wo_instanceCode w \<noteq> code) (pl_worlds e) then with_world code e else e) else e) (db_players s)\<rparr>)"
proof -
  note P = lawful_mongoD(1) [OF M]
  let ?new = "\<lambda>e. list_all (\<lambda>w. wo_instanceCode w \<noteq> code) (pl_worlds e)"
  let ?g = "\<lambda>e. if ?new e then with_world code e else e"
  have "snd (snd (drv_update_one (mg_players M) (\<lambda>p. pl_id p = k \<and> ?new p) (with_world code) (db_players s)))
      = map (\<lambda>e. if pl_id e = k \<and> ?new e then with_world code e else e) (db_players s)"
    by (rule collection.update_one_unique [OF P u, where k = k]) simp
  also have "\<dots> = map (\<lambda>e. if pl_id e = k then ?g e else e) (db_players s)"
    by (intro map_cong) auto
  finally have c: "snd (snd (drv_update_one (mg_players M) (\<lambda>p. pl_id p = k \<and> ?new p) (with_world code) (db_players s))) = \<dots>" .
  let ?c = "map (\<lambda>e. if pl_id e = k then ?g e else e) (db_players s)"
  have uc: "unique_docs pl_id ?c" using u by (simp add: unique_docs_map)
  have in_c: "?g p \<in> set ?c" using p by (auto simp: image_iff intro!: bexI [of _ p])
  have f: "find_one_and_update (mg_players M) (\<lambda>p. pl_id p = k) (position_reset code) ?c
      = (Some (position_reset code (?g p)), map (\<lambda>e. if pl_id e = k then position_reset code e else e) ?c)"
  proof (cases rule: collection.find_one_and_update_cases [OF P uc, of "\<lambda>p. pl_id p = k" "position_reset code"])
    case 1
    have "pl_id (?g p) = k" using p(2) by simp
    with 1(1) in_c show ?thesis by blast
  next
    case (2 d)
    have "pl_id (?g p) = k" using p(2) by simp
    then have "d = ?g p" by (intro unique_docs_eq [OF uc 2(1) in_c]) (simp add: 2(2))
    moreover have "map (\<lambda>e. if e = d then position_reset code e else e) ?c
        = map (\<lambda>e. if pl_id e = pl_id d then position_reset code e else e) ?c"
      by (rule map_eq_key [OF uc 2(1)])
    ultimately show ?thesis using 2(2,3) by simp
  qed
  have m: "map (\<lambda>e. if pl_id e = k then position_reset code e else e) ?c
      = map (\<lambda>e. if pl_id e = k then position_reset code (?g e) else e) (db_players s)"
    by simp
  show ?thesis unfolding enterWorld_def Let_def c f m by simp
qed

definition one_profile :: "db \<Rightarrow> bool" where
  "one_profile s \<longleftrightarrow> distinct (map (\<lambda>p. (pl_user p, pl_universeCode p)) (db_players s))"

definition replay :: "mongo \<Rightarrow> ticket \<Rightarrow> string \<Rightarrow> db \<Rightarrow> game_session option" where
  "replay M ticket connectionId s = (case leaseOf M (tk_user ticket) s of None \<Rightarrow> None
     | Some l \<Rightarrow> if gs_connection l = connectionId \<and> gs_endedBy l = None then Some l else None)"

definition put_lease :: "game_session \<Rightarrow> game_session docs \<Rightarrow> game_session docs" where
  "put_lease lease c = (if \<exists>g\<in>set c. gs_user g = gs_user lease
     then map (\<lambda>g. if gs_user g = gs_user lease then lease else g) c else c @ [lease])"

lemma putLease_eq:
  assumes "lawful_mongo M" "unique_docs gs_user (db_sessions s)"
  shows "putLease M lease s = (Inr (), s\<lparr>db_sessions := put_lease lease (db_sessions s)\<rparr>)"
proof -
  note S = lawful_mongoD(2) [OF assms(1)]
  let ?P = "\<lambda>g. gs_user g = gs_user lease"
  show ?thesis
  proof (cases "\<exists>g\<in>set (db_sessions s). ?P g")
    case True
    have "snd (snd (drv_update_one (mg_sessions M) ?P (\<lambda>_. lease) (db_sessions s)))
        = map (\<lambda>d. if ?P d then lease else d) (db_sessions s)"
      by (rule collection.update_one_unique [OF S assms(2), where k = "gs_user lease"]) simp
    moreover have "fst (drv_update_one (mg_sessions M) ?P (\<lambda>_. lease) (db_sessions s)) = 1"
      using True by (simp add: collection.update_one_matched [OF S])
    ultimately show ?thesis
      using True by (auto simp: putLease_def put_lease_def writeW_def update_or_insert_def split: prod.splits)
  next
    case False
    then have "drv_update_one (mg_sessions M) ?P (\<lambda>_. lease) (db_sessions s) = (0, 0, db_sessions s)"
      by (intro collection.update_one_none [OF S]) simp
    moreover have "drv_create (mg_sessions M) [lease] (db_sessions s) = Inr (db_sessions s @ [lease])"
      using False assms(2) by (intro collection.create_ok [OF S]) (auto simp: unique_docs_def)
    ultimately show ?thesis using False by (simp add: putLease_def put_lease_def writeW_def update_or_insert_def)
  qed
qed

lemma set_put_lease: "set (put_lease lease c) = insert lease {g \<in> set c. gs_user g \<noteq> gs_user lease}"
  by (auto simp: put_lease_def)

lemma unique_put_lease: "unique_docs gs_user c \<Longrightarrow> unique_docs gs_user (put_lease lease c)"
proof (cases "\<exists>g\<in>set c. gs_user g = gs_user lease")
  case True
  assume "unique_docs gs_user c"
  with True show ?thesis by (simp add: put_lease_def unique_docs_map)
next
  case False
  assume "unique_docs gs_user c"
  with False show ?thesis by (auto simp: put_lease_def unique_docs_def)
qed

text \<open>
  The transaction of an acquisition: the connection plays already and nothing is written; or the
  session it replaces is closing elsewhere and nothing is written; or the profile of the account in
  the universe, stored or new, takes the next epoch and the lease names the connection.
\<close>

definition put_player :: "player \<Rightarrow> player docs \<Rightarrow> player docs" where
  "put_player p c = (if \<exists>e\<in>set c. pl_id e = pl_id p then map (\<lambda>e. if pl_id e = pl_id p then p else e) c else c @ [p])"

lemma set_put_player: "set (put_player p c) = insert p {e \<in> set c. pl_id e \<noteq> pl_id p}"
  by (auto simp: put_player_def)

lemma upsertProfile_eq:
  assumes M: "lawful_mongo M" and u: "unique_docs pl_id (db_players s)" and fresh: "newId \<notin> pl_id ` set (db_players s)"
    and w: "upsertProfile M now newId user code s = (r, t)"
  obtains p where "r = Inr (raised now p)" "t = s\<lparr>db_players := put_player (raised now p) (db_players s)\<rparr>"
    "pl_user p = user" "pl_universeCode p = code"
    "p \<in> set (db_players s) \<or> p = new_player newId user code
       \<and> (\<forall>e\<in>set (db_players s). \<not> (pl_user e = user \<and> pl_universeCode e = code))"
proof (cases rule: collection.find_one_and_update_cases [OF lawful_mongoD(1) [OF M] u,
    of "\<lambda>p. pl_user p = user \<and> pl_universeCode p = code" "raised now"])
  case 1
  have new: "pl_id (raised now (new_player newId user code)) = newId" by (simp add: new_player_def)
  have "drv_create (mg_players M) [raised now (new_player newId user code)] (db_players s)
      = Inr (db_players s @ [raised now (new_player newId user code)])"
    using u fresh new by (intro collection.create_ok [OF lawful_mongoD(1) [OF M]]) (auto simp: unique_docs_def)
  moreover have "put_player (raised now (new_player newId user code)) (db_players s)
      = db_players s @ [raised now (new_player newId user code)]"
    using fresh new by (auto simp: put_player_def)
  ultimately show ?thesis
    using w 1 by (intro that [of "new_player newId user code"])
      (auto simp: upsertProfile_def find_one_and_upsert_def new_player_def)
next
  case (2 d)
  have "map (\<lambda>e. if e = d then raised now e else e) (db_players s)
      = map (\<lambda>e. if pl_id e = pl_id d then raised now e else e) (db_players s)"
    by (rule map_eq_key [OF u 2(1)])
  also have "\<dots> = map (\<lambda>e. if pl_id e = pl_id d then raised now d else e) (db_players s)"
  proof (rule map_cong [OF refl])
    fix e assume "e \<in> set (db_players s)"
    then have "pl_id e = pl_id d \<Longrightarrow> e = d" by (rule unique_docs_eq [OF u _ 2(1)])
    then show "(if pl_id e = pl_id d then raised now e else e) = (if pl_id e = pl_id d then raised now d else e)"
      by (cases "pl_id e = pl_id d") auto
  qed
  also have "\<dots> = put_player (raised now d) (db_players s)" using 2(1) by (auto simp: put_player_def)
  finally show ?thesis
    using w 2 by (intro that [of d]) (auto simp: upsertProfile_def find_one_and_upsert_def)
qed

lemma unique_put_player: "unique_docs pl_id c \<Longrightarrow> unique_docs pl_id (put_player p c)"
proof (cases "\<exists>e\<in>set c. pl_id e = pl_id p")
  case True
  assume "unique_docs pl_id c"
  with True show ?thesis by (simp add: put_player_def unique_docs_map)
next
  case False
  assume "unique_docs pl_id c"
  with False show ?thesis by (auto simp: put_player_def unique_docs_def)
qed

lemma put_player_again:
  assumes "pl_id (f (raised now p)) = pl_id p"
  shows "map (\<lambda>e. if pl_id e = pl_id p then f e else e) (put_player (raised now p) c) = put_player (f (raised now p)) c"
  using assms by (cases "\<exists>e\<in>set c. pl_id e = pl_id p") (simp_all add: put_player_def map_if_none)

lemma acquireWork_cases:
  assumes M: "lawful_mongo M" and u: "unique_db s" and fresh: "newId \<notin> pl_id ` set (db_players s)"
    and w: "acquireWork H M now newId ticket connectionId code serverId universe s = (r, t)"
  obtains (again) lease where "replay M ticket connectionId s = Some lease"
      "r = Inr (False, findById M (gs_player lease) s)" "t = s"
    | (waits) lease where "leaseOf M (tk_user ticket) s = Some lease" "writesElsewhere (Some lease) serverId now"
      "he_closing (gs_health lease)" "r = Inr (True, None)" "t = s"
    | (acquired) p where "replay M ticket connectionId s = None"
      "p \<in> set (db_players s) \<or> p = new_player newId (tk_user ticket) universe
         \<and> (\<forall>e\<in>set (db_players s). \<not> (pl_user e = tk_user ticket \<and> pl_universeCode e = universe))"
      "pl_user p = tk_user ticket" "pl_universeCode p = universe"
      "r = Inr (False, Some (acquired_player now code p))"
      "t = s\<lparr>db_players := put_player (acquired_player now code p) (db_players s),
           db_sessions := put_lease (acquired_lease H now ticket (acquired_player now code p) connectionId code serverId)
             (db_sessions s)\<rparr>"
proof -
  consider (a) lease where "replay M ticket connectionId s = Some lease"
    | (b) lease where "replay M ticket connectionId s = None" "leaseOf M (tk_user ticket) s = Some lease"
        "writesElsewhere (Some lease) serverId now" "he_closing (gs_health lease)"
    | (c) "replay M ticket connectionId s = None" "\<not> (writesElsewhere (leaseOf M (tk_user ticket) s) serverId now
        \<and> he_closing (gs_health (the (leaseOf M (tk_user ticket) s))))"
    by (cases "replay M ticket connectionId s"; cases "leaseOf M (tk_user ticket) s") (auto simp: writesElsewhere_def)
  then show ?thesis
  proof cases
    case a
    then have "leaseOf M (tk_user ticket) s = Some lease" "gs_connection lease = connectionId" "gs_endedBy lease = None"
      by (auto simp: replay_def split: option.splits if_splits)
    with w have "r = Inr (False, findById M (gs_player lease) s)" "t = s" by (auto simp: acquireWork_def)
    with a show ?thesis by (rule again)
  next
    case b
    then have "\<not> (case leaseOf M (tk_user ticket) s of None \<Rightarrow> False
        | Some l \<Rightarrow> gs_connection l = connectionId \<and> gs_endedBy l = None)"
      by (auto simp: replay_def split: option.splits if_splits)
    with b w that(2) show ?thesis by (auto simp: acquireWork_def Let_def)
  next
    case c
    have up: "unique_docs pl_id (db_players s)" and us: "unique_docs gs_user (db_sessions s)"
      using u by (simp_all add: unique_db_def)
    obtain r1 s1 where "upsertProfile M now newId (tk_user ticket) universe s = (r1, s1)" by force
    from upsertProfile_eq [OF M up fresh this] obtain p where
      p1: "upsertProfile M now newId (tk_user ticket) universe s
          = (Inr (raised now p), s\<lparr>db_players := put_player (raised now p) (db_players s)\<rparr>)"
        "pl_user p = tk_user ticket" "pl_universeCode p = universe"
        "p \<in> set (db_players s) \<or> p = new_player newId (tk_user ticket) universe
         \<and> (\<forall>e\<in>set (db_players s). \<not> (pl_user e = tk_user ticket \<and> pl_universeCode e = universe))"
      using \<open>upsertProfile M now newId (tk_user ticket) universe s = (r1, s1)\<close> by metis
    let ?s1 = "s\<lparr>db_players := put_player (raised now p) (db_players s)\<rparr>"
    have up1: "unique_docs pl_id (db_players ?s1)" using unique_put_player [OF up] by simp
    have "raised now p \<in> set (db_players ?s1)" by (simp add: set_put_player)
    from enterWorld_eq [OF M up1 this] have e: "enterWorld M (pl_id (raised now p)) code ?s1
        = (Inr (Some (acquired_player now code p)), s\<lparr>db_players := put_player (acquired_player now code p) (db_players s)\<rparr>)"
      using put_player_again [of "\<lambda>e. position_reset code (if list_all (\<lambda>w. wo_instanceCode w \<noteq> code) (pl_worlds e)
          then with_world code e else e)" now p "db_players s"]
      by (simp add: acquired_player_def cong: if_cong)
    let ?s2 = "s\<lparr>db_players := put_player (acquired_player now code p) (db_players s)\<rparr>"
    let ?l = "acquired_lease H now ticket (acquired_player now code p) connectionId code serverId"
    have l: "putLease M ?l ?s2 = (Inr (), ?s2\<lparr>db_sessions := put_lease ?l (db_sessions s)\<rparr>)"
      using putLease_eq [OF M, of ?s2 ?l] us by simp
    have n: "\<not> (case leaseOf M (tk_user ticket) s of None \<Rightarrow> False
        | Some l \<Rightarrow> gs_connection l = connectionId \<and> gs_endedBy l = None)"
      using c(1) by (auto simp: replay_def split: option.splits if_splits)
    have "(r, t) = (Inr (False, Some (acquired_player now code p)), ?s2\<lparr>db_sessions := put_lease ?l (db_sessions s)\<rparr>)"
      using w n c(2) p1(1) e l by (auto simp: acquireWork_def Let_def bindW_def retW_def)
    with c(1) p1(2-4) show ?thesis by (intro acquired [of p]) simp_all
  qed
qed

lemma ticketOfConnection_Some:
  "lawful_mongo M \<Longrightarrow> ticketOfConnection M c s = Some t \<Longrightarrow> t \<in> set (db_tickets s) \<and> tk_connection t = c \<and> c \<noteq> ''''"
  using collection.find_one_some [OF lawful_mongoD(9)] by (fastforce simp: ticketOfConnection_def split: if_splits)

text \<open>An acquisition on every branch.\<close>

lemma acquireSession_cases:
  assumes M: "lawful_mongo M" and u: "unique_db s" and fresh: "newId \<notin> pl_id ` set (db_players s)"
    and a: "acquireSession H M now as newId connectionId code serverId s = (r, t)"
  obtains (refused) "t = s" "\<And>x. r \<noteq> Inr (Inr x)"
    | (again) ticket lease p where "t = s" "ticketOfConnection M connectionId s = Some ticket"
      "replay M ticket connectionId s = Some lease" "findById M (gs_player lease) s = Some p"
      "r = Inr (Inr \<lparr>aq_playerId = pl_id p, aq_epoch = pl_epoch p, aq_state = loadState M p code s,
                   aq_created = (pl_revision p = 0), aq_leaseSeconds = leaseSeconds H\<rparr>)"
    | (acquired) ticket p where "ticketOfConnection M connectionId s = Some ticket" "tk_instanceCode ticket = code"
      "tk_principal ticket = Account" "liveAccount M (tk_user ticket) (tk_session ticket) s \<noteq> None"
      "universeCodeOf M s code \<noteq> ''''" "replay M ticket connectionId s = None"
      "p \<in> set (db_players s) \<or> p = new_player newId (tk_user ticket) (universeCodeOf M s code)
         \<and> (\<forall>e\<in>set (db_players s). \<not> (pl_user e = tk_user ticket \<and> pl_universeCode e = universeCodeOf M s code))"
      "pl_user p = tk_user ticket" "pl_universeCode p = universeCodeOf M s code"
      "t = s\<lparr>db_players := put_player (acquired_player now code p) (db_players s),
           db_sessions := put_lease (acquired_lease H now ticket (acquired_player now code p) connectionId code serverId)
             (db_sessions s)\<rparr>"
      "r = Inr (Inr \<lparr>aq_playerId = pl_id p, aq_epoch = pl_epoch p + 1,
          aq_state = loadState M (acquired_player now code p) code t,
          aq_created = (pl_revision p = 0), aq_leaseSeconds = leaseSeconds H\<rparr>)"
      "\<not> (writesElsewhere (leaseOf M (tk_user ticket) s) serverId now
         \<and> he_closing (gs_health (the (leaseOf M (tk_user ticket) s))))"
proof (cases "ticketOfConnection M connectionId s")
  case None
  with a show ?thesis by (intro refused) (auto simp: acquireSession_def)
next
  case (Some ticket)
  show ?thesis
  proof (cases "tk_instanceCode ticket \<noteq> code \<or> tk_principal ticket \<noteq> Account
      \<or> liveAccount M (tk_user ticket) (tk_session ticket) s = None \<or> universeCodeOf M s code = ''''")
    case True
    with a Some show ?thesis by (intro refused) (auto simp: acquireSession_def split: if_splits)
  next
    case False
    let ?w = "acquireWork H M now newId ticket connectionId code serverId (universeCodeOf M s code)"
    have f: "tk_instanceCode ticket = code" "tk_principal ticket = Account"
          "liveAccount M (tk_user ticket) (tk_session ticket) s \<noteq> None" "universeCodeOf M s code \<noteq> ''''"
      using False by simp_all
    obtain b v where bv: "runTransaction as ?w s = (b, v)" by force
    have q: "acquireSession H M now as newId connectionId code serverId s = (case runTransaction as ?w s of
              (Inl e, t) \<Rightarrow> (Inl e, t)
            | (Inr (True, _), t) \<Rightarrow> (Inr (Inl ''saving''), t)
            | (Inr (False, None), t) \<Rightarrow> (Inl type_error, t)
            | (Inr (False, Some p), t) \<Rightarrow>
                (Inr (Inr \<lparr>aq_playerId = pl_id p, aq_epoch = pl_epoch p, aq_state = loadState M p code t,
                   aq_created = (pl_revision p = 0), aq_leaseSeconds = leaseSeconds H\<rparr>), t))"
      unfolding acquireSession_def Some option.case f(1,2) by (simp only: f(3,4) simp_thms if_False)
    show ?thesis
    proof (cases b)
      case (Inl e)
      have "v = s" by (rule runTransaction_aborted [OF bv [unfolded Inl]])
      moreover have "r = Inl e" "t = v" using a unfolding q bv Inl by simp_all
      ultimately show ?thesis by (intro refused) simp_all
    next
      case (Inr x)
      have w: "?w s = (Inr x, v)" by (rule runTransaction_committed [OF bv [unfolded Inr]])
      show ?thesis
      proof (cases rule: acquireWork_cases [OF M u fresh w])
        case (1 lease)
        show ?thesis
        proof (cases "findById M (gs_player lease) s")
          case None
          have "r = Inl type_error" "t = v" using a unfolding q bv Inr 1(2) None by auto
          with 1(3) show ?thesis by (intro refused) simp_all
        next
          case (Some p)
          have "r = Inr (Inr \<lparr>aq_playerId = pl_id p, aq_epoch = pl_epoch p, aq_state = loadState M p code v,
                   aq_created = (pl_revision p = 0), aq_leaseSeconds = leaseSeconds H\<rparr>)" "t = v"
            using a unfolding q bv Inr 1(2) Some by auto
          with 1(3) show ?thesis
            by (intro again [OF _ \<open>ticketOfConnection M connectionId s = Some ticket\<close> 1(1) Some]) simp_all
        qed
      next
        case (2 lease)
        have "r = Inr (Inl ''saving'')" "t = v" using a unfolding q bv Inr 2(4) by auto
        with 2(5) show ?thesis by (intro refused) simp_all
      next
        case (3 p)
        have "\<not> (writesElsewhere (leaseOf M (tk_user ticket) s) serverId now
         \<and> he_closing (gs_health (the (leaseOf M (tk_user ticket) s))))"
        proof
          assume c: "writesElsewhere (leaseOf M (tk_user ticket) s) serverId now
            \<and> he_closing (gs_health (the (leaseOf M (tk_user ticket) s)))"
          moreover from 3(1) have "\<not> (case leaseOf M (tk_user ticket) s of None \<Rightarrow> False
              | Some l \<Rightarrow> gs_connection l = connectionId \<and> gs_endedBy l = None)"
            by (auto simp: replay_def split: option.splits if_splits)
          ultimately have "?w s = (Inr (True, None), s)" unfolding acquireWork_def Let_def by auto
          with w 3(5) show False by simp
        qed
        note open' = this
        have "t = v" "r = Inr (Inr \<lparr>aq_playerId = pl_id p, aq_epoch = pl_epoch p + 1,
          aq_state = loadState M (acquired_player now code p) code v,
          aq_created = (pl_revision p = 0), aq_leaseSeconds = leaseSeconds H\<rparr>)"
          using a unfolding q bv Inr 3(5) by auto
        note rt = this
        show ?thesis by (rule acquired [OF Some f 3(1-4) _ _ open']) (simp_all only: rt 3(6))
      qed
    qed
  qed
qed

section \<open>The invariant of profiles and leases\<close>

text \<open>
  Every lease names a stored profile of its account, at its epoch or an older one, with the world the
  lease plays; an account has one profile per universe, and a profile one record per world.
\<close>

definition leased :: "player docs \<Rightarrow> game_session \<Rightarrow> bool" where
  "leased ps g \<longleftrightarrow> (\<exists>p\<in>set ps. pl_id p = gs_player g \<and> pl_user p = gs_user g \<and> gs_epoch g \<le> pl_epoch p
     \<and> gs_instanceCode g \<in> set (map wo_instanceCode (pl_worlds p)))"

definition session_inv :: "db \<Rightarrow> bool" where
  "session_inv s \<longleftrightarrow> unique_db s \<and> one_profile s
     \<and> (\<forall>p\<in>set (db_players s). distinct (map wo_instanceCode (pl_worlds p)))
     \<and> (\<forall>g\<in>set (db_sessions s). leased (db_players s) g)"

text \<open>A change of profiles that keeps who they are, their worlds, and never lowers an epoch.\<close>

definition follows :: "player \<Rightarrow> player \<Rightarrow> bool" where
  "follows p q \<longleftrightarrow> pl_id q = pl_id p \<and> pl_user q = pl_user p \<and> pl_universeCode q = pl_universeCode p
     \<and> pl_epoch p \<le> pl_epoch q \<and> map wo_instanceCode (pl_worlds q) = map wo_instanceCode (pl_worlds p)"

lemma follows_refl [simp]: "follows p p"
  by (simp add: follows_def)

lemma leased_follows:
  assumes "leased ps g" "\<And>p. p \<in> set ps \<Longrightarrow> follows p (f p)"
  shows "leased (map f ps) g"
  using assms unfolding leased_def follows_def by (metis (mono_tags, lifting) image_eqI list.set_map order_trans)

lemma session_inv_follows:
  assumes "session_inv s" "\<And>p. p \<in> set (db_players s) \<Longrightarrow> follows p (f p)"
    and "db_players t = map f (db_players s)" "unique_db t"
    and "\<And>g. g \<in> set (db_sessions t) \<Longrightarrow> \<exists>h\<in>set (db_sessions s). gs_user h = gs_user g \<and> gs_player h = gs_player g
        \<and> gs_epoch h = gs_epoch g \<and> gs_instanceCode h = gs_instanceCode g"
  shows "session_inv t"
proof -
  have "map (\<lambda>p. (pl_user p, pl_universeCode p)) (db_players t) = map (\<lambda>p. (pl_user p, pl_universeCode p)) (db_players s)"
    using assms(2,3) by (auto simp: follows_def)
  then have one: "one_profile t" using assms(1) by (simp add: session_inv_def one_profile_def)
  have worlds: "\<forall>p\<in>set (db_players t). distinct (map wo_instanceCode (pl_worlds p))"
    using assms(1-3) by (auto simp: session_inv_def follows_def)
  have "leased (db_players t) g" if g: "g \<in> set (db_sessions t)" for g
  proof -
    obtain h where h: "h \<in> set (db_sessions s)" "gs_user h = gs_user g" "gs_player h = gs_player g"
      "gs_epoch h = gs_epoch g" "gs_instanceCode h = gs_instanceCode g"
      using assms(5) [OF g] by blast
    then have "leased (map f (db_players s)) h"
      using assms(1,2) by (intro leased_follows) (simp_all add: session_inv_def)
    with h show ?thesis by (simp add: assms(3) leased_def)
  qed
  with assms(4) one worlds show ?thesis by (simp add: session_inv_def)
qed

lemma session_inv_same:
  assumes "session_inv s" "db_players t = db_players s" "set (db_sessions t) \<subseteq> set (db_sessions s)" "unique_db t"
  shows "session_inv t"
  using assms by (intro session_inv_follows [of s id t]) auto

lemma acquired_player_worlds:
  "distinct (map wo_instanceCode (pl_worlds p)) \<Longrightarrow> distinct (map wo_instanceCode (pl_worlds (acquired_player now code p)))"
  by simp

lemma leased_put:
  assumes "leased ps g" "\<And>q. q \<in> set ps \<Longrightarrow> pl_id q = pl_id p \<Longrightarrow> pl_user p = pl_user q \<and> pl_epoch q \<le> pl_epoch p
      \<and> set (map wo_instanceCode (pl_worlds q)) \<subseteq> set (map wo_instanceCode (pl_worlds p))"
  shows "leased (put_player p ps) g"
proof -
  from assms(1) obtain q where q: "q \<in> set ps" "pl_id q = gs_player g" "pl_user q = gs_user g" "gs_epoch g \<le> pl_epoch q"
    "gs_instanceCode g \<in> set (map wo_instanceCode (pl_worlds q))" by (auto simp: leased_def)
  show ?thesis
  proof (cases "pl_id q = pl_id p")
    case True
    with assms(2) [OF q(1)] q show ?thesis unfolding leased_def set_put_player by fastforce
  next
    case False
    with q show ?thesis unfolding leased_def set_put_player by fastforce
  qed
qed

lemma session_inv_acquire:
  assumes M: "lawful_mongo M" and inv: "session_inv s" and fresh: "newId \<notin> pl_id ` set (db_players s)"
    and a: "acquireSession H M now as newId connectionId code serverId s = (r, t)"
  shows "session_inv t"
proof -
  have u: "unique_db s" using inv by (simp add: session_inv_def)
  from M u fresh a show ?thesis
  proof (cases rule: acquireSession_cases)
    case (acquired ticket p)
    let ?p = "acquired_player now code p"
    let ?l = "acquired_lease H now ticket ?p connectionId code serverId"
    have old: "q = p" if "q \<in> set (db_players s)" "pl_id q = pl_id p" for q
    proof (cases "p \<in> set (db_players s)")
      case True
      show ?thesis using u that True by (intro unique_docs_eq [of pl_id "db_players s"]) (simp_all add: unique_db_def)
    next
      case False
      with acquired(7) have "pl_id p = newId" by (auto simp: new_player_def)
      with that fresh show ?thesis by (metis image_eqI)
    qed
    have other: "q = p" if "q \<in> set (db_players s)" "pl_user q = pl_user p" "pl_universeCode q = pl_universeCode p" for q
    proof -
      have "p \<in> set (db_players s)" using acquired(7-9) that by auto
      moreover have "distinct (map (\<lambda>p. (pl_user p, pl_universeCode p)) (db_players s))"
        using inv by (simp add: session_inv_def one_profile_def)
      ultimately show ?thesis using that by (intro distinct_map_eq [of "\<lambda>p. (pl_user p, pl_universeCode p)"]) simp_all
    qed
    have pw: "distinct (map wo_instanceCode (pl_worlds p))"
      using acquired(7) inv by (auto simp: session_inv_def new_player_def)
    have players: "db_players t = put_player ?p (db_players s)" and sessions: "db_sessions t = put_lease ?l (db_sessions s)"
      using acquired(10) by simp_all
    have "unique_db t"
      using u unfolding acquired(10) by (simp add: unique_db_def unique_put_player unique_put_lease)
    moreover have "one_profile t"
      unfolding one_profile_def players
    proof (cases "\<exists>e\<in>set (db_players s). pl_id e = pl_id ?p")
      case True
      have "map (\<lambda>p. (pl_user p, pl_universeCode p)) (put_player ?p (db_players s))
          = map (\<lambda>p. (pl_user p, pl_universeCode p)) (db_players s)"
        using True old by (auto simp: put_player_def)
      then show "distinct (map (\<lambda>p. (pl_user p, pl_universeCode p)) (put_player ?p (db_players s)))"
        using inv by (simp add: session_inv_def one_profile_def)
    next
      case False
      then have new: "put_player ?p (db_players s) = db_players s @ [?p]" by (simp add: put_player_def)
      have "(pl_user p, pl_universeCode p) \<notin> set (map (\<lambda>p. (pl_user p, pl_universeCode p)) (db_players s))"
        using other False by auto
      then show "distinct (map (\<lambda>p. (pl_user p, pl_universeCode p)) (put_player ?p (db_players s)))"
        using inv unfolding new by (simp add: session_inv_def one_profile_def)
    qed
    moreover have "\<forall>q\<in>set (db_players t). distinct (map wo_instanceCode (pl_worlds q))"
      using inv pw acquired_player_worlds [of p now code] unfolding players set_put_player session_inv_def by blast
    moreover have "leased (db_players t) g" if "g \<in> set (db_sessions t)" for g
    proof (cases "g = ?l")
      case True
      have "?p \<in> set (db_players t)" by (simp add: players set_put_player)
      then show ?thesis using True acquired(8)
        by (auto simp: leased_def acquired_lease_def intro!: bexI [of _ ?p])
    next
      case False
      with that have "leased (db_players s) g" using inv by (auto simp: sessions set_put_lease session_inv_def)
      then show ?thesis unfolding players
      proof (rule leased_put)
        fix q assume "q \<in> set (db_players s)" "pl_id q = pl_id ?p"
        then have "q = p" using old by simp
        then show "pl_user ?p = pl_user q \<and> pl_epoch q \<le> pl_epoch ?p
          \<and> set (map wo_instanceCode (pl_worlds q)) \<subseteq> set (map wo_instanceCode (pl_worlds ?p))"
          unfolding acquired_player_fields(8) by (auto simp del: acquired_player_fields(8))
      qed
    qed
    ultimately show ?thesis by (simp add: session_inv_def)
  qed (use inv in simp_all)
qed

lemma commit_player_follows: "follows p (commit_player c doc code now p)"
  by (simp add: follows_def) (simp add: commit_player_def Let_def in_world_def comp_def)

lemma session_inv_commit:
  assumes M: "lawful_mongo M" and inv: "session_inv s" and c: "commitState M now as c s = (r, t)"
  shows "session_inv t"
proof -
  have u: "unique_db s" using inv by (simp add: session_inv_def)
  from M u c show ?thesis
  proof (cases rule: commitState_cases)
    case unchanged
    with inv show ?thesis by simp
  next
    case (applied doc code qs')
    have "unique_db t" unfolding applied(4) by (rule unique_db_commit [OF u applied(5)])
    then show ?thesis
      by (intro session_inv_follows [OF inv, of "\<lambda>p. if pl_id p = cm_playerId c then commit_player c doc code now p else p"])
        (auto simp: commit_player_follows applied(4))
  qed
qed

lemma world_moved_codes: "list_all2 world_moved vs ws \<Longrightarrow> map wo_instanceCode ws = map wo_instanceCode vs"
  by (induction rule: list_all2_induct) (auto simp: world_moved_def)

lemma player_moved_follows: "player_moved p q \<Longrightarrow> follows p q"
  by (auto simp: player_moved_def follows_def dest: world_moved_codes)

definition renewing :: "host \<Rightarrow> ms \<Rightarrow> (checkpoint_entry \<times> game_session) list \<Rightarrow> game_session \<Rightarrow> game_session" where
  "renewing H now rs g = fold (\<lambda>(e, l) g. if gs_user g = gs_user l \<and> gs_player g = gs_player l \<and> gs_epoch g = gs_epoch l
          \<and> gs_endedBy g = None then renewed H now e g else g) rs g"

lemma renewing_Cons: "renewing H now ((e, l) # rs) g = renewing H now rs
    (if gs_user g = gs_user l \<and> gs_player g = gs_player l \<and> gs_epoch g = gs_epoch l \<and> gs_endedBy g = None
     then renewed H now e g else g)"
  by (simp add: renewing_def)

lemma renewing_fields [simp]:
  "gs_user (renewing H now rs g) = gs_user g" "gs_player (renewing H now rs g) = gs_player g"
  "gs_epoch (renewing H now rs g) = gs_epoch g" "gs_instanceCode (renewing H now rs g) = gs_instanceCode g"
  "gs_endedBy (renewing H now rs g) = gs_endedBy g" "gs_connection (renewing H now rs g) = gs_connection g"
  "gs_accountSession (renewing H now rs g) = gs_accountSession g" "gs_serverId (renewing H now rs g) = gs_serverId g"
  by (induction rs arbitrary: g) (auto simp: renewing_def renewed_def)

lemma fold_renewLease:
  assumes "lawful_mongo M" "unique_docs gs_user (db_sessions s)"
  shows "fold (renewLease H M now) rs s = s\<lparr>db_sessions := map (renewing H now rs) (db_sessions s)\<rparr>"
  using assms(2)
proof (induction rs arbitrary: s)
  case Nil
  then show ?case by (simp add: renewing_def)
next
  case (Cons el rs)
  obtain e l where el: "el = (e, l)" by force
  let ?P = "\<lambda>g. gs_user g = gs_user l \<and> gs_player g = gs_player l \<and> gs_epoch g = gs_epoch l \<and> gs_endedBy g = None"
  let ?c = "map (\<lambda>g. if ?P g then renewed H now e g else g) (db_sessions s)"
  have "snd (snd (drv_update_one (mg_sessions M) ?P (renewed H now e) (db_sessions s))) = ?c"
    by (rule collection.update_one_unique [OF lawful_mongoD(2) [OF assms(1)] Cons.prems, where k = "gs_user l"]) simp
  then have r: "renewLease H M now (e, l) s = s\<lparr>db_sessions := ?c\<rparr>" by (simp add: renewLease_def)
  have "unique_docs gs_user ?c" using Cons.prems by (simp add: unique_docs_map renewed_def)
  with Cons.IH [of "s\<lparr>db_sessions := ?c\<rparr>"] show ?case
    by (simp add: r el renewing_Cons comp_def)
qed

text \<open>A checkpoint renews leases and moves positions, and touches nothing else.\<close>

lemma checkpointSessions_effect:
  assumes M: "lawful_mongo M" and u: "unique_db s" and c: "checkpointSessions H M now es s = (ended, t)"
  obtains f rs where "t = s\<lparr>db_players := map f (db_players s), db_sessions := map (renewing H now rs) (db_sessions s)\<rparr>"
    "\<And>p. player_moved p (f p)" "rs = renewals (map (\<lambda>e. (e, verdictOf
        (filter (\<lambda>g. gs_user g \<in> set (map ce_accountId (checkpoint_entries M es))) (db_sessions s))
        (filter (\<lambda>u. us_id u \<in> set (map ce_accountId (checkpoint_entries M es))) (db_users s)) e)) (checkpoint_entries M es))"
    "unique_db t"
proof -
  define users where "users = set (map ce_accountId (checkpoint_entries M es))"
  define rs where "rs = renewals (map (\<lambda>e. (e, verdictOf (filter (\<lambda>g. gs_user g \<in> users) (db_sessions s))
        (filter (\<lambda>u. us_id u \<in> users) (db_users s)) e)) (checkpoint_entries M es))"
  have us: "unique_docs gs_user (db_sessions s)" and up: "unique_docs pl_id (db_players s)"
    using u by (simp_all add: unique_db_def)
  have t: "t = writePositions M now (positions_of rs) (fold (renewLease H M now) rs s)"
    using c by (simp add: checkpointSessions_def Let_def rs_def users_def
        collection.find_docs [OF lawful_mongoD(2) [OF M]] collection.find_docs [OF lawful_mongoD(10) [OF M]])
  let ?s = "s\<lparr>db_sessions := map (renewing H now rs) (db_sessions s)\<rparr>"
  have f: "fold (renewLease H M now) rs s = ?s"
    by (rule fold_renewLease [OF M us])
  let ?g = "moves (filter (\<lambda>e. place_ok (pe_position e)) (positions_of rs)) now"
  have "writePositions M now (positions_of rs) ?s = ?s\<lparr>db_players := map ?g (db_players s)\<rparr>"
    unfolding writePositions_def using fold_writePosition [OF M, of ?s] up by simp
  then have t': "t = s\<lparr>db_players := map ?g (db_players s), db_sessions := map (renewing H now rs) (db_sessions s)\<rparr>"
    by (simp add: t f)
  have "unique_db t" using u unfolding t' by (simp add: unique_db_def unique_docs_map)
  then show ?thesis using t' moves_moved rs_def unfolding users_def by (intro that [of rs ?g]) blast+
qed

lemma session_inv_checkpoint:
  assumes "lawful_mongo M" "session_inv s" "checkpointSessions H M now es s = (ended, t)"
  shows "session_inv t"
proof -
  have u: "unique_db s" using assms(2) by (simp add: session_inv_def)
  from checkpointSessions_effect [OF assms(1) u assms(3)] obtain f rs where
    t: "t = s\<lparr>db_players := map f (db_players s), db_sessions := map (renewing H now rs) (db_sessions s)\<rparr>"
    "\<And>p. player_moved p (f p)" "unique_db t" by metis
  show ?thesis
    by (rule session_inv_follows [OF assms(2), of f]) (use t in \<open>auto intro: player_moved_follows\<close>)
qed

lemma releaseSession_eq:
  assumes "lawful_mongo M" "unique_db s"
  shows "releaseSession M r s = (if \<not> isValidObjectId M (Str (sr_playerId r)) \<or> \<not> isValidObjectId M (Str (sr_accountId r)) then s
    else s\<lparr>db_sessions := filter (\<lambda>g. \<not> (gs_user g = sr_accountId r \<and> gs_player g = sr_playerId r
       \<and> gs_epoch g = sr_epoch r)) (db_sessions s)\<rparr>)"
proof -
  have "drv_delete_one (mg_sessions M) (\<lambda>g. gs_user g = sr_accountId r \<and> gs_player g = sr_playerId r \<and> gs_epoch g = sr_epoch r)
      (db_sessions s) = filter (\<lambda>g. \<not> (gs_user g = sr_accountId r \<and> gs_player g = sr_playerId r \<and> gs_epoch g = sr_epoch r)) (db_sessions s)"
    using assms(2) by (intro collection.delete_one_unique [OF lawful_mongoD(2) [OF assms(1)], where k = "sr_accountId r"])
      (simp_all add: unique_db_def)
  then show ?thesis by (simp add: releaseSession_def)
qed

lemma session_inv_release:
  assumes "lawful_mongo M" "session_inv s"
  shows "session_inv (releaseSession M r s)"
proof -
  have u: "unique_db s" using assms(2) by (simp add: session_inv_def)
  then have "unique_db (releaseSession M r s)"
    by (simp add: releaseSession_eq [OF assms(1)] unique_db_def unique_docs_filter)
  then show ?thesis
    by (rule session_inv_same [OF assms(2), rotated 2]) (auto simp: releaseSession_eq [OF assms(1) u])
qed

section \<open>Properties\<close>

lemma leaseOf_unique:
  assumes "lawful_mongo M" "unique_db s" "g \<in> set (db_sessions s)" "gs_user g = k"
  shows "leaseOf M k s = Some g"
proof (cases "leaseOf M k s")
  case None
  then have "\<forall>g\<in>set (db_sessions s). gs_user g \<noteq> k"
    unfolding leaseOf_def collection.find_one_none [OF lawful_mongoD(2) [OF assms(1)]] .
  with assms show ?thesis by blast
next
  case (Some h)
  then have "h \<in> set (db_sessions s)" "gs_user h = k" using leaseOf_Some [OF assms(1)] by blast+
  with assms have "h = g" by (intro unique_docs_eq [of gs_user "db_sessions s"]) (simp_all add: unique_db_def)
  with Some show ?thesis by simp
qed


lemma unique_db_consume:
  assumes "lawful_mongo M" "unique_db s"
  shows "unique_db (snd (consumeGameTicket H M now token code connection s))"
proof -
  obtain a t where at: "consumeGameTicket H M now token code connection s = (a, t)" by force
  from assms at show ?thesis
  proof (cases rule: consumeGameTicket_cases)
    case (taken d)
    with assms(2) at show ?thesis by (simp add: unique_db_def unique_docs_map)
  qed (use assms(2) at in simp_all)
qed

text \<open>A launch touches no more than the tickets.\<close>

lemma consumeGameTicket_only:
  assumes "lawful_mongo M" "unique_db s" "consumeGameTicket H M now token code connection s = (a, t)"
  shows "\<exists>c. t = s\<lparr>db_tickets := c\<rparr>"
  using assms
proof (cases rule: consumeGameTicket_cases)
  case (taken d)
  then show ?thesis by blast
qed (intro exI [of _ "db_tickets s"], simp)+

definition played_db :: db where
  "played_db = snd (consumeGameTicket sample_host ref_mongo 30 sample_token ''w1'' ''c9'' launch_db)"

lemma played_db_docs:
  "db_players played_db = [sample_player pid1 uid1, sample_player pid2 uid2]"
  "db_sessions played_db = [sample_lease pid1 uid1 sid1, sample_lease pid2 uid2 sid2]"
proof -
  obtain a t where at: "consumeGameTicket sample_host ref_mongo 30 sample_token ''w1'' ''c9'' launch_db = (a, t)" by force
  then have t: "t = played_db" by (simp add: played_db_def)
  obtain b u where bu: "createGameTicket sample_host ref_mongo 20 sample_token sample_request ticket_db = (b, u)" by force
  then have u: "u = launch_db" by (simp add: launch_db_def)
  obtain c where c: "played_db = launch_db\<lparr>db_tickets := c\<rparr>"
    using consumeGameTicket_only [OF lawful_ref_mongo unique_launch_db at] unfolding t by blast
  have "db_players launch_db = db_players ticket_db \<and> db_sessions launch_db = db_sessions ticket_db"
    using lawful_ref_mongo unique_ticket_db bu by (cases rule: createGameTicket_cases) (simp_all flip: u)
  then show "db_players played_db = [sample_player pid1 uid1, sample_player pid2 uid2]"
      "db_sessions played_db = [sample_lease pid1 uid1 sid1, sample_lease pid2 uid2 sid2]"
    unfolding c by (simp_all add: ticket_db_def sample_db_def)
qed

lemma fresh_played_db: "sid1 \<notin> pl_id ` set (db_players played_db)"
  by (simp add: played_db_docs) (simp add: sid1_def pid1_def pid2_def)

lemma session_inv_played_db: "session_inv played_db"
proof -
  have "unique_db played_db"
    unfolding played_db_def by (rule unique_db_consume [OF lawful_ref_mongo unique_launch_db])
  then show ?thesis
    by (simp add: session_inv_def played_db_docs one_profile_def leased_def)
      (simp add: sample_lease_def new_world_def)
qed

lemma sample_acquisition:
  defines "a \<equiv> acquireSession sample_host ref_mongo 40 [] sid1 ''c9'' ''w1'' ''s1'' played_db"
  shows "fst a = Inr (Inr (projr (projr (fst a)))) \<and> aq_playerId (projr (projr (fst a))) = pid1
    \<and> aq_epoch (projr (projr (fst a))) = 2"
  unfolding a_def by code_simp


text \<open>C17: a retry of an acquisition is safe: the connection that just acquired a profile gets the same
profile and epoch again, with the same state, and nothing is written, as long as its ticket stands,
however many transient errors the retry meets.\<close>

theorem acquisition_retry:
  assumes "lawful_mongo M" "session_inv s" "newId \<notin> pl_id ` set (db_players s)"
    and "acquireSession H M now as newId connectionId code serverId s = (Inr (Inr x), t)"
    and "set as' \<subseteq> {Transient}"
  shows "acquireSession H M now' as' newId' connectionId code serverId' t = (Inr (Inr x), t)"
proof -
  note M = assms(1)
  have u: "unique_db s" using assms(2) by (simp add: session_inv_def)
  have "session_inv t" by (rule session_inv_acquire [OF assms(1-4)])
  then have ut: "unique_db t" by (simp add: session_inv_def)
  have run: "acquireSession H M now' as' newId' connectionId code serverId' t
      = (Inr (Inr \<lparr>aq_playerId = pl_id p, aq_epoch = pl_epoch p, aq_state = loadState M p code t,
           aq_created = (pl_revision p = 0), aq_leaseSeconds = leaseSeconds H\<rparr>), t)"
    if "ticketOfConnection M connectionId t = Some ticket" "tk_instanceCode ticket = code" "tk_principal ticket = Account"
      "liveAccount M (tk_user ticket) (tk_session ticket) t \<noteq> None" "universeCodeOf M t code \<noteq> ''''"
      "leaseOf M (tk_user ticket) t = Some lease" "gs_connection lease = connectionId" "gs_endedBy lease = None"
      "findById M (gs_player lease) t = Some p" for ticket lease p
  proof -
    let ?w = "acquireWork H M now' newId' ticket connectionId code serverId' (universeCodeOf M t code)"
    have "?w t = (Inr (False, Some p), t)" using that(6-9) by (simp add: acquireWork_def)
    then have w: "runTransaction as' ?w t = (Inr (False, Some p), t)"
      unfolding runTransaction_retries [OF assms(5)] by simp
    have "\<not> (tk_instanceCode ticket \<noteq> code \<or> tk_principal ticket \<noteq> Account)" using that(2,3) by blast
    then show ?thesis
      unfolding acquireSession_def that(1) option.case
      by (simp only: that(2-5) if_False w) simp
  qed
  from M u assms(3,4) show ?thesis
  proof (cases rule: acquireSession_cases)
    case refused
    then show ?thesis by blast
  next
    case (again ticket lease p)
    have l: "leaseOf M (tk_user ticket) s = Some lease" "gs_connection lease = connectionId" "gs_endedBy lease = None"
      using again(3) by (auto simp: replay_def split: option.splits if_splits)
    have "tk_instanceCode ticket = code \<and> tk_principal ticket = Account
      \<and> liveAccount M (tk_user ticket) (tk_session ticket) s \<noteq> None \<and> universeCodeOf M s code \<noteq> ''''"
      using assms(4) unfolding acquireSession_def again(2) option.case by (auto split: if_splits)
    with run [of ticket lease p] again l show ?thesis by simp
  next
    case (acquired ticket p)
    let ?p = "acquired_player now code p"
    let ?l = "acquired_lease H now ticket ?p connectionId code serverId"
    have same: "ticketOfConnection M connectionId t = Some ticket" "universeCodeOf M t code = universeCodeOf M s code"
      "liveAccount M (tk_user ticket) (tk_session ticket) t = liveAccount M (tk_user ticket) (tk_session ticket) s"
      using acquired(1) by (auto simp: acquired(10) ticketOfConnection_def universeCodeOf_def liveAccount_def split: if_splits)
    have l: "leaseOf M (tk_user ticket) t = Some ?l"
      by (rule leaseOf_unique [OF M ut]) (simp_all add: acquired(10) set_put_lease acquired_lease_def)
    have f: "findById M (pl_id p) t = Some ?p"
      using findById_unique [OF M ut, of ?p] by (simp add: acquired(10) set_put_player)
    have r: "acquireSession H M now' as' newId' connectionId code serverId' t
      = (Inr (Inr \<lparr>aq_playerId = pl_id ?p, aq_epoch = pl_epoch ?p, aq_state = loadState M ?p code t,
           aq_created = (pl_revision ?p = 0), aq_leaseSeconds = leaseSeconds H\<rparr>), t)"
      by (rule run [OF same(1) acquired(2,3) _ _ l]) (simp_all add: same acquired(4,5) acquired_lease_def f)
    have "x = \<lparr>aq_playerId = pl_id p, aq_epoch = pl_epoch p + 1, aq_state = loadState M ?p code t,
          aq_created = (pl_revision p = 0), aq_leaseSeconds = leaseSeconds H\<rparr>"
      using acquired(11) by simp
    then show ?thesis unfolding r by simp
  qed
qed

lemma acquisition_retry_witness:
  "let a = acquireSession sample_host ref_mongo 40 [] sid1 ''c9'' ''w1'' ''s1'' played_db
   in acquireSession sample_host ref_mongo 50 [Transient] sid2 ''c9'' ''w1'' ''s2'' (snd a) = (fst a, snd a)"
proof -
  let ?a = "acquireSession sample_host ref_mongo 40 [] sid1 ''c9'' ''w1'' ''s1'' played_db"
  let ?x = "projr (projr (fst ?a))"
  have f: "fst ?a = Inr (Inr ?x)" using sample_acquisition by blast
  then have a: "?a = (Inr (Inr ?x), snd ?a)" by (simp add: prod_eq_iff)
  from acquisition_retry [OF lawful_ref_mongo session_inv_played_db fresh_played_db a, of "[Transient]" 50 sid2 "''s2''"]
  have "acquireSession sample_host ref_mongo 50 [Transient] sid2 ''c9'' ''w1'' ''s2'' (snd ?a)
      = (Inr (Inr ?x), snd ?a)" by simp
  then show ?thesis unfolding Let_def f [symmetric] .
qed

text \<open>C18: a resume waits and then goes: while the session a resume ticket continues may still write on
another server, the launch answers \<open>busy\<close> and leaves the ticket unconsumed; as soon as that session
ended, expired or reported that it cannot save, the same launch is accepted for its account, as long
as the ticket, the account session and the epoch of the profile stand.\<close>

theorem resume_waits_then_goes:
  assumes "lawful_mongo M" "unique_db s" "findGameTicket H M token s = Some tk"
    and "tk_principal tk = Account" "tk_epoch tk = Some n" "tk_consumedAt tk = None"
    and "tk_instanceCode tk = code" "now < tk_expiresAt tk"
    and "connection \<noteq> ''''" "\<forall>t\<in>set (db_tickets s). tk_connection t \<noteq> connection"
    and "liveAccount M (tk_user tk) (tk_session tk) s = Some account"
    and "p \<in> set (db_players s)" "pl_user p = tk_user tk" "pl_universeCode p = universeCodeOf M s code" "pl_epoch p = n"
  shows "if writesElsewhere (leaseOf M (tk_user tk) s) serverId now
    then consumeLaunch H M now token code connection serverId s = (Inr (Inl ''busy''), s)
    else \<exists>t. consumeLaunch H M now token code connection serverId s
        = (Inr (Inr (AccountLaunch (us_id account) (us_username account))), t)
      \<and> consumed_by now connection tk \<in> set (db_tickets t)"
proof (cases "writesElsewhere (leaseOf M (tk_user tk) s) serverId now")
  case True
  with assms(3,5,6) show ?thesis by (simp add: consumeLaunch_def resumeWaits_def)
next
  case False
  note M = assms(1)
  have tk: "TICKET_PATTERN token" "tk \<in> set (db_tickets s)" "tk_tokenHash tk = hashToken H token"
    using assms(3) collection.find_one_some [OF lawful_mongoD(9) [OF M]]
    by (fastforce simp: findGameTicket_def split: if_splits)+
  obtain a t where at: "consumeGameTicket H M now token code connection s = (a, t)" by force
  have free: "\<not> connection_taken (hashToken H token) connection (db_tickets s)"
    using assms(10) by (auto simp: connection_taken_def list_ex_iff)
  let ?P = "\<lambda>t. tk_tokenHash t = hashToken H token \<and> tk_consumedAt t = None \<and> now < tk_expiresAt t \<and> tk_instanceCode t = code"
  have "?P tk" using tk assms(6-8) by simp
  then have a: "a = Inr (Consumed (consumed_by now connection tk))"
    and t: "t = s\<lparr>db_tickets := map (\<lambda>e. if e = tk then consumed_by now connection e else e) (db_tickets s)\<rparr>"
  proof -
    assume P: "?P tk"
    show "a = Inr (Consumed (consumed_by now connection tk))"
      and "t = s\<lparr>db_tickets := map (\<lambda>e. if e = tk then consumed_by now connection e else e) (db_tickets s)\<rparr>"
    proof (atomize (full), cases rule: collection.find_one_and_update_cases [OF lawful_mongoD(9) [OF M] unique_tickets [OF assms(2)],
          of ?P "consumed_by now connection"])
      case 1
      with P tk(2) show "a = Inr (Consumed (consumed_by now connection tk))
        \<and> t = s\<lparr>db_tickets := map (\<lambda>e. if e = tk then consumed_by now connection e else e) (db_tickets s)\<rparr>" by blast
    next
      case (2 d)
      then have "d = tk" using only_ticket [OF assms(2) tk(2,3)] by blast
      with 2 tk(1) assms(9) free at show "a = Inr (Consumed (consumed_by now connection tk))
        \<and> t = s\<lparr>db_tickets := map (\<lambda>e. if e = tk then consumed_by now connection e else e) (db_tickets s)\<rparr>"
        by (auto simp: consumeGameTicket_def Let_def)
    qed
  qed
  have live: "liveAccount M (tk_user tk) (tk_session tk) t = Some account" "universeCodeOf M t code = universeCodeOf M s code"
    "db_players t = db_players s"
    using assms(11) by (simp_all add: t liveAccount_def universeCodeOf_def)
  have "drv_find_one (mg_players M) (\<lambda>q. pl_user q = tk_user tk \<and> pl_universeCode q = universeCodeOf M t code
      \<and> Some (pl_epoch q) = tk_epoch tk) (db_players t) \<noteq> None"
    using assms(5,12-15) live unfolding collection.find_one_none [OF lawful_mongoD(1) [OF M]] by auto
  then have "consumeLaunch H M now token code connection serverId s
      = (Inr (Inr (AccountLaunch (us_id account) (us_username account))), t)"
    using False assms(3-5) at a live by (auto simp: consumeLaunch_def resumeWaits_def consumed_by_def)
  moreover have "consumed_by now connection tk \<in> set (db_tickets t)" using tk(2) by (auto simp: t)
  ultimately show ?thesis using False by auto
qed

definition resume_db :: db where
  "resume_db = snd (createResumeTicket sample_host ref_mongo 20 sample_token uid1 sid1 ''w1'' 1 sample_db)"

lemma unique_resume_db: "unique_db resume_db"
proof -
  obtain a t where at: "createResumeTicket sample_host ref_mongo 20 sample_token uid1 sid1 ''w1'' 1 sample_db = (a, t)" by force
  have "unique_db t"
    using lawful_ref_mongo unique_sample_db at by (cases rule: createResumeTicket_cases) simp_all
  with at show ?thesis by (simp add: resume_db_def)
qed

lemma resume_waits_then_goes_witness:
  "consumeLaunch sample_host ref_mongo 30 sample_token ''w1'' ''c7'' ''s2'' resume_db = (Inr (Inl ''busy''), resume_db)
   \<and> (\<exists>t. consumeLaunch sample_host ref_mongo 70000 sample_token ''w1'' ''c7'' ''s2'' resume_db
        = (Inr (Inr (AccountLaunch uid1 ''ana'')), t))"
proof -
  let ?tk = "hd (db_tickets resume_db)" and ?p = "sample_player pid1 uid1" and ?u = "sample_user uid1 sid1 ''ana''"
  have tk: "findGameTicket sample_host ref_mongo sample_token resume_db = Some ?tk" "tk_principal ?tk = Account"
    "tk_epoch ?tk = Some 1" "tk_consumedAt ?tk = None" "tk_instanceCode ?tk = ''w1''" "30 < tk_expiresAt ?tk"
    "70000 < tk_expiresAt ?tk" "\<forall>t\<in>set (db_tickets resume_db). tk_connection t \<noteq> ''c7''"
    and l: "liveAccount ref_mongo (tk_user ?tk) (tk_session ?tk) resume_db = Some ?u"
    and p: "?p \<in> set (db_players resume_db)" "pl_user ?p = tk_user ?tk"
      "pl_universeCode ?p = universeCodeOf ref_mongo resume_db ''w1''" "pl_epoch ?p = 1"
    and w: "writesElsewhere (leaseOf ref_mongo (tk_user ?tk) resume_db) ''s2'' 30"
      "\<not> writesElsewhere (leaseOf ref_mongo (tk_user ?tk) resume_db) ''s2'' 70000"
    by code_simp+
  have u: "us_id ?u = uid1" "us_username ?u = ''ana''" by (simp_all add: sample_user_def)
  show ?thesis
    using resume_waits_then_goes [OF lawful_ref_mongo unique_resume_db tk(1-6) _ tk(8) l p, of "''s2''"]
      resume_waits_then_goes [OF lawful_ref_mongo unique_resume_db tk(1-5,7) _ tk(8) l p, of "''s2''"] w
    unfolding u by auto
qed

text \<open>Whether a lease goes on under a checkpoint entry.\<close>

definition goes_on :: "db \<Rightarrow> game_session \<Rightarrow> checkpoint_entry \<Rightarrow> bool" where
  "goes_on s g e \<longleftrightarrow> gs_user g = ce_accountId e \<and> gs_player g = ce_playerId e \<and> gs_epoch g = ce_epoch e
     \<and> gs_endedBy g = None \<and> (\<exists>u\<in>set (db_users s). us_id u = gs_user g \<and> gs_accountSession g \<in> set (us_activeSessions u))"

lemma find_last_unique:
  assumes "unique_docs key c" "d \<in> set c" "key d = k" "xs = filter P c" "P d"
  shows "List.find (\<lambda>x. key x = k) (rev xs) = Some d"
proof (cases "List.find (\<lambda>x. key x = k) (rev xs)")
  case None
  with assms show ?thesis by (simp add: find_None_iff_ball)
next
  case (Some x)
  then have "x \<in> set xs" "key x = k" using find_SomeD by fastforce+
  then have "x = d" using assms by (intro unique_docs_eq [of key c]) simp_all
  with Some show ?thesis by simp
qed

lemma verdictOf_Renewed:
  assumes u: "unique_db s" and e: "ce_accountId e \<in> us"
  shows "verdictOf (filter (\<lambda>g. gs_user g \<in> us) (db_sessions s)) (filter (\<lambda>u. us_id u \<in> us) (db_users s)) e = Renewed g
    \<longleftrightarrow> g \<in> set (db_sessions s) \<and> goes_on s g e"
proof -
  have us: "unique_docs gs_user (db_sessions s)" "unique_docs us_id (db_users s)" using u by (simp_all add: unique_db_def)
  let ?ls = "filter (\<lambda>g. gs_user g \<in> us) (db_sessions s)" and ?as = "filter (\<lambda>u. us_id u \<in> us) (db_users s)"
  have acc: "(case List.find (\<lambda>u. us_id u = ce_accountId e) (rev ?as) of None \<Rightarrow> False
                   | Some u \<Rightarrow> x \<in> set (us_activeSessions u))
      \<longleftrightarrow> (\<exists>u\<in>set (db_users s). us_id u = ce_accountId e \<and> x \<in> set (us_activeSessions u))" for x
  proof (cases "\<exists>u\<in>set (db_users s). us_id u = ce_accountId e")
    case True
    then obtain v where v: "v \<in> set (db_users s)" "us_id v = ce_accountId e" by blast
    then have f: "List.find (\<lambda>u. us_id u = ce_accountId e) (rev ?as) = Some v"
      using e by (intro find_last_unique [OF us(2) v, of ?as "\<lambda>u. us_id u \<in> us"]) simp_all
    have only: "\<forall>w\<in>set (db_users s). us_id w = ce_accountId e \<longrightarrow> w = v"
      using unique_docs_eq [OF us(2) _ v(1)] v(2) by metis
    have "(case List.find (\<lambda>u. us_id u = ce_accountId e) (rev ?as) of None \<Rightarrow> False
                   | Some u \<Rightarrow> x \<in> set (us_activeSessions u)) \<longleftrightarrow> x \<in> set (us_activeSessions v)"
      unfolding f by simp
    also have "\<dots> \<longleftrightarrow> (\<exists>u\<in>set (db_users s). us_id u = ce_accountId e \<and> x \<in> set (us_activeSessions u))"
      using v only by blast
    finally show ?thesis .
  next
    case False
    then have "List.find (\<lambda>u. us_id u = ce_accountId e) (rev ?as) = None" by (simp add: find_None_iff_ball)
    with False show ?thesis by auto
  qed
  show ?thesis
  proof (cases "\<exists>g\<in>set (db_sessions s). gs_user g = ce_accountId e")
    case True
    then obtain h where h: "h \<in> set (db_sessions s)" "gs_user h = ce_accountId e" by blast
    then have f: "List.find (\<lambda>g. gs_user g = ce_accountId e) (rev ?ls) = Some h"
      using e by (intro find_last_unique [OF us(1) h, of ?ls "\<lambda>g. gs_user g \<in> us"]) simp_all
    have only: "g \<in> set (db_sessions s) \<and> gs_user g = ce_accountId e \<longrightarrow> g = h"
      using unique_docs_eq [OF us(1) _ h(1)] h(2) by metis
    have "verdictOf ?ls ?as e = (if goes_on s h e then Renewed h else Ended
        (if gs_player h \<noteq> ce_playerId e \<or> gs_epoch h \<noteq> ce_epoch e then ''signed_in_elsewhere''
         else if gs_endedBy h \<noteq> None then ''ended'' else ''revoked''))"
      unfolding verdictOf_def f acc using h by (simp add: goes_on_def)
    then have "verdictOf ?ls ?as e = Renewed g \<longleftrightarrow> goes_on s h e \<and> g = h" by auto
    moreover have "g \<in> set (db_sessions s) \<and> goes_on s g e \<longleftrightarrow> goes_on s h e \<and> g = h"
    proof (cases "g = h")
      case True
      with h show ?thesis by simp
    next
      case False
      with only show ?thesis by (simp add: goes_on_def) blast
    qed
    ultimately show ?thesis by blast
  next
    case False
    then have "List.find (\<lambda>g. gs_user g = ce_accountId e) (rev ?ls) = None" by (simp add: find_None_iff_ball)
    with False show ?thesis by (auto simp: verdictOf_def goes_on_def)
  qed
qed

definition hits :: "game_session \<Rightarrow> game_session \<Rightarrow> bool" where
  "hits l g \<longleftrightarrow> gs_user g = gs_user l \<and> gs_player g = gs_player l \<and> gs_epoch g = gs_epoch l \<and> gs_endedBy g = None"

lemma hits_renewed [simp]: "hits l (renewed H now e g) = hits l g" "renewed H now d (renewed H now e g) = renewed H now d g"
  by (simp_all add: hits_def renewed_def)

lemma renewing_last:
  "(\<forall>(e, l)\<in>set rs. \<not> hits l g) \<and> renewing H now rs g = g
   \<or> (\<exists>(e, l)\<in>set rs. hits l g \<and> renewing H now rs g = renewed H now e g)"
proof (induction rs arbitrary: g)
  case (Cons el rs)
  obtain e l where el: "el = (e, l)" by force
  show ?case
  proof (cases "hits l g")
    case True
    then have "renewing H now (el # rs) g = renewing H now rs (renewed H now e g)"
      by (simp add: el renewing_Cons hits_def)
    with True Cons.IH [of "renewed H now e g"] show ?thesis by (auto simp: el)
  next
    case False
    then have "renewing H now (el # rs) g = renewing H now rs g"
      by (auto simp: el renewing_Cons hits_def)
    with False Cons.IH [of g] show ?thesis by (auto simp: el)
  qed
qed (simp add: renewing_def)

lemma set_renewals: "(e, l) \<in> set (renewals vs) \<longleftrightarrow> (e, Renewed l) \<in> set vs"
  by (induction vs rule: renewals.induct) auto

lemma map_fst_endings: "map fst (endings vs) = map (ce_playerId \<circ> fst) (filter (\<lambda>(e, v). \<forall>g. v \<noteq> Renewed g) vs)"
  by (induction vs rule: endings.induct) auto

text \<open>C19: a checkpoint renews exactly the sessions that go on: the lease of an account is renewed when an
entry names its profile and epoch, no operator ended it and its account session stands, and then with
what such an entry reports; every other lease stays as it is. The entries without such a lease are
exactly the ones reported as ended, in their order. Profiles change by position moves alone, and
nothing else of the database changes.\<close>

theorem checkpoint_renews:
  assumes "lawful_mongo M" "unique_db s" "checkpointSessions H M now es s = (ended, t)"
  shows "(\<exists>f c. t = s\<lparr>db_players := map f (db_players s), db_sessions := map c (db_sessions s)\<rparr>
      \<and> (\<forall>p. player_moved p (f p))
      \<and> (\<forall>g\<in>set (db_sessions s). if \<exists>e\<in>set (checkpoint_entries M es). goes_on s g e
           then \<exists>e\<in>set (checkpoint_entries M es). goes_on s g e \<and> c g = renewed H now e g else c g = g))
    \<and> map fst ended = map ce_playerId (filter (\<lambda>e. \<forall>g\<in>set (db_sessions s). \<not> goes_on s g e) (checkpoint_entries M es))"
proof
  define us where "us = set (map ce_accountId (checkpoint_entries M es))"
  define ver where "ver = verdictOf (filter (\<lambda>g. gs_user g \<in> us) (db_sessions s)) (filter (\<lambda>u. us_id u \<in> us) (db_users s))"
  have ver: "ver e = Renewed g \<longleftrightarrow> g \<in> set (db_sessions s) \<and> goes_on s g e"
    if "e \<in> set (checkpoint_entries M es)" for e g
    unfolding ver_def using that by (intro verdictOf_Renewed [OF assms(2)]) (simp add: us_def)
  obtain f rs where
    t: "t = s\<lparr>db_players := map f (db_players s), db_sessions := map (renewing H now rs) (db_sessions s)\<rparr>"
    and f: "\<And>p. player_moved p (f p)" and rs: "rs = renewals (map (\<lambda>e. (e, ver e)) (checkpoint_entries M es))"
      "unique_db t"
    by (rule checkpointSessions_effect [OF assms, folded us_def, folded ver_def]) (rule that)
  have hit: "(e, l) \<in> set rs \<and> hits l g \<longleftrightarrow> e \<in> set (checkpoint_entries M es) \<and> goes_on s g e \<and> l = g"
    if g: "g \<in> set (db_sessions s)" for e l g
  proof -
    have "gs_user l = gs_user g \<longrightarrow> l = g" if "l \<in> set (db_sessions s)"
    proof
      assume "gs_user l = gs_user g"
      then show "l = g"
        by (rule unique_docs_eq [OF _ that g, rotated]) (use assms(2) in \<open>simp add: unique_db_def\<close>)
    qed
    moreover have "(e, l) \<in> set rs \<longleftrightarrow> e \<in> set (checkpoint_entries M es) \<and> ver e = Renewed l"
      unfolding rs set_renewals by auto
    then have "(e, l) \<in> set rs \<longleftrightarrow> e \<in> set (checkpoint_entries M es) \<and> l \<in> set (db_sessions s) \<and> goes_on s l e"
      using ver by blast
    moreover have "goes_on s g e \<Longrightarrow> hits g g" by (simp add: goes_on_def hits_def)
    moreover have "hits l g \<Longrightarrow> gs_user l = gs_user g" by (simp add: hits_def)
    ultimately show ?thesis using g by blast
  qed
  show "\<exists>f c. t = s\<lparr>db_players := map f (db_players s), db_sessions := map c (db_sessions s)\<rparr>
      \<and> (\<forall>p. player_moved p (f p))
      \<and> (\<forall>g\<in>set (db_sessions s). if \<exists>e\<in>set (checkpoint_entries M es). goes_on s g e
           then \<exists>e\<in>set (checkpoint_entries M es). goes_on s g e \<and> c g = renewed H now e g else c g = g)"
  proof (intro exI [of _ f] exI [of _ "renewing H now rs"] conjI ballI allI)
    fix g assume g: "g \<in> set (db_sessions s)"
    show "if \<exists>e\<in>set (checkpoint_entries M es). goes_on s g e
        then \<exists>e\<in>set (checkpoint_entries M es). goes_on s g e \<and> renewing H now rs g = renewed H now e g
        else renewing H now rs g = g"
      using renewing_last [of rs g H now]
    proof (elim disjE conjE bexE)
      assume none: "\<forall>(e, l)\<in>set rs. \<not> hits l g" and eq: "renewing H now rs g = g"
      have "\<not> goes_on s g e" if "e \<in> set (checkpoint_entries M es)" for e
        using none hit [OF g, of e g] that by blast
      with eq show ?thesis by simp
    next
      fix el assume "el \<in> set rs" "case el of (e, l) \<Rightarrow> hits l g \<and> renewing H now rs g = renewed H now e g"
      then obtain e l where e: "(e, l) \<in> set rs" "hits l g" "renewing H now rs g = renewed H now e g" by auto
      then have "e \<in> set (checkpoint_entries M es) \<and> goes_on s g e" using hit [OF g, of e l] by blast
      with e(3) show ?thesis by auto
    qed
  qed (use t f in simp_all)
  have "ended = endings (map (\<lambda>e. (e, ver e)) (checkpoint_entries M es))"
    using assms(3) by (simp add: checkpointSessions_def Let_def ver_def us_def
        collection.find_docs [OF lawful_mongoD(2) [OF assms(1)]] collection.find_docs [OF lawful_mongoD(10) [OF assms(1)]])
  then have "map fst ended = map ce_playerId (filter (\<lambda>e. \<forall>g. ver e \<noteq> Renewed g) (checkpoint_entries M es))"
    by (simp add: map_fst_endings filter_map comp_def)
  also have "filter (\<lambda>e. \<forall>g. ver e \<noteq> Renewed g) (checkpoint_entries M es)
      = filter (\<lambda>e. \<forall>g\<in>set (db_sessions s). \<not> goes_on s g e) (checkpoint_entries M es)"
    by (rule filter_cong [OF refl]) (auto simp: ver)
  finally show "map fst ended = map ce_playerId (filter (\<lambda>e. \<forall>g\<in>set (db_sessions s). \<not> goes_on s g e) (checkpoint_entries M es))" .
qed

definition sample_checkpoint :: "checkpoint_entry list" where
  "sample_checkpoint = [
     \<lparr>ce_playerId = pid1, ce_accountId = uid1, ce_epoch = 1, ce_mapCode = ''m2'', ce_position = Undefined, ce_health = Undefined\<rparr>,
     \<lparr>ce_playerId = pid2, ce_accountId = uid2, ce_epoch = 2, ce_mapCode = ''m3'', ce_position = Undefined, ce_health = Undefined\<rparr>]"

lemma checkpoint_renews_witness:
  "map fst (fst (checkpointSessions sample_host ref_mongo 50 sample_checkpoint sample_db)) = [pid2]"
proof -
  obtain e t where et: "checkpointSessions sample_host ref_mongo 50 sample_checkpoint sample_db = (e, t)" by force
  have "map ce_playerId (filter (\<lambda>e. list_all (\<lambda>g. \<not> (gs_user g = ce_accountId e \<and> gs_player g = ce_playerId e
      \<and> gs_epoch g = ce_epoch e \<and> gs_endedBy g = None
      \<and> list_ex (\<lambda>u. us_id u = gs_user g \<and> gs_accountSession g \<in> set (us_activeSessions u)) (db_users sample_db)))
      (db_sessions sample_db)) (checkpoint_entries ref_mongo sample_checkpoint)) = [pid2]" by code_simp
  then have "map ce_playerId (filter (\<lambda>e. \<forall>g\<in>set (db_sessions sample_db). \<not> goes_on sample_db g e)
      (checkpoint_entries ref_mongo sample_checkpoint)) = [pid2]"
    by (simp add: list_all_iff list_ex_iff goes_on_def)
  with checkpoint_renews [OF lawful_ref_mongo unique_sample_db et] et show ?thesis by simp
qed

end
