(* ===== verification/Admin.thy ===== *)
theory Admin imports Sessions "HOL-Library.Option_ord" "HOL-Library.Product_Lexorder" begin

text \<open>
  The operator view of profiles and their sessions, from
  \<open>src/projects/cyberia/player/player-admin.js\<close>: the session a lease names, pages of profiles with a
  cursor, the detail of a profile and its audit trail.

  Ids and texts are ordered by their units, a missing time before every time, as the database sorts
  them; a comparison with a time matches no missing one. The page size of a request is what
  \<open>Number.parseInt\<close> reads of it, none when that is no number. The time a document was created is kept
  for the audit only.
\<close>

section \<open>Pages\<close>

definition PAGE_DEFAULT :: int where "PAGE_DEFAULT = 25"
definition PAGE_MAX :: int where "PAGE_MAX = 50"
definition SEARCH_ACCOUNTS :: nat where "SEARCH_ACCOUNTS = 200"
definition AUDIT_PAGE :: nat where "AUDIT_PAGE = 20"

text \<open>\<open>/^[0-9a-f]{24}$/i\<close>.\<close>

fun isId :: "js \<Rightarrow> bool" where
  "isId (Str s) = (length s = 24 \<and> list_all is_hex s)"
| "isId _ = False"

definition cursorOf :: "ms option \<Rightarrow> oid \<Rightarrow> string" where
  "cursorOf time i = int_string (case time of None \<Rightarrow> 0 | Some t \<Rightarrow> t) @ ''_'' @ i"

fun digits_value :: "nat \<Rightarrow> string \<Rightarrow> nat" where
  "digits_value n [] = n"
| "digits_value n (c # cs) = digits_value (10 * n + (of_char c - 48)) cs"

text \<open>What a cursor names: a time and an id, or nothing when it is malformed (then the page is the
first one). The parts after a second underscore are dropped, as the destructuring of the source does.\<close>

definition cursor_of_string :: "string \<Rightarrow> (ms \<times> oid) option" where
  "cursor_of_string after = (case split_at (CHR ''_'') after of
     t # i # _ \<Rightarrow> (if t \<noteq> '''' \<and> list_all is_digit t \<and> isId (Str i)
        then Some (int (digits_value 0 t), map to_lower i) else None)
   | _ \<Rightarrow> None)"

definition afterFilter :: "('d \<Rightarrow> ms option) \<Rightarrow> ('d \<Rightarrow> oid) \<Rightarrow> string \<Rightarrow> 'd \<Rightarrow> bool" where
  "afterFilter time oid_of after d = (case cursor_of_string after of
     None \<Rightarrow> True
   | Some (t, i) \<Rightarrow> (case time d of None \<Rightarrow> False | Some tm \<Rightarrow> tm < t \<or> tm = t \<and> oid_of d < i))"

text \<open>\<open>sort({ [time]: -1, _id: -1 })\<close>.\<close>

definition newest_first :: "('d \<Rightarrow> ms option) \<Rightarrow> ('d \<Rightarrow> oid) \<Rightarrow> 'd list \<Rightarrow> 'd list" where
  "newest_first time oid_of ds = rev (sort_key (\<lambda>d. (time d, oid_of d)) ds)"

section \<open>Sessions as an operator sees them\<close>

record session_view =
  vw_instanceCode :: string
  vw_serverId :: string
  vw_mapCode :: string
  vw_epoch :: int
  vw_startedAt :: ms
  vw_expiresAt :: ms
  vw_live :: bool
  vw_ended :: bool
  vw_health :: "health option"

definition sessionOf :: "game_session option \<Rightarrow> player \<Rightarrow> ms \<Rightarrow> session_view option" where
  "sessionOf lease profile now = (case lease of None \<Rightarrow> None | Some l \<Rightarrow>
     if gs_player l \<noteq> pl_id profile \<or> gs_epoch l \<noteq> pl_epoch profile then None
     else Some \<lparr>vw_instanceCode = gs_instanceCode l, vw_serverId = gs_serverId l, vw_mapCode = gs_mapCode l,
        vw_epoch = gs_epoch l, vw_startedAt = gs_startedAt l, vw_expiresAt = gs_expiresAt l,
        vw_live = (now < gs_expiresAt l \<and> gs_endedBy l = None), vw_ended = (gs_endedBy l \<noteq> None),
        vw_health = (if he_at (gs_health l) = None then None else Some (gs_health l))\<rparr>)"

definition is_live :: "game_session option \<Rightarrow> player \<Rightarrow> ms \<Rightarrow> bool" where
  "is_live lease profile now = (case sessionOf lease profile now of None \<Rightarrow> False | Some v \<Rightarrow> vw_live v)"

definition statusOf :: "session_view option \<Rightarrow> string" where
  "statusOf v = (case v of None \<Rightarrow> ''offline'' | Some w \<Rightarrow>
     if \<not> vw_live w then ''offline''
     else if (case vw_health w of None \<Rightarrow> False | Some h \<Rightarrow> he_closing h) then ''closing'' else ''online'')"

record player_row =
  row_id :: oid
  row_accountId :: oid
  row_username :: string
  row_universeCode :: string
  row_lastPlayedAt :: "ms option"
  row_epoch :: int
  row_commitSeq :: int
  row_revision :: int
  row_schemaVersion :: int
  row_coins :: int
  row_xp :: int
  row_status :: string
  row_session :: "session_view option"

definition rowOf :: "player \<Rightarrow> user option \<Rightarrow> game_session option \<Rightarrow> ms \<Rightarrow> player_row" where
  "rowOf p account lease now = \<lparr>row_id = pl_id p, row_accountId = pl_user p,
     row_username = (case account of None \<Rightarrow> '''' | Some u \<Rightarrow> us_username u), row_universeCode = pl_universeCode p,
     row_lastPlayedAt = pl_lastPlayedAt p, row_epoch = pl_epoch p, row_commitSeq = pl_commitSeq p,
     row_revision = pl_revision p, row_schemaVersion = pl_schemaVersion p, row_coins = pl_coins p, row_xp = pl_xp p,
     row_status = statusOf (sessionOf lease p now), row_session = sessionOf lease p now\<rparr>"

section \<open>The page of profiles\<close>

record player_query =
  qy_q :: string
  qy_universeCode :: string
  qy_status :: string
  qy_after :: string
  qy_limit :: "int option"

definition page_size :: "int option \<Rightarrow> nat" where
  "page_size limit = nat (min PAGE_MAX (max 1 (case limit of None \<Rightarrow> PAGE_DEFAULT | Some n \<Rightarrow> if n = 0 then PAGE_DEFAULT else n)))"

text \<open>The accounts a search names, none for no search. The pattern of the source is a prefix, in any case.\<close>

definition searchedAccounts :: "mongo \<Rightarrow> string \<Rightarrow> db \<Rightarrow> oid list option" where
  "searchedAccounts M q s = (let txt = trim q in
     if txt = '''' then None
     else if isId (Str txt) then Some [map to_lower txt]
     else Some (map us_id (take SEARCH_ACCOUNTS (drv_find (mg_users M)
        (\<lambda>u. length txt \<le> length (us_username u)
           \<and> map to_lower (take (length txt) (us_username u)) = map to_lower txt \<and> us_role u \<noteq> ''guest'') (db_users s)))))"

definition player_filter :: "mongo \<Rightarrow> ms \<Rightarrow> player_query \<Rightarrow> db \<Rightarrow> player \<Rightarrow> bool" where
  "player_filter M now qy s p \<longleftrightarrow>
     afterFilter pl_lastPlayedAt pl_id (qy_after qy) p
     \<and> (case searchedAccounts M (qy_q qy) s of None \<Rightarrow> True | Some us \<Rightarrow> pl_user p \<in> set us)
     \<and> (qy_universeCode qy = '''' \<or> pl_universeCode p = qy_universeCode qy)
     \<and> (qy_status qy \<in> {''online'', ''closing''} \<longrightarrow>
          pl_id p \<in> set (map gs_player (drv_find (mg_sessions M)
            (\<lambda>g. now < gs_expiresAt g \<and> gs_endedBy g = None \<and> he_closing (gs_health g) = (qy_status qy = ''closing''))
            (db_sessions s))))"

text \<open>The answer of \<open>new Map(rows.map(...)).get(key)\<close>: the last row of the key.\<close>

definition last_of :: "('r \<Rightarrow> 'k) \<Rightarrow> 'k \<Rightarrow> 'r list \<Rightarrow> 'r option" where
  "last_of key k rows = List.find (\<lambda>r. key r = k) (rev rows)"

definition listPlayers :: "mongo \<Rightarrow> ms \<Rightarrow> player_query \<Rightarrow> db \<Rightarrow> player_row list \<times> string" where
  "listPlayers M now qy s =
     (let size = page_size (qy_limit qy);
          profiles = take (size + 1) (newest_first pl_lastPlayedAt pl_id
             (drv_find (mg_players M) (player_filter M now qy s) (db_players s)));
          rows = take size profiles; users = map pl_user rows;
          names = drv_find (mg_users M) (\<lambda>u. us_id u \<in> set users) (db_users s);
          leases = drv_find (mg_sessions M) (\<lambda>g. gs_user g \<in> set users) (db_sessions s)
      in (map (\<lambda>p. rowOf p (last_of us_id (pl_user p) names) (last_of gs_user (pl_user p) leases) now) rows,
          if size < length profiles then cursorOf (pl_lastPlayedAt (last rows)) (pl_id (last rows)) else ''''))"

section \<open>The detail of a profile and its audit\<close>

record world_view =
  wv_instanceCode :: string
  wv_mapCode :: string
  wv_positionAt :: "ms option"
  wv_vaults :: nat
  wv_held :: nat
  wv_active :: nat
  wv_completed :: nat

record player_detail =
  dt_row :: player_row
  dt_role :: string
  dt_restriction :: "restriction option"
  dt_schemaCurrent :: bool
  dt_bag :: nat
  dt_storage :: nat
  dt_held :: nat
  dt_worlds :: "world_view list"

definition playerDetail :: "mongo \<Rightarrow> ms \<Rightarrow> js \<Rightarrow> db \<Rightarrow> error + player_detail" where
  "playerDetail M now pid s =
     (if \<not> isId pid then Inl (http_error ''A profile id is 24 hexadecimal characters'' 400)
      else case findById M (map to_lower (jstr pid)) s of
          None \<Rightarrow> Inl (http_error ''No such profile'' 404)
        | Some p \<Rightarrow>
            let account = drv_find_one (mg_users M) (\<lambda>u. us_id u = pl_user p) (db_users s);
                quests = drv_find (mg_quests M) (\<lambda>q. qu_player q = pl_id p) (db_quests s);
                questsOf = (\<lambda>code status. length (filter (\<lambda>q. qu_instanceCode q = code \<and> qu_status q = status) quests))
            in Inr \<lparr>dt_row = rowOf p account (leaseOf M (pl_user p) s) now,
                 dt_role = (case account of None \<Rightarrow> '''' | Some u \<Rightarrow> us_role u),
                 dt_restriction = restrictionOf account now, dt_schemaCurrent = (pl_schemaVersion p = PLAYER_SCHEMA_VERSION),
                 dt_bag = length (pl_bag p), dt_storage = length (pl_storage p), dt_held = length (pl_held p),
                 dt_worlds = map (\<lambda>w. \<lparr>wv_instanceCode = wo_instanceCode w, wv_mapCode = po_mapCode (wo_position w),
                    wv_positionAt = po_at (wo_position w), wv_vaults = length (wo_vaults w), wv_held = length (wo_held w),
                    wv_active = questsOf (wo_instanceCode w) ''active'',
                    wv_completed = questsOf (wo_instanceCode w) ''completed''\<rparr>) (pl_worlds p)\<rparr>)"

definition playerAudit :: "mongo \<Rightarrow> js \<Rightarrow> string \<Rightarrow> db \<Rightarrow> error + (audit \<times> string) list \<times> string" where
  "playerAudit M pid after s =
     (if \<not> isId pid then Inl (http_error ''A profile id is 24 hexadecimal characters'' 400)
      else let records = take (AUDIT_PAGE + 1) (newest_first (\<lambda>a. Some (au_createdAt a)) au_id
               (drv_find (mg_audits M) (\<lambda>a. au_player a = map to_lower (jstr pid)
                  \<and> afterFilter (\<lambda>a. Some (au_createdAt a)) au_id after a) (db_audits s)));
             rows = take AUDIT_PAGE records
        in Inr (map (\<lambda>a. (a, case drv_find_one (mg_users M) (\<lambda>u. us_id u = au_actor a) (db_users s) of
                   None \<Rightarrow> '''' | Some u \<Rightarrow> us_username u)) rows,
             if AUDIT_PAGE < length records then cursorOf (Some (au_createdAt (last rows))) (au_id (last rows)) else ''''))"

section \<open>The cursor\<close>

lemma digits_value_append: "digits_value n (xs @ [c]) = 10 * digits_value n xs + (of_char c - 48)"
  by (induction xs arbitrary: n) simp_all

lemma digits_value_nat_string: "digits_value 0 (nat_string n) = n"
proof (induction n rule: nat_string.induct)
  case (1 n)
  show ?case
  proof (cases "n < 10")
    case True
    then show ?thesis by (simp add: nat_string.simps [of n] of_char_digit)
  next
    case False
    then have "digits_value 0 (nat_string n) = 10 * (n div 10) + (of_char (digit (n mod 10)) - 48)"
      using 1 by (simp add: nat_string.simps [of n] digits_value_append)
    then show ?thesis by (simp add: of_char_digit)
  qed
qed

lemma split_at_other: "c \<notin> set a \<Longrightarrow> split_at c a = [a]"
  by (induction a) auto

lemma split_at_append: "c \<notin> set a \<Longrightarrow> split_at c (a @ c # b) = a # split_at c b"
  by (induction a) auto

lemma underscore_no_digit: "list_all is_digit a \<Longrightarrow> CHR ''_'' \<notin> set a" "list_all is_hex a \<Longrightarrow> CHR ''_'' \<notin> set a"
  by (auto simp: list_all_iff is_digit_def is_hex_def)

text \<open>The id of a document prints as lower case hexadecimal digits.\<close>

definition canonical_id :: "oid \<Rightarrow> bool" where
  "canonical_id i \<longleftrightarrow> isId (Str i) \<and> map to_lower i = i"

lemma cursor_roundtrip:
  assumes "0 \<le> t" "canonical_id i"
  shows "cursor_of_string (cursorOf (Some t) i) = Some (t, i)"
proof -
  have d: "list_all is_digit (nat_string (nat t))" using nat_string_digits by (simp add: list_all_iff)
  have i: "length i = 24" "list_all is_hex i" "map to_lower i = i" using assms(2) by (simp_all add: canonical_id_def)
  have "split_at (CHR ''_'') (nat_string (nat t) @ CHR ''_'' # i) = [nat_string (nat t), i]"
    using underscore_no_digit(1) [OF d] underscore_no_digit(2) [OF i(2)]
    by (simp add: split_at_append split_at_other)
  then show ?thesis
    using assms(1) d i by (simp add: cursor_of_string_def cursorOf_def int_string_def digits_value_nat_string)
qed

lemma cursor_empty [simp]: "cursor_of_string '''' = None" "afterFilter time oid_of '''' d"
  by (simp_all add: cursor_of_string_def afterFilter_def)

lemma cursorOf_nonempty [simp]: "cursorOf time i \<noteq> ''''"
  by (simp add: cursorOf_def)

section \<open>Pages cover the rows\<close>

definition row_key :: "('d \<Rightarrow> ms option) \<Rightarrow> ('d \<Rightarrow> oid) \<Rightarrow> 'd \<Rightarrow> ms option \<times> oid" where
  "row_key time oid_of d = (time d, oid_of d)"

lemma afterFilter_less:
  assumes "time x = Some t" "0 \<le> t" "canonical_id (oid_of x)" "time d \<noteq> None"
  shows "afterFilter time oid_of (cursorOf (time x) (oid_of x)) d \<longleftrightarrow> row_key time oid_of d < row_key time oid_of x"
  using assms cursor_roundtrip [of t "oid_of x"]
  by (auto simp: afterFilter_def row_key_def less_prod_def)

lemma newest_first_filter: "newest_first time oid_of (filter P ds) = filter P (newest_first time oid_of ds)"
  by (simp add: newest_first_def filter_sort [symmetric] rev_filter)

lemma set_newest_first [simp]: "set (newest_first time oid_of ds) = set ds"
  by (simp add: newest_first_def)

lemma newest_first_sorted:
  assumes "distinct (map oid_of ds)"
  shows "sorted_wrt (\<lambda>a b. row_key time oid_of b < row_key time oid_of a) (newest_first time oid_of ds)"
proof -
  have "mset (map (\<lambda>d. (time d, oid_of d)) (sort_key (\<lambda>d. (time d, oid_of d)) ds)) = mset (map (\<lambda>d. (time d, oid_of d)) ds)"
    by simp
  moreover have "distinct (map (\<lambda>d. (time d, oid_of d)) ds)"
    using assms by (auto simp: distinct_map inj_on_def)
  ultimately have "distinct (map (\<lambda>d. (time d, oid_of d)) (sort_key (\<lambda>d. (time d, oid_of d)) ds))"
    by (metis mset_eq_imp_distinct_iff)
  then have "sorted_wrt (<) (map (\<lambda>d. (time d, oid_of d)) (sort_key (\<lambda>d. (time d, oid_of d)) ds))"
    by (simp add: strict_sorted_iff)
  then show ?thesis
    by (simp add: newest_first_def sorted_wrt_rev sorted_wrt_map row_key_def)
qed

lemma filter_below:
  assumes "sorted_wrt (\<lambda>a b. r b < (r a :: 'k :: linorder)) xs" "k < length xs"
  shows "filter (\<lambda>d. r d < r (xs ! k)) xs = drop (Suc k) xs"
  using assms
proof (induction xs arbitrary: k)
  case (Cons x xs)
  show ?case
  proof (cases k)
    case 0
    with Cons.prems(1) show ?thesis by (simp add: filter_id_conv)
  next
    case (Suc j)
    with Cons have "filter (\<lambda>d. r d < r (xs ! j)) xs = drop (Suc j) xs" by simp
    moreover have "r (xs ! j) < r x" using Cons.prems Suc by simp
    ultimately show ?thesis using Suc by auto
  qed
qed simp

definition cursor_at :: "('d \<Rightarrow> ms option) \<Rightarrow> ('d \<Rightarrow> oid) \<Rightarrow> 'd list \<Rightarrow> nat \<Rightarrow> string" where
  "cursor_at time oid_of xs k = (if k = 0 then '''' else cursorOf (time (xs ! (k - 1))) (oid_of (xs ! (k - 1))))"

lemma page_after:
  assumes "distinct (map oid_of ds)" "\<forall>d\<in>set ds. canonical_id (oid_of d) \<and> (\<exists>t\<ge>0. time d = Some t)"
    and "k \<le> length (newest_first time oid_of ds)"
  shows "newest_first time oid_of (filter (afterFilter time oid_of (cursor_at time oid_of (newest_first time oid_of ds) k)) ds)
    = drop k (newest_first time oid_of ds)"
proof (cases k)
  case 0
  then show ?thesis by (simp add: cursor_at_def)
next
  case (Suc j)
  let ?xs = "newest_first time oid_of ds"
  have j: "j < length ?xs" using assms(3) Suc by simp
  then have "?xs ! j \<in> set ds" using nth_mem by fastforce
  then obtain t where t: "time (?xs ! j) = Some t" "0 \<le> t" "canonical_id (oid_of (?xs ! j))"
    using assms(2) by blast
  have "filter (afterFilter time oid_of (cursor_at time oid_of ?xs k)) ?xs
      = filter (\<lambda>d. row_key time oid_of d < row_key time oid_of (?xs ! j)) ?xs"
  proof (rule filter_cong [OF refl])
    fix d assume "d \<in> set ?xs"
    then have "time d \<noteq> None" using assms(2) by fastforce
    from afterFilter_less [of time "?xs ! j" t oid_of d, OF t this]
    show "afterFilter time oid_of (cursor_at time oid_of ?xs k) d
      \<longleftrightarrow> row_key time oid_of d < row_key time oid_of (?xs ! j)"
      by (simp add: cursor_at_def Suc)
  qed
  also have "\<dots> = drop (Suc j) ?xs"
    by (rule filter_below [OF newest_first_sorted [OF assms(1)] j])
  finally show ?thesis by (simp add: newest_first_filter Suc)
qed

text \<open>All the pages of a query from a cursor on, with the number of pages as fuel.\<close>

fun all_pages :: "nat \<Rightarrow> mongo \<Rightarrow> ms \<Rightarrow> player_query \<Rightarrow> db \<Rightarrow> player_row list" where
  "all_pages 0 M now qy s = []"
| "all_pages (Suc n) M now qy s = (case listPlayers M now qy s of (rows, cursor) \<Rightarrow>
     if cursor = '''' then rows else rows @ all_pages n M now (qy\<lparr>qy_after := cursor\<rparr>) s)"

lemma page_size_pos: "0 < page_size limit"
  by (simp add: page_size_def PAGE_MAX_def)

lemma listPlayers_page:
  assumes M: "lawful_mongo M" and qy: "qy_after qy = cursor_at pl_lastPlayedAt pl_id xs k"
    and xs: "xs = newest_first pl_lastPlayedAt pl_id (filter (player_filter M now (qy\<lparr>qy_after := ''''\<rparr>) s) (db_players s))"
    and u: "distinct (map pl_id (db_players s))" and k: "k \<le> length xs"
    and ids: "\<forall>p\<in>set (db_players s). canonical_id (pl_id p) \<and> (\<exists>t\<ge>0. pl_lastPlayedAt p = Some t)"
  shows "map row_id (fst (listPlayers M now qy s)) = map pl_id (take (page_size (qy_limit qy)) (drop k xs))
    \<and> snd (listPlayers M now qy s) = (if page_size (qy_limit qy) < length (drop k xs)
        then cursor_at pl_lastPlayedAt pl_id xs (k + page_size (qy_limit qy)) else '''')"
proof -
  let ?ds = "filter (player_filter M now (qy\<lparr>qy_after := ''''\<rparr>) s) (db_players s)" and ?n = "page_size (qy_limit qy)"
  have "player_filter M now qy s p \<longleftrightarrow> player_filter M now (qy\<lparr>qy_after := ''''\<rparr>) s p
      \<and> afterFilter pl_lastPlayedAt pl_id (qy_after qy) p" for p
    by (auto simp: player_filter_def)
  then have "filter (player_filter M now qy s) (db_players s) = filter (afterFilter pl_lastPlayedAt pl_id (qy_after qy)) ?ds"
    by (simp add: filter_filter cong: conj_cong) (rule filter_cong; auto)
  moreover have "newest_first pl_lastPlayedAt pl_id (filter (afterFilter pl_lastPlayedAt pl_id (qy_after qy)) ?ds) = drop k xs"
    unfolding qy xs using u ids k by (intro page_after) (simp_all add: distinct_map_filter xs)
  ultimately have d: "newest_first pl_lastPlayedAt pl_id (filter (player_filter M now qy s) (db_players s)) = drop k xs"
    by simp
  have l: "last (take ?n (take (?n + 1) (drop k xs))) = xs ! (k + ?n - 1)" if "?n < length (drop k xs)"
    using that page_size_pos [of "qy_limit qy"] by (simp add: last_conv_nth min_def)
  show ?thesis
    using l page_size_pos [of "qy_limit qy"]
    by (auto simp: listPlayers_def Let_def collection.find_docs [OF lawful_mongoD(1) [OF M]] d rowOf_def comp_def
        cursor_at_def min_def)
qed

lemma all_pages_from:
  assumes M: "lawful_mongo M"
    and u: "distinct (map pl_id (db_players s))"
    and ids: "\<forall>p\<in>set (db_players s). canonical_id (pl_id p) \<and> (\<exists>t\<ge>0. pl_lastPlayedAt p = Some t)"
    and xs: "xs = newest_first pl_lastPlayedAt pl_id (filter (player_filter M now (qy\<lparr>qy_after := ''''\<rparr>) s) (db_players s))"
  shows "k \<le> length xs \<Longrightarrow> length xs < k + n \<Longrightarrow>
    map row_id (all_pages n M now (qy\<lparr>qy_after := cursor_at pl_lastPlayedAt pl_id xs k\<rparr>) s) = map pl_id (drop k xs)"
proof (induction n arbitrary: k)
  case (Suc n)
  let ?q = "qy\<lparr>qy_after := cursor_at pl_lastPlayedAt pl_id xs k\<rparr>" and ?n = "page_size (qy_limit qy)"
  have p: "map row_id (fst (listPlayers M now ?q s)) = map pl_id (take ?n (drop k xs))"
    "snd (listPlayers M now ?q s) = (if ?n < length (drop k xs) then cursor_at pl_lastPlayedAt pl_id xs (k + ?n) else '''')"
    using listPlayers_page [OF M, where qy = ?q and xs = xs and k = k and s = s and now = now] u ids Suc.prems(1) by (simp_all add: xs)
  show ?case
  proof (cases "?n < length (drop k xs)")
    case True
    have "cursor_at pl_lastPlayedAt pl_id xs (k + ?n) \<noteq> ''''"
      using page_size_pos [of "qy_limit qy"] by (simp add: cursor_at_def)
    moreover have "map row_id (all_pages n M now (qy\<lparr>qy_after := cursor_at pl_lastPlayedAt pl_id xs (k + ?n)\<rparr>) s)
        = map pl_id (drop (k + ?n) xs)"
      using Suc.prems True page_size_pos [of "qy_limit qy"] by (intro Suc.IH) simp_all
    moreover have "map pl_id (drop k xs) = map pl_id (take ?n (drop k xs)) @ map pl_id (drop (k + ?n) xs)"
      using append_take_drop_id [of ?n "drop k xs"] by (metis add.commute drop_drop map_append)
    ultimately show ?thesis using True p by (auto split: prod.splits)
  next
    case False
    then show ?thesis using p by (auto split: prod.splits)
  qed
qed simp

text \<open>C21: the pages of profiles cover a query: following the cursor from the first page to the last lists
exactly the profiles that match, each once, the last played first, whatever the page size, and it ends
within one page more than there are profiles.\<close>

theorem pages_cover:
  assumes "lawful_mongo M" "unique_db s"
    and "\<forall>p\<in>set (db_players s). canonical_id (pl_id p) \<and> (\<exists>t\<ge>0. pl_lastPlayedAt p = Some t)"
    and "qy_after qy = ''''" "length (db_players s) < n"
  shows "map row_id (all_pages n M now qy s)
    = map pl_id (newest_first pl_lastPlayedAt pl_id (filter (player_filter M now qy s) (db_players s)))"
proof -
  define xs where "xs = newest_first pl_lastPlayedAt pl_id (filter (player_filter M now qy s) (db_players s))"
  have q: "qy\<lparr>qy_after := ''''\<rparr> = qy" using assms(4) by simp
  have "length xs \<le> length (db_players s)" by (simp add: xs_def newest_first_def)
  with assms(5) have "length xs < 0 + n" by simp
  from all_pages_from [OF assms(1) _ assms(3), where xs = xs and k = 0 and n = n and qy = qy and now = now] this assms(2) q
  show ?thesis by (simp add: xs_def cursor_at_def unique_db_def unique_docs_def)
qed

lemma pages_cover_witness:
  "let s = sample_db\<lparr>db_players := map (\<lambda>p. p\<lparr>pl_lastPlayedAt := Some 7\<rparr>) (db_players sample_db)\<rparr>;
       qy = \<lparr>qy_q = '''', qy_universeCode = ''u1'', qy_status = '''', qy_after = '''', qy_limit = Some 1\<rparr>
   in map row_id (all_pages 3 ref_mongo 50 qy s) = [pid2, pid1]"
proof -
  let ?s = "sample_db\<lparr>db_players := map (\<lambda>p. p\<lparr>pl_lastPlayedAt := Some 7\<rparr>) (db_players sample_db)\<rparr>"
  let ?q = "\<lparr>qy_q = '''', qy_universeCode = ''u1'', qy_status = '''', qy_after = '''', qy_limit = Some 1\<rparr>"
  have "unique_db ?s" using unique_sample_db by (simp add: unique_db_def unique_docs_def)
  moreover have "canonical_id pid1" "canonical_id pid2" by code_simp+
  then have "\<forall>p\<in>set (db_players ?s). canonical_id (pl_id p) \<and> (\<exists>t\<ge>0. pl_lastPlayedAt p = Some t)" by simp
  ultimately have "map row_id (all_pages 3 ref_mongo 50 ?q ?s)
      = map pl_id (newest_first pl_lastPlayedAt pl_id (filter (player_filter ref_mongo 50 ?q ?s) (db_players ?s)))"
    by (intro pages_cover) simp_all
  also have "\<dots> = [pid2, pid1]" by code_simp
  finally show ?thesis unfolding Let_def .
qed

end
