(* ===== verification/Identity.thy ===== *)
theory Identity imports Prelude "HOL-Library.Word" begin

unbundle bit_operations_syntax

text \<open>
  The identity of content and of its token, from \<open>src/api/object-layer/object-layer.identity.js\<close>, the
  CID pattern of \<open>ObjectLayerProtocol.js\<close> and the identifiers of
  \<open>src/api/item-ledger/item-ledger.model.js\<close>: base32 text of bytes, the CID of a sha2-256 digest and
  back, the token id a CID derives to and the CID a token id represents.

  The coder keeps its bits in a number of 32 bits, as \<open><<\<close> and \<open>|\<close> of the language do, so older bits
  fall off the top; the lemmas show that no bit it still needs is lost.
\<close>

section \<open>Base32\<close>

definition BASE32_ALPHABET :: string where
  "BASE32_ALPHABET = ''abcdefghijklmnopqrstuvwxyz234567''"

definition alpha :: "32 word \<Rightarrow> char" where
  "alpha i = BASE32_ALPHABET ! unat (i AND 31)"

text \<open>The inner loop: every five bits the value holds beyond the last are one character.\<close>

fun emit5 :: "nat \<Rightarrow> 32 word \<Rightarrow> nat \<times> string" where
  "emit5 bits value = (if 5 \<le> bits then
     (case emit5 (bits - 5) value of (b, out) \<Rightarrow> (b, alpha (drop_bit (bits - 5) value) # out))
   else (bits, []))"

declare emit5.simps [simp del]

fun encode_bytes :: "nat \<Rightarrow> 32 word \<Rightarrow> 8 word list \<Rightarrow> string" where
  "encode_bytes bits value [] = (if 0 < bits then [alpha (push_bit (5 - bits) value)] else [])"
| "encode_bytes bits value (byte # bytes) =
     (let value' = push_bit 8 value OR ucast byte; (bits', out) = emit5 (bits + 8) value'
      in out @ encode_bytes bits' value' bytes)"

definition base32Encode :: "8 word list \<Rightarrow> string" where
  "base32Encode = encode_bytes 0 0"

fun decode_chars :: "nat \<Rightarrow> 32 word \<Rightarrow> string \<Rightarrow> string + 8 word list" where
  "decode_chars bits value [] = Inr []"
| "decode_chars bits value (c # cs) =
     (case find_index (\<lambda>d. d = c) BASE32_ALPHABET of
        None \<Rightarrow> Inl (''Invalid base32 character: '' @ [c])
      | Some index \<Rightarrow>
          (let value' = push_bit 5 value OR of_nat index; bits' = bits + 5
           in if 8 \<le> bits'
              then bindE (decode_chars (bits' - 8) value' cs)
                (\<lambda>out. Inr (ucast (drop_bit (bits' - 8) value' AND 255) # out))
              else decode_chars bits' value' cs))"

definition base32Decode :: "string \<Rightarrow> string + 8 word list" where
  "base32Decode = decode_chars 0 0"

text \<open>The coder as a regrouping of bits: the bits of a number, the first one first.\<close>

definition low_bits :: "nat \<Rightarrow> 'a::len word \<Rightarrow> bool list" where
  "low_bits n w = map (bit w) (rev [0..<n])"

definition byte_bits :: "8 word list \<Rightarrow> bool list" where
  "byte_bits bs = concat (map (low_bits 8) bs)"

definition char_bits :: "char \<Rightarrow> bool list" where
  "char_bits c = low_bits 5 (of_nat (the (find_index (\<lambda>d. d = c) BASE32_ALPHABET)) :: 32 word)"

lemma length_low_bits [simp]: "length (low_bits n w) = n"
  by (simp add: low_bits_def)

lemma low_bits_0 [simp]: "low_bits 0 w = []"
  by (simp add: low_bits_def)

lemma nth_low_bits: "i < n \<Longrightarrow> low_bits n w ! i = bit w (n - Suc i)"
  by (simp add: low_bits_def rev_nth)

lemma low_bits_split: "low_bits (m + n) w = low_bits m (drop_bit n w) @ low_bits n w"
  by (rule nth_equalityI) (auto simp: nth_low_bits nth_append bit_drop_bit_eq add.commute)

lemma low_bits_cong: "(\<And>i. i < n \<Longrightarrow> bit v i = bit w i) \<Longrightarrow> low_bits n v = low_bits n w"
  by (rule nth_equalityI) (auto simp: nth_low_bits)

lemma low_bits_push:
  fixes v u :: "32 word"
  assumes "m + n \<le> 32" "\<And>i. n \<le> i \<Longrightarrow> \<not> bit u i"
  shows "low_bits (m + n) (push_bit n v OR u) = low_bits m v @ low_bits n u"
proof -
  have "low_bits m (drop_bit n (push_bit n v OR u)) = low_bits m v"
    using assms by (intro low_bits_cong) (auto simp: bit_simps)
  moreover have "low_bits n (push_bit n v OR u) = low_bits n u"
    by (intro low_bits_cong) (auto simp: bit_simps)
  ultimately show ?thesis by (simp add: low_bits_split)
qed

lemma low_bits_inj:
  fixes v w :: "'a::len word"
  assumes "low_bits LENGTH('a) v = low_bits LENGTH('a) w"
  shows "v = w"
proof (rule bit_word_eqI)
  fix i assume i: "i < LENGTH('a)"
  then have "low_bits LENGTH('a) v ! (LENGTH('a) - Suc i) = low_bits LENGTH('a) w ! (LENGTH('a) - Suc i)"
    using assms by simp
  with i show "bit v i = bit w i" by (simp add: nth_low_bits)
qed

lemma find_index_nth: "distinct xs \<Longrightarrow> i < length xs \<Longrightarrow> find_index (\<lambda>d. d = xs ! i) xs = Some i"
proof (induction xs arbitrary: i)
  case (Cons x xs)
  then show ?case by (cases i) (auto simp: nth_mem)
qed simp

lemma alphabet [simp]: "length BASE32_ALPHABET = 32" "distinct BASE32_ALPHABET"
  by (simp_all add: BASE32_ALPHABET_def)

lemma and_31: "(w :: 32 word) AND 31 = take_bit 5 w"
  by (simp add: take_bit_eq_mask mask_numeral)

lemma alpha_index: "find_index (\<lambda>d. d = alpha w) BASE32_ALPHABET = Some (unat (w AND 31))"
proof -
  have "unat (w AND 31) < 32"
    using take_bit_nat_less_exp [of 5 "unat w"] by (simp add: and_31 unsigned_take_bit_eq)
  then show ?thesis by (simp add: alpha_def find_index_nth)
qed

lemma char_bits_alpha [simp]: "char_bits (alpha w) = low_bits 5 w"
  unfolding char_bits_def alpha_index and_31
  by (intro low_bits_cong) (simp add: bit_take_bit_iff)

lemma length_char_bits [simp]: "length (char_bits c) = 5"
  by (simp add: char_bits_def)

definition chars_bits :: "string \<Rightarrow> bool list" where
  "chars_bits cs = concat (map char_bits cs)"

lemma chars_bits_simps [simp]:
  "chars_bits [] = []" "chars_bits (c # cs) = char_bits c @ chars_bits cs"
  "chars_bits (cs @ ds) = chars_bits cs @ chars_bits ds"
  by (simp_all add: chars_bits_def)

lemma byte_bits_simps [simp]:
  "byte_bits [] = []" "byte_bits (b # bs) = low_bits 8 b @ byte_bits bs"
  "byte_bits (as @ bs) = byte_bits as @ byte_bits bs"
  by (simp_all add: byte_bits_def)

lemma emit5_bits:
  "emit5 bits v = (b, out) \<Longrightarrow> b < 5 \<and> low_bits bits v = chars_bits out @ low_bits b v"
proof (induction bits v arbitrary: b out rule: emit5.induct)
  case (1 bits v)
  show ?case
  proof (cases "5 \<le> bits")
    case False
    with "1.prems" show ?thesis by (simp add: emit5.simps [of bits])
  next
    case True
    then obtain rest where r: "emit5 (bits - 5) v = (b, rest)" "out = alpha (drop_bit (bits - 5) v) # rest"
      using "1.prems" by (auto simp: emit5.simps [of bits] split: prod.splits)
    have "low_bits bits v = low_bits 5 (drop_bit (bits - 5) v) @ low_bits (bits - 5) v"
      using low_bits_split [of 5 "bits - 5" v] True by simp
    with "1.IH" [OF True r(1)] r(2) show ?thesis by simp
  qed
qed

lemma ucast_bits: "low_bits 8 (ucast (w :: 8 word) :: 32 word) = low_bits 8 w"
  by (intro nth_equalityI) (auto simp: nth_low_bits bit_simps)

lemma encode_bytes_bits:
  "bits < 5 \<Longrightarrow> \<exists>k<5. chars_bits (encode_bytes bits v bs) = low_bits bits v @ byte_bits bs @ replicate k False"
proof (induction bits v bs rule: encode_bytes.induct)
  case (1 bits v)
  show ?case
  proof (cases "0 < bits")
    case True
    have "low_bits 5 (push_bit (5 - bits) v) = low_bits bits v @ replicate (5 - bits) False"
    proof -
      have "low_bits (bits + (5 - bits)) (push_bit (5 - bits) v OR 0) = low_bits bits v @ low_bits (5 - bits) (0 :: 32 word)"
        using 1 by (intro low_bits_push) auto
      moreover have "low_bits (5 - bits) (0 :: 32 word) = replicate (5 - bits) False"
        by (simp add: low_bits_def map_replicate_trivial list_eq_iff_nth_eq)
      ultimately show ?thesis using 1 by simp
    qed
    with True show ?thesis by (intro exI [of _ "5 - bits"]) simp
  qed (auto intro: exI [of _ 0])
next
  case (2 bits v byte bytes)
  define v' where "v' = push_bit 8 v OR ucast byte"
  obtain b out where e: "emit5 (bits + 8) v' = (b, out)" by force
  note eb = emit5_bits [OF e]
  obtain k where k: "k < 5"
    "chars_bits (encode_bytes b v' bytes) = low_bits b v' @ byte_bits bytes @ replicate k False"
    using "2.IH" [OF v'_def e [symmetric]] eb by auto
  have "low_bits (bits + 8) v' = low_bits bits v @ low_bits 8 byte"
    unfolding v'_def using "2.prems"
    by (subst low_bits_push) (auto simp: ucast_bits bit_simps dest: bit_imp_le_length)
  with k eb e show ?case
    by (intro exI [of _ k]) (simp add: v'_def [symmetric] Let_def)
qed

lemma find_index_Some_nth: "find_index (\<lambda>d. d = c) xs = Some i \<Longrightarrow> i < length xs \<and> xs ! i = c"
  using find_index_Some [of "\<lambda>d. d = c"] by fastforce

lemma ucast_byte_bits: "low_bits 8 (ucast ((w :: 32 word) AND 255) :: 8 word) = low_bits 8 w"
proof -
  have "(w AND 255) = take_bit 8 w" by (simp add: take_bit_eq_mask mask_numeral)
  then show ?thesis by (auto intro!: nth_equalityI simp: nth_low_bits bit_simps)
qed

lemma decode_chars_bits:
  "bits < 8 \<Longrightarrow> set cs \<subseteq> set BASE32_ALPHABET \<Longrightarrow>
    \<exists>bs r. decode_chars bits v cs = Inr bs \<and> length r < 8 \<and> low_bits bits v @ chars_bits cs = byte_bits bs @ r"
proof (induction cs arbitrary: bits v)
  case Nil
  then show ?case by (auto intro: exI [of _ "low_bits bits v"])
next
  case (Cons c cs)
  have c: "c \<in> set BASE32_ALPHABET" and cs: "set cs \<subseteq> set BASE32_ALPHABET" using Cons.prems(2) by simp_all
  obtain i where i: "find_index (\<lambda>d. d = c) BASE32_ALPHABET = Some i"
    using c find_index_None [of "\<lambda>d. d = c" BASE32_ALPHABET] by fastforce
  then have lt: "i < 32" using find_index_Some_nth alphabet(1) by metis
  define v' where "v' = push_bit 5 v OR (of_nat i :: 32 word)"
  have high: "\<not> bit (of_nat i :: 32 word) n" if "5 \<le> n" for n
  proof -
    have "i < 2 ^ n" using lt power_increasing [OF that, of "2 :: nat"] by simp
    then have "\<not> bit i n" by (simp add: bit_iff_odd)
    then show ?thesis by (simp add: bit_simps)
  qed
  have "char_bits c = low_bits 5 (of_nat i :: 32 word)" by (simp add: char_bits_def i)
  with Cons.prems(1) have b: "low_bits (bits + 5) v' = low_bits bits v @ char_bits c"
    unfolding v'_def by (subst low_bits_push) (auto simp: high)
  show ?case
  proof (cases "8 \<le> bits + 5")
    case False
    then obtain bs r where "decode_chars (bits + 5) v' cs = Inr bs" "length r < 8"
      "low_bits (bits + 5) v' @ chars_bits cs = byte_bits bs @ r"
      using Cons.IH [OF _ cs, of "bits + 5" v'] by auto
    with False show ?thesis by (intro exI [of _ bs] exI [of _ r]) (simp add: i v'_def [symmetric] b Let_def)
  next
    case True
    have "bits - 3 < 8" using Cons.prems(1) by linarith
    with Cons.IH [OF _ cs, of "bits - 3" v'] obtain bs r where d: "decode_chars (bits - 3) v' cs = Inr bs" "length r < 8"
      "low_bits (bits - 3) v' @ chars_bits cs = byte_bits bs @ r"
      by blast
    have e: "bits + 5 = 8 + (bits - 3)" using True by simp
    have s: "low_bits bits v @ char_bits c = low_bits 8 (drop_bit (bits - 3) v') @ low_bits (bits - 3) v'"
      using low_bits_split [of 8 "bits - 3" v'] b unfolding e by simp
    have "low_bits bits v @ chars_bits (c # cs)
        = low_bits 8 (drop_bit (bits - 3) v') @ low_bits (bits - 3) v' @ chars_bits cs"
      using s by (metis append.assoc chars_bits_simps(2))
    also have "\<dots> = byte_bits (ucast (drop_bit (bits - 3) v' AND 255) # bs) @ r"
      using d(3) by (simp add: ucast_byte_bits)
    finally have "low_bits bits v @ chars_bits (c # cs)
        = byte_bits (ucast (drop_bit (bits - 3) v' AND 255) # bs) @ r" .
    moreover have "decode_chars bits v (c # cs) = Inr (ucast (drop_bit (bits - 3) v' AND 255) # bs)"
      using True d(1) by (simp add: i v'_def [symmetric] Let_def)
    ultimately show ?thesis using d(2) by blast
  qed
qed

lemma length_byte_bits [simp]: "length (byte_bits bs) = 8 * length bs"
  by (induction bs) simp_all

lemma length_chars_bits [simp]: "length (chars_bits cs) = 5 * length cs"
  by (induction cs) simp_all

lemma byte_bits_unique:
  "byte_bits as @ q = byte_bits bs @ r \<Longrightarrow> length q < 8 \<Longrightarrow> length r < 8 \<Longrightarrow> as = bs \<and> q = r"
proof (induction as arbitrary: bs)
  case Nil
  then show ?case by (cases bs) auto
next
  case (Cons a as)
  then obtain b bs' where b: "bs = b # bs'" by (cases bs) auto
  with Cons.prems have l: "low_bits 8 a = low_bits 8 b" "byte_bits as @ q = byte_bits bs' @ r" by auto
  have "a = b" using low_bits_inj [of a b] l(1) by simp
  with Cons.IH [OF l(2)] Cons.prems b show ?case by simp
qed

lemma alpha_alphabet [simp]: "alpha w \<in> set BASE32_ALPHABET"
  using alpha_index [of w] find_index_Some_nth by (metis nth_mem)

lemma emit5_alphabet: "emit5 bits v = (b, out) \<Longrightarrow> set out \<subseteq> set BASE32_ALPHABET"
proof (induction bits v arbitrary: b out rule: emit5.induct)
  case (1 bits v)
  then show ?case
    by (cases "5 \<le> bits") (auto simp: emit5.simps [of bits] split: prod.splits)
qed

lemma encode_bytes_alphabet: "set (encode_bytes bits v bs) \<subseteq> set BASE32_ALPHABET"
proof (induction bs arbitrary: bits v)
  case (Cons byte bytes)
  obtain b out where e: "emit5 (bits + 8) (push_bit 8 v OR ucast byte) = (b, out)" by force
  then show ?case using emit5_alphabet [OF e] Cons.IH by (simp add: Let_def)
qed auto

lemma base32Encode_bits: "\<exists>k<5. chars_bits (base32Encode bs) = byte_bits bs @ replicate k False"
  using encode_bytes_bits [of 0 0 bs] by (simp add: base32Encode_def)

lemma base32Decode_bits:
  "set cs \<subseteq> set BASE32_ALPHABET \<Longrightarrow>
    \<exists>bs r. base32Decode cs = Inr bs \<and> length r < 8 \<and> chars_bits cs = byte_bits bs @ r"
  using decode_chars_bits [of 0 cs 0] by (simp add: base32Decode_def)

lemma base32_roundtrip: "base32Decode (base32Encode bs) = Inr bs"
proof -
  obtain k where k: "k < 5" "chars_bits (base32Encode bs) = byte_bits bs @ replicate k False"
    using base32Encode_bits by blast
  have "set (base32Encode bs) \<subseteq> set BASE32_ALPHABET" by (simp add: base32Encode_def encode_bytes_alphabet)
  from base32Decode_bits [OF this] obtain bs' r where
    "base32Decode (base32Encode bs) = Inr bs'" "length r < 8" "chars_bits (base32Encode bs) = byte_bits bs' @ r"
    by blast
  with k byte_bits_unique [of bs' r bs "replicate k False"] show ?thesis by simp
qed

section \<open>Digits\<close>

definition hexit :: "nat \<Rightarrow> char" where
  "hexit d = (if d < 10 then digit d else char_of (87 + d))"

definition hex_value :: "char \<Rightarrow> nat option" where
  "hex_value c = (let k = of_char c :: nat in
     if 48 \<le> k \<and> k \<le> 57 then Some (k - 48) else if 97 \<le> k \<and> k \<le> 102 then Some (k - 87)
     else if 65 \<le> k \<and> k \<le> 70 then Some (k - 55) else None)"

definition lower_hex :: "char \<Rightarrow> bool" where
  "lower_hex c \<longleftrightarrow> is_digit c \<or> (97 \<le> (of_char c :: nat) \<and> (of_char c :: nat) \<le> 102)"

text \<open>\<open>BigInt(text)\<close>: white space, then digits in one of the bases of the language.\<close>

fun radix_value :: "nat \<Rightarrow> nat \<Rightarrow> string \<Rightarrow> nat option" where
  "radix_value b acc [] = Some acc"
| "radix_value b acc (c # cs) = (case hex_value c of None \<Rightarrow> None
     | Some d \<Rightarrow> if d < b then radix_value b (acc * b + d) cs else None)"

definition digits_of :: "nat \<Rightarrow> string \<Rightarrow> nat option" where
  "digits_of b cs = (if cs = [] then None else radix_value b 0 cs)"

definition bigint_value :: "string \<Rightarrow> int option" where
  "bigint_value s = (let t = trim s in
     if t = '''' then Some 0
     else if take 2 t \<in> set [''0x'', ''0X''] then map_option int (digits_of 16 (drop 2 t))
     else if take 2 t \<in> set [''0o'', ''0O''] then map_option int (digits_of 8 (drop 2 t))
     else if take 2 t \<in> set [''0b'', ''0B''] then map_option int (digits_of 2 (drop 2 t))
     else if hd t = CHR ''-'' then map_option (\<lambda>n. - int n) (digits_of 10 (tl t))
     else if hd t = CHR ''+'' then map_option int (digits_of 10 (tl t))
     else map_option int (digits_of 10 t))"

definition bigint :: "string \<Rightarrow> string + int" where
  "bigint s = (case bigint_value s of None \<Rightarrow> Inl (''Cannot convert '' @ s @ '' to a BigInt'') | Some i \<Rightarrow> Inr i)"

text \<open>\<open>toString(16)\<close> and \<open>padStart\<close>.\<close>

fun hex_string :: "nat \<Rightarrow> string" where
  "hex_string n = (if n < 16 then [hexit n] else hex_string (n div 16) @ [hexit (n mod 16)])"

declare hex_string.simps [simp del]

definition padStart :: "nat \<Rightarrow> char \<Rightarrow> string \<Rightarrow> string" where
  "padStart k c s = replicate (k - length s) c @ s"

lemma of_char_hexit: "d < 16 \<Longrightarrow> (of_char (hexit d) :: nat) = (if d < 10 then 48 + d else 87 + d)"
  by (simp add: hexit_def of_char_digit)

lemma hex_value_hexit [simp]: "d < 16 \<Longrightarrow> hex_value (hexit d) = Some d"
  by (auto simp: hex_value_def of_char_hexit Let_def)

lemma hex_value_digit [simp]: "d < 10 \<Longrightarrow> hex_value (digit d) = Some d"
  using hex_value_hexit [of d] by (simp add: hexit_def)

lemma lower_hex_hexit [simp]: "d < 16 \<Longrightarrow> lower_hex (hexit d)"
  by (auto simp: lower_hex_def is_digit_def of_char_hexit)

lemma lower_hexE:
  assumes "lower_hex c"
  obtains d where "d < 16" "hex_value c = Some d" "c = hexit d"
proof (cases "is_digit c")
  case True
  then have "of_char c - (48 :: nat) < 10" "48 \<le> (of_char c :: nat)" by (simp_all add: is_digit_def) linarith
  then have "c = hexit (of_char c - 48)" by (simp add: hexit_def digit_def)
  with True show ?thesis by (intro that [of "of_char c - 48"]) (auto simp: hex_value_def is_digit_def)
next
  case False
  with assms have r: "97 \<le> (of_char c :: nat)" "(of_char c :: nat) \<le> 102" by (auto simp: lower_hex_def)
  then have "\<not> of_char c - (87 :: nat) < 10" by linarith
  then have "c = hexit (of_char c - 87)" using r by (simp add: hexit_def)
  with r show ?thesis by (intro that [of "of_char c - 87"]) (auto simp: hex_value_def)
qed

lemma radix_value_append:
  "radix_value b acc (xs @ ys) = (case radix_value b acc xs of None \<Rightarrow> None | Some a \<Rightarrow> radix_value b a ys)"
  by (induction xs arbitrary: acc) (auto split: option.splits)

lemma radix_value_nat_string: "radix_value 10 0 (nat_string n) = Some n"
proof (induction n rule: nat_string.induct)
  case (1 n)
  then show ?case by (cases "n < 10") (simp_all add: nat_string.simps [of n] radix_value_append)
qed

text \<open>The text of a number in a fixed count of hexadecimal digits.\<close>

fun hex_fixed :: "nat \<Rightarrow> nat \<Rightarrow> string" where
  "hex_fixed 0 n = []"
| "hex_fixed (Suc k) n = hex_fixed k (n div 16) @ [hexit (n mod 16)]"

lemma length_hex_fixed [simp]: "length (hex_fixed k n) = k"
  by (induction k arbitrary: n) auto

lemma hex_fixed_lower: "c \<in> set (hex_fixed k n) \<Longrightarrow> lower_hex c"
  by (induction k arbitrary: n) auto

lemma radix_value_hex_fixed: "n < 16 ^ k \<Longrightarrow> radix_value 16 0 (hex_fixed k n) = Some n"
  by (induction k arbitrary: n) (auto simp: radix_value_append)

lemma hex_fixed_0: "hex_fixed k 0 = replicate k (hexit 0)"
  by (induction k) (auto simp: replicate_append_same)

lemma hex_string_fixed: "n < 16 ^ k \<Longrightarrow> 0 < k \<Longrightarrow> padStart k (hexit 0) (hex_string n) = hex_fixed k n"
proof (induction n arbitrary: k rule: hex_string.induct)
  case (1 n)
  obtain j where k: "k = Suc j" using 1(3) by (cases k) auto
  show ?case
  proof (cases "n < 16")
    case True
    then show ?thesis by (simp add: k hex_string.simps [of n] padStart_def hex_fixed_0)
  next
    case False
    with "1.prems"(1) k have j: "n div 16 < 16 ^ j" "0 < j" by (cases j; auto)+
    from "1.IH" [OF False j] False show ?thesis
      by (simp add: k hex_string.simps [of n] padStart_def)
  qed
qed

lemma lower_hex_fixed:
  "\<forall>c\<in>set h. lower_hex c \<Longrightarrow> \<exists>n<16 ^ length h. h = hex_fixed (length h) n"
proof (induction h rule: rev_induct)
  case (snoc c h)
  then obtain n where n: "n < 16 ^ length h" "h = hex_fixed (length h) n" by auto
  obtain d where d: "d < 16" "c = hexit d" using snoc.prems by (auto elim: lower_hexE)
  have "16 * n + d < 16 ^ length (h @ [c])" using n(1) d(1) by simp
  moreover have "h @ [c] = hex_fixed (length (h @ [c])) (16 * n + d)" using n(2) d by simp
  ultimately show ?case by blast
qed simp

section \<open>Content identifiers\<close>

definition CID_V1_RAW_SHA256_PREFIX :: "8 word list" where
  "CID_V1_RAW_SHA256_PREFIX = [0x01, 0x55, 0x12, 0x20]"

definition CONTENT_HASH_PATTERN :: "string \<Rightarrow> bool" where
  "CONTENT_HASH_PATTERN s \<longleftrightarrow> length s = 64 \<and> list_all lower_hex s"

definition isObjectLayerCid :: "string \<Rightarrow> bool" where
  "isObjectLayerCid cid \<longleftrightarrow> take 7 cid = ''bafkrei'' \<and> length cid = 59 \<and> list_all (\<lambda>c. c \<in> set BASE32_ALPHABET) (drop 7 cid)"

text \<open>\<open>Buffer.from(hex, 'hex')\<close>, which stops at the first pair that is no byte, and \<open>toString('hex')\<close>.\<close>

fun bytes_of_hex :: "string \<Rightarrow> 8 word list" where
  "bytes_of_hex (a # b # cs) = (case (hex_value a, hex_value b) of
     (Some x, Some y) \<Rightarrow> of_nat (16 * x + y) # bytes_of_hex cs | _ \<Rightarrow> [])"
| "bytes_of_hex _ = []"

definition hex_of_bytes :: "8 word list \<Rightarrow> string" where
  "hex_of_bytes bs = concat (map (\<lambda>b. [hexit (unat b div 16), hexit (unat b mod 16)]) bs)"

definition cidFromSha256Hex :: "string \<Rightarrow> string + string" where
  "cidFromSha256Hex hex = (if \<not> CONTENT_HASH_PATTERN hex then Inl ''cidFromSha256Hex expects a 64 character hex digest''
     else Inr (CHR ''b'' # base32Encode (CID_V1_RAW_SHA256_PREFIX @ bytes_of_hex hex)))"

definition sha256HexFromCid :: "string \<Rightarrow> string + string" where
  "sha256HexFromCid cid = (if \<not> isObjectLayerCid cid then Inl (''Not an Object Layer CID: '' @ cid)
     else bindE (base32Decode (drop 1 cid)) (\<lambda>bytes. Inr (hex_of_bytes (drop (length CID_V1_RAW_SHA256_PREFIX) bytes))))"

section \<open>Token ids\<close>

definition UINT256_MAX :: int where
  "UINT256_MAX = 2 ^ 256 - 1"

text \<open>A token id as a caller gives it: text, a number or a \<open>bigint\<close>.\<close>

datatype token_arg = TokenText string | TokenNumber rat | TokenBig int

fun bigint_of_token :: "token_arg \<Rightarrow> string + int" where
  "bigint_of_token (TokenText s) = bigint (trim s)"
| "bigint_of_token (TokenNumber q) = (if of_int \<lfloor>q\<rfloor> = q then Inr \<lfloor>q\<rfloor>
     else Inl ''The number cannot be converted to a BigInt because it is not an integer'')"
| "bigint_of_token (TokenBig i) = Inr i"

definition normalizeTokenId :: "token_arg \<Rightarrow> string + string" where
  "normalizeTokenId tokenId = bindE (bigint_of_token tokenId) (\<lambda>v.
     if v < 0 \<or> UINT256_MAX < v then Inl ''tokenId must fit in a uint256'' else Inr (int_string v))"

definition objectLayerTokenId :: "string \<Rightarrow> string + string" where
  "objectLayerTokenId objectLayerCid = bindE (sha256HexFromCid objectLayerCid) (\<lambda>hex.
     bindE (bigint (''0x'' @ hex)) (\<lambda>v. Inr (int_string v)))"

text \<open>The value here is a normalized token id, which is not negative.\<close>

definition objectLayerCidOfTokenId :: "token_arg \<Rightarrow> string + string" where
  "objectLayerCidOfTokenId tokenId = bindE (normalizeTokenId tokenId) (\<lambda>t.
     bindE (bigint t) (\<lambda>v. cidFromSha256Hex (padStart 64 (CHR ''0'') (hex_string (nat v)))))"

definition normalizeAddress :: "string option \<Rightarrow> string" where
  "normalizeAddress address = map to_lower (trim (case address of None \<Rightarrow> '''' | Some a \<Rightarrow> a))"

subsection \<open>Round trips\<close>

lemma trim_id: "\<forall>c\<in>set s. \<not> is_space c \<Longrightarrow> trim s = s"
proof -
  assume a: "\<forall>c\<in>set s. \<not> is_space c"
  then have "dropWhile is_space s = s" "dropWhile is_space (rev s) = rev s"
    using hd_in_set [of "rev s"] by (auto simp: dropWhile_eq_self_iff)
  then show ?thesis by (simp add: trim_def)
qed

lemma digit_no_space: "is_digit c \<Longrightarrow> \<not> is_space c"
  by (auto simp: is_digit_def is_space_def)

lemma lower_hex_no_space: "lower_hex c \<Longrightarrow> \<not> is_space c"
  by (auto simp: lower_hex_def is_digit_def is_space_def)

lemma bigint_nat_string [simp]: "bigint (nat_string n) = Inr (int n)"
proof -
  have d: "\<forall>c\<in>set (nat_string n). is_digit c" by (rule nat_string_digits)
  then have t: "trim (nat_string n) = nat_string n" by (intro trim_id) (auto dest: digit_no_space)
  obtain c cs where c: "nat_string n = c # cs" by (cases "nat_string n") auto
  with d have hd: "is_digit c" and tl: "\<forall>c\<in>set cs. is_digit c" by simp_all
  have "take 2 (nat_string n) \<notin> set [''0x'', ''0X'', ''0o'', ''0O'', ''0b'', ''0B'']"
  proof
    assume "take 2 (nat_string n) \<in> set [''0x'', ''0X'', ''0o'', ''0O'', ''0b'', ''0B'']"
    with c tl show False by (cases cs) (auto simp: is_digit_def)
  qed
  moreover have "hd (nat_string n) \<noteq> CHR ''-''" "hd (nat_string n) \<noteq> CHR ''+''"
    using hd c by (auto simp: is_digit_def)
  ultimately have "bigint_value (nat_string n) = Some (int n)"
    by (simp add: bigint_value_def t Let_def digits_of_def radix_value_nat_string)
  then show ?thesis by (simp add: bigint_def)
qed

lemma int_string_of_nat [simp]: "int_string (int n) = nat_string n"
  by (simp add: int_string_def)

lemma normalizeTokenId_nat [simp]: "n < 2 ^ 256 \<Longrightarrow> normalizeTokenId (TokenText (nat_string n)) = Inr (nat_string n)"
proof -
  assume n: "n < 2 ^ 256"
  then have "int n < 2 ^ 256" by (metis of_nat_less_numeral_power_cancel_iff)
  moreover have "trim (nat_string n) = nat_string n"
    using nat_string_digits [of n] by (intro trim_id) (auto dest: digit_no_space)
  ultimately show ?thesis by (simp add: normalizeTokenId_def UINT256_MAX_def)
qed

lemma length_bytes_of_hex:
  "list_all lower_hex h \<Longrightarrow> even (length h) \<Longrightarrow> length (bytes_of_hex h) = length h div 2 \<and> hex_of_bytes (bytes_of_hex h) = h"
proof (induction h rule: bytes_of_hex.induct)
  case (1 a b cs)
  then obtain x y where x: "x < 16" "hex_value a = Some x" "a = hexit x" and y: "y < 16" "hex_value b = Some y" "b = hexit y"
    by (auto elim!: lower_hexE)
  have lt: "16 * x + y < 256" using x(1) y(1) by simp
  then have "unat (of_nat (16 * x + y) :: 8 word) = 16 * x + y"
    by (simp add: unat_of_nat del: of_nat_add of_nat_mult)
  moreover have "(16 * x + y) div 16 = x" "(16 * x + y) mod 16 = y" using y(1) by simp_all
  ultimately have "hex_of_bytes (of_nat (16 * x + y) # bytes_of_hex cs) = a # b # hex_of_bytes (bytes_of_hex cs)"
    using x(3) y(3) by (simp add: hex_of_bytes_def)
  with 1 x(2) y(2) show ?case by simp
qed (auto simp: hex_of_bytes_def)

lemma char_bits_inj: "c \<in> set BASE32_ALPHABET \<Longrightarrow> d \<in> set BASE32_ALPHABET \<Longrightarrow> char_bits c = char_bits d \<Longrightarrow> c = d"
proof -
  assume cd: "c \<in> set BASE32_ALPHABET" "d \<in> set BASE32_ALPHABET" and e: "char_bits c = char_bits d"
  obtain i j where i: "find_index (\<lambda>x. x = c) BASE32_ALPHABET = Some i" and j: "find_index (\<lambda>x. x = d) BASE32_ALPHABET = Some j"
    using cd find_index_None [of "\<lambda>x. x = c" BASE32_ALPHABET] find_index_None [of "\<lambda>x. x = d" BASE32_ALPHABET] by fastforce
  have lt: "i < 32" "j < 32" and n: "BASE32_ALPHABET ! i = c" "BASE32_ALPHABET ! j = d"
    using find_index_Some_nth [OF i] find_index_Some_nth [OF j] by simp_all
  have "low_bits 5 (of_nat i :: 5 word) = low_bits 5 (of_nat i :: 32 word)" for i
    by (intro nth_equalityI) (auto simp: nth_low_bits bit_simps)
  then have "low_bits 5 (of_nat i :: 5 word) = low_bits 5 (of_nat j :: 5 word)"
    using e i j by (simp add: char_bits_def)
  then have "(of_nat i :: 5 word) = of_nat j" using low_bits_inj [where 'a = 5] by simp
  then have "i = j" using lt by (simp add: word_of_nat_eq_iff take_bit_nat_eq_self)
  with n show ?thesis by simp
qed

lemma chars_bits_inj:
  "set cs \<subseteq> set BASE32_ALPHABET \<Longrightarrow> set ds \<subseteq> set BASE32_ALPHABET \<Longrightarrow> length cs = length ds \<Longrightarrow>
    chars_bits cs = chars_bits ds \<Longrightarrow> cs = ds"
proof (induction cs arbitrary: ds)
  case (Cons c cs)
  then obtain d ds' where ds: "ds = d # ds'" by (cases ds) auto
  with Cons.prems have e: "char_bits c = char_bits d" "chars_bits cs = chars_bits ds'" by simp_all
  have "c = d" using char_bits_inj [OF _ _ e(1)] Cons.prems ds by simp
  moreover have "cs = ds'" using Cons.IH [OF _ _ _ e(2)] Cons.prems ds by simp
  ultimately show ?case using ds by simp
qed simp

lemma base32Encode_alphabet: "set (base32Encode bs) \<subseteq> set BASE32_ALPHABET"
  by (simp add: base32Encode_def encode_bytes_alphabet)

lemma base32Encode_CID:
  assumes "length bs = 32"
  shows "take 6 (base32Encode (CID_V1_RAW_SHA256_PREFIX @ bs)) = ''afkrei''"
    and "length (base32Encode (CID_V1_RAW_SHA256_PREFIX @ bs)) = 58"
proof -
  let ?e = "base32Encode (CID_V1_RAW_SHA256_PREFIX @ bs)"
  obtain k where k: "k < 5" "chars_bits ?e = byte_bits (CID_V1_RAW_SHA256_PREFIX @ bs) @ replicate k False"
    using base32Encode_bits by blast
  then have "5 * length ?e = 288 + k" using assms length_chars_bits [of ?e] by (simp add: CID_V1_RAW_SHA256_PREFIX_def)
  then show len: "length ?e = 58" using k(1) by presburger
  have "chars_bits (take 6 ?e) = take 30 (chars_bits ?e)"
  proof -
    have "chars_bits ?e = chars_bits (take 6 ?e) @ chars_bits (drop 6 ?e)"
      by (metis append_take_drop_id chars_bits_simps(3))
    moreover have "length (chars_bits (take 6 ?e)) = 30" using len by simp
    ultimately show ?thesis by simp
  qed
  also have "\<dots> = take 30 (byte_bits CID_V1_RAW_SHA256_PREFIX)"
    using k(2) by (simp add: CID_V1_RAW_SHA256_PREFIX_def)
  also have "\<dots> = chars_bits ''afkrei''" by code_simp
  finally show "take 6 ?e = ''afkrei''"
    using base32Encode_alphabet [of "CID_V1_RAW_SHA256_PREFIX @ bs"] len
    by (intro chars_bits_inj subset_trans [OF set_take_subset]) (simp_all add: BASE32_ALPHABET_def)
qed

lemma cidFromSha256Hex_accepted:
  assumes "CONTENT_HASH_PATTERN h"
  shows "\<exists>cid. cidFromSha256Hex h = Inr cid \<and> isObjectLayerCid cid \<and> sha256HexFromCid cid = Inr h"
proof -
  let ?e = "base32Encode (CID_V1_RAW_SHA256_PREFIX @ bytes_of_hex h)"
  have h: "list_all lower_hex h" "length h = 64" using assms by (simp_all add: CONTENT_HASH_PATTERN_def)
  then have b: "length (bytes_of_hex h) = 32" "hex_of_bytes (bytes_of_hex h) = h"
    using length_bytes_of_hex [of h] by simp_all
  note e = base32Encode_CID [OF b(1)]
  have "list_all (\<lambda>c. c \<in> set BASE32_ALPHABET) (drop 6 ?e)"
    using base32Encode_alphabet [of "CID_V1_RAW_SHA256_PREFIX @ bytes_of_hex h"] set_drop_subset [of 6 ?e]
    by (auto simp: list_all_iff)
  with e have i: "isObjectLayerCid (CHR ''b'' # ?e)"
    by (simp add: isObjectLayerCid_def take_Cons' drop_Cons')
  then have "sha256HexFromCid (CHR ''b'' # ?e) = Inr h"
    using b(2) by (simp add: sha256HexFromCid_def base32_roundtrip CID_V1_RAW_SHA256_PREFIX_def)
  with i assms show ?thesis by (simp add: cidFromSha256Hex_def)
qed

lemma bigint_hex:
  assumes "h \<noteq> ''''" "list_all lower_hex h"
  shows "bigint (''0x'' @ h) = (case radix_value 16 0 h of Some n \<Rightarrow> Inr (int n) | None \<Rightarrow> bigint (''0x'' @ h))"
proof -
  have "\<not> is_space (CHR ''0'')" "\<not> is_space (CHR ''x'')" by code_simp+
  then have "trim (''0x'' @ h) = ''0x'' @ h"
    using assms by (intro trim_id) (auto simp: list_all_iff dest: lower_hex_no_space)
  then show ?thesis
    using assms by (auto simp: bigint_def bigint_value_def digits_of_def split: option.splits)
qed

lemma objectLayerTokenId_hex:
  assumes "n < 2 ^ 256" "sha256HexFromCid cid = Inr (hex_fixed 64 n)"
  shows "objectLayerTokenId cid = Inr (nat_string n)"
proof -
  have "list_all lower_hex (hex_fixed 64 n)" by (auto simp: list_all_iff dest: hex_fixed_lower)
  moreover have "hex_fixed 64 n \<noteq> ''''" by (metis length_hex_fixed list.size(3) zero_neq_numeral)
  moreover have "radix_value 16 0 (hex_fixed 64 n) = Some n" using assms(1) by (intro radix_value_hex_fixed) simp
  ultimately have "bigint (''0x'' @ hex_fixed 64 n) = Inr (int n)" using bigint_hex by fastforce
  with assms(2) show ?thesis by (simp add: objectLayerTokenId_def)
qed

lemma objectLayerCidOfTokenId_nat:
  assumes "n < 2 ^ 256"
  shows "objectLayerCidOfTokenId (TokenText (nat_string n)) = cidFromSha256Hex (hex_fixed 64 n)"
proof -
  have "padStart 64 (hexit 0) (hex_string n) = hex_fixed 64 n" using assms by (intro hex_string_fixed) simp_all
  moreover have "hexit 0 = CHR ''0''" by code_simp
  ultimately have "padStart 64 (CHR ''0'') (hex_string n) = hex_fixed 64 n" by simp
  with assms show ?thesis by (simp add: objectLayerCidOfTokenId_def)
qed

lemma hex_fixed_pattern [simp]: "CONTENT_HASH_PATTERN (hex_fixed 64 n)"
  by (auto simp: CONTENT_HASH_PATTERN_def list_all_iff dest: hex_fixed_lower)

text \<open>A definition and its token name each other: the token id a canonical CID derives to represents
that CID, and every id of a token has one.\<close>

lemma token_of_cid:
  assumes "n < 2 ^ 256"
  shows "\<exists>cid. objectLayerCidOfTokenId (TokenText (nat_string n)) = Inr cid \<and> isObjectLayerCid cid
    \<and> objectLayerTokenId cid = Inr (nat_string n)"
  using cidFromSha256Hex_accepted [of "hex_fixed 64 n"] objectLayerCidOfTokenId_nat [OF assms]
    objectLayerTokenId_hex [OF assms] by fastforce

lemma cid_of_hash:
  assumes "CONTENT_HASH_PATTERN h"
  shows "\<exists>cid n. cidFromSha256Hex h = Inr cid \<and> n < 2 ^ 256 \<and> objectLayerTokenId cid = Inr (nat_string n)
    \<and> objectLayerCidOfTokenId (TokenText (nat_string n)) = Inr cid"
proof -
  obtain n where n: "n < 16 ^ 64" "h = hex_fixed 64 n"
    using assms lower_hex_fixed [of h] by (auto simp: CONTENT_HASH_PATTERN_def list_all_iff)
  then have "n < 2 ^ 256" by simp
  with n cidFromSha256Hex_accepted [OF assms] objectLayerCidOfTokenId_nat [of n] objectLayerTokenId_hex [of n]
  show ?thesis by metis
qed

text \<open>C35: the token id a content identifier derives to and the identifier a token id represents are
inverse: every number of 256 bits represents an accepted identifier that derives back to it, and the
identifier of every digest derives to a token id that represents it. No two definitions share a token.\<close>

theorem token_cid_roundtrip:
  assumes "n < 2 ^ 256" "CONTENT_HASH_PATTERN h" "CONTENT_HASH_PATTERN k"
  shows "(\<exists>cid. objectLayerCidOfTokenId (TokenText (nat_string n)) = Inr cid \<and> isObjectLayerCid cid
      \<and> objectLayerTokenId cid = Inr (nat_string n))
    \<and> (\<exists>cid t. cidFromSha256Hex h = Inr cid \<and> objectLayerTokenId cid = Inr t
      \<and> objectLayerCidOfTokenId (TokenText t) = Inr cid)
    \<and> (bindE (cidFromSha256Hex h) objectLayerTokenId = bindE (cidFromSha256Hex k) objectLayerTokenId \<longrightarrow> h = k)"
proof (intro conjI impI)
  show "\<exists>cid. objectLayerCidOfTokenId (TokenText (nat_string n)) = Inr cid \<and> isObjectLayerCid cid
      \<and> objectLayerTokenId cid = Inr (nat_string n)"
    by (rule token_of_cid [OF assms(1)])
  show "\<exists>cid t. cidFromSha256Hex h = Inr cid \<and> objectLayerTokenId cid = Inr t
      \<and> objectLayerCidOfTokenId (TokenText t) = Inr cid"
    using cid_of_hash [OF assms(2)] by blast
  assume "bindE (cidFromSha256Hex h) objectLayerTokenId = bindE (cidFromSha256Hex k) objectLayerTokenId"
  with cid_of_hash [OF assms(2)] cid_of_hash [OF assms(3)] nat_string_inj
  obtain cid where "cidFromSha256Hex h = Inr cid" "cidFromSha256Hex k = Inr cid" by fastforce
  with cidFromSha256Hex_accepted [OF assms(2)] cidFromSha256Hex_accepted [OF assms(3)] show "h = k" by simp
qed

lemma token_cid_roundtrip_witness:
  "\<exists>cid. objectLayerCidOfTokenId (TokenText (nat_string 5)) = Inr cid \<and> isObjectLayerCid cid
     \<and> objectLayerTokenId cid = Inr (nat_string 5)"
  using token_cid_roundtrip [of 5 "replicate 64 (CHR ''0'')" "replicate 64 (CHR ''1'')"]
  by (simp add: CONTENT_HASH_PATTERN_def list_all_iff lower_hex_def is_digit_def)

text \<open>
  The pattern accepts more than the canonical text: it leaves the last two bits of the header and the
  two bits after the digest open, and the reader drops them, so other accepted texts derive to the same
  token. Those are not the identifier the token represents.
\<close>

definition canonical_cid :: string where "canonical_cid = ''bafkrei'' @ replicate 52 (CHR ''a'')"
definition other_cid :: string where "other_cid = ''bafkrei'' @ replicate 51 (CHR ''a'') @ ''b''"

lemma other_text_same_token:
  "isObjectLayerCid canonical_cid" "isObjectLayerCid other_cid" "other_cid \<noteq> canonical_cid"
  "objectLayerTokenId canonical_cid = Inr ''0''" "objectLayerTokenId other_cid = Inr ''0''"
  "objectLayerCidOfTokenId (TokenText ''0'') = Inr canonical_cid"
proof -
  show "isObjectLayerCid canonical_cid" "isObjectLayerCid other_cid" "other_cid \<noteq> canonical_cid"
    by code_simp+
  have z: "nat_string 0 = ''0''" by code_simp
  have "sha256HexFromCid canonical_cid = Inr (hex_fixed 64 0)" "sha256HexFromCid other_cid = Inr (hex_fixed 64 0)"
    unfolding hex_fixed_0 by code_simp+
  then show "objectLayerTokenId canonical_cid = Inr ''0''" "objectLayerTokenId other_cid = Inr ''0''"
    using objectLayerTokenId_hex [of 0] by (simp_all add: z)
  have "cidFromSha256Hex (hex_fixed 64 0) = Inr canonical_cid" unfolding hex_fixed_0 by code_simp
  then show "objectLayerCidOfTokenId (TokenText ''0'') = Inr canonical_cid"
    using objectLayerCidOfTokenId_nat [of 0] by (simp add: z)
qed

end
