(* ===== verification/MarketView.thy ===== *)
theory MarketView imports MarketMachine Admin Identity begin

text \<open>
  What a market terminal sees: the paged view of \<open>listMarket\<close> of
  \<open>src/projects/cyberia/player/market.js\<close>, with its filters, its cursor and its own listings and claims.

  One call reads one time, and reads claims in the order they were created, which is their natural
  order.
\<close>

section \<open>Numbers in texts\<close>

text \<open>\<open>Number(text)\<close>.\<close>

definition decimal_mantissa :: "string \<Rightarrow> rat option" where
  "decimal_mantissa m = (let a = takeWhile is_digit m; r = dropWhile is_digit m; b = drop 1 r in
     if r = '''' then (if a = '''' then None else map_option of_nat (radix_value 10 0 a))
     else if hd r = CHR ''.'' \<and> list_all is_digit b \<and> (a \<noteq> '''' \<or> b \<noteq> '''')
       then (case (radix_value 10 0 a, radix_value 10 0 b) of
           (Some x, Some y) \<Rightarrow> Some (of_nat x + of_nat y / 10 ^ length b) | _ \<Rightarrow> None)
     else None)"

definition signed :: "(string \<Rightarrow> rat option) \<Rightarrow> string \<Rightarrow> rat option" where
  "signed f t = (if t \<noteq> '''' \<and> hd t = CHR ''-'' then map_option uminus (f (tl t))
     else if t \<noteq> '''' \<and> hd t = CHR ''+'' then f (tl t) else f t)"

definition decimal_exponent :: "string \<Rightarrow> rat option" where
  "decimal_exponent e = signed (\<lambda>d. map_option of_nat (digits_of 10 d)) e"

definition power_ten :: "rat \<Rightarrow> rat" where
  "power_ten e = (if 0 \<le> e then 10 ^ nat \<lfloor>e\<rfloor> else 1 / 10 ^ nat \<lfloor>- e\<rfloor>)"

definition decimal_value :: "string \<Rightarrow> rat option" where
  "decimal_value t = (let not_e = (\<lambda>c. c \<noteq> CHR ''e'' \<and> c \<noteq> CHR ''E''); m = takeWhile not_e t; r = dropWhile not_e t in
     if r = '''' then decimal_mantissa m
     else case (decimal_mantissa m, decimal_exponent (tl r)) of
       (Some x, Some e) \<Rightarrow> Some (x * power_ten e) | _ \<Rightarrow> None)"

definition infinity_text :: "string \<Rightarrow> number option" where
  "infinity_text t = (if t \<in> {''Infinity'', ''+Infinity''} then Some PosInf else if t = ''-Infinity'' then Some NegInf else None)"

definition number_of_text :: "string \<Rightarrow> number" where
  "number_of_text s = (let t = trim s; finite = (\<lambda>v. case v of None \<Rightarrow> NaN | Some q \<Rightarrow> Fin q) in
     if t = '''' then Fin 0
     else if infinity_text t \<noteq> None then the (infinity_text t)
     else if take 2 t \<in> set [''0x'', ''0X''] then finite (map_option of_nat (digits_of 16 (drop 2 t)))
     else if take 2 t \<in> set [''0o'', ''0O''] then finite (map_option of_nat (digits_of 8 (drop 2 t)))
     else if take 2 t \<in> set [''0b'', ''0B''] then finite (map_option of_nat (digits_of 2 (drop 2 t)))
     else finite (signed decimal_value t))"

section \<open>A page of a market\<close>

record wire_listing =
  wl_listingId :: string
  wl_revision :: int
  wl_sellerName :: string
  wl_itemId :: string
  wl_olCid :: string
  wl_quantity :: int
  wl_mode :: string
  wl_price :: int
  wl_bid :: int
  wl_bids :: int
  wl_minBid :: int
  wl_endsAtMs :: ms
  wl_mine :: bool
  wl_leading :: bool

definition wireListing :: "listing \<Rightarrow> string \<Rightarrow> wire_listing" where
  "wireListing l playerId = \<lparr>wl_listingId = li_listingId l, wl_revision = li_revision l, wl_sellerName = li_sellerName l,
     wl_itemId = li_itemId l, wl_olCid = li_olCid l, wl_quantity = li_quantity l, wl_mode = li_mode l,
     wl_price = li_price l, wl_bid = li_bid l, wl_bids = li_bids l,
     wl_minBid = (if li_mode l = ''auction'' then minBid (li_price l) (li_bid l) (li_raisePercent l) (li_minRaise l) else 0),
     wl_endsAtMs = li_endsAt l, wl_mine = (li_seller l = playerId), wl_leading = (li_bidder l = Some playerId)\<rparr>"

definition listing_cursor :: "listing \<Rightarrow> string" where
  "listing_cursor l = int_string (li_endsAt l) @ ''_'' @ li_id l"

definition cast_error :: error where
  "cast_error = \<lparr>err_mongo = False, err_transient = False, err_code = None, err_name = ''CastError'',
     err_message = ''Cast failed'', err_status = None\<rparr>"

text \<open>\<open>afterCursor\<close>: the rows after the cursor; a text that is no cursor filters nothing. A date takes
whole milliseconds, and one out of its range casts no filter.\<close>

definition DATE_MAX :: rat where "DATE_MAX = 8640000000000000"

definition lower_id :: "string \<Rightarrow> bool" where
  "lower_id i \<longleftrightarrow> length i = 24 \<and> list_all lower_hex i"

fun after_rows :: "number \<Rightarrow> string \<Rightarrow> error + (listing \<Rightarrow> bool)" where
  "after_rows (Fin q) i = (if \<not> (0 < q \<and> lower_id i) then Inr (\<lambda>_. True)
     else if DATE_MAX < q then Inl cast_error
     else Inr (\<lambda>l. \<lfloor>q\<rfloor> < li_endsAt l \<or> li_endsAt l = \<lfloor>q\<rfloor> \<and> i < li_id l))"
| "after_rows PosInf i = (if lower_id i then Inl cast_error else Inr (\<lambda>_. True))"
| "after_rows _ i = Inr (\<lambda>_. True)"

definition afterCursor :: "string \<Rightarrow> error + (listing \<Rightarrow> bool)" where
  "afterCursor after = (case split_at (CHR ''_'') after of
     t # i # _ \<Rightarrow> after_rows (number_of_text t) i | _ \<Rightarrow> Inr (\<lambda>_. True))"

record market_request =
  mq_instanceCode :: string
  mq_marketCode :: string
  mq_playerId :: string
  mq_itemId :: string
  mq_mode :: string
  mq_after :: string

record wire_claim =
  wc_claimId :: string
  wc_reason :: claim_reason
  wc_coins :: int
  wc_marketCode :: string
  wc_stack :: "(string \<times> string \<times> int) option"

record market_view =
  mv_listings :: "wire_listing list"
  mv_next :: string
  mv_mine :: "wire_listing list"
  mv_claims :: "wire_claim list"
  mv_scopeKey :: string
  mv_revision :: int

definition empty_view :: market_view where
  "empty_view = \<lparr>mv_listings = [], mv_next = '''', mv_mine = [], mv_claims = [], mv_scopeKey = '''', mv_revision = 0\<rparr>"

definition wireClaim :: "claim \<Rightarrow> wire_claim" where
  "wireClaim c = \<lparr>wc_claimId = cl_claimId c, wc_reason = cl_reason c, wc_coins = cl_coins c, wc_marketCode = cl_marketCode c,
     wc_stack = (if 0 < cl_quantity c then Some (cl_itemId c, cl_olCid c, cl_quantity c) else None)\<rparr>"

text \<open>The market a view reads: one code in one scope key.\<close>

definition in_market :: "string \<Rightarrow> string \<Rightarrow> string \<Rightarrow> listing \<Rightarrow> bool" where
  "in_market marketCode scope scopeKey l \<longleftrightarrow> li_marketCode l = marketCode \<and> li_scope l = scope \<and> li_scopeKey l = scopeKey"

definition shown :: "market_request \<Rightarrow> ms \<Rightarrow> listing \<Rightarrow> bool" where
  "shown q now l \<longleftrightarrow> li_status l = Open \<and> now < li_endsAt l
     \<and> (isText (Str (mq_itemId q)) \<longrightarrow> li_itemId l = mq_itemId q)
     \<and> (mq_mode q \<in> set MARKET_MODES \<longrightarrow> li_mode l = mq_mode q)"

text \<open>\<open>sort({ endsAt: 1, _id: 1 })\<close>.\<close>

definition soonest_first :: "listing list \<Rightarrow> listing list" where
  "soonest_first ls = sort_key (\<lambda>l. (li_endsAt l, li_id l)) ls"

definition readView :: "mongo \<Rightarrow> market_request \<Rightarrow> ms \<Rightarrow> string \<Rightarrow> string \<Rightarrow> int \<Rightarrow> (listing \<Rightarrow> bool) \<Rightarrow> db \<Rightarrow> market_view" where
  "readView M q now scope scopeKey revision after s =
     (let market = in_market (mq_marketCode q) scope scopeKey; player = map to_lower (mq_playerId q);
          page = take (MARKET_PAGE + 1) (soonest_first (drv_find (mg_listings M)
            (\<lambda>l. market l \<and> shown q now l \<and> after l) (db_listings s)));
          mine = take MARKET_PAGE (sort_key li_endsAt (drv_find (mg_listings M)
            (\<lambda>l. market l \<and> li_seller l = player \<and> li_status l = Open) (db_listings s)));
          claims = take MARKET_PAGE (drv_find (mg_claims M) (\<lambda>c. cl_player c = player \<and> cl_status c = Pending) (db_claims s));
          listings = take MARKET_PAGE page
      in \<lparr>mv_listings = map (\<lambda>l. wireListing l (mq_playerId q)) listings,
          mv_next = (if MARKET_PAGE < length page then listing_cursor (last listings) else ''''),
          mv_mine = map (\<lambda>l. wireListing l (mq_playerId q)) mine, mv_claims = map wireClaim claims,
          mv_scopeKey = scopeKey, mv_revision = revision\<rparr>)"

definition listMarket :: "mongo \<Rightarrow> ms \<Rightarrow> market_request \<Rightarrow> (db, market_view) work" where
  "listMarket M now q s =
     (if \<not> isText (Str (mq_instanceCode q)) \<or> \<not> isText (Str (mq_marketCode q)) \<or> \<not> isText (Str (mq_playerId q)) then (Inr empty_view, s)
      else case findProfile M (mq_marketCode q) s of
        None \<Rightarrow> (Inr empty_view, s)
      | Some p \<Rightarrow>
          (let scopeKey = scopeKeyOf M s (mk_scope p) (mq_instanceCode q); player = map to_lower (mq_playerId q) in
           if scopeKey = '''' then (Inr (empty_view\<lparr>mv_revision := mk_revision p\<rparr>), s)
           else bindW (settleDue M now (in_market (mq_marketCode q) (mk_scope p) scopeKey)) (\<lambda>_.
             if \<not> isId (Str (mq_playerId q)) then (\<lambda>s. (Inl cast_error, s))
             else bindW (settleDue M now (\<lambda>l. li_seller l = player \<or> li_bidder l = Some player)) (\<lambda>_ s.
               case afterCursor (mq_after q) of Inl e \<Rightarrow> (Inl e, s)
               | Inr after \<Rightarrow> (Inr (readView M q now (mk_scope p) scopeKey (mk_revision p) after s), s))) s))"

section \<open>Pages by a key\<close>

lemma filter_above:
  assumes "sorted_wrt (\<lambda>a b. r a < (r b :: 'k :: linorder)) xs" "k < length xs"
  shows "filter (\<lambda>d. r (xs ! k) < r d) xs = drop (Suc k) xs"
  using assms
proof (induction xs arbitrary: k)
  case (Cons x xs)
  show ?case
  proof (cases k)
    case 0
    with Cons.prems(1) show ?thesis by (simp add: filter_id_conv)
  next
    case (Suc j)
    with Cons have "filter (\<lambda>d. r (xs ! j) < r d) xs = drop (Suc j) xs" by simp
    moreover have "r x < r (xs ! j)" using Cons.prems Suc by simp
    ultimately show ?thesis using Suc by auto
  qed
qed simp

text \<open>
  The contract of a paged read: rows in the order of a rank, a cursor that names the last row of a page,
  and a filter that keeps the rows after it.
\<close>

locale keyset =
  fixes rank :: "'d \<Rightarrow> 'k::linorder" and cursor :: "'d \<Rightarrow> string" and after :: "string \<Rightarrow> 'd \<Rightarrow> bool"
    and sound :: "'d \<Rightarrow> bool"
  assumes first: "after '''' d" and nonempty: "cursor x \<noteq> ''''"
    and later: "sound x \<Longrightarrow> sound d \<Longrightarrow> after (cursor x) d \<longleftrightarrow> rank x < rank d"
begin

lemma later_rows:
  assumes "distinct (map rank ds)" "\<forall>d\<in>set ds. sound d" "k < length ds"
  shows "sort_key rank (filter (after (cursor (sort_key rank ds ! k))) ds) = drop (Suc k) (sort_key rank ds)"
proof -
  let ?xs = "sort_key rank ds"
  have "distinct (map rank ?xs)"
    using assms(1) by (metis mset_map mset_sort mset_eq_imp_distinct_iff)
  then have "sorted_wrt (<) (map rank ?xs)" by (simp add: strict_sorted_iff)
  then have s: "sorted_wrt (\<lambda>a b. rank a < rank b) ?xs" by (simp add: sorted_wrt_map)
  have k: "k < length ?xs" using assms(3) by simp
  then have mem: "?xs ! k \<in> set ds" using nth_mem [of k ?xs] by (simp only: set_sort)
  have "sort_key rank (filter (after (cursor (?xs ! k))) ds) = filter (after (cursor (?xs ! k))) ?xs"
    by (simp add: filter_sort)
  also have "\<dots> = filter (\<lambda>d. rank (?xs ! k) < rank d) ?xs"
    using later assms(2) mem by (intro filter_cong) simp_all
  also have "\<dots> = drop (Suc k) ?xs" by (rule filter_above [OF s k])
  finally show ?thesis .
qed

text \<open>The rows from the cursor of a page on, \<open>k\<close> rows in.\<close>

lemma rows_from:
  assumes "distinct (map rank ds)" "\<forall>d\<in>set ds. sound d" "k \<le> length ds"
  shows "sort_key rank (filter (after (if k = 0 then '''' else cursor (sort_key rank ds ! (k - 1)))) ds) = drop k (sort_key rank ds)"
proof (cases k)
  case 0
  then show ?thesis by (simp add: first)
next
  case (Suc j)
  with assms(3) have "j < length ds" by simp
  from later_rows [OF assms(1,2) this] Suc show ?thesis by simp
qed

end

section \<open>The rows of a market\<close>

definition listing_rank :: "listing \<Rightarrow> ms \<times> string" where
  "listing_rank l = (li_endsAt l, li_id l)"

text \<open>A row the cursor can name: its end is a date, its id an ObjectId.\<close>

definition row_sound :: "listing \<Rightarrow> bool" where
  "row_sound l \<longleftrightarrow> 0 < li_endsAt l \<and> of_int (li_endsAt l) \<le> DATE_MAX \<and> lower_id (li_id l)"

definition rows_after :: "string \<Rightarrow> listing \<Rightarrow> bool" where
  "rows_after c l = (case afterCursor c of Inl _ \<Rightarrow> True | Inr p \<Rightarrow> p l)"

lemma number_of_nat_string: "number_of_text (nat_string n) = Fin (of_nat n)"
proof -
  let ?t = "nat_string n"
  have d: "\<forall>c\<in>set ?t. is_digit c" by (rule nat_string_digits)
  then have trim: "trim ?t = ?t" by (intro trim_id) (auto dest: digit_no_space)
  obtain c cs where c: "?t = c # cs" by (cases ?t) auto
  with d have hd: "is_digit c" and tl: "\<forall>c\<in>set cs. is_digit c" by simp_all
  have "take 2 ?t \<notin> set [''0x'', ''0X'', ''0o'', ''0O'', ''0b'', ''0B'']"
  proof
    assume "take 2 ?t \<in> set [''0x'', ''0X'', ''0o'', ''0O'', ''0b'', ''0B'']"
    with c tl show False by (cases cs) (auto simp: is_digit_def)
  qed
  moreover have sgn: "hd ?t \<noteq> CHR ''-''" "hd ?t \<noteq> CHR ''+''" "infinity_text ?t = None"
    using hd c by (auto simp: is_digit_def infinity_text_def)
  moreover have "signed decimal_value ?t = Some (of_nat n)"
  proof -
    have "\<forall>c\<in>set ?t. c \<noteq> CHR ''e'' \<and> c \<noteq> CHR ''E''" using d by (auto simp: is_digit_def)
    then have e: "takeWhile (\<lambda>c. c \<noteq> CHR ''e'' \<and> c \<noteq> CHR ''E'') ?t = ?t" "dropWhile (\<lambda>c. c \<noteq> CHR ''e'' \<and> c \<noteq> CHR ''E'') ?t = []"
      by (simp_all add: takeWhile_eq_all_conv dropWhile_eq_Nil_conv)
    have tw: "takeWhile is_digit ?t = ?t" "dropWhile is_digit ?t = []"
      using d by (simp_all add: takeWhile_eq_all_conv dropWhile_eq_Nil_conv)
    have "decimal_mantissa ?t = Some (of_nat n)"
      unfolding decimal_mantissa_def Let_def tw by (simp add: radix_value_nat_string)
    then have "decimal_value ?t = Some (of_nat n)" unfolding decimal_value_def Let_def e by simp
    with sgn show ?thesis by (simp add: signed_def)
  qed
  ultimately show ?thesis by (simp add: number_of_text_def trim Let_def)
qed

lemma split_none: "CHR ''_'' \<notin> set i \<Longrightarrow> split_at (CHR ''_'') i = [i]"
  by (induction i) auto

lemma afterCursor_cursor:
  assumes "row_sound x"
  shows "afterCursor (listing_cursor x) = Inr (\<lambda>l. listing_rank x < listing_rank l)"
proof -
  have x: "0 < li_endsAt x" "of_int (li_endsAt x) \<le> DATE_MAX" "lower_id (li_id x)" using assms by (simp_all add: row_sound_def)
  obtain n where n: "li_endsAt x = int n" using x(1) by (metis nonneg_int_cases less_imp_le)
  have "CHR ''_'' \<notin> set (nat_string n)" using nat_string_digits [of n] by (auto simp: is_digit_def)
  moreover have "CHR ''_'' \<notin> set (li_id x)" using x(3) by (auto simp: lower_id_def list_all_iff lower_hex_def is_digit_def)
  ultimately have "split_at (CHR ''_'') (listing_cursor x) = [nat_string n, li_id x]"
    by (simp add: listing_cursor_def n int_string_of_nat split_at_append split_none)
  then have "afterCursor (listing_cursor x) = after_rows (Fin (of_nat n)) (li_id x)"
    by (simp add: afterCursor_def number_of_nat_string)
  also have "\<dots> = Inr (\<lambda>l. li_endsAt x < li_endsAt l \<or> li_endsAt l = li_endsAt x \<and> li_id x < li_id l)"
    using x by (simp add: n)
  finally show ?thesis by (simp add: listing_rank_def less_prod_def fun_eq_iff) auto
qed

lemma afterCursor_empty: "afterCursor '''' = Inr (\<lambda>_. True)"
  by (simp add: afterCursor_def)

interpretation market_rows: keyset listing_rank listing_cursor rows_after row_sound
proof (unfold_locales, goal_cases)
  case (1 d)
  then show ?case by (simp add: rows_after_def afterCursor_empty)
next
  case (2 x)
  then show ?case by (simp add: listing_cursor_def)
next
  case (3 x d)
  then show ?case by (simp add: rows_after_def afterCursor_cursor)
qed

section \<open>Reading settles only what ended\<close>

definition same_rows :: "ms \<Rightarrow> db \<Rightarrow> db \<Rightarrow> bool" where
  "same_rows now s t \<longleftrightarrow> t = s\<lparr>db_listings := db_listings t, db_claims := db_claims t\<rparr>
     \<and> filter (\<lambda>l. li_status l = Open \<and> now < li_endsAt l) (db_listings t)
       = filter (\<lambda>l. li_status l = Open \<and> now < li_endsAt l) (db_listings s)"

lemma same_rows_refl [simp]: "same_rows now s s"
  by (simp add: same_rows_def)

lemma same_rows_trans:
  assumes "same_rows now s t" "same_rows now t u"
  shows "same_rows now s u"
  using assms unfolding same_rows_def by (cases s; cases t; cases u) simp

lemma filter_update_out: "i < length c \<Longrightarrow> \<not> P (c ! i) \<Longrightarrow> \<not> P x \<Longrightarrow> filter P (c[i := x]) = filter P c"
  by (induction c arbitrary: i) (auto split: nat.splits)

lemma settled_status: "li_status (settled now l) \<noteq> Open"
  by (simp add: settled_def ended_def)

lemma settleListing_answers:
  assumes M: "lawful_mongo M" and inv: "market_inv s"
    and read: "\<forall>k\<in>set (db_listings s). li_id k = li_id l \<and> li_revision k = li_revision l \<longrightarrow> k = l"
  shows "\<exists>t. settleListing M now [] l s = (Inr (), t) \<and> market_inv t \<and> aged newId s t \<and> same_rows now s t"
proof -
  obtain t where t: "settleWork M now l s = (Inr (), t)" "market_inv t" "aged newId s t"
    using settleWork_sound [OF M inv read, of now newId] by metis
  from M inv read have "same_rows now s t"
  proof (cases rule: settleWork_cases [where now = now])
    case idle
    with t(1) show ?thesis by simp
  next
    case (settled i)
    with t(1) have tt: "t = s\<lparr>db_listings := (db_listings s)[i := settled now l], db_claims := db_claims s @ settled_claims l\<rparr>"
      by simp
    have "filter (\<lambda>l. li_status l = Open \<and> now < li_endsAt l) ((db_listings s)[i := settled now l])
        = filter (\<lambda>l. li_status l = Open \<and> now < li_endsAt l) (db_listings s)"
      using settled(1,2,4) settled_status [of now l] by (intro filter_update_out) simp_all
    then show ?thesis unfolding same_rows_def tt by simp
  qed
  with t show ?thesis by (auto simp: settleListing_def)
qed

lemma settle_each:
  assumes M: "lawful_mongo M" and new: "newId \<notin> li_id ` set ls"
  shows "market_inv s \<Longrightarrow> reads_ok ls s \<Longrightarrow>
    \<exists>t. eachW (settleListing M now []) ls s = (Inr (), t) \<and> market_inv t \<and> same_rows now s t"
  using new
proof (induction ls arbitrary: s)
  case Nil
  then show ?case by (simp add: retW_def)
next
  case (Cons l ls)
  have "\<forall>k\<in>set (db_listings s). li_id k = li_id l \<and> li_revision k = li_revision l \<longrightarrow> k = l"
    using Cons.prems(2) by (simp add: reads_ok_def)
  then obtain t where t: "settleListing M now [] l s = (Inr (), t)" "market_inv t" "aged newId s t" "same_rows now s t"
    using settleListing_answers [OF M Cons.prems(1)] by blast
  have s: "reads_ok ls s" using Cons.prems(2) by (simp add: reads_ok_def)
  have n: "newId \<notin> li_id ` set ls" using Cons.prems(3) by simp
  have r: "reads_ok ls t" by (rule reads_ok_aged [OF s t(3) n])
  from n Cons.IH t(2) r obtain u where u: "eachW (settleListing M now []) ls t = (Inr (), u)"
    "market_inv u" "same_rows now t u" by blast
  have "eachW (settleListing M now []) (l # ls) s = (Inr (), u)" using t(1) u(1) by (simp add: bindW_def)
  then show ?case using u(2) same_rows_trans [OF t(4) u(3)] by blast
qed

lemma settleDue_answers:
  assumes M: "lawful_mongo M" and inv: "market_inv s"
  obtains n t where "settleDue M now P s = (Inr n, t)" "market_inv t" "same_rows now s t"
proof -
  let ?due = "take MARKET_PAGE (sort_key li_endsAt (drv_find (mg_listings M)
      (\<lambda>l. P l \<and> li_status l = Open \<and> li_endsAt l \<le> now) (db_listings s)))"
  have due: "set ?due \<subseteq> set (db_listings s)"
    using collection.find_docs [OF lawful_mongoD(5) [OF M]] by (auto dest!: in_set_takeD)
  have "distinct (map li_id (db_listings s))" using inv by (simp add: market_inv_def)
  then have "k = l" if "k \<in> set (db_listings s)" "l \<in> set ?due" "li_id k = li_id l" for k l
    using that due distinct_map_eq [of li_id "db_listings s"] by blast
  then have "reads_ok ?due s" by (auto simp: reads_ok_def)
  moreover obtain newId :: string where "newId \<notin> li_id ` set ?due"
    using ex_new_if_finite [of "li_id ` set ?due"] infinite_UNIV_listI by auto
  ultimately obtain t where "eachW (settleListing M now []) ?due s = (Inr (), t)" "market_inv t" "same_rows now s t"
    using settle_each [OF M _ inv] by blast
  then show ?thesis by (intro that [of "length ?due" t]) (simp_all add: settleDue_def Let_def bindW_def retW_def)
qed

section \<open>The pages of a market\<close>

fun all_market :: "nat \<Rightarrow> mongo \<Rightarrow> ms \<Rightarrow> market_request \<Rightarrow> db \<Rightarrow> wire_listing list option" where
  "all_market 0 M now q s = None"
| "all_market (Suc n) M now q s = (case listMarket M now q s of
     (Inl e, t) \<Rightarrow> None
   | (Inr v, t) \<Rightarrow> if mv_next v = '''' then Some (mv_listings v)
       else map_option (\<lambda>rows. mv_listings v @ rows) (all_market n M now (q\<lparr>mq_after := mv_next v\<rparr>) t))"

definition market_rows :: "market_request \<Rightarrow> ms \<Rightarrow> string \<Rightarrow> string \<Rightarrow> db \<Rightarrow> listing list" where
  "market_rows q now scope scopeKey s = filter (\<lambda>l. in_market (mq_marketCode q) scope scopeKey l \<and> shown q now l) (db_listings s)"

lemma same_rows_market: "same_rows now s t \<Longrightarrow> market_rows q now scope scopeKey t = market_rows q now scope scopeKey s"
proof -
  assume r: "same_rows now s t"
  have "market_rows q now scope scopeKey u = filter (\<lambda>l. in_market (mq_marketCode q) scope scopeKey l \<and> shown q now l)
      (filter (\<lambda>l. li_status l = Open \<and> now < li_endsAt l) (db_listings u))" for u
    unfolding market_rows_def filter_filter by (rule filter_cong) (auto simp: shown_def)
  note rows = this
  from r have "filter (\<lambda>l. li_status l = Open \<and> now < li_endsAt l) (db_listings t)
      = filter (\<lambda>l. li_status l = Open \<and> now < li_endsAt l) (db_listings s)"
    unfolding same_rows_def by (rule conjunct2)
  then show ?thesis unfolding rows [of t] rows [of s] by (rule arg_cong)
qed

definition page_cursor :: "listing list \<Rightarrow> nat \<Rightarrow> string" where
  "page_cursor xs k = (if k = 0 then '''' else listing_cursor (xs ! (k - 1)))"

lemma market_page_pos: "0 < MARKET_PAGE"
  by (simp add: MARKET_PAGE_def)

lemma readView_page:
  assumes M: "lawful_mongo M" and ds: "ds = market_rows q now scope scopeKey s" and xs: "xs = soonest_first ds"
    and d: "distinct (map li_id ds)" "\<forall>l\<in>set ds. row_sound l" and k: "k \<le> length ds"
    and after: "afterCursor (page_cursor xs k) = Inr after"
  shows "mv_listings (readView M q now scope scopeKey revision after s) = map (\<lambda>l. wireListing l (mq_playerId q)) (take MARKET_PAGE (drop k xs))"
    "mv_next (readView M q now scope scopeKey revision after s)
      = (if MARKET_PAGE < length (drop k xs) then page_cursor xs (k + MARKET_PAGE) else '''')"
proof -
  have ranks: "distinct (map listing_rank ds)" using d(1) by (auto simp: distinct_map inj_on_def listing_rank_def)
  have sf: "soonest_first ls = sort_key listing_rank ls" for ls by (simp add: soonest_first_def listing_rank_def [abs_def])
  have "rows_after (page_cursor xs k) = after" using after by (simp add: rows_after_def fun_eq_iff)
  then have from_k: "sort_key listing_rank (filter after ds) = drop k xs"
    using market_rows.rows_from [OF ranks d(2) k] by (simp add: page_cursor_def xs sf)
  have "filter (\<lambda>l. in_market (mq_marketCode q) scope scopeKey l \<and> shown q now l \<and> after l) (db_listings s) = filter after ds"
    unfolding ds market_rows_def filter_filter by (rule filter_cong) auto
  then have page: "soonest_first (drv_find (mg_listings M) (\<lambda>l. in_market (mq_marketCode q) scope scopeKey l \<and> shown q now l \<and> after l)
      (db_listings s)) = drop k xs"
    using from_k by (simp add: collection.find_docs [OF lawful_mongoD(5) [OF M]] sf)
  have l: "last (take MARKET_PAGE (drop k xs)) = xs ! (k + MARKET_PAGE - 1)" if "MARKET_PAGE < length (drop k xs)"
    using that market_page_pos by (simp add: last_conv_nth min_def)
  show "mv_listings (readView M q now scope scopeKey revision after s) = map (\<lambda>l. wireListing l (mq_playerId q)) (take MARKET_PAGE (drop k xs))"
    by (simp add: readView_def Let_def page min_def)
  show "mv_next (readView M q now scope scopeKey revision after s)
      = (if MARKET_PAGE < length (drop k xs) then page_cursor xs (k + MARKET_PAGE) else '''')"
    using l market_page_pos by (auto simp: readView_def Let_def page page_cursor_def min_def)
qed

lemma same_rows_read:
  assumes "same_rows now s t"
  shows "findProfile M code t = findProfile M code s" "scopeKeyOf M t scope i = scopeKeyOf M s scope i"
proof -
  obtain ls cs where "t = s\<lparr>db_listings := ls, db_claims := cs\<rparr>" using assms unfolding same_rows_def by blast
  then show "findProfile M code t = findProfile M code s" "scopeKeyOf M t scope i = scopeKeyOf M s scope i"
    by (simp_all add: findProfile_def scopeKeyOf_def universeCodeOf_def)
qed

text \<open>A request that names a market of a world.\<close>

definition opens :: "mongo \<Rightarrow> market_request \<Rightarrow> market_profile \<Rightarrow> string \<Rightarrow> db \<Rightarrow> bool" where
  "opens M q p scopeKey s \<longleftrightarrow> isText (Str (mq_instanceCode q)) \<and> isText (Str (mq_marketCode q)) \<and> isText (Str (mq_playerId q))
     \<and> isId (Str (mq_playerId q)) \<and> findProfile M (mq_marketCode q) s = Some p
     \<and> scopeKeyOf M s (mk_scope p) (mq_instanceCode q) = scopeKey \<and> scopeKey \<noteq> ''''"

lemma listMarket_answers:
  assumes M: "lawful_mongo M" and inv: "market_inv s" and op: "opens M q p scopeKey s" and after: "afterCursor (mq_after q) = Inr after"
  obtains t where "listMarket M now q s = (Inr (readView M q now (mk_scope p) scopeKey (mk_revision p) after t), t)"
    "market_inv t" "same_rows now s t"
proof -
  let ?player = "map to_lower (mq_playerId q)"
  obtain n t where t: "settleDue M now (in_market (mq_marketCode q) (mk_scope p) scopeKey) s = (Inr n, t)" "market_inv t" "same_rows now s t"
    by (rule settleDue_answers [OF M inv])
  obtain m u where u: "settleDue M now (\<lambda>l. li_seller l = ?player \<or> li_bidder l = Some ?player) t = (Inr m, u)" "market_inv u" "same_rows now t u"
    by (rule settleDue_answers [OF M t(2)])
  have "listMarket M now q s = (Inr (readView M q now (mk_scope p) scopeKey (mk_revision p) after u), u)"
    using op after t(1) u(1) by (simp add: listMarket_def opens_def Let_def bindW_def)
  then show ?thesis using u(2) same_rows_trans [OF t(3) u(3)] by (rule that)
qed

lemma all_market_from:
  assumes M: "lawful_mongo M" and ds: "distinct (map li_id ds)" "\<forall>l\<in>set ds. row_sound l" and xs: "xs = soonest_first ds"
  shows "market_inv s \<Longrightarrow> opens M q p scopeKey s \<Longrightarrow> mq_after q = page_cursor xs k \<Longrightarrow>
    ds = market_rows q now (mk_scope p) scopeKey s \<Longrightarrow> k \<le> length ds \<Longrightarrow> length ds < k + n \<Longrightarrow>
    all_market n M now q s = Some (map (\<lambda>l. wireListing l (mq_playerId q)) (drop k xs))"
proof (induction n arbitrary: q s k)
  case (Suc n)
  have len: "length xs = length ds" by (simp add: xs soonest_first_def)
  obtain after where after: "afterCursor (page_cursor xs k) = Inr after"
  proof (cases k)
    case 0
    then show ?thesis by (intro that) (simp add: page_cursor_def afterCursor_empty)
  next
    case (Suc j)
    with Suc.prems(5) len have "j < length xs" by simp
    then have "xs ! j \<in> set xs" by (rule nth_mem)
    then have "xs ! j \<in> set ds" unfolding xs soonest_first_def set_sort .
    then show ?thesis using afterCursor_cursor [of "xs ! j"] ds(2) Suc by (intro that) (simp add: page_cursor_def)
  qed
  obtain t where t: "listMarket M now q s = (Inr (readView M q now (mk_scope p) scopeKey (mk_revision p) after t), t)"
    "market_inv t" "same_rows now s t"
    by (rule listMarket_answers [OF M Suc.prems(1,2) after [folded Suc.prems(3)]])
  let ?v = "readView M q now (mk_scope p) scopeKey (mk_revision p) after t" and ?wire = "\<lambda>l. wireListing l (mq_playerId q)"
  have dt: "ds = market_rows q now (mk_scope p) scopeKey t" using Suc.prems(4) same_rows_market [OF t(3)] by simp
  note v = readView_page [OF M dt xs ds Suc.prems(5) after]
  show ?case
  proof (cases "MARKET_PAGE < length (drop k xs)")
    case False
    then have "all_market (Suc n) M now q s = Some (map ?wire (take MARKET_PAGE (drop k xs)))" by (simp add: t(1) v)
    with False show ?thesis by simp
  next
    case True
    let ?q = "q\<lparr>mq_after := page_cursor xs (k + MARKET_PAGE)\<rparr>"
    have "page_cursor xs (k + MARKET_PAGE) \<noteq> ''''" using market_page_pos by (simp add: page_cursor_def listing_cursor_def)
    then have step: "all_market (Suc n) M now q s
        = map_option (\<lambda>rows. map ?wire (take MARKET_PAGE (drop k xs)) @ rows) (all_market n M now ?q t)"
      using True by (simp add: t(1) v)
    have "opens M ?q p scopeKey t" using Suc.prems(2) same_rows_read [OF t(3)] by (simp add: opens_def)
    moreover have "ds = market_rows ?q now (mk_scope p) scopeKey t" using dt by (simp add: market_rows_def shown_def)
    moreover have "k + MARKET_PAGE \<le> length ds" "length ds < (k + MARKET_PAGE) + n"
      using True len Suc.prems(6) market_page_pos by simp_all
    ultimately have "all_market n M now ?q t = Some (map ?wire (drop (k + MARKET_PAGE) xs))"
      using Suc.IH [OF t(2), of ?q "k + MARKET_PAGE"] by simp
    moreover have "drop k xs = take MARKET_PAGE (drop k xs) @ drop (k + MARKET_PAGE) xs"
      by (metis add.commute append_take_drop_id drop_drop)
    ultimately show ?thesis using step by (metis map_append option.simps(9))
  qed
qed simp

text \<open>C36: the pages of a market cover it: from a sound market state, every page answers, and following
the cursor lists exactly the open listings of that market that have not ended and match the filters,
each once, the soonest end first; what a read settles on the way never changes a page.\<close>

theorem market_pages_cover:
  assumes "lawful_mongo M" "market_inv s" "opens M q p scopeKey s" "mq_after q = ''''"
    and "\<forall>l\<in>set (db_listings s). row_sound l" "length (db_listings s) < n"
  shows "all_market n M now q s = Some (map (\<lambda>l. wireListing l (mq_playerId q))
    (soonest_first (market_rows q now (mk_scope p) scopeKey s)))"
proof -
  let ?ds = "market_rows q now (mk_scope p) scopeKey s"
  have "distinct (map li_id ?ds)" using assms(2) by (simp add: market_inv_def market_rows_def distinct_map_filter)
  moreover have "\<forall>l\<in>set ?ds. row_sound l" using assms(5) by (simp add: market_rows_def)
  moreover have "length ?ds < 0 + n" using assms(6) by (simp add: market_rows_def le_less_trans [OF length_filter_le])
  ultimately have "all_market n M now q s = Some (map (\<lambda>l. wireListing l (mq_playerId q)) (drop 0 (soonest_first ?ds)))"
    using assms(2-4) by (intro all_market_from [OF assms(1), where ds = ?ds]) (simp_all add: page_cursor_def)
  then show ?thesis by simp
qed

definition market_visit :: market_request where
  "market_visit = \<lparr>mq_instanceCode = ''w1'', mq_marketCode = ''bazaar'', mq_playerId = pid2, mq_itemId = '''', mq_mode = '''', mq_after = ''''\<rparr>"

lemma market_pages_cover_witness:
  "all_market 2 ref_mongo 6 market_visit bid_db = Some (map (\<lambda>l. wireListing l pid2) (db_listings bid_db))
     \<and> length (db_listings bid_db) = 1"
proof -
  let ?p = "the (findProfile ref_mongo ''bazaar'' bid_db)"
  have inv: "market_inv bid_db"
    using machine_inv_reach [OF lawful_ref_mongo bid_reach] by (simp add: machine_inv_def bid_state_def)
  have "isText (Str ''w1'') \<and> isText (Str ''bazaar'') \<and> isText (Str pid2) \<and> isId (Str pid2)
      \<and> findProfile ref_mongo ''bazaar'' bid_db \<noteq> None \<and> scopeKeyOf ref_mongo bid_db (mk_scope ?p) ''w1'' = ''w1''"
    by code_simp
  then have op: "opens ref_mongo market_visit ?p ''w1'' bid_db" by (auto simp: opens_def market_visit_def)
  have rows: "list_all row_sound (db_listings bid_db) \<and> length (db_listings bid_db) = 1" by code_simp
  then have sound: "\<forall>l\<in>set (db_listings bid_db). row_sound l" by (simp add: list_all_iff)
  have first: "mq_after market_visit = ''''" by (simp add: market_visit_def)
  have "length (db_listings bid_db) < 2" using rows by simp
  note all = market_pages_cover [OF lawful_ref_mongo inv op first sound this, of 6]
  have "market_rows market_visit 6 (mk_scope ?p) ''w1'' bid_db = db_listings bid_db" by code_simp
  moreover have "soonest_first (db_listings bid_db) = db_listings bid_db"
    using rows by (cases "db_listings bid_db") (simp_all add: soonest_first_def)
  moreover have "mq_playerId market_visit = pid2" by (simp add: market_visit_def)
  ultimately show ?thesis using all rows by simp
qed

end
