(* ===== verification/Economy.thy ===== *)
theory Economy imports Samples "HOL-Library.List_Lexorder" "HOL-Library.Char_ord" begin

text \<open>
  The economies of the content database: \<open>src/projects/cyberia/economy/economy-policy.js\<close>, the writes of
  \<open>src/api/cyberia-economy/cyberia-economy.service.js\<close> and of the economy code of a conf
  (\<open>src/api/cyberia-instance-conf/cyberia-instance-conf.service.js\<close>).

  \<open>game_content\<close> holds the collections these read and write, each with the driver of \<open>Store\<close>; the universes
  are of the host database and only read. \<open>cm_cast\<close> is what the schema of an item row makes of a row
  before it validates it (casts, trims, and the refusals of its strict mode). A name, a description, a
  status and a code of a request are texts or left out. The instance and economy codes are no name that
  every object inherits.
\<close>

section \<open>Content\<close>

definition ECONOMY_DEFAULT_CODE :: string where
  "ECONOMY_DEFAULT_CODE = ''standard''"

definition ECONOMY_STATUSES :: "string list" where
  "ECONOMY_STATUSES = [''active'', ''retired'']"

record economy =
  en_id :: oid
  en_code :: string
  en_name :: string
  en_description :: string
  en_status :: string
  en_revision :: int
  en_profile :: economy_profile

record item_policy =
  ip_economyCode :: string
  ip_row :: js \<comment> \<open>the item id and the fields the row sets\<close>

record catalog_binding =
  cb_itemId :: string
  cb_objectLayerCid :: string

record conf =
  cf_id :: oid
  cf_instanceCode :: string
  cf_economyCode :: string

record game_content =
  ct_economies :: "economy docs"
  ct_policies :: "item_policy docs"
  ct_catalog :: "catalog_binding docs"
  ct_confs :: "conf docs"

record content_mongo =
  cm_economies :: "economy driver"
  cm_policies :: "item_policy driver"
  cm_catalog :: "catalog_binding driver"
  cm_confs :: "conf driver"
  cm_cast :: "js \<Rightarrow> error + js"
  cm_database :: string \<comment> \<open>\<open>CyberiaEconomy.db?.name\<close>, empty when it has none\<close>

definition profile_js :: "economy_profile \<Rightarrow> js" where
  "profile_js p = Obj [(''currency'', Obj (ep_currency p)), (''rules'', Obj (ep_rules p)), (''fees'', Obj (ep_fees p)),
     (''itemDefaults'', Obj (ep_itemDefaults p))]"

text \<open>The document schemas: the rules of a profile hold, and a row passes its check.\<close>

definition economy_schema :: "economy \<Rightarrow> bool" where
  "economy_schema e \<longleftrightarrow> en_code e \<noteq> '''' \<and> en_status e \<in> set ECONOMY_STATUSES \<and> 1 \<le> en_revision e
     \<and> resolveEconomyProfile (profile_js (en_profile e)) = Inr (en_profile e)"

definition policy_schema :: "item_policy \<Rightarrow> bool" where
  "policy_schema p \<longleftrightarrow> ip_economyCode p \<noteq> '''' \<and> itemPolicyDefect (ip_row p) = ''''"

definition conf_schema :: "conf \<Rightarrow> bool" where
  "conf_schema c \<longleftrightarrow> cf_instanceCode c \<noteq> ''''"

definition row_item :: "js \<Rightarrow> string" where
  "row_item row = jstr (jget row ''itemId'')"

definition policy_key :: "item_policy \<Rightarrow> string \<times> string" where
  "policy_key p = (ip_economyCode p, row_item (ip_row p))"

text \<open>A row in the form the schema stores: known fields in its order, each set, and trimmed ids.\<close>

definition trimmed_line :: "js \<Rightarrow> bool" where
  "trimmed_line line \<longleftrightarrow> line = Obj [(''itemId'', jget line ''itemId''), (''qty'', jget line ''qty'')]
     \<and> trim (row_item line) = row_item line"

definition row_stored :: "js \<Rightarrow> bool" where
  "row_stored row \<longleftrightarrow> (let keys = map fst (fields_of row) in
     row = Obj (fields_of row) \<and> keys = filter (\<lambda>k. k \<in> set keys) (''itemId'' # ITEM_POLICY_ROW_FIELDS)
     \<and> list_all (\<lambda>(k, v). \<not> nullish v) (fields_of row) \<and> trim (row_item row) = row_item row
     \<and> list_all trimmed_line (jarr (jget row ''salvage'')))"

definition lawful_content :: "content_mongo \<Rightarrow> bool" where
  "lawful_content C \<longleftrightarrow> collection (cm_economies C) en_code economy_schema
     \<and> collection (cm_policies C) policy_key policy_schema
     \<and> collection (cm_catalog C) cb_itemId (\<lambda>_. True)
     \<and> collection (cm_confs C) cf_instanceCode conf_schema
     \<and> (\<forall>row. row_stored row \<and> itemPolicyDefect row = '''' \<longrightarrow> cm_cast C row = Inr row)"

lemma lawful_contentD:
  assumes "lawful_content C"
  shows "collection (cm_economies C) en_code economy_schema"
    and "collection (cm_policies C) policy_key policy_schema"
    and "collection (cm_catalog C) cb_itemId (\<lambda>_. True)"
    and "collection (cm_confs C) cf_instanceCode conf_schema"
    and "row_stored row \<Longrightarrow> itemPolicyDefect row = '''' \<Longrightarrow> cm_cast C row = Inr row"
  using assms by (simp_all add: lawful_content_def)

definition unique_content :: "game_content \<Rightarrow> bool" where
  "unique_content s \<longleftrightarrow> unique_docs en_code (ct_economies s) \<and> unique_docs policy_key (ct_policies s)
     \<and> unique_docs cb_itemId (ct_catalog s) \<and> unique_docs cf_instanceCode (ct_confs s)"

section \<open>The snapshot a world runs\<close>

definition walletContract :: "js \<Rightarrow> error + block" where
  "walletContract currency = resolveCurrency (if nullish currency then Obj [] else currency)"

definition or_text :: "js \<Rightarrow> js" where
  "or_text v = (if v = Undefined then Str '''' else v)"

definition wirePolicy :: "block \<Rightarrow> js" where
  "wirePolicy policy = (let get = jget (Obj policy) in
     Obj ([(''itemId'', or_text (get ''itemId'')), (''olCid'', or_text (get ''olCid''))]
       @ map (\<lambda>key. (key, get key)) (map fst ITEM_POLICY_DEFAULTS)
       @ map (\<lambda>key. (key, get key)) (filter (\<lambda>key. \<not> nullish (get key)) (map fst ITEM_POLICY_OPTIONAL_LIMITS))
       @ [(''salvage'', Arr (map (\<lambda>line. Obj [(''itemId'', jget line ''itemId''), (''qty'', jget line ''qty'')])
            (jarr (get ''salvage''))))]))"

definition economyMessage :: "string \<Rightarrow> string \<Rightarrow> int \<Rightarrow> economy_profile \<Rightarrow> block list \<Rightarrow> block" where
  "economyMessage authorityId code revision profile itemPolicies =
     spread [(''authorityId'', Str authorityId), (''code'', Str code), (''revision'', JInt revision)]
       (ep_rules profile @ [(''maxBalance'', jget (Obj (ep_currency profile)) ''maxBalance''),
         (''fees'', Obj (ep_fees profile)), (''itemDefaults'', wirePolicy (ep_itemDefaults profile)),
         (''itemPolicies'', Arr (map wirePolicy itemPolicies))])"

definition defaultEconomySnapshot :: block where
  "defaultEconomySnapshot = economyMessage '''' '''' 0 \<lparr>ep_currency = CURRENCY_DEFAULTS, ep_rules = ECONOMY_RULES_DEFAULTS,
     ep_fees = OPERATION_FEE_DEFAULTS, ep_itemDefaults = ITEM_POLICY_DEFAULTS\<rparr> []"

definition activeEconomy :: "content_mongo \<Rightarrow> string \<Rightarrow> game_content \<Rightarrow> error + economy" where
  "activeEconomy C code s =
     (case drv_find_one (cm_economies C) (\<lambda>e. en_code e = code) (ct_economies s) of
        None \<Rightarrow> Inl (http_error (''No economy '' @ code) 404)
      | Some e \<Rightarrow> if en_status e \<noteq> ''active'' then Inl (http_error (''Economy '' @ code @ '' is retired'') 409) else Inr e)"

text \<open>\<open>CyberiaItemCatalog.resolve\<close>: the cid of each item the catalog binds.\<close>

definition catalog_resolve :: "content_mongo \<Rightarrow> string list \<Rightarrow> game_content \<Rightarrow> string \<Rightarrow> string option" where
  "catalog_resolve C itemIds s =
     (let labels = remdups (filter (\<lambda>i. i \<noteq> '''') itemIds) in
      if labels = [] then Map.empty
      else map_of (map (\<lambda>b. (cb_itemId b, cb_objectLayerCid b))
        (drv_find (cm_catalog C) (\<lambda>b. cb_itemId b \<in> set labels) (ct_catalog s))))"

text \<open>\<open>find({ economyCode }).sort({ itemId: 1 })\<close>.\<close>

definition rows_by_item :: "content_mongo \<Rightarrow> string \<Rightarrow> game_content \<Rightarrow> js list" where
  "rows_by_item C code s = sort_key row_item
     (map ip_row (drv_find (cm_policies C) (\<lambda>p. ip_economyCode p = code) (ct_policies s)))"

definition compileEconomySnapshot :: "content_mongo \<Rightarrow> string \<Rightarrow> string \<Rightarrow> game_content \<Rightarrow> error + block" where
  "compileEconomySnapshot C authorityId code s =
     bindE (activeEconomy C code s) (\<lambda>economy.
     bindE (resolveEconomyProfile (profile_js (en_profile economy))) (\<lambda>profile.
       let rows = rows_by_item C code s; bindings = catalog_resolve C (map row_item rows) s in
       Inr (economyMessage authorityId code (en_revision economy) profile
         (map (\<lambda>row. spread [(''itemId'', Str (row_item row)), (''olCid'', Str (the (bindings (row_item row))))]
              (effectiveItemPolicy row (ep_itemDefaults profile)))
           (filter (\<lambda>row. bindings (row_item row) \<noteq> None) rows)))))"

section \<open>The wallet of a universe\<close>

definition confEconomyCode :: "conf option \<Rightarrow> string" where
  "confEconomyCode conf = (case conf of None \<Rightarrow> ECONOMY_DEFAULT_CODE
     | Some c \<Rightarrow> if cf_economyCode c = '''' then ECONOMY_DEFAULT_CODE else cf_economyCode c)"

record wallet_plan =
  pn_confs :: "(string \<times> string) list"
  pn_economies :: "(string \<times> js) list"
  pn_pending :: string

definition nothing_planned :: wallet_plan where
  "nothing_planned = \<lparr>pn_confs = [], pn_economies = [], pn_pending = ''in the conf it is saved with''\<rparr>"

record member =
  me_instanceCode :: string
  me_economyCode :: string
  me_source :: string

definition member_of :: "content_mongo \<Rightarrow> string list \<Rightarrow> wallet_plan \<Rightarrow> game_content \<Rightarrow> string \<Rightarrow> member" where
  "member_of C instanceCodes p s i =
     (let stored = drv_find (cm_confs C) (\<lambda>c. cf_instanceCode c \<in> set instanceCodes) (ct_confs s);
          codeOf = map_of (map (\<lambda>c. (cf_instanceCode c, confEconomyCode (Some c))) stored)
      in \<lparr>me_instanceCode = i,
          me_economyCode = (case map_of (pn_confs p) i of Some code \<Rightarrow> code
             | None \<Rightarrow> (case codeOf i of Some code \<Rightarrow> code | None \<Rightarrow> ECONOMY_DEFAULT_CODE)),
          me_source = (if map_of (pn_confs p) i \<noteq> None then pn_pending p
             else if codeOf i \<noteq> None then ''in its stored conf'' else ''by default'')\<rparr>)"

definition walletOf :: "content_mongo \<Rightarrow> string list \<Rightarrow> wallet_plan \<Rightarrow> game_content \<Rightarrow> string \<Rightarrow> error + block option" where
  "walletOf C codes p s code =
     (let profiles = map_of (map (\<lambda>e. (en_code e, e))
            (drv_find (cm_economies C) (\<lambda>e. en_code e \<in> set (remdups codes)) (ct_economies s)));
          pending = (case map_of (pn_economies p) code of None \<Rightarrow> Undefined | Some v \<Rightarrow> v) in
      if truthy pending then bindE (resolveCurrency pending) (\<lambda>w. Inr (Some w))
      else case profiles code of None \<Rightarrow> Inr None
        | Some e \<Rightarrow> bindE (walletContract (Obj (ep_currency (en_profile e)))) (\<lambda>w. Inr (Some w)))"

definition wallet_code :: "block \<Rightarrow> string" where
  "wallet_code w = jstr (jget (Obj w) ''code'')"

definition named :: "member \<Rightarrow> block \<Rightarrow> string" where
  "named m w = me_instanceCode m @ '' ('' @ me_economyCode m @ '': '' @ wallet_code w @ '' up to ''
     @ int_string (block_int w ''maxBalance'') @ '')''"

fun walletLoop :: "(string \<Rightarrow> error + block option) \<Rightarrow> string \<Rightarrow> (member \<times> block) option \<Rightarrow> member list \<Rightarrow> error + string" where
  "walletLoop wallet database first [] = Inr ''''"
| "walletLoop wallet database first (m # ms) = bindE (wallet (me_economyCode m)) (\<lambda>w.
     case w of
       None \<Rightarrow> Inr (''world '' @ me_instanceCode m @ '' names economy '' @ me_economyCode m @ '' '' @ me_source m @ '', which ''
         @ (if database \<noteq> '''' then ''content database '' @ database else ''the content database'') @ '' does not hold'')
     | Some b \<Rightarrow> (case first of
         None \<Rightarrow> walletLoop wallet database (Some (m, b)) ms
       | Some (m1, b1) \<Rightarrow>
           if jget (Obj b) ''code'' \<noteq> jget (Obj b1) ''code'' \<or> jget (Obj b) ''maxBalance'' \<noteq> jget (Obj b1) ''maxBalance''
           then Inr (''worlds '' @ named m1 b1 @ '' and '' @ named m b @ '' hold different wallets'')
           else walletLoop wallet database first ms))"

definition universeWalletDefect :: "content_mongo \<Rightarrow> string list \<Rightarrow> wallet_plan \<Rightarrow> game_content \<Rightarrow> error + string" where
  "universeWalletDefect C instanceCodes p s =
     (if length instanceCodes < 2 then Inr ''''
      else let members = map (member_of C instanceCodes p s) instanceCodes in
        walletLoop (walletOf C (map me_economyCode members) p s) (cm_database C) None members)"

section \<open>Checks of a write\<close>

text \<open>\<open>CONTENT_CODE_PATTERN\<close>.\<close>

definition contentCode :: "string \<Rightarrow> bool" where
  "contentCode s \<longleftrightarrow> s \<noteq> '''' \<and> (is_digit (hd s) \<or> is_letter (hd s))
     \<and> list_all (\<lambda>c. is_word c \<or> c = CHR ''.'' \<or> c = CHR ''-'') (tl s)"

definition assertEconomyProfile :: "string \<Rightarrow> js \<Rightarrow> error + economy_profile" where
  "assertEconomyProfile code economy =
     (if \<not> contentCode code then Inl (http_error ''The economy code is invalid'' 400)
      else case resolveEconomyProfile economy of
        Inl e \<Rightarrow> Inl (http_error (err_message e) 400) | Inr profile \<Rightarrow> Inr profile)"

definition find_economy :: "content_mongo \<Rightarrow> string \<Rightarrow> game_content \<Rightarrow> economy option" where
  "find_economy C code s = drv_find_one (cm_economies C) (\<lambda>e. en_code e = code) (ct_economies s)"

definition join :: "string list \<Rightarrow> string" where
  "join xs = concat (case xs of [] \<Rightarrow> [] | x # ys \<Rightarrow> x # map (\<lambda>y. '', '' @ y) ys)"

definition assertItemPolicy :: "content_mongo \<Rightarrow> string \<Rightarrow> js \<Rightarrow> game_content \<Rightarrow> error + unit" where
  "assertItemPolicy C economyCode row s =
     (if itemPolicyDefect row \<noteq> '''' then Inl (http_error (''Invalid item policy: '' @ itemPolicyDefect row) 400)
      else if find_economy C economyCode s = None then Inl (http_error (''No economy '' @ economyCode) 404)
      else let items = row_item row # map row_item (jarr (jget row ''salvage''));
               bindings = catalog_resolve C items s;
               unbound = filter (\<lambda>i. bindings i = None) items
        in if unbound \<noteq> [] then Inl (http_error (''The catalog binds no '' @ join unbound) 404) else Inr ())"

section \<open>Import and export\<close>

text \<open>The fields of a profile a write sets; \<open>runValidators\<close> checks the status.\<close>

definition set_profile :: "string \<Rightarrow> string \<Rightarrow> string \<Rightarrow> economy_profile \<Rightarrow> int \<Rightarrow> economy \<Rightarrow> economy" where
  "set_profile name description status profile revision e = e\<lparr>en_name := trim name, en_description := description,
     en_status := status, en_profile := profile, en_revision := revision\<rparr>"

definition new_economy :: "oid \<Rightarrow> string \<Rightarrow> economy_profile \<Rightarrow> economy" where
  "new_economy newId code profile = \<lparr>en_id = newId, en_code = code, en_name = '''', en_description = '''',
     en_status = ''active'', en_revision = 1, en_profile = profile\<rparr>"

text \<open>\<open>insertMany\<close> of the rows of an economy.\<close>

definition insert_rows :: "content_mongo \<Rightarrow> string \<Rightarrow> js list \<Rightarrow> (game_content, unit) work" where
  "insert_rows C code rows = writeW (\<lambda>s.
     if rows = [] then Inr s
     else bindE (mapE (cm_cast C) rows) (\<lambda>stored.
       bindE (drv_create (cm_policies C) (map (\<lambda>r. \<lparr>ip_economyCode = code, ip_row = r\<rparr>) stored) (ct_policies s))
         (\<lambda>c. Inr (s\<lparr>ct_policies := c\<rparr>))))"

record economy_doc =
  ed_code :: string
  ed_name :: string
  ed_description :: string
  ed_status :: "string option"
  ed_profile :: js
  ed_items :: "js list"

definition replaceWork :: "content_mongo \<Rightarrow> oid \<Rightarrow> economy_doc \<Rightarrow> economy_profile \<Rightarrow> (game_content, unit) work" where
  "replaceWork C newId d profile =
     bindW (writeW (\<lambda>s.
         let stored = find_economy C (ed_code d) s;
             revision = (case stored of None \<Rightarrow> 1 | Some e \<Rightarrow> en_revision e + 1);
             status = (case ed_status d of None \<Rightarrow> ''active'' | Some t \<Rightarrow> t)
         in if status \<notin> set ECONOMY_STATUSES then Inl validation_error
            else bindE (update_or_insert (cm_economies C) (\<lambda>e. en_code e = ed_code d)
                  (set_profile (ed_name d) (ed_description d) status profile revision)
                  (new_economy newId (ed_code d) profile) (ct_economies s))
              (\<lambda>c. Inr (s\<lparr>ct_economies := c\<rparr>))))
     (\<lambda>_. bindW (writeW (\<lambda>s. Inr (s\<lparr>ct_policies := drv_delete_many (cm_policies C)
          (\<lambda>p. ip_economyCode p = ed_code d) (ct_policies s)\<rparr>)))
     (\<lambda>_. insert_rows C (ed_code d) (ed_items d)))"

definition replaceEconomy :: "content_mongo \<Rightarrow> attempt list \<Rightarrow> oid \<Rightarrow> economy_doc \<Rightarrow> (game_content, unit) work" where
  "replaceEconomy C as newId d s =
     (case assertEconomyProfile (ed_code d) (ed_profile d) of Inl e \<Rightarrow> (Inl e, s)
      | Inr profile \<Rightarrow>
          (case List.find (\<lambda>row. itemPolicyDefect row \<noteq> '''') (ed_items d) of
             Some row \<Rightarrow> (Inl (http_error (''Invalid item policy: '' @ itemPolicyDefect row) 400), s)
           | None \<Rightarrow> runTransaction as (replaceWork C newId d profile) s))"

definition readEconomy :: "content_mongo \<Rightarrow> string \<Rightarrow> game_content \<Rightarrow> economy_doc option" where
  "readEconomy C code s = map_option (\<lambda>e. \<lparr>ed_code = en_code e, ed_name = en_name e, ed_description = en_description e,
     ed_status = Some (en_status e), ed_profile = profile_js (en_profile e), ed_items = rows_by_item C code s\<rparr>)
     (find_economy C code s)"

section \<open>The economy service\<close>

text \<open>\<open>DataQuery.naturalKeyFilter('code', key)\<close>.\<close>

definition natural_key :: "string \<Rightarrow> economy \<Rightarrow> bool" where
  "natural_key key e \<longleftrightarrow> en_code e = key \<or> length key = 24 \<and> list_all is_hex key \<and> en_id e = map to_lower key"

record economy_body =
  eb_code :: "string option"
  eb_revision :: "int option"
  eb_name :: "string option"
  eb_description :: "string option"
  eb_status :: "string option"
  eb_fields :: block \<comment> \<open>currency, rules, fees and item defaults, those the body sets\<close>

definition or_else :: "'a \<Rightarrow> 'a option \<Rightarrow> 'a" where
  "or_else a v = (case v of None \<Rightarrow> a | Some b \<Rightarrow> b)"

definition namedBy :: "content_mongo \<Rightarrow> string \<Rightarrow> game_content \<Rightarrow> string list" where
  "namedBy C code s = remdups (map cf_instanceCode (drv_find (cm_confs C) (\<lambda>c. cf_economyCode c = code) (ct_confs s)))"

fun firstDefect :: "(universe \<Rightarrow> error + string) \<Rightarrow> universe list \<Rightarrow> error + string" where
  "firstDefect f [] = Inr ''''"
| "firstDefect f (u # us) = bindE (f u) (\<lambda>d.
     if d \<noteq> '''' then Inr (''universe '' @ un_code u @ '': '' @ d) else firstDefect f us)"

definition walletChangeDefect :: "content_mongo \<Rightarrow> mongo \<Rightarrow> db \<Rightarrow> string \<Rightarrow> block \<Rightarrow> game_content \<Rightarrow> error + string" where
  "walletChangeDefect C M d code currency s =
     (let worlds = namedBy C code s in
      if worlds = [] then Inr ''''
      else firstDefect (\<lambda>u. universeWalletDefect C (un_instances u) (nothing_planned\<lparr>pn_economies := [(code, Obj currency)]\<rparr>) s)
        (drv_find (mg_universes M) (\<lambda>u. \<exists>i\<in>set (un_instances u). i \<in> set worlds) (db_universes d)))"

definition create_economy :: "content_mongo \<Rightarrow> economy \<Rightarrow> (game_content, unit) work" where
  "create_economy C e = writeW (\<lambda>s. bindE (drv_create (cm_economies C) [e] (ct_economies s)) (\<lambda>c. Inr (s\<lparr>ct_economies := c\<rparr>)))"

definition economy_post :: "content_mongo \<Rightarrow> oid \<Rightarrow> economy_body \<Rightarrow> (game_content, economy) work" where
  "economy_post C newId b s =
     (let code = or_else '''' (eb_code b) in
      case assertEconomyProfile code (Obj (eb_fields b)) of Inl e \<Rightarrow> (Inl e, s)
      | Inr profile \<Rightarrow>
         (if find_economy C code s \<noteq> None then (Inl (http_error (''Economy '' @ code @ '' exists'') 409), s)
          else let doc = set_profile (or_else '''' (eb_name b)) (or_else '''' (eb_description b)) ''active'' profile 1
                 (new_economy newId code profile)
            in bindW (create_economy C doc) (\<lambda>_. retW doc) s))"

definition economy_clone :: "content_mongo \<Rightarrow> attempt list \<Rightarrow> oid \<Rightarrow> string \<Rightarrow> economy_body \<Rightarrow> (game_content, economy) work" where
  "economy_clone C as newId key b s =
     (case drv_find_one (cm_economies C) (natural_key key) (ct_economies s) of
        None \<Rightarrow> (Inl (http_error ''economy not found'' 404), s)
      | Some source \<Rightarrow>
         (let code = or_else '''' (eb_code b) in
          case assertEconomyProfile code (profile_js (en_profile source)) of Inl e \<Rightarrow> (Inl e, s)
          | Inr profile \<Rightarrow>
             (if find_economy C code s \<noteq> None then (Inl (http_error (''Economy '' @ code @ '' exists'') 409), s)
              else let doc = set_profile (or_else '''' (eb_name b)) (en_description source) ''active'' profile 1
                     (new_economy newId code profile)
                in runTransaction as (bindW (create_economy C doc) (\<lambda>_ s.
                     bindW (insert_rows C code (map ip_row (drv_find (cm_policies C)
                       (\<lambda>p. ip_economyCode p = en_code source) (ct_policies s)))) (\<lambda>_. retW doc) s)) s)))"

text \<open>\<open>put\<close> reads, checks and writes; the write takes the profile only at the revision it read.\<close>

definition put_refusal :: "economy \<Rightarrow> economy_body \<Rightarrow> error option" where
  "put_refusal stored b =
     (if eb_code b \<noteq> None \<and> eb_code b \<noteq> Some (en_code stored)
        then Some (http_error (''The code of economy '' @ en_code stored @ '' never changes'') 400)
      else if eb_revision b \<noteq> Some (en_revision stored)
        then Some (http_error (''Economy '' @ en_code stored @ '' is at revision '' @ int_string (en_revision stored) @ '', not ''
          @ (case eb_revision b of None \<Rightarrow> ''undefined'' | Some r \<Rightarrow> int_string r) @ '': reload it'') 409)
      else None)"

definition other_wallet :: "block \<Rightarrow> block \<Rightarrow> bool" where
  "other_wallet v w \<longleftrightarrow> jget (Obj v) ''code'' \<noteq> jget (Obj w) ''code'' \<or> jget (Obj v) ''maxBalance'' \<noteq> jget (Obj w) ''maxBalance''"

definition put_defect :: "content_mongo \<Rightarrow> mongo \<Rightarrow> db \<Rightarrow> economy \<Rightarrow> economy_profile \<Rightarrow> string \<Rightarrow> game_content \<Rightarrow> error + unit" where
  "put_defect C M d stored profile status s =
     bindE (walletContract (Obj (ep_currency (en_profile stored)))) (\<lambda>wallet.
     bindE (if other_wallet wallet (ep_currency profile) then walletChangeDefect C M d (en_code stored) (ep_currency profile) s
            else Inr '''') (\<lambda>defect.
       if defect \<noteq> '''' then Inl (http_error (''Universe wallet: '' @ defect) 409)
       else if status = ''retired'' \<and> en_status stored \<noteq> ''retired'' \<and> namedBy C (en_code stored) s \<noteq> []
         then Inl (http_error (''Worlds '' @ join (namedBy C (en_code stored) s) @ '' run economy '' @ en_code stored) 409)
       else Inr ()))"

definition economy_put :: "content_mongo \<Rightarrow> mongo \<Rightarrow> db \<Rightarrow> string \<Rightarrow> economy_body \<Rightarrow> (game_content, economy) work" where
  "economy_put C M d key b s =
     (case drv_find_one (cm_economies C) (natural_key key) (ct_economies s) of
        None \<Rightarrow> (Inl (http_error ''economy not found'' 404), s)
      | Some stored \<Rightarrow>
        (case put_refusal stored b of Some e \<Rightarrow> (Inl e, s) | None \<Rightarrow>
          (case assertEconomyProfile (en_code stored)
              (Obj (spread (fields_of (profile_js (en_profile stored))) (eb_fields b))) of
             Inl e \<Rightarrow> (Inl e, s)
           | Inr profile \<Rightarrow>
             (let status = or_else (en_status stored) (eb_status b);
                  name = or_else (en_name stored) (eb_name b);
                  description = or_else (en_description stored) (eb_description b) in
              case put_defect C M d stored profile status s of Inl e \<Rightarrow> (Inl e, s)
              | Inr _ \<Rightarrow>
                if status \<notin> set ECONOMY_STATUSES then (Inl validation_error, s)
                else (case find_one_and_update (cm_economies C)
                    (\<lambda>e. en_id e = en_id stored \<and> en_revision e = en_revision stored)
                    (\<lambda>e. set_profile name description status profile (en_revision e + 1) e) (ct_economies s) of
                  (None, _) \<Rightarrow> (Inl (http_error (''Economy '' @ en_code stored @ '' changed while saving: reload it'') 409), s)
                | (Some updated, c) \<Rightarrow> (Inr updated, s\<lparr>ct_economies := c\<rparr>))))))"

definition economy_delete :: "content_mongo \<Rightarrow> attempt list \<Rightarrow> string \<Rightarrow> (game_content, economy) work" where
  "economy_delete C as key s =
     (if key = '''' then (Inl (http_error ''Name the economy to delete'' 400), s)
      else case drv_find_one (cm_economies C) (natural_key key) (ct_economies s) of
        None \<Rightarrow> (Inl (http_error ''economy not found'' 404), s)
      | Some stored \<Rightarrow>
         (if namedBy C (en_code stored) s \<noteq> []
          then (Inl (http_error (''Worlds '' @ join (namedBy C (en_code stored) s) @ '' run economy '' @ en_code stored) 409), s)
          else runTransaction as (\<lambda>s. (Inr stored,
            s\<lparr>ct_policies := drv_delete_many (cm_policies C) (\<lambda>p. ip_economyCode p = en_code stored) (ct_policies s),
              ct_economies := drv_delete_one (cm_economies C) (\<lambda>e. en_id e = en_id stored) (ct_economies s)\<rparr>)) s))"

section \<open>The economy a conf names\<close>

definition assertConfEconomy :: "content_mongo \<Rightarrow> mongo \<Rightarrow> db \<Rightarrow> string \<Rightarrow> string \<Rightarrow> game_content \<Rightarrow> error + unit" where
  "assertConfEconomy C M d instanceCode economyCode s =
     bindE (activeEconomy C economyCode s) (\<lambda>_.
       case drv_find_one (mg_universes M) (\<lambda>u. instanceCode \<in> set (un_instances u)) (db_universes d) of
         None \<Rightarrow> Inr ()
       | Some u \<Rightarrow> bindE (universeWalletDefect C (un_instances u) (nothing_planned\<lparr>pn_confs := [(instanceCode, economyCode)]\<rparr>) s)
           (\<lambda>defect. if defect \<noteq> '''' then Inl (http_error (''Universe wallet: '' @ defect) 409) else Inr ()))"

text \<open>The writes of a conf, on the two fields an economy depends on; the schema fills the default code.\<close>

definition conf_post :: "content_mongo \<Rightarrow> mongo \<Rightarrow> db \<Rightarrow> oid \<Rightarrow> string \<Rightarrow> string option \<Rightarrow> (game_content, conf) work" where
  "conf_post C M d newId instanceCode economyCode s =
     (let conf = \<lparr>cf_id = newId, cf_instanceCode = instanceCode, cf_economyCode = or_else ECONOMY_DEFAULT_CODE economyCode\<rparr> in
      case assertConfEconomy C M d instanceCode (cf_economyCode conf) s of Inl e \<Rightarrow> (Inl e, s)
      | Inr _ \<Rightarrow> (case drv_create (cm_confs C) [conf] (ct_confs s) of Inl e \<Rightarrow> (Inl e, s)
          | Inr c \<Rightarrow> (Inr conf, s\<lparr>ct_confs := c\<rparr>)))"

definition conf_put :: "content_mongo \<Rightarrow> mongo \<Rightarrow> db \<Rightarrow> oid \<Rightarrow> string option \<Rightarrow> string option \<Rightarrow> (game_content, conf option) work" where
  "conf_put C M d confId instanceCode economyCode s =
     (let stored = drv_find_one (cm_confs C) (\<lambda>c. cf_id c = confId) (ct_confs s);
          write = (\<lambda>c. c\<lparr>cf_instanceCode := or_else (cf_instanceCode c) instanceCode,
            cf_economyCode := or_else (cf_economyCode c) economyCode\<rparr>) in
      case (case economyCode of None \<Rightarrow> Inr ()
          | Some code \<Rightarrow> (case stored of None \<Rightarrow> Inl (http_error ''conf not found'' 404)
              | Some c \<Rightarrow> assertConfEconomy C M d (cf_instanceCode c) code s)) of
        Inl e \<Rightarrow> (Inl e, s)
      | Inr _ \<Rightarrow> (case stored of None \<Rightarrow> (Inr None, s)
          | Some c \<Rightarrow>
             if cf_instanceCode (write c) = '''' then (Inl validation_error, s)
             else if cf_instanceCode (write c) \<noteq> cf_instanceCode c
               \<and> cf_instanceCode (write c) \<in> set (map cf_instanceCode (ct_confs s)) then (Inl duplicate_key, s)
             else (Inr (Some c), s\<lparr>ct_confs := snd (find_one_and_update (cm_confs C) (\<lambda>e. cf_id e = confId) write (ct_confs s))\<rparr>)))"

section \<open>Resolved profiles\<close>

text \<open>A profile that was resolved resolves to itself, so a stored profile passes every later check.\<close>

lemma block_again:
  assumes "resolveBlock name input defaults limits isValid = Inr out" "distinct (map fst defaults)"
    and "\<And>k v. isValid k v \<Longrightarrow> \<not> nullish v"
  shows "resolveBlock name (or_empty (Obj out)) defaults limits isValid = Inr out"
proof -
  have "\<forall>(k, v)\<in>set out. \<not> nullish v"
    using resolveBlock_ok [OF assms(1)] assms(3) by (fastforce simp: block_ok_def)
  then show ?thesis using resolveBlock_again [OF resolveBlock_ok [OF assms(1)] assms(2)] by (simp add: or_empty_def)
qed

lemma valid_not_nullish:
  "isInteger v \<Longrightarrow> \<not> nullish v" "isFinite v \<Longrightarrow> \<not> nullish v" "isBool v \<Longrightarrow> \<not> nullish v" "oneOf xs v \<Longrightarrow> \<not> nullish v"
  by (cases v; simp)+

lemma resolveCurrency_again: "resolveCurrency j = Inr b \<Longrightarrow> resolveCurrency (Obj b) = Inr b"
  unfolding resolveCurrency_def
  by (erule block_again) (auto simp: CURRENCY_DEFAULTS_def valid_not_nullish split: if_splits)

lemma profile_again:
  assumes "resolveEconomyProfile j = Inr p"
  shows "resolveEconomyProfile (profile_js p) = Inr p"
proof -
  obtain c r f i where res: "resolveCurrency (jget j ''currency'') = Inr c" "resolveEconomyRules (jget j ''rules'') = Inr r"
    "resolveOperationFees (jget j ''fees'') = Inr f" "resolveItemDefaults (jget j ''itemDefaults'') = Inr i"
    and p: "p = \<lparr>ep_currency = c, ep_rules = r, ep_fees = f, ep_itemDefaults = i\<rparr>"
    using assms by (auto simp: resolveEconomyProfile_def split: if_splits)
  have "resolveEconomyRules (Obj r) = Inr r"
    using res(2) unfolding resolveEconomyRules_def
    by (elim block_again) (auto simp: ECONOMY_RULES_DEFAULTS_def valid_not_nullish split: if_splits)
  moreover have "resolveOperationFees (Obj f) = Inr f"
    using res(3) unfolding resolveOperationFees_def
    by (elim block_again) (auto simp: OPERATION_FEE_DEFAULTS_def valid_not_nullish)
  moreover have "resolveItemDefaults (Obj i) = Inr i"
    using res(4) unfolding resolveItemDefaults_def
    by (elim block_again) (auto simp: ITEM_POLICY_DEFAULTS_def policyValueValid_def valid_not_nullish split: if_splits)
  ultimately show ?thesis
    using resolveCurrency_again [OF res(1)] by (simp add: resolveEconomyProfile_def profile_js_def p)
qed

lemma assertEconomyProfile_Inr:
  "assertEconomyProfile code j = Inr p \<longleftrightarrow> contentCode code \<and> resolveEconomyProfile j = Inr p"
  by (auto simp: assertEconomyProfile_def split: sum.splits)

text \<open>The currency of a resolved profile is a resolved currency.\<close>

lemma profile_currency:
  "resolveEconomyProfile (profile_js p) = Inr p \<Longrightarrow> resolveCurrency (Obj (ep_currency p)) = Inr (ep_currency p)"
  by (cases p) (auto simp: resolveEconomyProfile_def profile_js_def)

section \<open>Lookups\<close>

lemma find_map_if:
  assumes "\<And>d. key (f d) = key d"
  shows "List.find (\<lambda>d. key d = k) (map (\<lambda>d. if Q d then f d else d) c)
     = map_option (\<lambda>d. if Q d then f d else d) (List.find (\<lambda>d. key d = k) c)"
  using assms by (induction c) auto

lemma find_append: "List.find P (xs @ ys) = (case List.find P xs of None \<Rightarrow> List.find P ys | Some x \<Rightarrow> Some x)"
  by (induction xs) auto

lemma find_of_map: "map_of (map (\<lambda>d. (key d, f d)) c) k = map_option f (List.find (\<lambda>d. key d = k) c)"
  by (induction c) auto

lemma find_filter: "(\<And>x. P x \<Longrightarrow> Q x) \<Longrightarrow> List.find P (filter Q xs) = List.find P xs"
  by (induction xs) auto

lemma contentD:
  assumes "lawful_content C" "unique_content s"
  shows "find_economy C code s = List.find (\<lambda>e. en_code e = code) (ct_economies s)"
    and "rows_by_item C code s = sort_key row_item (map ip_row (filter (\<lambda>p. ip_economyCode p = code) (ct_policies s)))"
proof -
  have "unique_docs en_code (ct_economies s)" using assms(2) by (simp add: unique_content_def)
  then show "find_economy C code s = List.find (\<lambda>e. en_code e = code) (ct_economies s)"
    unfolding find_economy_def by (rule collection.find_one_unique [OF lawful_contentD(1) [OF assms(1)], where k = code]) simp
  show "rows_by_item C code s = sort_key row_item (map ip_row (filter (\<lambda>p. ip_economyCode p = code) (ct_policies s)))"
    by (simp add: rows_by_item_def collection.find_docs [OF lawful_contentD(2) [OF assms(1)]])
qed

section \<open>An export imports\<close>

text \<open>What every write of a content database leaves: profiles that resolve, under a code, and rows in the
stored form.\<close>

definition content_ok :: "game_content \<Rightarrow> bool" where
  "content_ok s \<longleftrightarrow> (\<forall>e\<in>set (ct_economies s). economy_schema e \<and> contentCode (en_code e) \<and> trim (en_name e) = en_name e)
     \<and> (\<forall>p\<in>set (ct_policies s). policy_schema p \<and> row_stored (ip_row p))"

lemma insert_rows_ok:
  assumes C: "lawful_content C" and rows: "\<forall>r\<in>set rows. row_stored r \<and> itemPolicyDefect r = ''''" and code: "code \<noteq> ''''"
    and unique: "unique_docs policy_key (ct_policies s @ map (\<lambda>r. \<lparr>ip_economyCode = code, ip_row = r\<rparr>) rows)"
  shows "insert_rows C code rows s
    = (Inr (), s\<lparr>ct_policies := ct_policies s @ map (\<lambda>r. \<lparr>ip_economyCode = code, ip_row = r\<rparr>) rows\<rparr>)"
proof (cases "rows = []")
  case False
  have "mapE (cm_cast C) rows = Inr rows"
    using rows lawful_contentD(5) [OF C] by (auto simp: mapE_Inr list_all2_same)
  moreover have "list_all policy_schema (map (\<lambda>r. \<lparr>ip_economyCode = code, ip_row = r\<rparr>) rows)"
    using rows code by (auto simp: list_all_iff policy_schema_def)
  ultimately show ?thesis
    using False collection.create_ok [OF lawful_contentD(2) [OF C]] unique by (simp add: insert_rows_def writeW_def)
qed (simp add: insert_rows_def writeW_def)

lemma upsert_economy:
  assumes C: "lawful_content C" and u: "unique_docs en_code c" and code: "en_code new = code"
    and f: "\<And>e. en_code (f e) = en_code e" and schema: "economy_schema (f new)"
  obtains c' where "update_or_insert (cm_economies C) (\<lambda>e. en_code e = code) f new c = Inr c'"
    "unique_docs en_code c'"
    "List.find (\<lambda>e. en_code e = code) c' = Some (f (case List.find (\<lambda>e. en_code e = code) c of None \<Rightarrow> new | Some e \<Rightarrow> e))"
    "\<forall>k. k \<noteq> code \<longrightarrow> List.find (\<lambda>e. en_code e = k) c' = List.find (\<lambda>e. en_code e = k) c"
proof -
  obtain c' where c': "update_or_insert (cm_economies C) (\<lambda>e. en_code e = code) f new c = Inr c'"
    "c' = (if \<exists>d\<in>set c. en_code d = code then map (\<lambda>d. if en_code d = code then f d else d) c else c @ [f new])"
    by (rule collection.update_or_insert_cases [OF lawful_contentD(1) [OF C] u, where P = "\<lambda>e. en_code e = code" and k = code
        and f = f and new = new]) (use f code schema in auto)
  show ?thesis
  proof (cases "\<exists>d\<in>set c. en_code d = code")
    case True
    then obtain e where e: "List.find (\<lambda>e. en_code e = code) c = Some e"
      by (cases "List.find (\<lambda>e. en_code e = code) c") (auto simp: find_None_iff_ball)
    then have "en_code e = code" using find_SomeD by fastforce
    have c'': "c' = map (\<lambda>d. if en_code d = code then f d else d) c" using c'(2) True by simp
    have "List.find (\<lambda>e. en_code e = k) c' = map_option (\<lambda>d. if en_code d = code then f d else d) (List.find (\<lambda>e. en_code e = k) c)" for k
      unfolding c'' by (rule find_map_if) (rule f)
    note found = this
    have same: "List.find (\<lambda>e. en_code e = k) c' = List.find (\<lambda>e. en_code e = k) c" if "k \<noteq> code" for k
      using that by (cases "List.find (\<lambda>e. en_code e = k) c") (auto simp: found dest: find_SomeD)
    have "unique_docs en_code c'" using u f by (simp add: c'' unique_docs_map)
    moreover have "List.find (\<lambda>e. en_code e = code) c' = Some (f (case List.find (\<lambda>e. en_code e = code) c of None \<Rightarrow> new | Some e \<Rightarrow> e))"
      unfolding found e using \<open>en_code e = code\<close> by simp
    ultimately show ?thesis using c'(1) same by (intro that [of c']) blast+
  next
    case False
    then have none: "List.find (\<lambda>e. en_code e = code) c = None" by (simp add: find_None_iff_ball)
    have "unique_docs en_code c'" using False u f code c'(2) by (auto simp: unique_docs_def)
    moreover have "c' = c @ [f new]" using c'(2) False by simp
    then have "List.find (\<lambda>e. en_code e = k) c' = (if k = code then Some (f new) else List.find (\<lambda>e. en_code e = k) c)" for k
      using none f code by (simp add: find_append split: option.split)
    ultimately show ?thesis using c'(1) none by (intro that [of c']) simp_all
  qed
qed

lemma sorted_rows: "sort_key row_item (sort_key row_item xs) = sort_key row_item xs"
  by (rule sort_key_id_if_sorted) simp

lemma find_unique: "unique_docs key c \<Longrightarrow> d \<in> set c \<Longrightarrow> List.find (\<lambda>x. key x = key d) c = Some d"
  by (induction c) (auto simp: unique_docs_def)

lemma exported:
  assumes "lawful_content C" "unique_content s" "content_ok s" "readEconomy C code s = Some d"
  obtains e where "economy_schema e" "contentCode code" "trim (en_name e) = en_name e" "en_code e = code"
    "d = \<lparr>ed_code = code, ed_name = en_name e, ed_description = en_description e, ed_status = Some (en_status e),
      ed_profile = profile_js (en_profile e), ed_items = rows_by_item C code s\<rparr>"
proof -
  obtain e where e: "List.find (\<lambda>e. en_code e = code) (ct_economies s) = Some e" and d: "d = \<lparr>ed_code = en_code e, ed_name = en_name e,
      ed_description = en_description e, ed_status = Some (en_status e), ed_profile = profile_js (en_profile e),
      ed_items = rows_by_item C code s\<rparr>"
    using assms(4) by (auto simp: readEconomy_def contentD(1) [OF assms(1,2)])
  from find_SomeD [OF e] have "e \<in> set (ct_economies s)" "en_code e = code" by simp_all
  with assms(3) d show ?thesis by (intro that [of e]) (auto simp: content_ok_def)
qed

text \<open>The rows an export names: each one stored, and each item once.\<close>

lemma exported_rows:
  assumes "lawful_content C" "unique_content s" "content_ok s"
  shows "\<forall>r\<in>set (rows_by_item C code s). row_stored r \<and> itemPolicyDefect r = ''''"
    and "distinct (map row_item (rows_by_item C code s))"
proof -
  show "\<forall>r\<in>set (rows_by_item C code s). row_stored r \<and> itemPolicyDefect r = ''''"
    using assms(3) by (auto simp: contentD(2) [OF assms(1,2)] content_ok_def policy_schema_def)
  let ?ps = "filter (\<lambda>p. ip_economyCode p = code) (ct_policies s)"
  have "distinct (map policy_key ?ps)" using assms(2) by (simp add: unique_content_def unique_docs_def distinct_map_filter)
  moreover have "map policy_key ?ps = map (Pair code) (map (row_item \<circ> ip_row) ?ps)" by (simp add: policy_key_def)
  ultimately have "distinct (map row_item (map ip_row ?ps))" by (simp add: distinct_map inj_on_def)
  moreover have "mset (map row_item (rows_by_item C code s)) = mset (map row_item (map ip_row ?ps))"
    by (simp add: contentD(2) [OF assms(1,2)] del: map_map)
  ultimately show "distinct (map row_item (rows_by_item C code s))" by (metis mset_eq_imp_distinct_iff)
qed

lemma replaced_rows_unique:
  assumes "unique_content t" "distinct (map row_item rows)"
  shows "unique_docs policy_key (filter (\<lambda>p. ip_economyCode p \<noteq> code) (ct_policies t)
    @ map (\<lambda>r. \<lparr>ip_economyCode = code, ip_row = r\<rparr>) rows)"
proof -
  have "distinct (map policy_key (filter (\<lambda>p. ip_economyCode p \<noteq> code) (ct_policies t)))"
    using assms(1) by (simp add: unique_content_def unique_docs_def distinct_map_filter)
  moreover have "distinct (map (Pair code) (map row_item rows))" using assms(2) by (simp add: distinct_map inj_on_def)
  ultimately show ?thesis by (auto simp: unique_docs_def policy_key_def comp_def)
qed

text \<open>C38: an exported economy imports: in any content database the import answers, the economy reads back as it
was exported, and every other one is as it was; what it replaces only raises the revision.\<close>

theorem economy_export_imports:
  assumes "lawful_content C" "unique_content s" "content_ok s" "unique_content t" "content_ok t" "set as \<subseteq> {Transient}"
    and "readEconomy C code s = Some d"
  shows "\<exists>u. replaceEconomy C as newId d t = (Inr (), u) \<and> readEconomy C code u = Some d
    \<and> unique_content u \<and> content_ok u
    \<and> (\<forall>other. other \<noteq> code \<longrightarrow> readEconomy C other u = readEconomy C other t)
    \<and> map_option en_revision (find_economy C code u)
        = Some (case find_economy C code t of None \<Rightarrow> 1 | Some old \<Rightarrow> en_revision old + 1)"
proof -
  note C = assms(1)
  let ?rows = "rows_by_item C code s" and ?row = "\<lambda>r. \<lparr>ip_economyCode = code, ip_row = r\<rparr>"
  obtain e where e: "economy_schema e" "contentCode code" "trim (en_name e) = en_name e" "en_code e = code"
    and d: "d = \<lparr>ed_code = code, ed_name = en_name e, ed_description = en_description e, ed_status = Some (en_status e),
      ed_profile = profile_js (en_profile e), ed_items = ?rows\<rparr>"
    by (rule exported [OF C assms(2,3,7)])
  have status: "en_status e \<in> set ECONOMY_STATUSES" and profile: "resolveEconomyProfile (profile_js (en_profile e)) = Inr (en_profile e)"
    and code: "code \<noteq> ''''" using e by (auto simp: economy_schema_def)
  note rows = exported_rows [OF C assms(2,3)]
  let ?rev = "case find_economy C code t of None \<Rightarrow> 1 | Some old \<Rightarrow> en_revision old + 1"
  let ?f = "set_profile (en_name e) (en_description e) (en_status e) (en_profile e) ?rev" and ?new = "new_economy newId code (en_profile e)"
  have rev: "1 \<le> ?rev"
    using assms(5) find_SomeD by (fastforce simp: contentD(1) [OF C assms(4)] content_ok_def economy_schema_def split: option.split)
  have new: "economy_schema (?f ?new)"
    using code status profile rev by (simp add: economy_schema_def set_profile_def new_economy_def)
  have ut: "unique_docs en_code (ct_economies t)" using assms(4) by (simp add: unique_content_def)
  obtain c where c: "update_or_insert (cm_economies C) (\<lambda>x. en_code x = code) ?f ?new (ct_economies t) = Inr c" "unique_docs en_code c"
      "List.find (\<lambda>x. en_code x = code) c = Some (?f (case List.find (\<lambda>x. en_code x = code) (ct_economies t) of None \<Rightarrow> ?new | Some x \<Rightarrow> x))"
      "\<forall>k. k \<noteq> code \<longrightarrow> List.find (\<lambda>x. en_code x = k) c = List.find (\<lambda>x. en_code x = k) (ct_economies t)"
    by (rule upsert_economy [OF C ut, where f = ?f and new = ?new and code = code])
      (use new in \<open>simp_all add: new_economy_def set_profile_def\<close>)
  let ?kept = "filter (\<lambda>p. ip_economyCode p \<noteq> code) (ct_policies t)"
  let ?u = "t\<lparr>ct_economies := c, ct_policies := ?kept @ map ?row ?rows\<rparr>"
  have up: "unique_docs policy_key (?kept @ map ?row ?rows)"
    by (rule replaced_rows_unique [OF assms(4) rows(2)])
  have "insert_rows C code ?rows (t\<lparr>ct_economies := c, ct_policies := ?kept\<rparr>) = (Inr (), ?u)"
    using insert_rows_ok [OF C rows(1) code, of "t\<lparr>ct_economies := c, ct_policies := ?kept\<rparr>"] up by simp
  then have "replaceWork C newId d (en_profile e) t = (Inr (), ?u)"
    using c(1) status by (simp add: replaceWork_def d Let_def collection.delete_many [OF lawful_contentD(2) [OF C]])
  moreover have "List.find (\<lambda>row. itemPolicyDefect row \<noteq> '''') ?rows = None" using rows(1) by (simp add: find_None_iff_ball)
  ultimately have ans: "replaceEconomy C as newId d t = (Inr (), ?u)"
    using e(2) profile by (simp add: replaceEconomy_def d assertEconomyProfile_Inr [THEN iffD2] runTransaction_retries [OF assms(6)])
  have uu: "unique_content ?u" using assms(4) c(2) up by (simp add: unique_content_def)
  let ?x = "?f (case List.find (\<lambda>x. en_code x = code) (ct_economies t) of None \<Rightarrow> ?new | Some x \<Rightarrow> x)"
  have x: "en_code ?x = code" "en_name ?x = en_name e" "en_description ?x = en_description e" "en_status ?x = en_status e"
    "en_profile ?x = en_profile e" "en_revision ?x = ?rev"
    using e(3) find_SomeD by (fastforce simp: set_profile_def new_economy_def split: option.split)+
  have stored: "economy_schema y \<and> contentCode (en_code y) \<and> trim (en_name y) = en_name y" if y: "y \<in> set c" for y
  proof (cases "en_code y = code")
    case True
    with find_unique [OF c(2) y] c(3) have "y = ?x" by simp
    with x e(2,3) code status profile rev show ?thesis by (simp add: economy_schema_def)
  next
    case False
    with find_unique [OF c(2) y] c(4) have "List.find (\<lambda>x. en_code x = en_code y) (ct_economies t) = Some y" by simp
    then have "y \<in> set (ct_economies t)" using find_SomeD by fastforce
    with assms(5) show ?thesis by (simp add: content_ok_def)
  qed
  have ok: "content_ok ?u"
    using stored rows(1) assms(5) code by (auto simp: content_ok_def policy_schema_def)
  have f: "find_economy C k ?u = List.find (\<lambda>e. en_code e = k) c" for k by (simp add: contentD(1) [OF C uu])
  have r: "rows_by_item C code ?u = ?rows"
    by (simp add: contentD(2) [OF C uu] comp_def) (simp add: contentD(2) [OF C assms(2)] sorted_rows)
  have r': "rows_by_item C k ?u = rows_by_item C k t" if "k \<noteq> code" for k
    using that by (simp add: contentD(2) [OF C uu] contentD(2) [OF C assms(4)] conj_commute cong: conj_cong)
  have same: "\<forall>k. k \<noteq> code \<longrightarrow> readEconomy C k ?u = readEconomy C k t"
    using c(4) r' by (simp add: readEconomy_def f contentD(1) [OF C assms(4)])
  have reads: "readEconomy C code ?u = Some d"
    using x by (simp add: readEconomy_def f c(3) r d)
  have "map_option en_revision (find_economy C code ?u) = Some ?rev" using x(6) by (simp add: f c(3))
  with ans reads uu ok same show ?thesis by blast
qed

text \<open>A lawful driver of the content, and an economy with two rows.\<close>

definition ref_content :: content_mongo where
  "ref_content = \<lparr>cm_economies = ref_driver en_code economy_schema, cm_policies = ref_driver policy_key policy_schema,
     cm_catalog = ref_driver cb_itemId (\<lambda>_. True), cm_confs = ref_driver cf_instanceCode conf_schema, cm_cast = Inr,
     cm_database = ''''\<rparr>"

lemma lawful_ref_content [simp]: "lawful_content ref_content"
  by (simp add: lawful_content_def ref_content_def ref_store.collection_axioms)

definition standard_profile :: economy_profile where
  "standard_profile = \<lparr>ep_currency = CURRENCY_DEFAULTS, ep_rules = ECONOMY_RULES_DEFAULTS,
     ep_fees = OPERATION_FEE_DEFAULTS, ep_itemDefaults = ITEM_POLICY_DEFAULTS\<rparr>"

definition standard :: economy where
  "standard = \<lparr>en_id = replicate 24 CHR ''1'', en_code = ''standard'', en_name = ''Standard'', en_description = '''', en_status = ''active'',
     en_revision = 3, en_profile = standard_profile\<rparr>"

definition policy_rows :: "js list" where
  "policy_rows = [Obj [(''itemId'', Str ''wood''), (''burn'', Bool True),
       (''salvage'', Arr [Obj [(''itemId'', Str ''ash''), (''qty'', JInt 2)]])],
     Obj [(''itemId'', Str ''hatchet''), (''market'', Bool True), (''portalFee'', JInt 7)]]"

definition no_content :: game_content where
  "no_content = \<lparr>ct_economies = [], ct_policies = [], ct_catalog = [], ct_confs = []\<rparr>"

definition sample_content :: game_content where
  "sample_content = no_content\<lparr>ct_economies := [standard],
     ct_policies := map (\<lambda>r. \<lparr>ip_economyCode = ''standard'', ip_row = r\<rparr>) policy_rows,
     ct_confs := [\<lparr>cf_id = replicate 24 CHR ''2'', cf_instanceCode = ''w1'', cf_economyCode = ''standard''\<rparr>]\<rparr>"

lemma sample_content_ok [simp]: "unique_content sample_content" "content_ok sample_content"
  by (simp_all add: unique_content_def content_ok_def unique_docs_def) code_simp+

lemma economy_export_imports_witness:
  "\<exists>u. replaceEconomy ref_content [Transient] pid1 (the (readEconomy ref_content ''standard'' sample_content)) no_content = (Inr (), u)
     \<and> readEconomy ref_content ''standard'' u = readEconomy ref_content ''standard'' sample_content
     \<and> length (ed_items (the (readEconomy ref_content ''standard'' u))) = 2"
proof -
  let ?d = "the (readEconomy ref_content ''standard'' sample_content)"
  have two: "readEconomy ref_content ''standard'' sample_content \<noteq> None \<and> length (ed_items ?d) = 2" by code_simp
  then have d: "readEconomy ref_content ''standard'' sample_content = Some ?d" by simp
  have none: "unique_content no_content" "content_ok no_content"
    by (simp_all add: no_content_def unique_content_def content_ok_def unique_docs_def)
  have as: "set [Transient] \<subseteq> {Transient}" by simp
  from economy_export_imports [OF lawful_ref_content sample_content_ok none as d, of pid1] two d show ?thesis by fastforce
qed

section \<open>One wallet in a universe\<close>

text \<open>What the check promises, without its drivers and its loop: the economy each member runs, the wallet an
economy holds, and one wallet for all members. A plan is what a pending write changes.\<close>

definition run_economy :: "game_content \<Rightarrow> string \<Rightarrow> string" where
  "run_economy s i = confEconomyCode (List.find (\<lambda>c. cf_instanceCode c = i) (ct_confs s))"

definition wallet_key :: "block \<Rightarrow> js \<times> js" where
  "wallet_key b = (jget (Obj b) ''code'', jget (Obj b) ''maxBalance'')"

definition held_wallet :: "game_content \<Rightarrow> string \<Rightarrow> (js \<times> js) option" where
  "held_wallet s code = map_option (\<lambda>e. wallet_key (ep_currency (en_profile e))) (List.find (\<lambda>e. en_code e = code) (ct_economies s))"

definition planned_wallet :: "wallet_plan \<Rightarrow> game_content \<Rightarrow> string \<Rightarrow> (js \<times> js) option" where
  "planned_wallet p s i =
     (let code = (case map_of (pn_confs p) i of Some code \<Rightarrow> code | None \<Rightarrow> run_economy s i) in
      case map_of (pn_economies p) code of Some v \<Rightarrow> Some (wallet_key (fields_of v)) | None \<Rightarrow> held_wallet s code)"

definition economies_ok :: "game_content \<Rightarrow> bool" where
  "economies_ok s \<longleftrightarrow> (\<forall>e\<in>set (ct_economies s). economy_schema e)"

definition plan_ok :: "wallet_plan \<Rightarrow> bool" where
  "plan_ok p \<longleftrightarrow> (\<forall>(code, v)\<in>set (pn_economies p). \<exists>b. v = Obj b \<and> resolveCurrency v = Inr b)"

lemma member_of_economy:
  assumes C: "lawful_content C" and i: "i \<in> set codes"
  shows "me_economyCode (member_of C codes p s i)
    = (case map_of (pn_confs p) i of Some code \<Rightarrow> code | None \<Rightarrow> run_economy s i)"
proof -
  have "List.find (\<lambda>c. cf_instanceCode c = i) (filter (\<lambda>c. cf_instanceCode c \<in> set codes) (ct_confs s))
      = List.find (\<lambda>c. cf_instanceCode c = i) (ct_confs s)"
    using i by (intro find_filter) simp
  then show ?thesis
    by (simp add: member_of_def Let_def collection.find_docs [OF lawful_contentD(4) [OF C]] find_of_map run_economy_def
        confEconomyCode_def split: option.split)
qed

lemma walletOf_planned:
  assumes C: "lawful_content C" and ok: "economies_ok s" "plan_ok p" and code: "code \<in> set codes"
  shows "\<exists>w. walletOf C codes p s code = Inr w \<and> map_option wallet_key w
    = (case map_of (pn_economies p) code of Some v \<Rightarrow> Some (wallet_key (fields_of v)) | None \<Rightarrow> held_wallet s code)"
proof (cases "map_of (pn_economies p) code")
  case (Some v)
  then obtain b where "v = Obj b" "resolveCurrency v = Inr b" using ok(2) map_of_SomeD by (fastforce simp: plan_ok_def)
  with Some show ?thesis by (simp add: walletOf_def)
next
  case None
  have f: "List.find (\<lambda>e. en_code e = code) (filter (\<lambda>e. en_code e \<in> set codes) (ct_economies s))
      = List.find (\<lambda>e. en_code e = code) (ct_economies s)"
    using code by (intro find_filter) simp
  show ?thesis
  proof (cases "List.find (\<lambda>e. en_code e = code) (ct_economies s)")
    case (Some e)
    then have "economy_schema e" using ok(1) find_SomeD by (fastforce simp: economies_ok_def)
    then have "resolveCurrency (Obj (ep_currency (en_profile e))) = Inr (ep_currency (en_profile e))"
      by (simp add: economy_schema_def profile_currency)
    with None Some f show ?thesis
      by (simp add: walletOf_def collection.find_docs [OF lawful_contentD(1) [OF C]] find_of_map walletContract_def held_wallet_def)
  qed (use None f in \<open>simp add: walletOf_def collection.find_docs [OF lawful_contentD(1) [OF C]] find_of_map held_wallet_def\<close>)
qed

text \<open>The loop answers the empty defect exactly when every wallet is there and is the first one.\<close>

lemma walletLoop_iff:
  assumes "\<forall>m\<in>set ms. \<exists>w. wallet (me_economyCode m) = Inr w"
  shows "\<exists>d. walletLoop wallet db first ms = Inr d \<and> (d = '''' \<longleftrightarrow>
    (\<exists>k. (first = None \<or> wallet_key (snd (the first)) = k)
       \<and> (\<forall>m\<in>set ms. \<exists>b. wallet (me_economyCode m) = Inr (Some b) \<and> wallet_key b = k)))"
  using assms
proof (induction ms arbitrary: first)
  case (Cons m ms)
  then obtain w where w: "wallet (me_economyCode m) = Inr w" by auto
  show ?case
  proof (cases w)
    case None
    with w show ?thesis by simp
  next
    case (Some b)
    have IH: "\<And>first. \<exists>d. walletLoop wallet db first ms = Inr d \<and> (d = '''' \<longleftrightarrow>
        (\<exists>k. (first = None \<or> wallet_key (snd (the first)) = k)
           \<and> (\<forall>m\<in>set ms. \<exists>b. wallet (me_economyCode m) = Inr (Some b) \<and> wallet_key b = k)))"
      using Cons by simp
    show ?thesis
    proof (cases first)
      case None
      with IH [of "Some (m, b)"] w Some show ?thesis by auto
    next
      case (Some mb)
      obtain m1 b1 where mb: "mb = (m1, b1)" by force
      show ?thesis
      proof (cases "wallet_key b = wallet_key b1")
        case True
        with IH [of first] w \<open>w = Some b\<close> Some mb show ?thesis by (auto simp: wallet_key_def)
      next
        case False
        with w \<open>w = Some b\<close> Some mb show ?thesis by (auto simp: wallet_key_def)
      qed
    qed
  qed
qed simp

lemma universeWalletDefect_iff:
  assumes C: "lawful_content C" and ok: "economies_ok s" "plan_ok p"
  shows "\<exists>d. universeWalletDefect C codes p s = Inr d \<and> (d = '''' \<longleftrightarrow>
    length codes < 2 \<or> (\<exists>k. \<forall>i\<in>set codes. planned_wallet p s i = Some k))"
proof (cases "length codes < 2")
  case False
  let ?ms = "map (member_of C codes p s) codes" and ?w = "walletOf C (map me_economyCode (map (member_of C codes p s) codes)) p s"
  have w: "\<exists>w. ?w (me_economyCode (member_of C codes p s i)) = Inr w \<and> map_option wallet_key w = planned_wallet p s i"
    if i: "i \<in> set codes" for i
  proof -
    let ?code = "me_economyCode (member_of C codes p s i)"
    have "planned_wallet p s i = (case map_of (pn_economies p) ?code of Some v \<Rightarrow> Some (wallet_key (fields_of v)) | None \<Rightarrow> held_wallet s ?code)"
      unfolding planned_wallet_def Let_def member_of_economy [OF C i] by (rule refl)
    moreover have "?code \<in> set (map me_economyCode ?ms)" using i by simp
    ultimately show ?thesis using walletOf_planned [OF C ok] by (simp del: map_map)
  qed
  then have ex: "\<forall>m\<in>set ?ms. \<exists>w. ?w (me_economyCode m) = Inr w" by auto
  obtain d where d: "walletLoop ?w (cm_database C) None ?ms = Inr d"
    "d = '''' \<longleftrightarrow> (\<exists>k. \<forall>m\<in>set ?ms. \<exists>b. ?w (me_economyCode m) = Inr (Some b) \<and> wallet_key b = k)"
    using walletLoop_iff [OF ex, of "cm_database C" None] by auto
  have one: "(\<exists>b. ?w (me_economyCode (member_of C codes p s i)) = Inr (Some b) \<and> wallet_key b = k) \<longleftrightarrow> planned_wallet p s i = Some k"
    if i: "i \<in> set codes" for i k
  proof -
    obtain w where "?w (me_economyCode (member_of C codes p s i)) = Inr w" "map_option wallet_key w = planned_wallet p s i"
      using w [OF i] by blast
    then show ?thesis by (cases w) auto
  qed
  have "d = '''' \<longleftrightarrow> (\<exists>k. \<forall>i\<in>set codes. planned_wallet p s i = Some k)"
    unfolding d(2) using one by simp
  with d(1) False show ?thesis by (simp add: universeWalletDefect_def Let_def)
qed (simp add: universeWalletDefect_def)

section \<open>The writes keep the wallets\<close>

definition wallet_in :: "game_content \<Rightarrow> string \<Rightarrow> (js \<times> js) option" where
  "wallet_in s i = held_wallet s (run_economy s i)"

definition wallets_one :: "db \<Rightarrow> game_content \<Rightarrow> bool" where
  "wallets_one d s \<longleftrightarrow> (\<forall>u\<in>set (db_universes d). 2 \<le> length (un_instances u) \<longrightarrow>
     (\<exists>k. \<forall>i\<in>set (un_instances u). wallet_in s i = Some k))"

text \<open>An instance belongs to one universe at most, the unique index of the members.\<close>

definition members_once :: "db \<Rightarrow> bool" where
  "members_once d \<longleftrightarrow> (\<forall>u\<in>set (db_universes d). \<forall>v\<in>set (db_universes d).
     set (un_instances u) \<inter> set (un_instances v) \<noteq> {} \<longrightarrow> u = v)"

text \<open>A world that names no economy in its conf, or has none: it runs the default one.\<close>

definition runs_default :: "game_content \<Rightarrow> string \<Rightarrow> bool" where
  "runs_default s i \<longleftrightarrow> (case List.find (\<lambda>c. cf_instanceCode c = i) (ct_confs s) of None \<Rightarrow> True | Some c \<Rightarrow> cf_economyCode c = '''')"

definition none_by_default :: "db \<Rightarrow> game_content \<Rightarrow> bool" where
  "none_by_default d s \<longleftrightarrow> (\<forall>u\<in>set (db_universes d). \<forall>i\<in>set (un_instances u). \<not> runs_default s i)"

definition content_inv :: "db \<Rightarrow> game_content \<Rightarrow> bool" where
  "content_inv d s \<longleftrightarrow> unique_content s \<and> unique_docs en_id (ct_economies s) \<and> economies_ok s \<and> wallets_one d s"

text \<open>A write that names the economy of a key meets no world that runs it by default.\<close>

definition key_covers :: "content_mongo \<Rightarrow> db \<Rightarrow> string \<Rightarrow> game_content \<Rightarrow> bool" where
  "key_covers C d key s \<longleftrightarrow> (\<forall>e. drv_find_one (cm_economies C) (natural_key key) (ct_economies s) = Some e
     \<and> en_code e = ECONOMY_DEFAULT_CODE \<longrightarrow> none_by_default d s)"

inductive content_step :: "content_mongo \<Rightarrow> mongo \<Rightarrow> db \<Rightarrow> game_content \<Rightarrow> game_content \<Rightarrow> bool" for C M d where
  post: "newId \<notin> set (map en_id (ct_economies s)) \<Longrightarrow> economy_post C newId b s = (r, t) \<Longrightarrow> content_step C M d s t"
| clone: "newId \<notin> set (map en_id (ct_economies s)) \<Longrightarrow> economy_clone C as newId key b s = (r, t) \<Longrightarrow> content_step C M d s t"
| put: "key_covers C d key s \<Longrightarrow> economy_put C M d key b s = (r, t) \<Longrightarrow> content_step C M d s t"
| delete: "key_covers C d key s \<Longrightarrow> economy_delete C as key s = (r, t) \<Longrightarrow> content_step C M d s t"
| conf_post: "conf_post C M d newId i code s = (q, t) \<Longrightarrow> content_step C M d s t"
| conf_put: "conf_put C M d confId None code s = (w, t) \<Longrightarrow> content_step C M d s t"

lemma planned_nothing: "planned_wallet nothing_planned s i = wallet_in s i"
  by (simp add: planned_wallet_def nothing_planned_def wallet_in_def)

lemma wallets_one_same:
  assumes "wallets_one d s"
    and "\<And>u i. u \<in> set (db_universes d) \<Longrightarrow> i \<in> set (un_instances u) \<Longrightarrow> wallet_in s i \<noteq> None \<Longrightarrow> wallet_in t i = wallet_in s i"
  shows "wallets_one d t"
  using assms unfolding wallets_one_def by (metis option.distinct(1))

text \<open>A new economy changes no wallet; its rows change none.\<close>

lemma find_create:
  assumes C: "lawful_content C" and inv: "content_inv d s" and e: "economy_schema e"
    and run: "create_economy C e s = (Inr (), t)" and fresh: "en_id e \<notin> set (map en_id (ct_economies s))"
  shows "content_inv d t" "t = s\<lparr>ct_economies := ct_economies s @ [e]\<rparr>"
proof -
  have u: "unique_docs en_code (ct_economies s)" using inv by (simp add: content_inv_def unique_content_def)
  obtain c where c: "drv_create (cm_economies C) [e] (ct_economies s) = Inr c" "t = s\<lparr>ct_economies := c\<rparr>"
    using run by (auto simp: create_economy_def)
  have "c = ct_economies s @ [e]" "unique_docs en_code (ct_economies s @ [e])"
    using collection.create_cases [OF lawful_contentD(1) [OF C] u, of "[e]"] c(1) by fastforce+
  note c' = this
  show t: "t = s\<lparr>ct_economies := ct_economies s @ [e]\<rparr>" using c(2) c'(1) by simp
  have "wallets_one d t"
  proof (rule wallets_one_same)
    show "wallets_one d s" using inv by (simp add: content_inv_def)
    show "wallet_in t i = wallet_in s i" if "wallet_in s i \<noteq> None" for i
      using that by (auto simp: t wallet_in_def run_economy_def held_wallet_def find_append split: option.splits)
  qed
  then show "content_inv d t"
    using inv c'(2) e fresh by (auto simp: content_inv_def unique_content_def economies_ok_def t unique_docs_def)
qed

lemma content_inv_policies:
  assumes "content_inv d s" "unique_docs policy_key ps"
  shows "content_inv d (s\<lparr>ct_policies := ps\<rparr>)"
proof -
  have "wallet_in (s\<lparr>ct_policies := ps\<rparr>) i = wallet_in s i" for i
    by (simp add: wallet_in_def held_wallet_def run_economy_def)
  then show ?thesis using assms by (simp add: content_inv_def unique_content_def economies_ok_def wallets_one_def)
qed

lemma insert_rows_inv:
  assumes C: "lawful_content C" and inv: "content_inv d s" and run: "insert_rows C code rows s = (Inr (), t)"
  shows "content_inv d t"
proof (cases "rows = []")
  case False
  have u: "unique_docs policy_key (ct_policies s)" using inv by (simp add: content_inv_def unique_content_def)
  obtain ds c where c: "drv_create (cm_policies C) ds (ct_policies s) = Inr c" "t = s\<lparr>ct_policies := c\<rparr>"
    using run False by (auto simp: insert_rows_def)
  have "unique_docs policy_key c"
    using collection.create_cases [OF lawful_contentD(2) [OF C] u, of ds] c(1) by fastforce
  with inv c(2) show ?thesis by (simp add: content_inv_policies)
qed (use assms in \<open>simp add: insert_rows_def\<close>)

lemma new_schema:
  "resolveEconomyProfile j = Inr p \<Longrightarrow> contentCode code \<Longrightarrow> economy_schema (set_profile name desc ''active'' p 1 (new_economy newId code p))"
  by (simp add: economy_schema_def set_profile_def new_economy_def contentCode_def profile_again ECONOMY_STATUSES_def)

lemma economy_post_cases:
  assumes run: "economy_post C newId b s = (r, t)"
  obtains (refused) x where "r = Inl x" "t = s"
    | (created) e where "economy_schema e" "en_id e = newId" "create_economy C e s = (Inr (), t)"
proof (cases r)
  case (Inl x)
  with run have "t = s"
    by (auto simp: economy_post_def Let_def create_economy_def bindW_def writeW_def retW_def split: sum.splits if_splits)
  with Inl show ?thesis by (rule refused)
next
  case (Inr x)
  with run obtain p where p: "contentCode (or_else '''' (eb_code b))" "resolveEconomyProfile (Obj (eb_fields b)) = Inr p"
    "create_economy C (set_profile (or_else '''' (eb_name b)) (or_else '''' (eb_description b)) ''active'' p 1
       (new_economy newId (or_else '''' (eb_code b)) p)) s = (Inr (), t)"
    by (auto simp: economy_post_def Let_def assertEconomyProfile_Inr split: sum.splits if_splits)
  show ?thesis by (rule created [OF new_schema [OF p(2,1)] _ p(3)]) (simp add: set_profile_def new_economy_def)
qed

lemma post_keeps:
  assumes "lawful_content C" "content_inv d s" "newId \<notin> set (map en_id (ct_economies s))" "economy_post C newId b s = (r, t)"
  shows "content_inv d t"
  using assms(4)
proof (cases rule: economy_post_cases)
  case (created e)
  then show ?thesis using find_create(1) [OF assms(1,2) created(1,3)] assms(3) by simp
qed (use assms(2) in simp)

lemma economy_clone_cases:
  assumes run: "economy_clone C as newId key b s = (r, t)"
  obtains (refused) x where "r = Inl x" "t = s"
    | (cloned) e u rows where "economy_schema e" "en_id e = newId" "create_economy C e s = (Inr (), u)"
        "insert_rows C (en_code e) rows u = (Inr (), t)"
proof (cases r)
  case (Inl x)
  with run have "t = s"
    by (auto simp: economy_clone_def Let_def split: sum.splits if_splits option.splits dest: runTransaction_aborted)
  with Inl show ?thesis by (rule refused)
next
  case (Inr x)
  from run obtain source where src: "drv_find_one (cm_economies C) (natural_key key) (ct_economies s) = Some source"
    by (cases "drv_find_one (cm_economies C) (natural_key key) (ct_economies s)") (auto simp: economy_clone_def Inr)
  with run obtain p where p: "contentCode (or_else '''' (eb_code b))" "resolveEconomyProfile (profile_js (en_profile source)) = Inr p"
    by (cases "assertEconomyProfile (or_else '''' (eb_code b)) (profile_js (en_profile source))")
      (auto simp: economy_clone_def Let_def Inr assertEconomyProfile_Inr)
  let ?doc = "set_profile (or_else '''' (eb_name b)) (en_description source) ''active'' p 1 (new_economy newId (or_else '''' (eb_code b)) p)"
  have run': "runTransaction as (bindW (create_economy C ?doc) (\<lambda>_ s. bindW (insert_rows C (or_else '''' (eb_code b))
      (map ip_row (drv_find (cm_policies C) (\<lambda>p. ip_economyCode p = en_code source) (ct_policies s)))) (\<lambda>_. retW ?doc) s)) s = (Inr x, t)"
    using run src p by (simp add: economy_clone_def Let_def assertEconomyProfile_Inr [THEN iffD2] Inr split: if_splits)
  have fields: "en_id ?doc = newId" "en_code ?doc = or_else '''' (eb_code b)" by (simp_all add: set_profile_def new_economy_def)
  from runTransaction_committed [OF run'] obtain u rows where "create_economy C ?doc s = (Inr (), u)"
    "insert_rows C (or_else '''' (eb_code b)) rows u = (Inr (), t)"
    by auto
  with cloned [OF new_schema [OF p(2,1)] fields(1)] fields(2) show ?thesis by metis
qed

lemma clone_keeps:
  assumes "lawful_content C" "content_inv d s" "newId \<notin> set (map en_id (ct_economies s))" "economy_clone C as newId key b s = (r, t)"
  shows "content_inv d t"
  using assms(4)
proof (cases rule: economy_clone_cases)
  case (cloned e u rows)
  then show ?thesis
    using find_create(1) [OF assms(1,2) cloned(1,3)] insert_rows_inv [OF assms(1) _ cloned(4)] assms(3) by simp
qed (use assms(2) in simp)

lemma firstDefect_empty:
  "firstDefect f us = Inr '''' \<Longrightarrow> u \<in> set us \<Longrightarrow> f u = Inr ''''"
  by (induction us) (auto split: if_splits)

text \<open>No member runs an economy that no conf names, unless by default.\<close>

lemma run_economy_named:
  assumes "lawful_content C" "run_economy s i = code" "\<not> runs_default s i"
  shows "i \<in> set (namedBy C code s)"
proof -
  obtain c where c: "List.find (\<lambda>c. cf_instanceCode c = i) (ct_confs s) = Some c" "cf_economyCode c \<noteq> ''''"
    using assms(3) by (auto simp: runs_default_def split: option.splits)
  with find_SomeD [OF c(1)] assms(2) show ?thesis
    by (auto simp: namedBy_def collection.find_docs [OF lawful_contentD(4) [OF assms(1)]] run_economy_def confEconomyCode_def)
qed

lemma member_named:
  assumes "lawful_content C" "code = ECONOMY_DEFAULT_CODE \<longrightarrow> none_by_default d s"
    and "u \<in> set (db_universes d)" "i \<in> set (un_instances u)" "run_economy s i = code"
  shows "i \<in> set (namedBy C code s)"
proof -
  have "code = ECONOMY_DEFAULT_CODE" if "runs_default s i"
    using that assms(5) by (auto simp: runs_default_def run_economy_def confEconomyCode_def split: option.splits)
  then have "\<not> runs_default s i" using assms(2-4) by (auto simp: none_by_default_def)
  with assms(1,5) show ?thesis by (intro run_economy_named)
qed

lemma put_wallets:
  assumes C: "lawful_content C" and M: "lawful_mongo M" and inv: "content_inv d s"
    and guard: "en_code e = ECONOMY_DEFAULT_CODE \<longrightarrow> none_by_default d s" and e: "e \<in> set (ct_economies s)"
    and p: "resolveEconomyProfile j = Inr p" and checked: "put_defect C M d e p status s = Inr ()"
    and conf: "\<And>i. run_economy t i = run_economy s i"
    and held: "\<And>code. held_wallet t code = (if code = en_code e then Some (wallet_key (ep_currency p)) else held_wallet s code)"
  shows "wallets_one d t"
proof (cases "wallet_key (ep_currency (en_profile e)) = wallet_key (ep_currency p)")
  case True
  have "unique_docs en_code (ct_economies s)" using inv by (simp add: content_inv_def unique_content_def)
  from find_unique [OF this e] have "held_wallet s (en_code e) = Some (wallet_key (ep_currency p))" by (simp add: held_wallet_def True)
  then have "wallet_in t i = wallet_in s i" for i by (simp add: wallet_in_def held conf)
  with inv show ?thesis by (simp add: content_inv_def wallets_one_def)
next
  case False
  let ?plan = "nothing_planned\<lparr>pn_economies := [(en_code e, Obj (ep_currency p))]\<rparr>"
  have ok: "economies_ok s" using inv by (simp add: content_inv_def)
  have "economy_schema e" using e ok by (simp add: economies_ok_def)
  then have wc: "walletContract (Obj (ep_currency (en_profile e))) = Inr (ep_currency (en_profile e))"
    by (simp add: economy_schema_def walletContract_def profile_currency)
  have "plan_ok ?plan" using profile_currency [OF profile_again [OF p]] by (simp add: plan_ok_def nothing_planned_def)
  note iff = universeWalletDefect_iff [OF C ok this]
  have change: "walletChangeDefect C M d (en_code e) (ep_currency p) s = Inr ''''"
    using checked False by (auto simp: put_defect_def wc other_wallet_def wallet_key_def split: if_splits)
  have planned: "planned_wallet ?plan s i = wallet_in t i" for i
    by (simp add: planned_wallet_def nothing_planned_def wallet_in_def held conf)
  show ?thesis unfolding wallets_one_def
  proof (intro ballI impI)
    fix u assume u: "u \<in> set (db_universes d)" and two: "2 \<le> length (un_instances u)"
    show "\<exists>k. \<forall>i\<in>set (un_instances u). wallet_in t i = Some k"
    proof (cases "\<exists>i\<in>set (un_instances u). run_economy s i = en_code e")
      case True
      then obtain i where i: "i \<in> set (un_instances u)" "run_economy s i = en_code e" by blast
      have named: "i \<in> set (namedBy C (en_code e) s)" by (rule member_named [OF C guard u i])
      then have "namedBy C (en_code e) s \<noteq> []" by auto
      then have "firstDefect (\<lambda>u. universeWalletDefect C (un_instances u) ?plan s)
          (filter (\<lambda>u. \<exists>i\<in>set (un_instances u). i \<in> set (namedBy C (en_code e) s)) (db_universes d)) = Inr ''''"
        using change by (simp add: walletChangeDefect_def Let_def collection.find_docs [OF lawful_mongoD(11) [OF M]])
      from firstDefect_empty [OF this, of u] have "universeWalletDefect C (un_instances u) ?plan s = Inr ''''" using u i(1) named by auto
      with iff [of "un_instances u"] two show ?thesis by (simp add: planned)
    next
      case False
      then have "\<forall>i\<in>set (un_instances u). wallet_in t i = wallet_in s i" by (simp add: wallet_in_def held conf)
      moreover have "\<exists>k. \<forall>i\<in>set (un_instances u). wallet_in s i = Some k" using inv u two by (simp add: content_inv_def wallets_one_def)
      ultimately show ?thesis by metis
    qed
  qed
qed

text \<open>A put that answers wrote one economy: the one its key names, with a checked profile.\<close>

definition put_economy :: "economy_body \<Rightarrow> economy_profile \<Rightarrow> economy \<Rightarrow> economy" where
  "put_economy b p e = set_profile (or_else (en_name e) (eb_name b)) (or_else (en_description e) (eb_description b))
     (or_else (en_status e) (eb_status b)) p (en_revision e + 1) e"

lemma put_economy_fields [simp]:
  "en_code (put_economy b p e) = en_code e" "en_id (put_economy b p e) = en_id e" "en_profile (put_economy b p e) = p"
  by (simp_all add: put_economy_def set_profile_def)

lemma economy_put_cases:
  assumes C: "lawful_content C" and inv: "content_inv d s" and run: "economy_put C M d key b s = (r, t)"
  obtains (refused) x where "r = Inl x" "t = s"
    | (written) e p where "drv_find_one (cm_economies C) (natural_key key) (ct_economies s) = Some e" "e \<in> set (ct_economies s)"
        "resolveEconomyProfile (Obj (spread (fields_of (profile_js (en_profile e))) (eb_fields b))) = Inr p"
        "put_defect C M d e p (or_else (en_status e) (eb_status b)) s = Inr ()" "economy_schema (put_economy b p e)"
        "t = s\<lparr>ct_economies := map (\<lambda>y. if y = e then put_economy b p e else y) (ct_economies s)\<rparr>"
proof (cases r)
  case (Inl x)
  with run have "t = s" by (auto simp: economy_put_def Let_def split: option.splits sum.splits if_splits prod.splits)
  with Inl show ?thesis by (rule refused)
next
  case (Inr x)
  obtain e where e: "drv_find_one (cm_economies C) (natural_key key) (ct_economies s) = Some e"
    using run Inr by (cases "drv_find_one (cm_economies C) (natural_key key) (ct_economies s)") (auto simp: economy_put_def)
  then have mem: "e \<in> set (ct_economies s)" using collection.find_one_some [OF lawful_contentD(1) [OF C]] by blast
  let ?j = "Obj (spread (fields_of (profile_js (en_profile e))) (eb_fields b))" and ?status = "or_else (en_status e) (eb_status b)"
  obtain p where p: "contentCode (en_code e)" "resolveEconomyProfile ?j = Inr p" and checked: "put_defect C M d e p ?status s = Inr ()"
    and status: "?status \<in> set ECONOMY_STATUSES"
    using run Inr e by (auto simp: economy_put_def Let_def assertEconomyProfile_Inr split: option.splits sum.splits if_splits)
  let ?P = "\<lambda>y. en_id y = en_id e \<and> en_revision y = en_revision e"
  let ?f = "\<lambda>y. set_profile (or_else (en_name e) (eb_name b)) (or_else (en_description e) (eb_description b)) ?status p (en_revision y + 1) y"
  have u: "unique_docs en_code (ct_economies s)" and ids: "unique_docs en_id (ct_economies s)"
    using inv by (simp_all add: content_inv_def unique_content_def)
  obtain y c where c: "find_one_and_update (cm_economies C) ?P ?f (ct_economies s) = (Some y, c)" "t = s\<lparr>ct_economies := c\<rparr>"
    using run Inr e p(1,2) checked status
    by (auto simp: economy_put_def Let_def assertEconomyProfile_Inr [THEN iffD2] split: option.splits if_splits prod.splits)
  have "c = map (\<lambda>y. if y = e then put_economy b p e else y) (ct_economies s)"
  proof (rule collection.find_one_and_update_cases [OF lawful_contentD(1) [OF C] u, of ?P ?f])
    assume "find_one_and_update (cm_economies C) ?P ?f (ct_economies s) = (None, ct_economies s)"
    with c(1) show ?thesis by simp
  next
    fix z assume z: "z \<in> set (ct_economies s)" "?P z"
      "find_one_and_update (cm_economies C) ?P ?f (ct_economies s) = (Some (?f z), map (\<lambda>y. if y = z then ?f y else y) (ct_economies s))"
    then have "z = e" using unique_docs_eq [OF ids z(1) mem] by simp
    with z(3) c(1) show ?thesis by (simp add: put_economy_def cong: if_cong)
  qed
  moreover have "economy_schema e" using inv mem by (simp add: content_inv_def economies_ok_def)
  then have "economy_schema (put_economy b p e)"
    using status profile_again [OF p(2)] by (simp add: economy_schema_def put_economy_def set_profile_def)
  ultimately show ?thesis using written [OF e mem p(2) checked] c(2) by simp
qed

lemma put_keeps:
  assumes C: "lawful_content C" and M: "lawful_mongo M" and inv: "content_inv d s" and covers: "key_covers C d key s"
    and run: "economy_put C M d key b s = (r, t)"
  shows "content_inv d t"
  using C inv run
proof (cases rule: economy_put_cases)
  case (written e p)
  let ?f = "\<lambda>y. if y = e then put_economy b p e else y"
  have u: "unique_docs en_code (ct_economies s)" and ids: "unique_docs en_id (ct_economies s)"
    using inv by (simp_all add: content_inv_def unique_content_def)
  have found: "List.find (\<lambda>y. en_code y = k) (ct_economies t) = map_option ?f (List.find (\<lambda>y. en_code y = k) (ct_economies s))" for k
    using find_map_if [of en_code "\<lambda>y. put_economy b p y" k "\<lambda>y. y = e" "ct_economies s"] written(6) by (simp cong: if_cong)
  have held: "held_wallet t k = (if k = en_code e then Some (wallet_key (ep_currency p)) else held_wallet s k)" for k
  proof (cases "k = en_code e")
    case True
    with found [of k] find_unique [OF u written(2)] show ?thesis by (simp add: held_wallet_def)
  next
    case False
    then show ?thesis using found [of k]
      by (cases "List.find (\<lambda>y. en_code y = k) (ct_economies s)") (auto simp: held_wallet_def dest: find_SomeD)
  qed
  have "wallets_one d t"
    by (rule put_wallets [OF C M inv _ written(2,3,4) _ held])
      (use covers written(1,6) in \<open>auto simp: key_covers_def run_economy_def\<close>)
  moreover have "economies_ok t" using inv written(5,6) by (auto simp: content_inv_def economies_ok_def)
  moreover have "unique_docs en_code (ct_economies t)" "unique_docs en_id (ct_economies t)"
    using u ids written(6) by (auto simp: unique_docs_map)
  ultimately show ?thesis using inv written(6) by (simp add: content_inv_def unique_content_def)
qed (use inv in simp)

text \<open>A delete that answers removed one economy, which no conf names, and its rows.\<close>

lemma economy_delete_cases:
  assumes C: "lawful_content C" and inv: "content_inv d s" and run: "economy_delete C as key s = (r, t)"
  obtains (refused) x where "r = Inl x" "t = s"
    | (deleted) e where "drv_find_one (cm_economies C) (natural_key key) (ct_economies s) = Some e" "e \<in> set (ct_economies s)"
        "namedBy C (en_code e) s = []"
        "t = s\<lparr>ct_policies := filter (\<lambda>p. ip_economyCode p \<noteq> en_code e) (ct_policies s),
           ct_economies := filter (\<lambda>y. y \<noteq> e) (ct_economies s)\<rparr>"
proof (cases r)
  case (Inl x)
  with run have "t = s" by (auto simp: economy_delete_def split: option.splits if_splits dest: runTransaction_aborted)
  with Inl show ?thesis by (rule refused)
next
  case (Inr x)
  obtain e where e: "drv_find_one (cm_economies C) (natural_key key) (ct_economies s) = Some e"
    using run Inr by (cases "drv_find_one (cm_economies C) (natural_key key) (ct_economies s)") (auto simp: economy_delete_def split: if_splits)
  then have mem: "e \<in> set (ct_economies s)" using collection.find_one_some [OF lawful_contentD(1) [OF C]] by blast
  have ids: "unique_docs en_id (ct_economies s)" and u: "unique_docs en_code (ct_economies s)"
    using inv by (simp_all add: content_inv_def unique_content_def)
  have del: "drv_delete_one (cm_economies C) (\<lambda>y. en_id y = en_id e) (ct_economies s) = filter (\<lambda>y. y \<noteq> e) (ct_economies s)"
  proof -
    have "\<forall>y\<in>set (ct_economies s). en_id y = en_id e \<longrightarrow> en_code y = en_code e" using unique_docs_eq [OF ids _ mem] by blast
    from collection.delete_one_unique [OF lawful_contentD(1) [OF C] u this]
    have "drv_delete_one (cm_economies C) (\<lambda>y. en_id y = en_id e) (ct_economies s) = filter (\<lambda>y. en_id y \<noteq> en_id e) (ct_economies s)" .
    also have "\<dots> = filter (\<lambda>y. y \<noteq> e) (ct_economies s)" using unique_docs_eq [OF ids _ mem] by (intro filter_cong) auto
    finally show ?thesis .
  qed
  have none: "namedBy C (en_code e) s = []" using run Inr e by (auto simp: economy_delete_def split: if_splits)
  have run': "runTransaction as (\<lambda>s. (Inr e,
      s\<lparr>ct_policies := drv_delete_many (cm_policies C) (\<lambda>p. ip_economyCode p = en_code e) (ct_policies s),
        ct_economies := drv_delete_one (cm_economies C) (\<lambda>y. en_id y = en_id e) (ct_economies s)\<rparr>)) s = (Inr x, t)"
    using run Inr e none by (auto simp: economy_delete_def split: if_splits)
  show ?thesis
    by (rule deleted [OF e mem none])
      (use runTransaction_committed [OF run'] in \<open>auto simp: del collection.delete_many [OF lawful_contentD(2) [OF C]]\<close>)
qed

lemma delete_keeps:
  assumes C: "lawful_content C" and inv: "content_inv d s" and covers: "key_covers C d key s"
    and run: "economy_delete C as key s = (r, t)"
  shows "content_inv d t"
  using C inv run
proof (cases rule: economy_delete_cases)
  case (deleted e)
  have "wallets_one d t"
  proof (rule wallets_one_same)
    show "wallets_one d s" using inv by (simp add: content_inv_def)
    fix v i assume v: "v \<in> set (db_universes d)" "i \<in> set (un_instances v)"
    have "en_code e = ECONOMY_DEFAULT_CODE \<longrightarrow> none_by_default d s" using covers deleted(1) by (simp add: key_covers_def)
    from member_named [OF C this v] deleted(3) have "run_economy s i \<noteq> en_code e" by auto
    then have "List.find (\<lambda>y. en_code y = run_economy s i) (filter (\<lambda>y. y \<noteq> e) (ct_economies s))
        = List.find (\<lambda>y. en_code y = run_economy s i) (ct_economies s)"
      by (intro find_filter) auto
    then show "wallet_in t i = wallet_in s i" by (simp add: wallet_in_def held_wallet_def run_economy_def deleted(4))
  qed
  then show ?thesis
    using inv by (simp add: content_inv_def unique_content_def economies_ok_def deleted(4) unique_docs_filter)
qed (use inv in simp)

text \<open>A conf that takes an economy: the check answers for the wallets as they are after the write.\<close>

lemma conf_wallets:
  assumes C: "lawful_content C" and M: "lawful_mongo M" and once: "members_once d" and inv: "content_inv d s"
    and checked: "assertConfEconomy C M d i code s = Inr ()"
    and conf: "\<And>j. run_economy t j = (if j = i then code else run_economy s j)"
    and held: "\<And>k. held_wallet t k = held_wallet s k"
  shows "wallets_one d t"
  unfolding wallets_one_def
proof (intro ballI impI)
  fix u assume u: "u \<in> set (db_universes d)" and two: "2 \<le> length (un_instances u)"
  show "\<exists>k. \<forall>j\<in>set (un_instances u). wallet_in t j = Some k"
  proof (cases "i \<in> set (un_instances u)")
    case False
    then have "\<forall>j\<in>set (un_instances u). wallet_in t j = wallet_in s j" by (auto simp: wallet_in_def held conf)
    moreover have "\<exists>k. \<forall>j\<in>set (un_instances u). wallet_in s j = Some k" using inv u two by (simp add: content_inv_def wallets_one_def)
    ultimately show ?thesis by metis
  next
    case True
    let ?plan = "nothing_planned\<lparr>pn_confs := [(i, code)]\<rparr>"
    have "drv_find_one (mg_universes M) (\<lambda>u. i \<in> set (un_instances u)) (db_universes d) \<noteq> None"
      using True u by (auto simp: collection.find_one_none [OF lawful_mongoD(11) [OF M]])
    then obtain v where v: "drv_find_one (mg_universes M) (\<lambda>u. i \<in> set (un_instances u)) (db_universes d) = Some v" by auto
    from collection.find_one_some [OF lawful_mongoD(11) [OF M] v] have "v \<in> set (db_universes d)" "i \<in> set (un_instances v)" by auto
    with once u True have "v = u" unfolding members_once_def by blast
    then have "universeWalletDefect C (un_instances u) ?plan s = Inr ''''"
      using checked v by (cases "universeWalletDefect C (un_instances u) ?plan s") (auto simp: assertConfEconomy_def split: if_splits)
    moreover have "economies_ok s" "plan_ok ?plan" using inv by (simp_all add: content_inv_def plan_ok_def nothing_planned_def)
    moreover have "planned_wallet ?plan s j = wallet_in t j" for j
      by (simp add: planned_wallet_def nothing_planned_def wallet_in_def held conf)
    ultimately show ?thesis using universeWalletDefect_iff [OF C, of s ?plan "un_instances u"] two by auto
  qed
qed

lemma active_named: "lawful_content C \<Longrightarrow> content_inv d s \<Longrightarrow> assertConfEconomy C M d i code s = Inr () \<Longrightarrow> code \<noteq> ''''"
proof -
  assume C: "lawful_content C" and inv: "content_inv d s" and "assertConfEconomy C M d i code s = Inr ()"
  then obtain e where e: "drv_find_one (cm_economies C) (\<lambda>e. en_code e = code) (ct_economies s) = Some e"
    by (auto simp: assertConfEconomy_def activeEconomy_def split: option.splits)
  from collection.find_one_some [OF lawful_contentD(1) [OF C] e] inv show "code \<noteq> ''''"
    by (auto simp: content_inv_def economies_ok_def economy_schema_def)
qed

lemma content_inv_confs:
  assumes "content_inv d s" "unique_docs cf_instanceCode cs" "wallets_one d (s\<lparr>ct_confs := cs\<rparr>)"
  shows "content_inv d (s\<lparr>ct_confs := cs\<rparr>)"
  using assms by (simp add: content_inv_def unique_content_def economies_ok_def)

lemma conf_post_keeps:
  assumes C: "lawful_content C" and M: "lawful_mongo M" and once: "members_once d" and inv: "content_inv d s"
    and run: "conf_post C M d newId i code s = (r, t)"
  shows "content_inv d t"
proof (cases "\<exists>x. r = Inr x")
  case False
  with run have "t = s" by (auto simp: conf_post_def Let_def split: sum.splits)
  with inv show ?thesis by simp
next
  case True
  let ?conf = "\<lparr>cf_id = newId, cf_instanceCode = i, cf_economyCode = or_else ECONOMY_DEFAULT_CODE code\<rparr>"
  have u: "unique_docs cf_instanceCode (ct_confs s)" using inv by (simp add: content_inv_def unique_content_def)
  from True run obtain c where checked: "assertConfEconomy C M d i (cf_economyCode ?conf) s = Inr ()"
    and c: "drv_create (cm_confs C) [?conf] (ct_confs s) = Inr c" "t = s\<lparr>ct_confs := c\<rparr>"
    by (auto simp: conf_post_def Let_def split: sum.splits)
  have c': "c = ct_confs s @ [?conf]" "unique_docs cf_instanceCode (ct_confs s @ [?conf])"
    using collection.create_cases [OF lawful_contentD(4) [OF C] u, of "[?conf]"] c(1) by fastforce+
  have new: "List.find (\<lambda>c. cf_instanceCode c = i) (ct_confs s) = None"
    using c'(2) by (auto simp: find_None_iff_ball unique_docs_def)
  have "run_economy t j = (if j = i then cf_economyCode ?conf else run_economy s j)" for j
    using new active_named [OF C inv checked] by (simp add: run_economy_def c(2) c'(1) find_append confEconomyCode_def split: option.split)
  from conf_wallets [OF C M once inv checked this] c'(2) inv show ?thesis
    by (simp add: c(2) c'(1) held_wallet_def content_inv_confs)
qed

lemma conf_put_keeps:
  assumes C: "lawful_content C" and M: "lawful_mongo M" and once: "members_once d" and inv: "content_inv d s"
    and run: "conf_put C M d confId None code s = (r, t)"
  shows "content_inv d t"
proof (cases "\<exists>x. r = Inr (Some x)")
  case False
  with run have "t = s" by (auto simp: conf_put_def Let_def split: sum.splits option.splits if_splits)
  with inv show ?thesis by simp
next
  case True
  then obtain x where x: "r = Inr (Some x)" by blast
  obtain c where stored: "drv_find_one (cm_confs C) (\<lambda>c. cf_id c = confId) (ct_confs s) = Some c"
    using run x by (cases "drv_find_one (cm_confs C) (\<lambda>c. cf_id c = confId) (ct_confs s)")
      (auto simp: conf_put_def Let_def split: sum.splits option.splits)
  let ?y = "or_else (cf_economyCode c) code"
  let ?upd = "\<lambda>e. e\<lparr>cf_instanceCode := cf_instanceCode e, cf_economyCode := or_else (cf_economyCode e) code\<rparr>"
  let ?cs = "map (\<lambda>e. if e = c then ?upd e else e) (ct_confs s)"
  from collection.find_one_some [OF lawful_contentD(4) [OF C] stored] have mem: "c \<in> set (ct_confs s)" by simp
  have u: "unique_docs cf_instanceCode (ct_confs s)" using inv by (simp add: content_inv_def unique_content_def)
  have "snd (find_one_and_update (cm_confs C) (\<lambda>e. cf_id e = confId) ?upd (ct_confs s)) = ?cs"
    using collection.update_one_unique [OF lawful_contentD(4) [OF C] u, of "\<lambda>e. e = c" "cf_instanceCode c" ?upd]
    by (simp add: find_one_and_update_def stored)
  then have t: "t = s\<lparr>ct_confs := ?cs\<rparr>"
    using run x stored by (auto simp: conf_put_def Let_def or_else_def [of _ "None :: string option"] split: sum.splits option.splits if_splits)
  have code: "cf_instanceCode (?upd e) = cf_instanceCode e" for e by simp
  have found: "List.find (\<lambda>e. cf_instanceCode e = j) ?cs = map_option (\<lambda>e. if e = c then ?upd e else e)
      (List.find (\<lambda>e. cf_instanceCode e = j) (ct_confs s))" for j
    by (rule find_map_if) (rule code)
  have runs: "run_economy t j = (if j = cf_instanceCode c then confEconomyCode (Some (?upd c)) else run_economy s j)" for j
  proof (cases "j = cf_instanceCode c")
    case True
    with found [of j] find_unique [OF u mem] show ?thesis by (simp add: run_economy_def t)
  next
    case False
    then show ?thesis using found [of j]
      by (cases "List.find (\<lambda>e. cf_instanceCode e = j) (ct_confs s)") (auto simp: run_economy_def t dest: find_SomeD)
  qed
  have held: "held_wallet t k = held_wallet s k" for k by (simp add: held_wallet_def t)
  have "wallets_one d t"
  proof (cases code)
    case None
    then have "run_economy t j = run_economy s j" for j
      using runs [of j] find_unique [OF u mem] by (simp add: or_else_def run_economy_def)
    then have "wallet_in t j = wallet_in s j" for j by (simp add: wallet_in_def held)
    with inv show ?thesis by (simp add: content_inv_def wallets_one_def)
  next
    case (Some y)
    then have checked: "assertConfEconomy C M d (cf_instanceCode c) y s = Inr ()"
      using run x stored by (auto simp: conf_put_def Let_def split: sum.splits)
    have "run_economy t j = (if j = cf_instanceCode c then y else run_economy s j)" for j
      using runs [of j] active_named [OF C inv checked] by (simp add: Some or_else_def confEconomyCode_def)
    from conf_wallets [OF C M once inv checked this held] show ?thesis .
  qed
  moreover have "unique_docs cf_instanceCode ?cs" using u by (simp add: unique_docs_map)
  ultimately show ?thesis using content_inv_confs [OF inv] by (simp add: t)
qed

lemma content_step_keeps:
  assumes "lawful_content C" "lawful_mongo M" "members_once d" "content_inv d s" "content_step C M d s t"
  shows "content_inv d t"
  using assms(5)
  by cases (rule post_keeps clone_keeps put_keeps delete_keeps conf_post_keeps conf_put_keeps, (rule assms | assumption)+)+

text \<open>The writes of an economy, of its copies and of the economy of a conf keep one wallet in each universe
of two worlds or more: every member runs an economy the content holds, in one currency with one maximum. The
default economy is written only while no world runs it by default.\<close>

theorem writes_keep_one_wallet:
  assumes "lawful_content C" "lawful_mongo M" "members_once d" "content_inv d s" "(content_step C M d)\<^sup>*\<^sup>* s t"
  shows "content_inv d t \<and> (\<forall>u\<in>set (db_universes d). universeWalletDefect C (un_instances u) nothing_planned t = Inr '''')"
proof
  show inv: "content_inv d t"
    using assms(5,4)
  proof (induction rule: rtranclp_induct)
    case (step y z)
    then show ?case using content_step_keeps [OF assms(1-3)] by blast
  qed
  have ok: "economies_ok t" "plan_ok nothing_planned" using inv by (simp_all add: content_inv_def plan_ok_def nothing_planned_def)
  show "\<forall>u\<in>set (db_universes d). universeWalletDefect C (un_instances u) nothing_planned t = Inr ''''"
  proof
    fix u assume u: "u \<in> set (db_universes d)"
    obtain x where x: "universeWalletDefect C (un_instances u) nothing_planned t = Inr x"
      "x = '''' \<longleftrightarrow> length (un_instances u) < 2 \<or> (\<exists>k. \<forall>i\<in>set (un_instances u). planned_wallet nothing_planned t i = Some k)"
      using universeWalletDefect_iff [OF assms(1) ok, of "un_instances u"] by blast
    moreover have "length (un_instances u) < 2 \<or> (\<exists>k. \<forall>i\<in>set (un_instances u). wallet_in t i = Some k)"
      using inv u by (auto simp: content_inv_def wallets_one_def not_less)
    ultimately show "universeWalletDefect C (un_instances u) nothing_planned t = Inr ''''" by (simp add: planned_nothing)
  qed
qed

definition smaller_wallet :: economy_body where
  "smaller_wallet = \<lparr>eb_code = None, eb_revision = Some 3, eb_name = None, eb_description = None, eb_status = None,
     eb_fields = [(''currency'', Obj [(''maxBalance'', JInt 9)])]\<rparr>"

definition both_confs :: game_content where
  "both_confs = snd (conf_post ref_content ref_mongo sample_db pid2 ''w2'' (Some ''standard'') sample_content)"

definition small_content :: game_content where
  "small_content = snd (economy_put ref_content ref_mongo sample_db ''standard'' smaller_wallet both_confs)"

lemma members_once_sample: "members_once sample_db"
  by (simp add: members_once_def sample_db_def empty_db_def)

lemma sample_universe_members: "u \<in> set (db_universes sample_db) \<Longrightarrow> un_instances u = [''w1'', ''w2'']"
  by (simp add: sample_db_def sample_universe_def un_instances_def)

lemma content_inv_sample: "content_inv sample_db sample_content"
proof -
  have "wallet_in sample_content ''w1'' = wallet_in sample_content ''w2'' \<and> wallet_in sample_content ''w1'' \<noteq> None" by code_simp
  then obtain k where "wallet_in sample_content ''w1'' = Some k" "wallet_in sample_content ''w2'' = Some k" by fastforce
  then have "\<forall>u\<in>set (db_universes sample_db). \<forall>i\<in>set (un_instances u). wallet_in sample_content i = Some k"
    by (auto dest!: sample_universe_members)
  then have "wallets_one sample_db sample_content" unfolding wallets_one_def by blast
  moreover have "unique_docs en_id (ct_economies sample_content)" by (simp add: sample_content_def no_content_def unique_docs_def)
  ultimately show ?thesis
    using sample_content_ok by (simp add: content_inv_def economies_ok_def content_ok_def)
qed

lemma writes_keep_one_wallet_witness:
  "content_inv sample_db small_content
     \<and> universeWalletDefect ref_content [''w1'', ''w2''] nothing_planned small_content = Inr ''''
     \<and> wallet_in small_content ''w2'' = Some (Str ''coin'', JInt 9) \<and> wallet_in sample_content ''w2'' \<noteq> wallet_in small_content ''w2''"
proof -
  have step1: "content_step ref_content ref_mongo sample_db sample_content both_confs"
    unfolding both_confs_def by (rule content_step.conf_post [OF prod.collapse [symmetric]])
  have "list_all (\<lambda>i. \<not> runs_default both_confs i) [''w1'', ''w2'']" by code_simp
  then have "none_by_default sample_db both_confs" by (auto simp: none_by_default_def dest: sample_universe_members)
  then have "key_covers ref_content sample_db ''standard'' both_confs" by (simp add: key_covers_def)
  from content_step.put [OF this prod.collapse [symmetric], of ref_mongo smaller_wallet]
  have "content_step ref_content ref_mongo sample_db both_confs small_content" by (simp add: small_content_def)
  with step1 have "(content_step ref_content ref_mongo sample_db)\<^sup>*\<^sup>* sample_content small_content" by (meson converse_rtranclp_into_rtranclp rtranclp.rtrancl_refl)
  from writes_keep_one_wallet [OF lawful_ref_content lawful_ref_mongo members_once_sample content_inv_sample this]
  have "content_inv sample_db small_content"
    "universeWalletDefect ref_content (un_instances sample_universe) nothing_planned small_content = Inr ''''"
    by (auto simp: sample_db_def)
  moreover have "wallet_in small_content ''w2'' = Some (Str ''coin'', JInt 9)" by code_simp
  moreover have "wallet_in sample_content ''w2'' \<noteq> Some (Str ''coin'', JInt 9)" by code_simp
  ultimately show ?thesis by (simp add: sample_universe_def un_instances_def)
qed

text \<open>The guard is needed: the service looks for the worlds whose conf names the economy, and a world that
runs the default one by default names none. Its universe loses its one wallet.\<close>

definition small_economy :: "string \<Rightarrow> int \<Rightarrow> economy" where
  "small_economy code coins = standard\<lparr>en_id := (if code = ''gold'' then pid1 else pid2), en_code := code,
     en_profile := standard_profile\<lparr>ep_currency := [(''code'', Str ''coin''), (''maxBalance'', JInt coins)]\<rparr>\<rparr>"

definition default_content :: game_content where
  "default_content = no_content\<lparr>ct_economies := [small_economy ''standard'' 7, small_economy ''gold'' 7],
     ct_confs := [\<lparr>cf_id = pid2, cf_instanceCode = ''w2'', cf_economyCode = ''gold''\<rparr>]\<rparr>"

lemma default_economy_splits:
  "universeWalletDefect ref_content [''w1'', ''w2''] nothing_planned default_content = Inr ''''
   \<and> (\<exists>e t. economy_put ref_content ref_mongo sample_db ''standard'' smaller_wallet default_content = (Inr e, t)
        \<and> universeWalletDefect ref_content [''w1'', ''w2''] nothing_planned t \<noteq> Inr '''')"
proof -
  let ?run = "economy_put ref_content ref_mongo sample_db ''standard'' smaller_wallet default_content"
  have "\<not> isl (fst ?run)" by code_simp
  moreover have "universeWalletDefect ref_content [''w1'', ''w2''] nothing_planned (snd ?run) \<noteq> Inr ''''" by code_simp
  moreover have "universeWalletDefect ref_content [''w1'', ''w2''] nothing_planned default_content = Inr ''''" by code_simp
  ultimately show ?thesis by (cases "fst ?run") (metis isl_def prod.collapse)+
qed

text \<open>A write of a conf that moves it to another world checks no wallet.\<close>

definition moved_content :: game_content where
  "moved_content = no_content\<lparr>ct_economies := [small_economy ''standard'' 7, small_economy ''gold'' 9],
     ct_confs := [\<lparr>cf_id = pid2, cf_instanceCode = ''w9'', cf_economyCode = ''gold''\<rparr>]\<rparr>"

lemma moved_conf_splits:
  "universeWalletDefect ref_content [''w1'', ''w2''] nothing_planned moved_content = Inr ''''
   \<and> (\<exists>c t. conf_put ref_content ref_mongo sample_db pid2 (Some ''w2'') None moved_content = (Inr c, t)
        \<and> universeWalletDefect ref_content [''w1'', ''w2''] nothing_planned t \<noteq> Inr '''')"
proof -
  let ?run = "conf_put ref_content ref_mongo sample_db pid2 (Some ''w2'') None moved_content"
  have "\<not> isl (fst ?run)" by code_simp
  moreover have "universeWalletDefect ref_content [''w1'', ''w2''] nothing_planned (snd ?run) \<noteq> Inr ''''" by code_simp
  moreover have "universeWalletDefect ref_content [''w1'', ''w2''] nothing_planned moved_content = Inr ''''" by code_simp
  ultimately show ?thesis by (cases "fst ?run") (metis isl_def prod.collapse)+
qed

end
