(* ===== verification/MarketProfiles.thy ===== *)
theory MarketProfiles imports MarketMachine Economy begin

text \<open>
  The profiles of the markets: \<open>src/projects/cyberia/economy/market-profile.js\<close> and the writes of
  \<open>src/api/cyberia-market/cyberia-market.service.js\<close>, beside the market they govern.

  A market is named by its code here; a request that names its document id names the same document. A
  name and a description are labels for people and are left out. The actions of a world are read only: the
  code of an action and its market capability. The authority is the deploy id, an argument. Each call of the
  service is one step: the code reads the goods held and writes the profile without a transaction, so the
  theorem speaks of calls that no listing interleaves.
\<close>

section \<open>Profiles\<close>

definition MARKET_STATUSES :: "string list" where
  "MARKET_STATUSES = [''active'', ''retired'']"

definition MARKET_SELECTIONS :: "string list" where
  "MARKET_SELECTIONS = [''policy'', ''items'']"

definition assertMarketProfile :: "string \<Rightarrow> js \<Rightarrow> error + market_rules" where
  "assertMarketProfile code market =
     (if \<not> contentCode code then Inl (http_error ''The market code is invalid'' 400)
      else case resolveMarketProfile market of Inl e \<Rightarrow> Inl (http_error (err_message e) 400) | Inr rules \<Rightarrow> Inr rules)"

definition marketRef :: "string \<Rightarrow> string \<Rightarrow> string \<Rightarrow> string \<Rightarrow> string" where
  "marketRef authorityId scope scopeKey code =
     (let local = scope @ '':'' @ scopeKey @ ''/'' @ code in if authorityId \<noteq> '''' then authorityId @ ''/'' @ local else local)"

section \<open>Terminals\<close>

record terminal =
  te_marketCode :: string
  te_selection :: string
  te_itemIds :: "string list"
  te_listingModes :: "string list"

definition TERMINAL_FIELDS :: "string list" where
  "TERMINAL_FIELDS = [''marketCode'', ''selection'', ''itemIds'', ''listingModes'']"

definition namesEachOnce :: "js \<Rightarrow> (js \<Rightarrow> bool) \<Rightarrow> bool" where
  "namesEachOnce values valid \<longleftrightarrow> isArray values \<and> list_all valid (jarr values) \<and> distinct (jarr values)"

text \<open>The capability a request holds: its market code is a text, or left out.\<close>

definition assertTerminal :: "mongo \<Rightarrow> js \<Rightarrow> db \<Rightarrow> error + terminal option" where
  "assertTerminal M t s =
     (if nullish t then Inr None
      else let unknown = filter (\<lambda>k. k \<notin> set TERMINAL_FIELDS \<and> k \<noteq> ''_id'') (map fst (fields_of t));
               given = (\<lambda>k d. if jget t k = Undefined then d else jget t k);
               marketCode = jstr (jget t ''marketCode''); selection = given ''selection'' (Str ''policy'');
               itemIds = given ''itemIds'' (Arr []); listingModes = given ''listingModes'' (Arr (map Str MARKET_MODES)) in
        if unknown \<noteq> [] then Inl (http_error (''Unknown market fields: '' @ join unknown) 400)
        else if marketCode \<noteq> '''' \<and> \<not> contentCode marketCode then Inl (http_error ''The market code is invalid'' 400)
        else if \<not> oneOf MARKET_SELECTIONS selection then Inl (http_error ''The market selection is invalid'' 400)
        else if \<not> namesEachOnce itemIds nonEmptyText then Inl (http_error ''The market items must name each item once'' 400)
        else if selection = Str ''policy'' \<and> jarr itemIds \<noteq> [] then Inl (http_error ''The market items apply only to the selection items'' 400)
        else if \<not> namesEachOnce listingModes (oneOf MARKET_MODES) then Inl (http_error ''The listing modes must name each mode once'' 400)
        else if marketCode \<noteq> '''' \<and> findProfile M marketCode s = None
          then Inl (http_error (''No market profile has the code '' @ marketCode) 400)
        else Inr (Some \<lparr>te_marketCode = marketCode, te_selection = jstr selection, te_itemIds = map jstr (jarr itemIds),
          te_listingModes = map jstr (jarr listingModes)\<rparr>))"

definition terminalListingModes :: "terminal option \<Rightarrow> market_profile \<Rightarrow> string list" where
  "terminalListingModes t p = filter (\<lambda>m. m \<in> set (case t of None \<Rightarrow> [] | Some t \<Rightarrow> te_listingModes t)) (mk_modes p)"

definition walletCurrencyOf :: "content_mongo \<Rightarrow> string \<Rightarrow> game_content \<Rightarrow> error + string" where
  "walletCurrencyOf C instanceCode c =
     (let conf = drv_find_one (cm_confs C) (\<lambda>f. cf_instanceCode f = instanceCode) (ct_confs c) in
      case drv_find_one (cm_economies C) (\<lambda>e. en_code e = confEconomyCode conf) (ct_economies c) of
        None \<Rightarrow> Inr ''''
      | Some e \<Rightarrow> bindE (walletContract (Obj (ep_currency (en_profile e)))) (\<lambda>w. Inr (wallet_code w)))"

definition marketDefect :: "market_profile option \<Rightarrow> string \<Rightarrow> string \<Rightarrow> string" where
  "marketDefect profile scopeKey walletCurrency =
     (case profile of None \<Rightarrow> ''no market profile has this code''
      | Some p \<Rightarrow> if scopeKey = '''' then ''the world belongs to no universe''
          else if walletCurrency \<noteq> mk_currencyCode p
            then ''the world pays in '' @ (if walletCurrency = '''' then ''no currency'' else walletCurrency) @ '', the market trades in ''
              @ mk_currencyCode p
          else '''')"

record action =
  ac_code :: string
  ac_market :: "terminal option"

datatype world_market =
    UnknownMarket string string \<comment> \<open>code and defect\<close>
  | WorldMarket market_profile string string string \<comment> \<open>the profile, its scope key, its reference and its defect\<close>

definition wireProfile :: "string \<Rightarrow> market_profile \<Rightarrow> string \<Rightarrow> string \<Rightarrow> world_market" where
  "wireProfile authorityId p scopeKey defect = WorldMarket p scopeKey (marketRef authorityId (mk_scope p) scopeKey (mk_code p)) defect"

definition market_codes :: "action list \<Rightarrow> string list" where
  "market_codes actions = sort (remdups (filter (\<lambda>c. c \<noteq> '''')
     (map (\<lambda>a. case ac_market a of None \<Rightarrow> '''' | Some t \<Rightarrow> te_marketCode t) actions)))"

definition worldMarkets :: "content_mongo \<Rightarrow> mongo \<Rightarrow> string \<Rightarrow> string \<Rightarrow> action list \<Rightarrow> game_content \<Rightarrow> db \<Rightarrow> error + world_market list" where
  "worldMarkets C M authorityId instanceCode actions c s =
     (let codes = market_codes actions in
      if codes = [] then Inr []
      else let profiles = map_of (map (\<lambda>p. (mk_code p, p)) (drv_find (mg_markets M) (\<lambda>p. mk_code p \<in> set codes) (db_markets s))) in
        bindE (walletCurrencyOf C instanceCode c) (\<lambda>walletCurrency. Inr (map (\<lambda>code.
          let profile = profiles code;
              scopeKey = (case profile of None \<Rightarrow> '''' | Some p \<Rightarrow> scopeKeyOf M s (mk_scope p) instanceCode);
              defect = marketDefect profile scopeKey walletCurrency in
          case profile of None \<Rightarrow> UnknownMarket code defect | Some p \<Rightarrow> wireProfile authorityId p scopeKey defect) codes)))"

section \<open>The market service\<close>

definition market_fields :: "market_profile \<Rightarrow> block" where
  "market_fields p = [(''scope'', Str (mk_scope p)), (''currencyCode'', Str (mk_currencyCode p)), (''modes'', Arr (map Str (mk_modes p))),
     (''hours'', Arr (map JInt (mk_hours p))),
     (''auction'', Obj [(''raisePercent'', JInt (mk_raisePercent p)), (''minRaise'', JInt (mk_minRaise p))]),
     (''fees'', Obj [(''listing'', JInt (mk_listingFee p)), (''sale'', JInt (mk_saleFee p))]),
     (''limits'', Obj [(''priceMin'', JInt (mk_priceMin p)), (''priceMax'', JInt (mk_priceMax p)),
        (''listingsPerPlayer'', JInt (mk_listingsPerPlayer p))])]"

record market_body =
  mb_code :: "string option"
  mb_revision :: "int option"
  mb_status :: "string option"
  mb_fields :: block \<comment> \<open>the rules the body sets\<close>

definition open_under :: "string \<Rightarrow> listing \<Rightarrow> bool" where
  "open_under code l \<longleftrightarrow> li_marketCode l = code \<and> li_status l = Open"

definition pending_under :: "string \<Rightarrow> claim \<Rightarrow> bool" where
  "pending_under code c \<longleftrightarrow> cl_marketCode c = code \<and> cl_status c = Pending"

definition heldGoods :: "mongo \<Rightarrow> string \<Rightarrow> db \<Rightarrow> nat \<times> nat" where
  "heldGoods M code s = (length (drv_find (mg_listings M) (open_under code) (db_listings s)),
     length (drv_find (mg_claims M) (pending_under code) (db_claims s)))"

definition held_text :: "string \<Rightarrow> nat \<times> nat \<Rightarrow> string" where
  "held_text code held = ''Market '' @ code @ '' holds '' @ nat_string (fst held) @ '' open listings and '' @ nat_string (snd held)
     @ '' pending claims''"

definition create_market :: "mongo \<Rightarrow> string \<Rightarrow> string \<Rightarrow> market_rules \<Rightarrow> (db, market_profile) work" where
  "create_market M code status rules s =
     (if findProfile M code s \<noteq> None then (Inl (http_error (''Market '' @ code @ '' exists'') 409), s)
      else if status \<notin> set MARKET_STATUSES then (Inl validation_error, s)
      else case drv_create (mg_markets M) [stored_profile code status 1 rules] (db_markets s) of
        Inl e \<Rightarrow> (Inl e, s) | Inr c \<Rightarrow> (Inr (stored_profile code status 1 rules), s\<lparr>db_markets := c\<rparr>))"

definition profile_post :: "mongo \<Rightarrow> market_body \<Rightarrow> (db, market_profile) work" where
  "profile_post M b s = (let code = or_else '''' (mb_code b) in
     case assertMarketProfile code (Obj (mb_fields b)) of Inl e \<Rightarrow> (Inl e, s)
     | Inr rules \<Rightarrow> create_market M code (or_else ''active'' (mb_status b)) rules s)"

definition profile_clone :: "mongo \<Rightarrow> string \<Rightarrow> market_body \<Rightarrow> (db, market_profile) work" where
  "profile_clone M key b s =
     (case findProfile M key s of None \<Rightarrow> (Inl (http_error ''market not found'' 404), s)
      | Some source \<Rightarrow> (let code = or_else '''' (mb_code b) in
          case assertMarketProfile code (Obj (market_fields source)) of Inl e \<Rightarrow> (Inl e, s)
          | Inr rules \<Rightarrow> create_market M code ''active'' rules s))"

definition profile_refusal :: "market_profile \<Rightarrow> market_body \<Rightarrow> error option" where
  "profile_refusal stored b =
     (if mb_code b \<noteq> None \<and> mb_code b \<noteq> Some (mk_code stored)
        then Some (http_error (''The code of market '' @ mk_code stored @ '' never changes'') 400)
      else if mb_revision b \<noteq> Some (mk_revision stored)
        then Some (http_error (''Market '' @ mk_code stored @ '' is at revision '' @ int_string (mk_revision stored) @ '', not ''
          @ (case mb_revision b of None \<Rightarrow> ''undefined'' | Some r \<Rightarrow> int_string r) @ '': reload it'') 409)
      else None)"

definition profile_put :: "mongo \<Rightarrow> string \<Rightarrow> market_body \<Rightarrow> (db, market_profile) work" where
  "profile_put M key b s =
     (case findProfile M key s of None \<Rightarrow> (Inl (http_error ''market not found'' 404), s)
      | Some stored \<Rightarrow>
        (case profile_refusal stored b of Some e \<Rightarrow> (Inl e, s) | None \<Rightarrow>
          (case assertMarketProfile (mk_code stored) (Obj (spread (market_fields stored) (mb_fields b))) of Inl e \<Rightarrow> (Inl e, s)
           | Inr rules \<Rightarrow>
             (let held = heldGoods M (mk_code stored) s; status = or_else (mk_status stored) (mb_status b) in
              if (mr_scope rules \<noteq> mk_scope stored \<or> mr_currencyCode rules \<noteq> mk_currencyCode stored) \<and> 0 < fst held + snd held
              then (Inl (http_error (held_text (mk_code stored) held @ '': its scope and currency stay until they end'') 409), s)
              else if status \<notin> set MARKET_STATUSES then (Inl validation_error, s)
              else (case find_one_and_update (mg_markets M)
                  (\<lambda>p. mk_code p = mk_code stored \<and> mk_revision p = mk_revision stored)
                  (\<lambda>p. stored_profile (mk_code p) status (mk_revision p + 1) rules) (db_markets s) of
                (None, _) \<Rightarrow> (Inl (http_error (''Market '' @ mk_code stored @ '' changed while saving: reload it'') 409), s)
              | (Some updated, c) \<Rightarrow> (Inr updated, s\<lparr>db_markets := c\<rparr>))))))"

definition profile_delete :: "mongo \<Rightarrow> action list \<Rightarrow> string \<Rightarrow> (db, market_profile) work" where
  "profile_delete M actions key s =
     (if key = '''' then (Inl (http_error ''Name the market to delete'' 400), s)
      else case findProfile M key s of None \<Rightarrow> (Inl (http_error ''market not found'' 404), s)
      | Some stored \<Rightarrow>
         (let terminals = remdups (map ac_code (filter (\<lambda>a. map_option te_marketCode (ac_market a) = Some (mk_code stored)) actions));
              held = heldGoods M (mk_code stored) s in
          if terminals \<noteq> [] then (Inl (http_error (''Terminals '' @ join terminals @ '' open market '' @ mk_code stored) 409), s)
          else if 0 < fst held + snd held then (Inl (http_error (held_text (mk_code stored) held) 409), s)
          else (Inr stored, s\<lparr>db_markets := drv_delete_one (mg_markets M) (\<lambda>p. mk_code p = mk_code stored) (db_markets s)\<rparr>)))"

section \<open>The market and its profiles together\<close>

definition governs :: "market_profile \<Rightarrow> string \<Rightarrow> string \<Rightarrow> bool" where
  "governs p code scope \<longleftrightarrow> mk_code p = code \<and> mk_scope p = scope"

definition covered :: "db \<Rightarrow> string \<Rightarrow> string \<Rightarrow> bool" where
  "covered s code scope \<longleftrightarrow> (\<exists>p\<in>set (db_markets s). governs p code scope)"

text \<open>The market holds goods under a code and a scope: an open listing, or a pending claim.\<close>

definition holds_goods :: "db \<Rightarrow> string \<Rightarrow> string \<Rightarrow> bool" where
  "holds_goods s code scope \<longleftrightarrow> (\<exists>l\<in>set (db_listings s). li_status l = Open \<and> li_marketCode l = code \<and> li_scope l = scope)
     \<or> (\<exists>c\<in>set (db_claims s). cl_status c = Pending \<and> cl_marketCode c = code \<and> cl_scope c = scope)"

definition goods_covered :: "db \<Rightarrow> bool" where
  "goods_covered s \<longleftrightarrow> (\<forall>code scope. holds_goods s code scope \<longrightarrow> covered s code scope)"

definition carries :: "db \<Rightarrow> db \<Rightarrow> bool" where
  "carries s t \<longleftrightarrow> db_markets t = db_markets s
     \<and> (\<forall>code scope. holds_goods t code scope \<longrightarrow> holds_goods s code scope \<or> covered s code scope)"

lemma carries_refl [simp]: "carries s s"
  by (simp add: carries_def)

lemma carries_covered: "carries s t \<Longrightarrow> goods_covered s \<Longrightarrow> goods_covered t"
  unfolding carries_def goods_covered_def covered_def by metis

lemma carriesI:
  assumes "db_markets t = db_markets s"
    and "\<And>l. l \<in> set (db_listings t) \<Longrightarrow> li_status l = Open \<Longrightarrow>
      holds_goods s (li_marketCode l) (li_scope l) \<or> covered s (li_marketCode l) (li_scope l)"
    and "\<And>c. c \<in> set (db_claims t) \<Longrightarrow> cl_status c = Pending \<Longrightarrow> holds_goods s (cl_marketCode c) (cl_scope c)"
  shows "carries s t"
  unfolding carries_def holds_goods_def [of t] using assms by blast

lemma holds_goodsI:
  "l \<in> set (db_listings s) \<Longrightarrow> li_status l = Open \<Longrightarrow> holds_goods s (li_marketCode l) (li_scope l)"
  "c \<in> set (db_claims s) \<Longrightarrow> cl_status c = Pending \<Longrightarrow> holds_goods s (cl_marketCode c) (cl_scope c)"
  by (auto simp: holds_goods_def)

text \<open>One listing changes and leaves claims of its market.\<close>

lemma carries_update:
  assumes "i < length (db_listings s)" "l = db_listings s ! i" "li_status l = Open"
    and "li_marketCode l' = li_marketCode l" "li_scope l' = li_scope l"
    and "\<And>c. c \<in> set cs \<Longrightarrow> cl_marketCode c = li_marketCode l \<and> cl_scope c = li_scope l"
  shows "carries s (s\<lparr>db_listings := (db_listings s)[i := l'], db_claims := db_claims s @ cs\<rparr>)"
proof (rule carriesI)
  have l: "holds_goods s (li_marketCode l) (li_scope l)" using assms(1-3) by (intro holds_goodsI) simp_all
  fix k assume "k \<in> set (db_listings (s\<lparr>db_listings := (db_listings s)[i := l'], db_claims := db_claims s @ cs\<rparr>))" "li_status k = Open"
  then show "holds_goods s (li_marketCode k) (li_scope k) \<or> covered s (li_marketCode k) (li_scope k)"
    using l assms(4,5) holds_goodsI(1) [of k s] set_update_subset_insert [of "db_listings s" i l'] by auto
next
  have l: "holds_goods s (li_marketCode l) (li_scope l)" using assms(1-3) by (intro holds_goodsI) simp_all
  fix c assume "c \<in> set (db_claims (s\<lparr>db_listings := (db_listings s)[i := l'], db_claims := db_claims s @ cs\<rparr>))" "cl_status c = Pending"
  then show "holds_goods s (cl_marketCode c) (cl_scope c)"
    using l assms(6) holds_goodsI(2) [of c s] by auto
qed simp

lemma claim_market [simp]:
  "cl_marketCode (coin_claim l cid p r n) = li_marketCode l" "cl_scope (coin_claim l cid p r n) = li_scope l"
  "cl_marketCode (stack_claim l cid p r) = li_marketCode l" "cl_scope (stack_claim l cid p r) = li_scope l"
  by (simp_all add: stack_claim_def coin_claim_def)

lemma listing_market [simp]:
  "li_marketCode (ended now st b l) = li_marketCode l" "li_scope (ended now st b l) = li_scope l"
  "li_marketCode (bid_raised n p l) = li_marketCode l" "li_scope (bid_raised n p l) = li_scope l"
  "li_marketCode (settled now l) = li_marketCode l" "li_scope (settled now l) = li_scope l"
  by (simp_all add: ended_def bid_raised_def settled_def)

lemma applyMarketOp_carries:
  assumes M: "lawful_mongo M" and inv: "market_inv s" and d: "marketOpDefect (mo_kind op) (mo_market op) = ''''"
    and f: "mo_kind op = ''market_list'' \<Longrightarrow> fresh_op newId s op" and run: "applyMarketOp M now newId op s = (Inr r, t)"
  shows "carries s t"
proof -
  consider "mo_kind op = ''market_list''" | "mo_kind op = ''market_cancel''" | "mo_kind op = ''market_buy''"
    | "mo_kind op = ''market_bid''" | "mo_kind op = ''market_collect''"
    using d by (auto simp: marketOpDefect_def split: if_splits)
  then show ?thesis
  proof cases
    case 1
    with f have f: "fresh_op newId s op" by simp
    from d 1 have d: "marketOpDefect ''market_list'' (mo_market op) = ''''" by simp
    from run 1 have run: "market_list M now newId op s = (Inr r, t)" by (simp add: applyMarketOp_def)
    from f have n: "mo_operationId op \<noteq> ''''" "mo_instanceCode op \<noteq> ''''" "mo_operationId op \<notin> li_listingId ` set (db_listings s)"
      by (simp_all add: fresh_op_def)
    from M inv d n show ?thesis
    proof (cases rule: market_list_cases [where now = now and newId = newId])
      case (listed p scopeKey)
      have "covered s (mk_code p) (mk_scope p)" using listed(1) by (auto simp: covered_def governs_def)
      moreover have "t = s\<lparr>db_listings := db_listings s @ [new_listing now newId op p scopeKey]\<rparr>"
        using run listed(6) by simp
      moreover have "li_marketCode (new_listing now newId op p scopeKey) = mk_code p"
        "li_scope (new_listing now newId op p scopeKey) = mk_scope p"
        by (simp_all add: new_listing_def Let_def)
      ultimately show ?thesis by (intro carriesI) (auto intro: holds_goodsI)
    qed (use run in simp)
  next
    case 2
    with run have run: "market_cancel M now op s = (Inr r, t)" by (simp add: applyMarketOp_def)
    from M inv show ?thesis
    proof (cases rule: market_cancel_cases [where now = now and op = op])
      case (cancelled i l)
      then show ?thesis using run carries_update [of i s l "ended now Cancelled (li_buyer l) l" "[]"]
        by (simp add: is_open_def)
    qed (use run in simp)
  next
    case 3
    with run have run: "market_buy M now op s = (Inr r, t)" by (simp add: applyMarketOp_def)
    from M inv show ?thesis
    proof (cases rule: market_buy_cases [where now = now and op = op])
      case (sold i l)
      then show ?thesis using run carries_update [of i s l "ended now Sold (Some (mo_playerId op)) l"
          "[coin_claim l (claim_id (li_listingId l) Sale 0) (li_seller l) Sale (li_price l - li_saleFee l)]"]
        by (simp add: is_open_def)
    qed (use run in simp)
  next
    case 4
    with run have run: "market_bid M now op s = (Inr r, t)" by (simp add: applyMarketOp_def)
    from M inv show ?thesis
    proof (cases rule: market_bid_cases [where now = now and op = op])
      case (bid i l price)
      have "cl_marketCode c = li_marketCode l \<and> cl_scope c = li_scope l" if "c \<in> set (outbid_claims l)" for c
        using that by (auto simp: outbid_claims_def split: option.splits)
      then show ?thesis using bid run carries_update [of i s l "bid_raised price (mo_playerId op) l" "outbid_claims l"]
        by (simp add: is_open_def)
    qed (use run in simp)
  next
    case 5
    with run have run: "market_collect M now op s = (Inr r, t)" by (simp add: applyMarketOp_def)
    from M inv show ?thesis
    proof (cases rule: market_collect_cases [where now = now and op = op])
      case collected
      show ?thesis
        by (rule carriesI) (use run collected(3) holds_goodsI in \<open>auto simp: collected_def\<close>)
    qed (use run in simp)
  qed
qed



text \<open>A settlement writes nothing, or changes its listing and leaves the claims of its market.\<close>

lemma settleWork_carries:
  assumes M: "lawful_mongo M" and inv: "market_inv s"
    and read: "\<forall>k\<in>set (db_listings s). li_id k = li_id l \<and> li_revision k = li_revision l \<longrightarrow> k = l"
    and run: "settleWork M now l s = (Inr (), t)"
  shows "carries s t"
  using M inv read
proof (cases rule: settleWork_cases [where now = now])
  case (settled i)
  have "cl_marketCode c = li_marketCode l \<and> cl_scope c = li_scope l" if "c \<in> set (settled_claims l)" for c
    using that by (auto simp: settled_claims_def split: option.splits)
  then show ?thesis
    using settled run carries_update [of i s l "MarketSafety.settled now l" "settled_claims l"] by simp
qed (use run in simp)

lemma market_step_carries:
  assumes M: "lawful_mongo M" and step: "market_step M x y" and inv: "machine_inv x"
  shows "carries (ma_db x) (ma_db y)"
  using step
proof (cases rule: market_step.cases)
  case (operate op newId now r t)
  have "market_inv (ma_db x)" using inv by (simp add: machine_inv_def)
  from applyMarketOp_carries [OF M this operate(2) _ operate(5)] operate(1,3) show ?thesis by simp
next
  case (settle l now as t)
  have t: "settleWork M now l (ma_db x) = (Inr (), t)"
    using settle(3) unfolding settleListing_def by (rule tx.committed)
  have "market_inv (ma_db x)" "\<forall>k\<in>set (db_listings (ma_db x)). li_id k = li_id l \<and> li_revision k = li_revision l \<longrightarrow> k = l"
    using inv settle(2) by (auto simp: machine_inv_def reads_ok_def)
  from settleWork_carries [OF M this t] show ?thesis by (simp add: settle(1))
next
  case (purge now)
  show ?thesis by (rule carriesI) (use holds_goodsI in \<open>auto simp: purge purged_def\<close>)
qed simp

text \<open>A call of the service that writes: it raises one profile, adds one or deletes one.\<close>

lemma held_goods_none:
  assumes M: "lawful_mongo M" and "fst (heldGoods M code s) + snd (heldGoods M code s) = 0"
  shows "\<not> holds_goods s code scope"
proof -
  have "drv_find (mg_listings M) P c = filter P c" for P c
    by (rule collection.find_docs [OF lawful_mongoD(5) [OF M]])
  moreover have "drv_find (mg_claims M) P c = filter P c" for P c
    by (rule collection.find_docs [OF lawful_mongoD(6) [OF M]])
  ultimately show ?thesis
    using assms(2) by (auto simp: heldGoods_def holds_goods_def open_under_def pending_under_def filter_empty_conv)
qed

lemma findProfile_SomeD:
  assumes M: "lawful_mongo M" and "findProfile M code s = Some p"
  shows "p \<in> set (db_markets s)" "mk_code p = code"
  using assms(2) collection.find_one_some [OF lawful_mongoD(8) [OF M]] by (auto simp: findProfile_def)

lemma findProfile_NoneD:
  assumes M: "lawful_mongo M" and "findProfile M code s = None"
  shows "\<forall>p\<in>set (db_markets s). mk_code p \<noteq> code"
  using assms(2) by (simp add: findProfile_def collection.find_one_none [OF lawful_mongoD(8) [OF M]])

lemma assertMarketProfile_rules:
  assumes "assertMarketProfile code m = Inr rules"
  shows "code \<noteq> ''''" "resolveMarketProfile m = Inr rules"
  using assms by (auto simp: assertMarketProfile_def contentCode_def split: if_splits sum.splits)

lemma create_market_cases:
  assumes M: "lawful_mongo M" and u: "unique_docs mk_code (db_markets s)" and run: "create_market M code status rules s = (r, t)"
  obtains (refused) e where "r = Inl e" "t = s"
    | (created) "r = Inr (stored_profile code status 1 rules)" "\<forall>p\<in>set (db_markets s). mk_code p \<noteq> code"
        "t = s\<lparr>db_markets := db_markets s @ [stored_profile code status 1 rules]\<rparr>"
proof (cases "findProfile M code s = None \<and> status \<in> set MARKET_STATUSES")
  case True
  then have none: "\<forall>p\<in>set (db_markets s). mk_code p \<noteq> code" using findProfile_NoneD [OF M] by blast
  then have "unique_docs mk_code (db_markets s @ [stored_profile code status 1 rules])"
    using u by (auto simp: unique_docs_def stored_profile_def)
  from collection.create_ok [OF lawful_mongoD(8) [OF M] _ this] have
    "drv_create (mg_markets M) [stored_profile code status 1 rules] (db_markets s) = Inr (db_markets s @ [stored_profile code status 1 rules])"
    by simp
  with True run none show ?thesis by (intro created) (auto simp: create_market_def)
next
  case False
  with run show ?thesis by (auto simp: create_market_def split: if_splits intro: refused)
qed


text \<open>A profile keeps its code, its scope and its currency, and never goes back a revision.\<close>

definition same_terms :: "market_profile \<Rightarrow> market_profile \<Rightarrow> bool" where
  "same_terms p q \<longleftrightarrow> mk_code q = mk_code p \<and> mk_scope q = mk_scope p \<and> mk_currencyCode q = mk_currencyCode p
     \<and> mk_revision p \<le> mk_revision q"

definition profiles_write :: "db \<Rightarrow> db \<Rightarrow> bool" where
  "profiles_write s t \<longleftrightarrow> (\<exists>ms. t = s\<lparr>db_markets := ms\<rparr> \<and> unique_docs mk_code ms \<and> (\<forall>p\<in>set ms. profile_ok p)
     \<and> (\<forall>p\<in>set (db_markets s). (\<forall>scope. \<not> holds_goods s (mk_code p) scope) \<or> (\<exists>q\<in>set ms. same_terms p q)))"

lemma same_terms_refl [simp]: "same_terms p p"
  by (simp add: same_terms_def)

lemma market_inv_profiles: "market_inv s \<Longrightarrow> unique_docs mk_code (db_markets s) \<and> (\<forall>p\<in>set (db_markets s). profile_ok p)"
  by (simp add: market_inv_def unique_db_def)

lemma profiles_write_refl: "market_inv s \<Longrightarrow> profiles_write s s"
  using market_inv_profiles [of s] unfolding profiles_write_def
  by (intro exI [of _ "db_markets s"]) (auto intro: same_terms_refl)

lemma create_market_writes:
  assumes M: "lawful_mongo M" and inv: "market_inv s" and rules: "assertMarketProfile code m = Inr rules"
    and run: "create_market M code status rules s = (r, t)"
  shows "profiles_write s t"
  using M market_inv_profiles [OF inv, THEN conjunct1] run
proof (cases rule: create_market_cases)
  case created
  have "profile_ok (stored_profile code status 1 rules)"
    using assertMarketProfile_rules [OF rules] by (auto intro: stored_profile_ok)
  then show ?thesis
    using created market_inv_profiles [OF inv] unfolding profiles_write_def
    by (intro exI [of _ "db_markets s @ [stored_profile code status 1 rules]"])
      (auto simp: unique_docs_def stored_profile_def intro: same_terms_refl)
qed (use inv profiles_write_refl in simp)

lemma profile_put_cases:
  assumes M: "lawful_mongo M" and u: "unique_docs mk_code (db_markets s)" and run: "profile_put M key b s = (r, t)"
  obtains (refused) e where "r = Inl e" "t = s"
    | (updated) p q rules where "r = Inr q" "p \<in> set (db_markets s)" "mk_code p = key"
        "mb_code b = None \<or> mb_code b = Some key" "mb_revision b = Some (mk_revision p)"
        "assertMarketProfile key (Obj (spread (market_fields p) (mb_fields b))) = Inr rules"
        "q = stored_profile key (or_else (mk_status p) (mb_status b)) (mk_revision p + 1) rules"
        "mr_scope rules = mk_scope p \<and> mr_currencyCode rules = mk_currencyCode p \<or> (\<forall>scope. \<not> holds_goods s key scope)"
        "t = s\<lparr>db_markets := map (\<lambda>e. if e = p then q else e) (db_markets s)\<rparr>"
proof (cases "r")
  case (Inl e)
  with run have "t = s"
    by (auto simp: profile_put_def Let_def split: option.splits sum.splits prod.splits if_splits)
  with Inl show ?thesis by (rule refused)
next
  case (Inr q)
  from run Inr obtain p where p: "findProfile M key s = Some p"
    by (cases "findProfile M key s") (auto simp: profile_put_def)
  note f = findProfile_SomeD [OF M p]
  from run Inr p have ok: "profile_refusal p b = None" by (cases "profile_refusal p b") (auto simp: profile_put_def)
  from run Inr p ok obtain rules where rules: "assertMarketProfile (mk_code p) (Obj (spread (market_fields p) (mb_fields b))) = Inr rules"
    by (cases "assertMarketProfile (mk_code p) (Obj (spread (market_fields p) (mb_fields b)))") (auto simp: profile_put_def)
  let ?held = "heldGoods M (mk_code p) s" and ?status = "or_else (mk_status p) (mb_status b)"
  let ?P = "\<lambda>e. mk_code e = mk_code p \<and> mk_revision e = mk_revision p"
  let ?f = "\<lambda>e. stored_profile (mk_code e) ?status (mk_revision e + 1) rules"
  from run Inr p ok rules have held: "\<not> ((mr_scope rules \<noteq> mk_scope p \<or> mr_currencyCode rules \<noteq> mk_currencyCode p) \<and> 0 < fst ?held + snd ?held)"
    and up: "(case find_one_and_update (mg_markets M) ?P ?f (db_markets s) of
        (None, _) \<Rightarrow> (Inl (http_error (''Market '' @ mk_code p @ '' changed while saving: reload it'') 409), s)
      | (Some updated, c) \<Rightarrow> (Inr updated, s\<lparr>db_markets := c\<rparr>)) = (Inr q, t)"
    by (auto simp: profile_put_def Let_def split: if_splits)
  show ?thesis
  proof (rule collection.find_one_and_update_cases [OF lawful_mongoD(8) [OF M] u, of ?P ?f])
    assume "\<forall>d\<in>set (db_markets s). \<not> ?P d"
    with f show ?thesis by auto
  next
    fix d assume d: "d \<in> set (db_markets s)" "?P d"
      "find_one_and_update (mg_markets M) ?P ?f (db_markets s) = (Some (?f d), map (\<lambda>e. if e = d then ?f e else e) (db_markets s))"
    have same: "d = p" using d(1,2) f(1) unique_docs_eq [OF u] by auto
    have q: "q = ?f p" "t = s\<lparr>db_markets := map (\<lambda>e. if e = p then q else e) (db_markets s)\<rparr>"
      using up d(3) same by (auto cong: if_cong)
    show ?thesis
    proof (rule updated [of q p rules])
      show "mr_scope rules = mk_scope p \<and> mr_currencyCode rules = mk_currencyCode p \<or> (\<forall>scope. \<not> holds_goods s key scope)"
        using held held_goods_none [OF M, of key s] f(2) by auto
    qed (use Inr f rules ok q in \<open>auto simp: profile_refusal_def split: if_splits\<close>)
  qed
qed

lemma profile_put_writes:
  assumes M: "lawful_mongo M" and inv: "market_inv s" and run: "profile_put M key b s = (r, t)"
  shows "profiles_write s t"
  using M market_inv_profiles [OF inv, THEN conjunct1] run
proof (cases rule: profile_put_cases)
  case (updated p q rules)
  note i = market_inv_profiles [OF inv]
  have "0 \<le> mk_revision p" using i updated(2) by (auto simp: profile_ok_def)
  then have ok: "profile_ok q"
    using assertMarketProfile_rules [OF updated(6)] updated(7) by (auto intro: stored_profile_ok)
  have code: "mk_code q = mk_code p" "mk_revision q = mk_revision p + 1"
    using updated(3,7) by (simp_all add: stored_profile_def)
  have "same_terms p q \<or> (\<forall>scope. \<not> holds_goods s (mk_code p) scope)"
    using updated(3,7,8) code by (auto simp: same_terms_def stored_profile_def)
  then have "(\<forall>scope. \<not> holds_goods s (mk_code e) scope) \<or> (\<exists>d\<in>set (map (\<lambda>e. if e = p then q else e) (db_markets s)). same_terms e d)"
    if "e \<in> set (db_markets s)" for e
    using that updated(2) by (cases "e = p") (auto intro!: bexI [of _ e])
  moreover have "unique_docs mk_code (map (\<lambda>e. if e = p then q else e) (db_markets s))"
    using i code by (simp add: unique_docs_map)
  moreover have "\<forall>e\<in>set (map (\<lambda>e. if e = p then q else e) (db_markets s)). profile_ok e"
    using i ok by auto
  ultimately show ?thesis
    using updated(9) unfolding profiles_write_def by blast
qed (use inv profiles_write_refl in simp)

lemma profile_delete_writes:
  assumes M: "lawful_mongo M" and inv: "market_inv s" and run: "profile_delete M actions key s = (r, t)"
  shows "profiles_write s t"
proof (cases "r")
  case (Inl e)
  with run have "t = s" by (auto simp: profile_delete_def Let_def split: option.splits if_splits)
  with inv profiles_write_refl show ?thesis by simp
next
  case (Inr p)
  note i = market_inv_profiles [OF inv]
  from run Inr obtain p' where p: "findProfile M key s = Some p'"
    by (cases "findProfile M key s") (auto simp: profile_delete_def split: if_splits)
  with run Inr have held: "fst (heldGoods M (mk_code p') s) + snd (heldGoods M (mk_code p') s) = 0"
    and t: "t = s\<lparr>db_markets := drv_delete_one (mg_markets M) (\<lambda>e. mk_code e = mk_code p') (db_markets s)\<rparr>"
    by (auto simp: profile_delete_def Let_def split: if_splits)
  have "drv_delete_one (mg_markets M) (\<lambda>e. mk_code e = mk_code p') (db_markets s) = filter (\<lambda>e. mk_code e \<noteq> mk_code p') (db_markets s)"
    using i by (intro collection.delete_one_unique [OF lawful_mongoD(8) [OF M]]) auto
  with i t held_goods_none [OF M held] show ?thesis unfolding profiles_write_def
    by (intro exI [of _ "filter (\<lambda>e. mk_code e \<noteq> mk_code p') (db_markets s)"])
      (auto simp: unique_docs_filter intro: same_terms_refl)
qed


text \<open>The market runs as before, and between its steps the editor writes profiles, one call at a time.\<close>

inductive governed_step :: "mongo \<Rightarrow> market_state \<Rightarrow> market_state \<Rightarrow> bool" for M where
  trade: "market_step M x y \<Longrightarrow> governed_step M x y"
| post: "profile_post M b (ma_db x) = (r, t) \<Longrightarrow> governed_step M x (x\<lparr>ma_db := t\<rparr>)"
| clone: "profile_clone M key b (ma_db x) = (r, t) \<Longrightarrow> governed_step M x (x\<lparr>ma_db := t\<rparr>)"
| put: "profile_put M key b (ma_db x) = (r, t) \<Longrightarrow> governed_step M x (x\<lparr>ma_db := t\<rparr>)"
| delete: "profile_delete M actions key (ma_db x) = (r, t) \<Longrightarrow> governed_step M x (x\<lparr>ma_db := t\<rparr>)"

inductive governed_reach :: "mongo \<Rightarrow> market_state \<Rightarrow> bool" for M where
  start: "market_start s \<Longrightarrow> governed_reach M \<lparr>ma_db = s, ma_read = [], ma_ledger = no_ledger\<rparr>"
| more: "governed_reach M x \<Longrightarrow> governed_step M x y \<Longrightarrow> governed_reach M y"

lemma holds_goods_markets [simp]: "holds_goods (s\<lparr>db_markets := ms\<rparr>) code scope = holds_goods s code scope"
  by (simp add: holds_goods_def)

lemma profiles_write_inv:
  assumes "profiles_write (ma_db x) t" "machine_inv x"
  shows "machine_inv (x\<lparr>ma_db := t\<rparr>)"
  using assms
  by (auto simp: profiles_write_def machine_inv_def market_inv_def unique_db_def reads_ok_def books_ok_def
      escrow_coins_def escrow_goods_def)

lemma profiles_write_covered:
  assumes w: "profiles_write s t" and held: "holds_goods s code scope" "covered s code scope"
  shows "\<exists>p\<in>set (db_markets s). \<exists>q\<in>set (db_markets t). governs p code scope \<and> same_terms p q"
proof -
  from held(2) obtain p where p: "p \<in> set (db_markets s)" "governs p code scope" by (auto simp: covered_def)
  with held(1) have "holds_goods s (mk_code p) scope" by (simp add: governs_def)
  with w p(1) obtain q where "q \<in> set (db_markets t)" "same_terms p q"
    unfolding profiles_write_def by auto
  with p show ?thesis by blast
qed

text \<open>What one step does to the goods held, to the coverage and to the machine.\<close>

lemma governed_step_keeps:
  assumes M: "lawful_mongo M" and step: "governed_step M x y" and inv: "machine_inv x" and cov: "goods_covered (ma_db x)"
  shows "machine_inv y" and "goods_covered (ma_db y)"
    and "holds_goods (ma_db x) code scope \<Longrightarrow>
      \<exists>p\<in>set (db_markets (ma_db x)). \<exists>q\<in>set (db_markets (ma_db y)). governs p code scope \<and> same_terms p q"
proof -
  have s: "market_inv (ma_db x)" using inv by (simp add: machine_inv_def)
  consider (trades) "market_step M x y" | (writes) t where "profiles_write (ma_db x) t" "y = x\<lparr>ma_db := t\<rparr>"
    using step
  proof (cases rule: governed_step.cases)
    case (post b r t)
    have "profiles_write (ma_db x) t"
      using post(2) create_market_writes [OF M s] profiles_write_refl [OF s]
      by (auto simp: profile_post_def Let_def split: sum.splits)
    with post show ?thesis by (intro writes)
  next
    case (clone key b r t)
    have "profiles_write (ma_db x) t"
      using clone(2) create_market_writes [OF M s] profiles_write_refl [OF s]
      by (auto simp: profile_clone_def Let_def split: sum.splits option.splits)
    with clone show ?thesis by (intro writes)
  next
    case (put key b r t)
    then show ?thesis using profile_put_writes [OF M s] by (intro writes)
  next
    case (delete actions key r t)
    then show ?thesis using profile_delete_writes [OF M s] by (intro writes)
  qed
  then have "machine_inv y \<and> goods_covered (ma_db y) \<and> (holds_goods (ma_db x) code scope \<longrightarrow>
      (\<exists>p\<in>set (db_markets (ma_db x)). \<exists>q\<in>set (db_markets (ma_db y)). governs p code scope \<and> same_terms p q))"
    for code scope
  proof cases
    case trades
    note c = market_step_carries [OF M trades inv]
    have "db_markets (ma_db y) = db_markets (ma_db x)" using c by (simp add: carries_def)
    moreover have "covered (ma_db x) code scope" if "holds_goods (ma_db x) code scope"
      using cov that by (simp add: goods_covered_def)
    ultimately show ?thesis
      using market_step_keeps [OF M trades inv] carries_covered [OF c cov]
      by (auto simp: covered_def intro: same_terms_refl)
  next
    case (writes t)
    have goods: "holds_goods t code scope = holds_goods (ma_db x) code scope" for code scope
      using writes(1) by (auto simp: profiles_write_def)
    have kept: "\<exists>p\<in>set (db_markets (ma_db x)). \<exists>q\<in>set (db_markets t). governs p code scope \<and> same_terms p q"
      if "holds_goods (ma_db x) code scope" for code scope
      using profiles_write_covered [OF writes(1) that] cov that by (simp add: goods_covered_def)
    then have "goods_covered t"
      unfolding goods_covered_def goods covered_def governs_def same_terms_def by metis
    with kept show ?thesis using profiles_write_inv [OF writes(1) inv] writes(2) by simp
  qed
  then show "machine_inv y" "goods_covered (ma_db y)" "holds_goods (ma_db x) code scope \<Longrightarrow>
      \<exists>p\<in>set (db_markets (ma_db x)). \<exists>q\<in>set (db_markets (ma_db y)). governs p code scope \<and> same_terms p q"
    by blast+
qed

lemma governed_reach_keeps:
  assumes M: "lawful_mongo M" and "governed_reach M x"
  shows "machine_inv x \<and> goods_covered (ma_db x)"
  using assms(2)
proof (induction rule: governed_reach.induct)
  case (start s)
  then have "machine_inv \<lparr>ma_db = s, ma_read = [], ma_ledger = no_ledger\<rparr>"
    by (intro machine_inv_reach [OF M] market_reach.start)
  with start show ?case by (auto simp: goods_covered_def holds_goods_def market_start_def)
next
  case (more x y)
  then show ?case using governed_step_keeps(1,2) [OF M] by blast
qed

lemma governed_reach_market: "market_reach M x \<Longrightarrow> governed_reach M x"
  by (induction rule: market_reach.induct) (auto intro: governed_reach.intros governed_step.intros)


section \<open>An editor beside a bid\<close>

definition fee_body :: market_body where
  "fee_body = \<lparr>mb_code = None, mb_revision = Some 1, mb_status = None, mb_fields = [(''fees'', Obj [(''listing'', JInt 4)])]\<rparr>"

definition scope_body :: market_body where
  "scope_body = fee_body\<lparr>mb_fields := [(''scope'', Str ''universe'')]\<rparr>"

lemma held_scope_refused:
  "fst (profile_put ref_mongo ''bazaar'' scope_body bid_db) = Inl (http_error
     ''Market bazaar holds 1 open listings and 0 pending claims: its scope and currency stay until they end'' 409)"
  by code_simp

definition fee_db :: db where
  "fee_db = snd (profile_put ref_mongo ''bazaar'' fee_body bid_db)"


end
