(* ===== verification/Universes.thy ===== *)
theory Universes imports Economy begin

text \<open>
  The universes of the worlds and the item policies of an economy: the writes of
  \<open>src/api/cyberia-universe/cyberia-universe.service.js\<close> and
  \<open>src/api/cyberia-economic-item-policy/cyberia-economic-item-policy.service.js\<close>, and what these keep together
  with the writes of the economies and the confs.

  The codes of a request are texts or left out. A name and a description are labels for people and are left
  out; a message writes \<open>to\<close> for an arrow. The served content answers whether it holds an instance (\<open>served\<close>). The id of a request is in the
  canonical form of an ObjectId; an item policy is named by its unique economy and item. A call is one step:
  a save names the revision it read, or run in a transaction.
\<close>

section \<open>Topologies\<close>

definition LAYOUT_CELL_LIMIT :: int where "LAYOUT_CELL_LIMIT = 64"

record topology_member =
  tm_instanceCode :: "string option"
  tm_x :: js
  tm_y :: js

record topology_link =
  tl_source :: "string option"
  tl_target :: "string option"
  tl_bidirectional :: bool

type_synonym topology = "topology_member list \<times> topology_link list"

fun text_of :: "js \<Rightarrow> string option" where
  "text_of (Str s) = Some s"
| "text_of _ = None"

definition code_text :: "string option \<Rightarrow> string" where
  "code_text c = (case c of None \<Rightarrow> ''undefined'' | Some s \<Rightarrow> s)"

text \<open>A cell is named by its two numbers; the loop keeps the nodes and the cells it has seen.\<close>

definition on_grid :: "js \<Rightarrow> bool" where
  "on_grid v \<longleftrightarrow> isInteger v \<and> \<bar>jint v\<bar> \<le> LAYOUT_CELL_LIMIT"

fun layout_loop :: "string option list \<Rightarrow> string option set \<Rightarrow> (int \<times> int) set \<Rightarrow> topology_member list \<Rightarrow> string" where
  "layout_loop codes nodes taken [] = ''''"
| "layout_loop codes nodes taken (m # ms) = (let code = tm_instanceCode m; cell = (jint (tm_x m), jint (tm_y m)) in
     if code \<notin> set codes then code_text code @ '' is not a node of the graph''
     else if code \<in> nodes then code_text code @ '' has two cells''
     else if \<not> on_grid (tm_x m) \<or> \<not> on_grid (tm_y m) then code_text code @ '' needs integer cells within '' @ int_string LAYOUT_CELL_LIMIT
     else if cell \<in> taken then code_text code @ '' shares the cell '' @ int_string (fst cell) @ '','' @ int_string (snd cell)
     else layout_loop codes (insert code nodes) (insert cell taken) ms)"

definition graphLayoutDefect :: "string option list \<Rightarrow> topology_member list \<Rightarrow> string" where
  "graphLayoutDefect codes cells = layout_loop codes {} {} cells"

text \<open>The two ends of a link, whichever way it is written.\<close>

definition linkKey :: "string option \<Rightarrow> string option \<Rightarrow> string option set" where
  "linkKey a b = {a, b}"

fun link_loop :: "string option list \<Rightarrow> string option set set \<Rightarrow> topology_link list \<Rightarrow> string" where
  "link_loop codes linked [] = ''''"
| "link_loop codes linked (l # ls) = (let source = tl_source l; target = tl_target l in
     if source \<notin> set codes \<or> target \<notin> set codes
       then ''the link '' @ code_text source @ '' to '' @ code_text target @ '' names a non-member''
     else if source = target then ''the link of '' @ code_text source @ '' goes nowhere''
     else if linkKey source target \<in> linked then code_text source @ '' and '' @ code_text target @ '' have two links''
     else link_loop codes (insert (linkKey source target) linked) ls)"

definition universeDefect :: "string option \<Rightarrow> topology \<Rightarrow> string" where
  "universeDefect code t = (let codes = map tm_instanceCode (fst t); text = (\<lambda>c. case c of None \<Rightarrow> '''' | Some s \<Rightarrow> s) in
     if \<not> contentCode (text code) then ''the code is invalid''
     else case List.find (\<lambda>c. \<not> contentCode (text c)) codes of
         Some (Some c) \<Rightarrow> ''the instance code '' @ c @ '' is invalid''
       | _ \<Rightarrow> (let layout = graphLayoutDefect codes (fst t) in
           if layout \<noteq> '''' then layout else link_loop codes {} (snd t)))"

definition topologyOf :: "js \<Rightarrow> js \<Rightarrow> error + topology" where
  "topologyOf instances links =
     (let is = (if instances = Undefined then Arr [] else instances); ls = (if links = Undefined then Arr [] else links) in
      if \<not> isArray is \<or> \<not> isArray ls then Inl (http_error ''instances and links are lists'' 400)
      else Inr (map (\<lambda>m. \<lparr>tm_instanceCode = text_of (jget m ''instanceCode''), tm_x = jget m ''x'', tm_y = jget m ''y''\<rparr>) (jarr is),
        map (\<lambda>l. \<lparr>tl_source = text_of (jget l ''sourceInstanceCode''), tl_target = text_of (jget l ''targetInstanceCode''),
          tl_bidirectional = (jget l ''bidirectional'' \<noteq> Bool False)\<rparr>) (jarr ls)))"

text \<open>The lists a stored universe holds, as the code reads them back, and the lists a topology is stored as.\<close>

definition stored_members :: "universe \<Rightarrow> js" where
  "stored_members u = Arr (map (\<lambda>m. Obj [(''instanceCode'', Str (um_instanceCode m)), (''x'', JInt (um_x m)), (''y'', JInt (um_y m))])
     (un_members u))"

definition stored_links :: "universe \<Rightarrow> js" where
  "stored_links u = Arr (map (\<lambda>l. Obj [(''sourceInstanceCode'', Str (ul_source l)), (''targetInstanceCode'', Str (ul_target l)),
     (''bidirectional'', Bool (ul_bidirectional l))]) (un_links u))"

definition member_doc :: "topology_member \<Rightarrow> universe_member" where
  "member_doc m = \<lparr>um_instanceCode = the (tm_instanceCode m), um_x = jint (tm_x m), um_y = jint (tm_y m)\<rparr>"

definition link_doc :: "topology_link \<Rightarrow> universe_link" where
  "link_doc l = \<lparr>ul_source = the (tl_source l), ul_target = the (tl_target l), ul_bidirectional = tl_bidirectional l\<rparr>"

section \<open>Writes of a universe\<close>

definition assertTopology :: "content_mongo \<Rightarrow> mongo \<Rightarrow> (string \<Rightarrow> bool) \<Rightarrow> string option \<Rightarrow> topology \<Rightarrow> universe option
    \<Rightarrow> db \<Rightarrow> game_content \<Rightarrow> error + unit" where
  "assertTopology C M served code t previous d s =
     (let defect = universeDefect code t; codes = map tm_instanceCode (fst t);
          known = (case previous of None \<Rightarrow> [] | Some u \<Rightarrow> map Some (un_instances u));
          added = filter (\<lambda>c. c \<notin> set known) codes;
          missing = filter (\<lambda>c. case c of None \<Rightarrow> True | Some i \<Rightarrow> \<not> served i) added in
      if defect \<noteq> '''' then Inl (http_error (''Invalid universe: '' @ defect) 400)
      else if missing \<noteq> [] then Inl (http_error (''The served content holds no instance ''
        @ join (map (\<lambda>c. case c of None \<Rightarrow> '''' | Some i \<Rightarrow> i) missing)) 404)
      else case drv_find_one (mg_universes M) (\<lambda>u. Some (un_code u) \<noteq> code \<and> (\<exists>i\<in>set (un_instances u). Some i \<in> set codes)) (db_universes d) of
          Some other \<Rightarrow> Inl (http_error (''Instance '' @ (case List.find (\<lambda>i. Some i \<in> set codes) (un_instances other) of None \<Rightarrow> '''' | Some i \<Rightarrow> i)
            @ '' belongs to universe '' @ un_code other) 409)
        | None \<Rightarrow> bindE (universeWalletDefect C (map the codes) nothing_planned s) (\<lambda>wallet.
            if wallet \<noteq> '''' then Inl (http_error (''Universe wallet: '' @ wallet) 409) else Inr ()))"

definition memberConflict :: "error \<Rightarrow> error" where
  "memberConflict e = (if err_code e = Some 11000
     then http_error ''An instance of this universe joined another universe meanwhile'' 409 else e)"

definition assertOwnerOrAdmin :: "string \<Rightarrow> oid \<Rightarrow> oid \<Rightarrow> error + unit" where
  "assertOwnerOrAdmin role userId ownerId =
     (if role = ''admin'' then Inr ()
      else if ownerId \<noteq> '''' \<and> userId \<noteq> '''' \<and> ownerId = userId then Inr ()
      else Inl (http_error ''Insufficient permission'' 403))"

record universe_body =
  ub_code :: "string option"
  ub_revision :: "int option"
  ub_instances :: js
  ub_links :: js

definition universe_post :: "content_mongo \<Rightarrow> mongo \<Rightarrow> (string \<Rightarrow> bool) \<Rightarrow> oid \<Rightarrow> oid \<Rightarrow> universe_body \<Rightarrow> game_content
    \<Rightarrow> (db, universe) work" where
  "universe_post C M served newId userId b s d =
     (case topologyOf (ub_instances b) (ub_links b) of Inl e \<Rightarrow> (Inl e, d)
      | Inr t \<Rightarrow> (case assertTopology C M served (ub_code b) t None d s of Inl e \<Rightarrow> (Inl e, d)
         | Inr _ \<Rightarrow> (let u = \<lparr>un_id = newId, un_code = the (ub_code b), un_creator = userId, un_members = map member_doc (fst t),
               un_links = map link_doc (snd t), un_revision = 1\<rparr> in
             case drv_create (mg_universes M) [u] (db_universes d) of
               Inl e \<Rightarrow> (Inl (memberConflict e), d) | Inr c \<Rightarrow> (Inr u, d\<lparr>db_universes := c\<rparr>))))"

definition universe_refusal :: "universe \<Rightarrow> universe_body \<Rightarrow> error option" where
  "universe_refusal stored b =
     (if ub_code b \<noteq> None \<and> ub_code b \<noteq> Some (un_code stored)
        then Some (http_error (''The code of universe '' @ un_code stored @ '' never changes'') 400)
      else if ub_revision b \<noteq> Some (un_revision stored)
        then Some (http_error (''Universe '' @ un_code stored @ '' is at revision '' @ int_string (un_revision stored) @ '', not ''
          @ (case ub_revision b of None \<Rightarrow> ''undefined'' | Some r \<Rightarrow> int_string r) @ '': reload it before saving'') 409)
      else None)"

definition set_topology :: "topology \<Rightarrow> universe \<Rightarrow> universe" where
  "set_topology t u = u\<lparr>un_members := map member_doc (fst t), un_links := map link_doc (snd t), un_revision := un_revision u + 1\<rparr>"

definition universe_put :: "content_mongo \<Rightarrow> mongo \<Rightarrow> (string \<Rightarrow> bool) \<Rightarrow> string \<Rightarrow> oid \<Rightarrow> oid \<Rightarrow> universe_body \<Rightarrow> game_content
    \<Rightarrow> (db, universe) work" where
  "universe_put C M served role userId key b s d =
     (case drv_find_one (mg_universes M) (\<lambda>u. un_id u = key) (db_universes d) of
        None \<Rightarrow> (Inl (http_error ''universe not found'' 404), d)
      | Some stored \<Rightarrow>
         (case assertOwnerOrAdmin role userId (un_creator stored) of Inl e \<Rightarrow> (Inl e, d) | Inr _ \<Rightarrow>
         (case universe_refusal stored b of Some e \<Rightarrow> (Inl e, d) | None \<Rightarrow>
         (case topologyOf (if ub_instances b = Undefined then stored_members stored else ub_instances b)
             (if ub_links b = Undefined then stored_links stored else ub_links b) of Inl e \<Rightarrow> (Inl e, d)
          | Inr t \<Rightarrow> (case assertTopology C M served (Some (un_code stored)) t (Some stored) d s of Inl e \<Rightarrow> (Inl e, d)
             | Inr _ \<Rightarrow> (case find_one_and_update (mg_universes M)
                   (\<lambda>u. un_id u = un_id stored \<and> un_revision u = un_revision stored) (set_topology t) (db_universes d) of
                 (None, _) \<Rightarrow> (Inl (http_error (''Universe '' @ un_code stored @ '' changed while saving: reload it before saving'') 409), d)
               | (Some updated, c) \<Rightarrow> (Inr updated, d\<lparr>db_universes := c\<rparr>)))))))"

definition universe_delete :: "mongo \<Rightarrow> string \<Rightarrow> oid \<Rightarrow> oid \<Rightarrow> (db, universe option) work" where
  "universe_delete M role userId key d =
     (if key = '''' then (Inr None, d\<lparr>db_universes := drv_delete_many (mg_universes M) (\<lambda>_. True) (db_universes d)\<rparr>)
      else case drv_find_one (mg_universes M) (\<lambda>u. un_id u = key) (db_universes d) of
        None \<Rightarrow> (Inl (http_error ''universe not found'' 404), d)
      | Some stored \<Rightarrow>
         (case assertOwnerOrAdmin role userId (un_creator stored) of Inl e \<Rightarrow> (Inl e, d)
          | Inr _ \<Rightarrow> (case find_one_and_delete (mg_universes M) (\<lambda>u. un_id u = un_id stored) (db_universes d) of
              (removed, c) \<Rightarrow> (Inr removed, d\<lparr>db_universes := c\<rparr>))))"

definition without_member :: "string \<Rightarrow> universe \<Rightarrow> universe" where
  "without_member i u = u\<lparr>un_members := filter (\<lambda>m. um_instanceCode m \<noteq> i) (un_members u),
     un_links := filter (\<lambda>l. ul_source l \<noteq> i \<and> ul_target l \<noteq> i) (un_links u), un_revision := un_revision u + 1\<rparr>"

definition removeUniverseMember :: "mongo \<Rightarrow> string \<Rightarrow> db \<Rightarrow> db" where
  "removeUniverseMember M i d = (case drv_update_one (mg_universes M) (\<lambda>u. i \<in> set (un_instances u)) (without_member i) (db_universes d) of
     (_, _, c) \<Rightarrow> d\<lparr>db_universes := c\<rparr>)"

section \<open>Writes of an item policy\<close>

definition policy_row :: "js \<Rightarrow> js \<Rightarrow> js" where
  "policy_row itemId body = Obj ((''itemId'', itemId) # map (\<lambda>key. (key, jget body key))
     (filter (\<lambda>key. jget body key \<noteq> Undefined) ITEM_POLICY_ROW_FIELDS))"

text \<open>The write of a row, then the revision of its economy, in one transaction.\<close>

definition withRevision :: "content_mongo \<Rightarrow> attempt list \<Rightarrow> string \<Rightarrow> (game_content, 'a) work \<Rightarrow> (game_content, 'a) work" where
  "withRevision C as economyCode change = runTransaction as (bindW change (\<lambda>r s. (Inr r,
     s\<lparr>ct_economies := snd (snd (drv_update_one (cm_economies C) (\<lambda>e. en_code e = economyCode)
        (\<lambda>e. e\<lparr>en_revision := en_revision e + 1\<rparr>) (ct_economies s)))\<rparr>)))"

definition replace_policy :: "content_mongo \<Rightarrow> string \<Rightarrow> js \<Rightarrow> (game_content, item_policy) work" where
  "replace_policy C economyCode row s =
     (case cm_cast C row of Inl e \<Rightarrow> (Inl e, s)
      | Inr r \<Rightarrow> (let new = \<lparr>ip_economyCode = economyCode, ip_row = r\<rparr> in
         case update_or_insert (cm_policies C) (\<lambda>p. policy_key p = (economyCode, row_item row)) (\<lambda>_. new) new (ct_policies s) of
           Inl e \<Rightarrow> (Inl e, s) | Inr c \<Rightarrow> (Inr new, s\<lparr>ct_policies := c\<rparr>)))"

definition policy_post :: "content_mongo \<Rightarrow> attempt list \<Rightarrow> string \<Rightarrow> js \<Rightarrow> (game_content, item_policy) work" where
  "policy_post C as economyCode body s =
     (let row = policy_row (jget body ''itemId'') body in
      case assertItemPolicy C economyCode row s of Inl e \<Rightarrow> (Inl e, s)
      | Inr _ \<Rightarrow> withRevision C as economyCode (replace_policy C economyCode row) s)"

definition find_policy :: "content_mongo \<Rightarrow> string \<times> string \<Rightarrow> game_content \<Rightarrow> item_policy option" where
  "find_policy C key s = drv_find_one (cm_policies C) (\<lambda>p. policy_key p = key) (ct_policies s)"

definition policy_put :: "content_mongo \<Rightarrow> attempt list \<Rightarrow> string \<times> string \<Rightarrow> js \<Rightarrow> (game_content, item_policy) work" where
  "policy_put C as key body s =
     (case find_policy C key s of None \<Rightarrow> (Inl (http_error ''item policy not found'' 404), s)
      | Some stored \<Rightarrow> (let row = policy_row (Str (row_item (ip_row stored))) body in
         case assertItemPolicy C (ip_economyCode stored) row s of Inl e \<Rightarrow> (Inl e, s)
         | Inr _ \<Rightarrow> withRevision C as (ip_economyCode stored) (\<lambda>s. case cm_cast C row of Inl e \<Rightarrow> (Inl e, s)
             | Inr r \<Rightarrow> (let new = \<lparr>ip_economyCode = ip_economyCode stored, ip_row = r\<rparr> in
                 (Inr new, s\<lparr>ct_policies := snd (snd (drv_update_one (cm_policies C) (\<lambda>p. policy_key p = policy_key stored)
                    (\<lambda>_. new) (ct_policies s)))\<rparr>))) s))"

definition policy_delete :: "content_mongo \<Rightarrow> attempt list \<Rightarrow> (string \<times> string) option \<Rightarrow> (game_content, item_policy) work" where
  "policy_delete C as key s =
     (case key of None \<Rightarrow> (Inl (http_error ''Name the item policy to delete'' 400), s)
      | Some k \<Rightarrow> (case find_policy C k s of None \<Rightarrow> (Inl (http_error ''item policy not found'' 404), s)
         | Some stored \<Rightarrow> withRevision C as (ip_economyCode stored) (\<lambda>s. (Inr stored,
             s\<lparr>ct_policies := drv_delete_one (cm_policies C) (\<lambda>p. policy_key p = policy_key stored) (ct_policies s)\<rparr>)) s))"

section \<open>What a topology that passes is\<close>

definition cell_of :: "universe_member \<Rightarrow> int \<times> int" where
  "cell_of m = (um_x m, um_y m)"

definition in_grid :: "int \<Rightarrow> bool" where
  "in_grid v \<longleftrightarrow> \<bar>v\<bar> \<le> LAYOUT_CELL_LIMIT"

text \<open>Well-formed: valid codes, each member once and on a cell of its own inside the grid, and at most one link
between two different members.\<close>

definition universe_ok :: "universe \<Rightarrow> bool" where
  "universe_ok u \<longleftrightarrow> contentCode (un_code u) \<and> (\<forall>i\<in>set (un_instances u). contentCode i) \<and> distinct (un_instances u)
     \<and> distinct (map cell_of (un_members u)) \<and> (\<forall>m\<in>set (un_members u). in_grid (um_x m) \<and> in_grid (um_y m))
     \<and> (\<forall>l\<in>set (un_links u). {ul_source l, ul_target l} \<subseteq> set (un_instances u) \<and> ul_source l \<noteq> ul_target l)
     \<and> distinct (map (\<lambda>l. {ul_source l, ul_target l}) (un_links u)) \<and> 1 \<le> un_revision u"

lemma layout_loop_ok:
  "layout_loop codes nodes taken ms = '''' \<longleftrightarrow> (\<forall>m\<in>set ms. tm_instanceCode m \<in> set codes \<and> on_grid (tm_x m) \<and> on_grid (tm_y m))
     \<and> distinct (map tm_instanceCode ms) \<and> tm_instanceCode ` set ms \<inter> nodes = {}
     \<and> distinct (map (\<lambda>m. (jint (tm_x m), jint (tm_y m))) ms) \<and> (\<lambda>m. (jint (tm_x m), jint (tm_y m))) ` set ms \<inter> taken = {}"
  by (induction codes nodes taken ms rule: layout_loop.induct) (auto simp: Let_def)

lemma link_loop_ok:
  "link_loop codes linked ls = '''' \<longleftrightarrow> (\<forall>l\<in>set ls. tl_source l \<in> set codes \<and> tl_target l \<in> set codes \<and> tl_source l \<noteq> tl_target l)
     \<and> distinct (map (\<lambda>l. linkKey (tl_source l) (tl_target l)) ls) \<and> (\<lambda>l. linkKey (tl_source l) (tl_target l)) ` set ls \<inter> linked = {}"
  by (induction codes linked ls rule: link_loop.induct) (auto simp: Let_def)

text \<open>A topology that passes, with the members all named, is stored well-formed.\<close>

definition all_named :: "topology \<Rightarrow> bool" where
  "all_named t \<longleftrightarrow> None \<notin> tm_instanceCode ` set (fst t)"

lemma universeDefect_named:
  assumes "universeDefect code t = ''''" "all_named t"
  shows "contentCode (case code of None \<Rightarrow> '''' | Some s \<Rightarrow> s)" "\<forall>m\<in>set (fst t). contentCode (the (tm_instanceCode m))"
    and "graphLayoutDefect (map tm_instanceCode (fst t)) (fst t) = ''''" "link_loop (map tm_instanceCode (fst t)) {} (snd t) = ''''"
proof -
  let ?bad = "\<lambda>c. \<not> contentCode (case c of None \<Rightarrow> '''' | Some s \<Rightarrow> s)"
  have code: "\<not> ?bad code" using assms(1) by (auto simp: universeDefect_def Let_def split: if_splits)
  then show "contentCode (case code of None \<Rightarrow> '''' | Some s \<Rightarrow> s)" by simp
  have none: "List.find ?bad (map tm_instanceCode (fst t)) = None"
  proof (cases "List.find ?bad (map tm_instanceCode (fst t))")
    case (Some c)
    with find_SomeD [OF Some] assms(2) obtain i where "c = Some i" by (cases c) (auto simp: all_named_def)
    with Some assms(1) code show ?thesis by (simp add: universeDefect_def)
  qed
  then have rest: "(let layout = graphLayoutDefect (map tm_instanceCode (fst t)) (fst t) in
      if layout \<noteq> '''' then layout else link_loop (map tm_instanceCode (fst t)) {} (snd t)) = ''''"
    using assms(1) code by (simp add: universeDefect_def Let_def)
  then show "graphLayoutDefect (map tm_instanceCode (fst t)) (fst t) = ''''" "link_loop (map tm_instanceCode (fst t)) {} (snd t) = ''''"
    by (auto simp: Let_def split: if_splits)
  show "\<forall>m\<in>set (fst t). contentCode (the (tm_instanceCode m))"
  proof
    fix m assume m: "m \<in> set (fst t)"
    then have "tm_instanceCode m \<noteq> None" using assms(2) by (force simp: all_named_def)
    then obtain i where i: "tm_instanceCode m = Some i" by blast
    have "\<not> ?bad (tm_instanceCode m)" using none m by (simp add: find_None_iff_ball)
    with i show "contentCode (the (tm_instanceCode m))" by simp
  qed
qed

lemma the_inj: "None \<notin> A \<Longrightarrow> inj_on the A"
  by (rule inj_onI) (metis option.collapse)

lemma topology_stored:
  assumes d: "universeDefect code t = ''''" and n: "all_named t"
    and u: "un_members u = map member_doc (fst t)" "un_links u = map link_doc (snd t)" "1 \<le> un_revision u" "code = Some (un_code u)"
  shows "universe_ok u"
proof -
  note parts = universeDefect_named [OF d n]
  let ?codes = "map tm_instanceCode (fst t)"
  have lay: "\<forall>m\<in>set (fst t). on_grid (tm_x m) \<and> on_grid (tm_y m)" "distinct ?codes"
    "distinct (map (\<lambda>m. (jint (tm_x m), jint (tm_y m))) (fst t))"
    using parts(3) by (simp_all add: graphLayoutDefect_def layout_loop_ok)
  have links: "\<forall>l\<in>set (snd t). tl_source l \<in> set ?codes \<and> tl_target l \<in> set ?codes \<and> tl_source l \<noteq> tl_target l"
    "distinct (map (\<lambda>l. {tl_source l, tl_target l}) (snd t))"
    using parts(4) by (simp_all add: link_loop_ok linkKey_def)
  have inj: "inj_on the (set ?codes)" using n by (intro the_inj) (simp add: all_named_def)
  have ins: "un_instances u = map the ?codes" by (simp add: un_instances_def u(1) member_doc_def)
  have ends: "{ul_source l, ul_target l} = the ` {tl_source l', tl_target l'}" if "l = link_doc l'" for l l'
    using that by (simp add: link_doc_def)
  have "distinct (map (\<lambda>l. {ul_source l, ul_target l}) (un_links u)) \<longleftrightarrow> distinct (map (\<lambda>l. the ` {tl_source l, tl_target l}) (snd t))"
    by (simp add: u(2) comp_def link_doc_def)
  also have "\<dots> \<longleftrightarrow> distinct (map ((`) the) (map (\<lambda>l. {tl_source l, tl_target l}) (snd t)))" by (simp add: comp_def)
  also have "\<dots>"
    using links by (subst distinct_map) (auto intro!: inj_on_subset [OF inj_on_image_Pow [OF inj]])
  finally have "distinct (map (\<lambda>l. {ul_source l, ul_target l}) (un_links u))" .
  moreover have "distinct (un_instances u)" unfolding ins using lay(2) inj by (simp only: distinct_map)
  moreover have "distinct (map cell_of (un_members u))" using lay(3) by (simp add: u(1) comp_def cell_of_def member_doc_def)
  moreover have "\<forall>l\<in>set (un_links u). {ul_source l, ul_target l} \<subseteq> set (un_instances u) \<and> ul_source l \<noteq> ul_target l"
    using links(1) inj by (fastforce simp: u(2) ins link_doc_def inj_on_def)
  moreover have "\<forall>m\<in>set (un_members u). in_grid (um_x m) \<and> in_grid (um_y m)"
    using lay(1) by (auto simp: u(1) member_doc_def in_grid_def on_grid_def)
  ultimately show ?thesis
    using parts(1,2) u(3,4) by (auto simp: universe_ok_def ins)
qed

section \<open>The writes of a universe keep the worlds apart\<close>

lemma assertTopology_passed:
  assumes M: "lawful_mongo M" and run: "assertTopology C M served code t previous d s = Inr ()"
  shows "universeDefect code t = ''''" "all_named t" "universeWalletDefect C (map (the \<circ> tm_instanceCode) (fst t)) nothing_planned s = Inr ''''"
    and "\<And>u i. u \<in> set (db_universes d) \<Longrightarrow> Some (un_code u) \<noteq> code \<Longrightarrow> i \<in> set (un_instances u) \<Longrightarrow> Some i \<notin> tm_instanceCode ` set (fst t)"
proof -
  let ?codes = "map tm_instanceCode (fst t)" and ?known = "case previous of None \<Rightarrow> [] | Some u \<Rightarrow> map Some (un_instances u)"
  let ?other = "\<lambda>u. Some (un_code u) \<noteq> code \<and> (\<exists>i\<in>set (un_instances u). Some i \<in> set ?codes)"
  show "universeDefect code t = ''''" using run by (auto simp: assertTopology_def Let_def split: if_splits)
  have missing: "filter (\<lambda>c. case c of None \<Rightarrow> True | Some i \<Rightarrow> \<not> served i) (filter (\<lambda>c. c \<notin> set ?known) ?codes) = []"
    using run by (auto simp: assertTopology_def Let_def split: if_splits)
  have "None \<notin> set ?known" by (cases previous) auto
  then have "c \<noteq> None" if "c \<in> set ?codes" for c
    using missing that \<open>None \<notin> set ?known\<close> by (cases c) (auto simp: filter_empty_conv)
  then show "all_named t" by (auto simp: all_named_def)
  have none: "drv_find_one (mg_universes M) ?other (db_universes d) = None"
    using run missing by (cases "drv_find_one (mg_universes M) ?other (db_universes d)") (auto simp: assertTopology_def Let_def split: if_splits)
  then show "Some i \<notin> tm_instanceCode ` set (fst t)"
    if "u \<in> set (db_universes d)" "Some (un_code u) \<noteq> code" "i \<in> set (un_instances u)" for u i
    using that by (auto simp: collection.find_one_none [OF lawful_mongoD(11) [OF M]])
  show "universeWalletDefect C (map (the \<circ> tm_instanceCode) (fst t)) nothing_planned s = Inr ''''"
    using run missing none
    by (cases "universeWalletDefect C (map (the \<circ> tm_instanceCode) (fst t)) nothing_planned s")
      (auto simp: assertTopology_def Let_def comp_def split: if_splits)
qed

text \<open>What the writes keep of the universes: codes and ids are unique, each is well-formed, no two share a member,
and the members of each hold one wallet.\<close>

definition wallet_shared :: "game_content \<Rightarrow> universe \<Rightarrow> bool" where
  "wallet_shared s u \<longleftrightarrow> (2 \<le> length (un_instances u) \<longrightarrow> (\<exists>k. \<forall>i\<in>set (un_instances u). wallet_in s i = Some k))"

definition universes_inv :: "game_content \<Rightarrow> universe docs \<Rightarrow> bool" where
  "universes_inv s us \<longleftrightarrow> unique_docs un_code us \<and> unique_docs un_id us
     \<and> (\<forall>u\<in>set us. \<forall>v\<in>set us. set (un_instances u) \<inter> set (un_instances v) \<noteq> {} \<longrightarrow> u = v)
     \<and> (\<forall>u\<in>set us. universe_ok u \<and> wallet_shared s u)"

lemma universes_inv_append:
  assumes "universes_inv s us" "un_code u \<notin> un_code ` set us" "un_id u \<notin> un_id ` set us" "universe_ok u" "wallet_shared s u"
    and "\<And>v. v \<in> set us \<Longrightarrow> set (un_instances u) \<inter> set (un_instances v) = {}"
  shows "universes_inv s (us @ [u])"
  using assms unfolding universes_inv_def unique_docs_def by (auto simp: Int_commute)

lemma universes_inv_replace:
  assumes inv: "universes_inv s us" and u: "u \<in> set us" and u': "un_code u' = un_code u" "un_id u' = un_id u" "universe_ok u'" "wallet_shared s u'"
    and apart: "\<And>v. v \<in> set us \<Longrightarrow> v \<noteq> u \<Longrightarrow> set (un_instances u') \<inter> set (un_instances v) = {}"
  shows "universes_inv s (map (\<lambda>v. if v = u then u' else v) us)"
proof -
  have keys: "unique_docs un_code (map (\<lambda>v. if v = u then u' else v) us)" "unique_docs un_id (map (\<lambda>v. if v = u then u' else v) us)"
    using inv u' by (simp_all add: universes_inv_def unique_docs_map)
  have once: "v = w" if "v \<in> set us" "w \<in> set us" "set (un_instances v) \<inter> set (un_instances w) \<noteq> {}" for v w
    using inv that unfolding universes_inv_def by blast
  have "set (un_instances v) \<inter> set (un_instances w) = {}"
    if "v \<in> set (map (\<lambda>v. if v = u then u' else v) us)" "w \<in> set (map (\<lambda>v. if v = u then u' else v) us)" "v \<noteq> w" for v w
  proof -
    from that obtain v0 w0 where "v0 \<in> set us" "w0 \<in> set us" "v = (if v0 = u then u' else v0)" "w = (if w0 = u then u' else w0)" by auto
    with that(3) apart once [of v0 w0] show ?thesis by (auto simp: Int_commute split: if_splits)
  qed
  with keys inv u' show ?thesis unfolding universes_inv_def by auto
qed

lemma universes_inv_filter: "universes_inv s us \<Longrightarrow> universes_inv s (filter P us)"
  unfolding universes_inv_def by (auto simp: unique_docs_filter)

lemma checked_shared:
  assumes "lawful_content C" "economies_ok s" "universeWalletDefect C (un_instances u) nothing_planned s = Inr ''''"
  shows "wallet_shared s u"
proof -
  have "plan_ok nothing_planned" by (simp add: plan_ok_def nothing_planned_def)
  from universeWalletDefect_iff [OF assms(1,2) this, of "un_instances u"] assms(3)
  show ?thesis by (auto simp: wallet_shared_def planned_nothing)
qed

text \<open>A document stored of a checked topology.\<close>

lemma checked_universe:
  assumes C: "lawful_content C" and M: "lawful_mongo M" and ok: "economies_ok s"
    and run: "assertTopology C M served code t previous d s = Inr ()"
    and u: "un_members u = map member_doc (fst t)" "un_links u = map link_doc (snd t)" "1 \<le> un_revision u" "code = Some (un_code u)"
  shows "universe_ok u" "wallet_shared s u"
    and "\<And>v. v \<in> set (db_universes d) \<Longrightarrow> un_code v \<noteq> un_code u \<Longrightarrow> set (un_instances u) \<inter> set (un_instances v) = {}"
proof -
  note p = assertTopology_passed [OF M run]
  show "universe_ok u" by (rule topology_stored [OF p(1,2) u])
  have ins: "un_instances u = map (the \<circ> tm_instanceCode) (fst t)" by (simp add: un_instances_def u(1) member_doc_def)
  show "wallet_shared s u" using p(3) by (intro checked_shared [OF C ok]) (simp add: ins)
  have "Some i \<in> tm_instanceCode ` set (fst t)" if "i \<in> set (un_instances u)" for i
    using that p(2) by (force simp: ins all_named_def)
  then show "set (un_instances u) \<inter> set (un_instances v) = {}" if "v \<in> set (db_universes d)" "un_code v \<noteq> un_code u" for v
    using p(4) that u(4) by blast
qed

lemma universe_post_keeps:
  assumes C: "lawful_content C" and M: "lawful_mongo M" and ok: "economies_ok s" and inv: "universes_inv s (db_universes d)"
    and fresh: "newId \<notin> un_id ` set (db_universes d)" and run: "universe_post C M served newId userId b s d = (r, e)"
  shows "\<exists>us. e = d\<lparr>db_universes := us\<rparr> \<and> universes_inv s us"
proof (cases r)
  case (Inl x)
  with run have "e = d" by (auto simp: universe_post_def Let_def split: sum.splits)
  with inv show ?thesis by (intro exI [of _ "db_universes d"]) simp
next
  case (Inr u)
  from run Inr obtain t where t: "topologyOf (ub_instances b) (ub_links b) = Inr t"
    by (cases "topologyOf (ub_instances b) (ub_links b)") (auto simp: universe_post_def)
  from run Inr t have top: "assertTopology C M served (ub_code b) t None d s = Inr ()"
    by (cases "assertTopology C M served (ub_code b) t None d s") (auto simp: universe_post_def)
  let ?u = "\<lparr>un_id = newId, un_code = the (ub_code b), un_creator = userId, un_members = map member_doc (fst t),
    un_links = map link_doc (snd t), un_revision = 1\<rparr>"
  from run Inr t top obtain us where us: "drv_create (mg_universes M) [?u] (db_universes d) = Inr us" "e = d\<lparr>db_universes := us\<rparr>"
    by (cases "drv_create (mg_universes M) [?u] (db_universes d)") (auto simp: universe_post_def)
  have "contentCode (case ub_code b of None \<Rightarrow> '''' | Some s \<Rightarrow> s)"
    by (rule universeDefect_named(1) [OF assertTopology_passed(1,2) [OF M top]])
  then have "ub_code b = Some (un_code ?u)" by (cases "ub_code b") (auto simp: contentCode_def)
  note c = checked_universe [OF C M ok top, of ?u, simplified, OF this [simplified]]
  have "unique_docs un_code (db_universes d)" using inv by (simp add: universes_inv_def)
  then have created: "us = db_universes d @ [?u]" "unique_docs un_code (db_universes d @ [?u])"
    using collection.create_cases [OF lawful_mongoD(11) [OF M], of "db_universes d" "[?u]"] us(1) by fastforce+
  then have new: "un_code ?u \<notin> un_code ` set (db_universes d)" by (auto simp: unique_docs_def)
  then have "\<And>v. v \<in> set (db_universes d) \<Longrightarrow> un_code v \<noteq> the (ub_code b)" by (auto simp: image_iff)
  with c(3) have apart: "\<And>v. v \<in> set (db_universes d) \<Longrightarrow> set (un_instances ?u) \<inter> set (un_instances v) = {}" by blast
  have "universes_inv s (db_universes d @ [?u])"
    by (rule universes_inv_append [OF inv new _ c(1,2) apart]) (use fresh in auto)
  with us(2) created(1) show ?thesis by blast
qed

lemma universe_put_keeps:
  assumes C: "lawful_content C" and M: "lawful_mongo M" and ok: "economies_ok s" and inv: "universes_inv s (db_universes d)"
    and run: "universe_put C M served role userId key b s d = (r, e)"
  shows "\<exists>us. e = d\<lparr>db_universes := us\<rparr> \<and> universes_inv s us"
proof (cases r)
  case (Inl x)
  with run have "e = d" by (auto simp: universe_put_def split: option.splits sum.splits prod.splits)
  with inv show ?thesis by (intro exI [of _ "db_universes d"]) simp
next
  case (Inr w)
  from run Inr obtain u where u: "drv_find_one (mg_universes M) (\<lambda>u. un_id u = key) (db_universes d) = Some u"
    by (cases "drv_find_one (mg_universes M) (\<lambda>u. un_id u = key) (db_universes d)") (auto simp: universe_put_def)
  from collection.find_one_some [OF lawful_mongoD(11) [OF M] u] have mem: "u \<in> set (db_universes d)" by simp
  from run Inr u have role: "assertOwnerOrAdmin role userId (un_creator u) = Inr ()"
    by (cases "assertOwnerOrAdmin role userId (un_creator u)") (auto simp: universe_put_def)
  from run Inr u role have "universe_refusal u b = None"
    by (cases "universe_refusal u b") (auto simp: universe_put_def)
  note run = run [unfolded universe_put_def, simplified u role this option.case sum.case]
  let ?in = "if ub_instances b = Undefined then stored_members u else ub_instances b"
    and ?ls = "if ub_links b = Undefined then stored_links u else ub_links b"
  from run Inr obtain t where t: "topologyOf ?in ?ls = Inr t" by (cases "topologyOf ?in ?ls") auto
  from run Inr t have top: "assertTopology C M served (Some (un_code u)) t (Some u) d s = Inr ()"
    by (cases "assertTopology C M served (Some (un_code u)) t (Some u) d s") auto
  let ?P = "\<lambda>v. un_id v = un_id u \<and> un_revision v = un_revision u" and ?u = "set_topology t u"
  from run Inr t top obtain y us where us: "find_one_and_update (mg_universes M) ?P (set_topology t) (db_universes d) = (Some y, us)"
    "e = d\<lparr>db_universes := us\<rparr>"
    by (auto split: prod.splits option.splits)
  have ids: "unique_docs un_id (db_universes d)" "unique_docs un_code (db_universes d)" using inv by (simp_all add: universes_inv_def)
  have put: "us = map (\<lambda>v. if v = u then ?u else v) (db_universes d)"
  proof (rule collection.find_one_and_update_cases [OF lawful_mongoD(11) [OF M] ids(2), of ?P "set_topology t"])
    assume "\<forall>d\<in>set (db_universes d). \<not> ?P d"
    with mem show ?thesis by auto
  next
    fix v assume v: "v \<in> set (db_universes d)" "?P v"
      "find_one_and_update (mg_universes M) ?P (set_topology t) (db_universes d)
        = (Some (set_topology t v), map (\<lambda>w. if w = v then set_topology t w else w) (db_universes d))"
    then have "v = u" using unique_docs_eq [OF ids(1) v(1) mem] by simp
    with v(3) us(1) show ?thesis by (simp cong: if_cong)
  qed
  have "1 \<le> un_revision u" using inv mem by (auto simp: universes_inv_def universe_ok_def)
  then have fields: "un_members ?u = map member_doc (fst t)" "un_links ?u = map link_doc (snd t)" "1 \<le> un_revision ?u"
    "Some (un_code u) = Some (un_code ?u)" "un_code ?u = un_code u" "un_id ?u = un_id u"
    by (simp_all add: set_topology_def)
  note c = checked_universe [OF C M ok top fields(1-4)]
  have "set (un_instances ?u) \<inter> set (un_instances v) = {}" if "v \<in> set (db_universes d)" "v \<noteq> u" for v
    using c(3) [OF that(1)] that fields(5) unique_docs_eq [OF ids(2) that(1) mem] by auto
  from universes_inv_replace [OF inv mem fields(5,6) c(1,2) this] us(2) put show ?thesis by blast
qed

lemma universe_delete_keeps:
  assumes M: "lawful_mongo M" and inv: "universes_inv s (db_universes d)" and run: "universe_delete M role userId key d = (r, e)"
  shows "\<exists>us. e = d\<lparr>db_universes := us\<rparr> \<and> universes_inv s us"
proof -
  note U = lawful_mongoD(11) [OF M]
  have u: "unique_docs un_code (db_universes d)" using inv by (simp add: universes_inv_def)
  have "e = d \<or> (\<exists>P. e = d\<lparr>db_universes := filter P (db_universes d)\<rparr>)"
  proof (cases "key = ''''")
    case True
    with run have "e = d\<lparr>db_universes := filter (\<lambda>_. False) (db_universes d)\<rparr>"
      by (auto simp: universe_delete_def collection.delete_many [OF U])
    then show ?thesis by blast
  next
    case False
    show ?thesis
    proof (cases "drv_find_one (mg_universes M) (\<lambda>u. un_id u = key) (db_universes d)")
      case (Some v)
      show ?thesis
        by (rule collection.find_one_and_delete_cases [OF U u, of "\<lambda>w. un_id w = un_id v"])
          (use run False Some in \<open>auto simp: universe_delete_def split: sum.splits\<close>)
    qed (use run False in \<open>simp add: universe_delete_def\<close>)
  qed
  then show ?thesis
  proof
    assume "e = d"
    with inv show ?thesis by (intro exI [of _ "db_universes d"]) simp
  qed (use universes_inv_filter [OF inv] in blast)
qed

text \<open>A member that leaves takes its links with it.\<close>

lemma without_member_ok:
  assumes "universe_ok u"
  shows "universe_ok (without_member i u)"
proof -
  have sub: "un_instances (without_member i u) = filter (\<lambda>j. j \<noteq> i) (un_instances u)"
    by (simp add: un_instances_def without_member_def filter_map comp_def)
  show ?thesis
    using assms by (auto simp: universe_ok_def sub) (auto simp: without_member_def distinct_map_filter)
qed

lemma without_member_shared: "wallet_shared s u \<Longrightarrow> wallet_shared s (without_member i u)"
proof -
  assume u: "wallet_shared s u"
  have sub: "un_instances (without_member i u) = filter (\<lambda>j. j \<noteq> i) (un_instances u)"
    by (simp add: un_instances_def without_member_def filter_map comp_def)
  have "length (filter (\<lambda>j. j \<noteq> i) (un_instances u)) \<le> length (un_instances u)" by simp
  with u show ?thesis unfolding wallet_shared_def sub by (metis (mono_tags, lifting) filter_is_subset le_trans subsetD)
qed

lemma removeUniverseMember_keeps:
  assumes M: "lawful_mongo M" and inv: "universes_inv s (db_universes d)"
  shows "\<exists>us. removeUniverseMember M i d = d\<lparr>db_universes := us\<rparr> \<and> universes_inv s us"
proof -
  note U = lawful_mongoD(11) [OF M]
  let ?P = "\<lambda>u. i \<in> set (un_instances u)"
  have ids: "unique_docs un_code (db_universes d)" using inv by (simp add: universes_inv_def)
  show ?thesis
  proof (cases "\<exists>u\<in>set (db_universes d). ?P u")
    case False
    then have "removeUniverseMember M i d = d" by (simp add: removeUniverseMember_def collection.update_one_none [OF U])
    with inv show ?thesis by (intro exI [of _ "db_universes d"]) simp
  next
    case True
    then obtain u where u: "u \<in> set (db_universes d)" "?P u" by blast
    have only: "v = u" if "v \<in> set (db_universes d)" "?P v" for v
      using inv u that unfolding universes_inv_def by blast
    have "snd (snd (drv_update_one (mg_universes M) ?P (without_member i) (db_universes d)))
        = map (\<lambda>v. if ?P v then without_member i v else v) (db_universes d)"
      by (rule collection.update_one_unique [OF U ids, where k = "un_code u"]) (use only in blast)
    also have "\<dots> = map (\<lambda>v. if v = u then without_member i u else v) (db_universes d)"
    proof (rule map_cong [OF refl])
      fix v assume "v \<in> set (db_universes d)"
      then have "?P v \<longleftrightarrow> v = u" using only u(2) by blast
      then show "(if ?P v then without_member i v else v) = (if v = u then without_member i u else v)" by simp
    qed
    finally have "removeUniverseMember M i d = d\<lparr>db_universes := map (\<lambda>v. if v = u then without_member i u else v) (db_universes d)\<rparr>"
      by (simp add: removeUniverseMember_def case_prod_beta)
    moreover have "universes_inv s (map (\<lambda>v. if v = u then without_member i u else v) (db_universes d))"
    proof (rule universes_inv_replace [OF inv u(1)])
      show "un_code (without_member i u) = un_code u" "un_id (without_member i u) = un_id u"
        by (simp_all add: without_member_def)
      have "universe_ok u" "wallet_shared s u" using inv u(1) by (simp_all add: universes_inv_def)
      then show "universe_ok (without_member i u)" "wallet_shared s (without_member i u)"
        by (simp_all add: without_member_ok without_member_shared)
      fix v assume v: "v \<in> set (db_universes d)" "v \<noteq> u"
      then have "set (un_instances u) \<inter> set (un_instances v) = {}" using inv u(1) unfolding universes_inv_def by blast
      moreover have "set (un_instances (without_member i u)) \<subseteq> set (un_instances u)"
        by (auto simp: un_instances_def without_member_def)
      ultimately show "set (un_instances (without_member i u)) \<inter> set (un_instances v) = {}" by blast
    qed
    ultimately show ?thesis by blast
  qed
qed

section \<open>The writes of an item policy\<close>

text \<open>What every write leaves of the rows: each passes its check and belongs to a stored economy.\<close>

definition rows_ok :: "game_content \<Rightarrow> bool" where
  "rows_ok s \<longleftrightarrow> (\<forall>p\<in>set (ct_policies s). itemPolicyDefect (ip_row p) = '''' \<and> ip_economyCode p \<in> en_code ` set (ct_economies s))"

text \<open>Catalog ids are trimmed by their schema; so is what a query compares with.\<close>

definition catalog_trimmed :: "game_content \<Rightarrow> bool" where
  "catalog_trimmed s \<longleftrightarrow> (\<forall>b\<in>set (ct_catalog s). trim (cb_itemId b) = cb_itemId b)"

text \<open>The schema casts a checked row whose ids are trimmed to a checked row of the same item.\<close>

definition row_ids :: "js \<Rightarrow> string list" where
  "row_ids row = row_item row # map row_item (jarr (jget row ''salvage''))"

definition lawful_cast :: "content_mongo \<Rightarrow> bool" where
  "lawful_cast C \<longleftrightarrow> (\<forall>row r. itemPolicyDefect row = '''' \<and> (\<forall>i\<in>set (row_ids row). trim i = i) \<and> cm_cast C row = Inr r
     \<longrightarrow> itemPolicyDefect r = '''' \<and> row_item r = row_item row)"

definition policy_inv :: "game_content \<Rightarrow> bool" where
  "policy_inv s \<longleftrightarrow> rows_ok s \<and> catalog_trimmed s"

lemma assertItemPolicy_passed:
  assumes C: "lawful_content C" and run: "assertItemPolicy C code row s = Inr ()" and cat: "catalog_trimmed s"
  shows "itemPolicyDefect row = ''''" "code \<in> en_code ` set (ct_economies s)" "\<forall>i\<in>set (row_ids row). trim i = i"
proof -
  show "itemPolicyDefect row = ''''" using run by (auto simp: assertItemPolicy_def split: if_splits)
  have "find_economy C code s \<noteq> None" using run by (auto simp: assertItemPolicy_def split: if_splits)
  then obtain e where e: "find_economy C code s = Some e" by blast
  from collection.find_one_some [OF lawful_contentD(1) [OF C] e [unfolded find_economy_def]]
  have "e \<in> set (ct_economies s) \<and> en_code e = code" by simp
  then show "code \<in> en_code ` set (ct_economies s)" by auto
  have bound: "filter (\<lambda>i. catalog_resolve C (row_ids row) s i = None) (row_ids row) = []"
    using run by (auto simp: assertItemPolicy_def row_ids_def Let_def split: if_splits)
  show "\<forall>i\<in>set (row_ids row). trim i = i"
  proof
    fix i assume "i \<in> set (row_ids row)"
    then obtain cid where "catalog_resolve C (row_ids row) s i = Some cid" using bound by (auto simp: filter_empty_conv)
    then have "\<exists>b\<in>set (ct_catalog s). cb_itemId b = i"
      by (auto simp: catalog_resolve_def Let_def collection.find_docs [OF lawful_contentD(3) [OF C]] split: if_splits dest!: map_of_SomeD)
    then show "trim i = i" using cat by (auto simp: catalog_trimmed_def)
  qed
qed

lemma raised_revision:
  assumes C: "lawful_content C" and inv: "content_inv d s"
  shows "content_inv d (s\<lparr>ct_economies := snd (snd (drv_update_one (cm_economies C) (\<lambda>e. en_code e = code)
      (\<lambda>e. e\<lparr>en_revision := en_revision e + 1\<rparr>) (ct_economies s)))\<rparr>) \<and>
    en_code ` set (snd (snd (drv_update_one (cm_economies C) (\<lambda>e. en_code e = code)
      (\<lambda>e. e\<lparr>en_revision := en_revision e + 1\<rparr>) (ct_economies s)))) = en_code ` set (ct_economies s)"
proof -
  let ?f = "\<lambda>e::economy. if en_code e = code then e\<lparr>en_revision := en_revision e + 1\<rparr> else e"
  have u: "unique_docs en_code (ct_economies s)" using inv by (simp add: content_inv_def unique_content_def)
  have up: "snd (snd (drv_update_one (cm_economies C) (\<lambda>e. en_code e = code) (\<lambda>e. e\<lparr>en_revision := en_revision e + 1\<rparr>) (ct_economies s)))
      = map ?f (ct_economies s)"
    by (rule collection.update_one_unique [OF lawful_contentD(1) [OF C] u, where k = code]) simp
  have found: "List.find (\<lambda>e. en_code e = k) (map ?f (ct_economies s)) = map_option ?f (List.find (\<lambda>e. en_code e = k) (ct_economies s))" for k
    by (rule find_map_if) simp
  have "held_wallet (s\<lparr>ct_economies := map ?f (ct_economies s)\<rparr>) k = held_wallet s k" for k
    by (simp add: held_wallet_def found option.map_comp comp_def) (auto intro!: option.map_cong)
  then have "wallet_in (s\<lparr>ct_economies := map ?f (ct_economies s)\<rparr>) i = wallet_in s i" for i
    by (simp add: wallet_in_def run_economy_def)
  then have "wallets_one d (s\<lparr>ct_economies := map ?f (ct_economies s)\<rparr>)"
    using inv by (simp add: content_inv_def wallets_one_def)
  moreover have "economies_ok (s\<lparr>ct_economies := map ?f (ct_economies s)\<rparr>)"
    using inv by (auto simp: content_inv_def economies_ok_def economy_schema_def)
  moreover have "unique_docs en_code (map ?f (ct_economies s))" "unique_docs en_id (map ?f (ct_economies s))"
    using inv by (auto simp: content_inv_def unique_content_def unique_docs_map)
  moreover have "en_code \<circ> ?f = en_code" by (rule ext) simp
  then have "en_code ` set (map ?f (ct_economies s)) = en_code ` set (ct_economies s)"
    by (simp only: set_map image_comp)
  ultimately show ?thesis using inv unfolding up by (simp add: content_inv_def unique_content_def)
qed

text \<open>A replaced document keeps its key.\<close>

lemma update_or_insert_replaced:
  assumes "collection drv key valid" "unique_docs key c" "update_or_insert drv (\<lambda>d. key d = k) (\<lambda>_. new) new c = Inr c'" "key new = k"
  shows "unique_docs key c' \<and> set c' \<subseteq> insert new (set c)"
proof (cases "\<exists>d\<in>set c. key d = k")
  case True
  have "snd (snd (drv_update_one drv (\<lambda>d. key d = k) (\<lambda>_. new) c)) = map (\<lambda>d. if key d = k then new else d) c"
    by (rule collection.update_one_unique [OF assms(1,2), where k = k]) simp
  moreover have "fst (drv_update_one drv (\<lambda>d. key d = k) (\<lambda>_. new) c) = 1"
    using True by (simp add: collection.update_one_matched [OF assms(1)])
  ultimately have "c' = map (\<lambda>d. if key d = k then new else d) c"
    using assms(3) by (auto simp: update_or_insert_def split: prod.splits)
  then show ?thesis using assms(2,4) by (auto simp: unique_docs_map)
next
  case False
  then have "drv_create drv [new] c = Inr c'"
    using assms(3) by (simp add: update_or_insert_def collection.update_one_none [OF assms(1)])
  with collection.create_cases [OF assms(1,2), of "[new]"] have "c' = c @ [new] \<and> unique_docs key (c @ [new])" by fastforce
  then show ?thesis by auto
qed

text \<open>A write of rows and the revision of their economy.\<close>

lemma withRevision_keeps:
  assumes C: "lawful_content C" and inv: "content_inv d s" "policy_inv s"
    and run: "withRevision C as code work s = (r, t)"
    and rows: "\<And>x u. work s = (Inr x, u) \<Longrightarrow> \<exists>ps. u = s\<lparr>ct_policies := ps\<rparr> \<and> unique_docs policy_key ps
      \<and> (\<forall>p\<in>set ps. p \<in> set (ct_policies s) \<or> itemPolicyDefect (ip_row p) = '''' \<and> ip_economyCode p \<in> en_code ` set (ct_economies s))"
  shows "content_inv d t \<and> policy_inv t"
proof (cases r)
  case (Inl e)
  with run inv show ?thesis by (auto simp: withRevision_def dest: runTransaction_aborted)
next
  case (Inr x)
  let ?up = "\<lambda>s. snd (snd (drv_update_one (cm_economies C) (\<lambda>e. en_code e = code) (\<lambda>e. e\<lparr>en_revision := en_revision e + 1\<rparr>) (ct_economies s)))"
  from runTransaction_committed [OF run [unfolded withRevision_def Inr]] obtain u where u: "work s = (Inr x, u)" "t = u\<lparr>ct_economies := ?up u\<rparr>"
    by auto
  from rows [OF u(1)] obtain ps where ps: "u = s\<lparr>ct_policies := ps\<rparr>" "unique_docs policy_key ps"
    "\<forall>p\<in>set ps. p \<in> set (ct_policies s) \<or> itemPolicyDefect (ip_row p) = '''' \<and> ip_economyCode p \<in> en_code ` set (ct_economies s)" by blast
  from raised_revision [OF C content_inv_policies [OF inv(1) ps(2)], of code] have
    "content_inv d t" "en_code ` set (ct_economies t) = en_code ` set (ct_economies s)" by (simp_all add: u(2) ps(1))
  moreover have "policy_inv t"
    using inv(2) ps(3) calculation(2) by (auto simp: policy_inv_def rows_ok_def catalog_trimmed_def u(2) ps(1))
  ultimately show ?thesis by blast
qed

lemma policy_post_keeps:
  assumes C: "lawful_content C" and L: "lawful_cast C" and inv: "content_inv d s" "policy_inv s"
    and run: "policy_post C as code body s = (r, t)"
  shows "content_inv d t \<and> policy_inv t"
proof -
  let ?row = "policy_row (jget body ''itemId'') body"
  show ?thesis
  proof (cases "assertItemPolicy C code ?row s")
    case (Inl e)
    with run inv show ?thesis by (simp add: policy_post_def)
  next
    case (Inr x)
    then have "assertItemPolicy C code ?row s = Inr ()" by simp
    note ok = assertItemPolicy_passed [OF C this conjunct2 [OF inv(2) [unfolded policy_inv_def]]]
    have u: "unique_docs policy_key (ct_policies s)" using inv(1) by (simp add: content_inv_def unique_content_def)
    show ?thesis
    proof (rule withRevision_keeps [OF C inv])
      show "withRevision C as code (replace_policy C code ?row) s = (r, t)" using run Inr by (simp add: policy_post_def)
      fix y v assume "replace_policy C code ?row s = (Inr y, v)"
      then obtain r' c where r': "cm_cast C ?row = Inr r'"
        and c: "update_or_insert (cm_policies C) (\<lambda>p. policy_key p = (code, row_item ?row)) (\<lambda>_. \<lparr>ip_economyCode = code, ip_row = r'\<rparr>)
            \<lparr>ip_economyCode = code, ip_row = r'\<rparr> (ct_policies s) = Inr c" "v = s\<lparr>ct_policies := c\<rparr>"
        by (auto simp: replace_policy_def Let_def split: sum.splits)
      let ?new = "\<lparr>ip_economyCode = code, ip_row = r'\<rparr>"
      have "itemPolicyDefect r' = '''' \<and> row_item r' = row_item ?row" using L ok(1,3) r' unfolding lawful_cast_def by blast
      then have cast: "itemPolicyDefect r' = ''''" "row_item r' = row_item ?row" by simp_all
      have "unique_docs policy_key c \<and> set c \<subseteq> insert ?new (set (ct_policies s))"
        by (rule update_or_insert_replaced [OF lawful_contentD(2) [OF C] u c(1)]) (simp add: policy_key_def cast(2))
      then show "\<exists>ps. v = s\<lparr>ct_policies := ps\<rparr> \<and> unique_docs policy_key ps
          \<and> (\<forall>p\<in>set ps. p \<in> set (ct_policies s) \<or> itemPolicyDefect (ip_row p) = '''' \<and> ip_economyCode p \<in> en_code ` set (ct_economies s))"
        using c(2) cast(1) ok(2) by (intro exI [of _ c]) auto
    qed
  qed
qed

lemma find_policyD:
  assumes C: "lawful_content C" and "find_policy C key s = Some p"
  shows "p \<in> set (ct_policies s)" "policy_key p = key"
  using collection.find_one_some [OF lawful_contentD(2) [OF C] assms(2) [unfolded find_policy_def]] by simp_all

lemma policy_put_keeps:
  assumes C: "lawful_content C" and L: "lawful_cast C" and inv: "content_inv d s" "policy_inv s"
    and run: "policy_put C as key body s = (r, t)"
  shows "content_inv d t \<and> policy_inv t"
proof (cases "find_policy C key s")
  case None
  with run inv show ?thesis by (simp add: policy_put_def)
next
  case (Some p)
  let ?row = "policy_row (Str (row_item (ip_row p))) body" and ?code = "ip_economyCode p"
  have item: "row_item ?row = row_item (ip_row p)" by (simp add: row_item_def policy_row_def)
  show ?thesis
  proof (cases "assertItemPolicy C ?code ?row s")
    case (Inl e)
    with run inv Some show ?thesis by (simp add: policy_put_def)
  next
    case (Inr x)
    then have "assertItemPolicy C ?code ?row s = Inr ()" by simp
    note ok = assertItemPolicy_passed [OF C this conjunct2 [OF inv(2) [unfolded policy_inv_def]]]
    have u: "unique_docs policy_key (ct_policies s)" using inv(1) by (simp add: content_inv_def unique_content_def)
    let ?work = "\<lambda>s. case cm_cast C ?row of Inl e \<Rightarrow> (Inl e, s)
       | Inr r \<Rightarrow> (let new = \<lparr>ip_economyCode = ?code, ip_row = r\<rparr> in
           (Inr new, s\<lparr>ct_policies := snd (snd (drv_update_one (cm_policies C) (\<lambda>q. policy_key q = policy_key p) (\<lambda>_. new) (ct_policies s)))\<rparr>))"
    show ?thesis
    proof (rule withRevision_keeps [OF C inv])
      show "withRevision C as ?code ?work s = (r, t)" using run Inr Some by (simp add: policy_put_def)
      fix y v assume "?work s = (Inr y, v)"
      then obtain r' where r': "cm_cast C ?row = Inr r'" and v: "v = s\<lparr>ct_policies := snd (snd (drv_update_one (cm_policies C)
          (\<lambda>q. policy_key q = policy_key p) (\<lambda>_. \<lparr>ip_economyCode = ?code, ip_row = r'\<rparr>) (ct_policies s)))\<rparr>"
        by (auto simp: Let_def split: sum.splits)
      let ?new = "\<lparr>ip_economyCode = ?code, ip_row = r'\<rparr>" and ?ps = "map (\<lambda>q. if policy_key q = policy_key p then
          \<lparr>ip_economyCode = ?code, ip_row = r'\<rparr> else q) (ct_policies s)"
      have "itemPolicyDefect r' = '''' \<and> row_item r' = row_item ?row" using L ok(1,3) r' unfolding lawful_cast_def by blast
      then have cast: "itemPolicyDefect r' = ''''" "row_item r' = row_item ?row" by simp_all
      have key: "policy_key ?new = policy_key p" by (simp add: policy_key_def cast(2) item)
      have "v = s\<lparr>ct_policies := ?ps\<rparr>"
        unfolding v by (subst collection.update_one_unique [OF lawful_contentD(2) [OF C] u, where k = "policy_key p"]) simp_all
      moreover have "policy_key (if policy_key q = policy_key p then ?new else q) = policy_key q" for q using key by auto
      then have "unique_docs policy_key ?ps" using u by (simp only: unique_docs_map)
      ultimately show "\<exists>ps. v = s\<lparr>ct_policies := ps\<rparr> \<and> unique_docs policy_key ps
          \<and> (\<forall>p\<in>set ps. p \<in> set (ct_policies s) \<or> itemPolicyDefect (ip_row p) = '''' \<and> ip_economyCode p \<in> en_code ` set (ct_economies s))"
        using cast(1) ok(2) by (intro exI [of _ ?ps]) auto
    qed
  qed
qed

lemma policy_delete_keeps:
  assumes C: "lawful_content C" and inv: "content_inv d s" "policy_inv s" and run: "policy_delete C as key s = (r, t)"
  shows "content_inv d t \<and> policy_inv t"
proof (cases "\<exists>k p. key = Some k \<and> find_policy C k s = Some p")
  case False
  with run inv show ?thesis by (auto simp: policy_delete_def split: option.splits)
next
  case True
  then obtain k p where p: "key = Some k" "find_policy C k s = Some p" by blast
  have u: "unique_docs policy_key (ct_policies s)" using inv(1) by (simp add: content_inv_def unique_content_def)
  let ?ps = "filter (\<lambda>q. policy_key q \<noteq> policy_key p) (ct_policies s)"
  have "drv_delete_one (cm_policies C) (\<lambda>q. policy_key q = policy_key p) (ct_policies s) = ?ps"
    by (rule collection.delete_one_unique [OF lawful_contentD(2) [OF C] u, where k = "policy_key p"]) simp
  note del = this
  show ?thesis
    by (rule withRevision_keeps [OF C inv run [unfolded policy_delete_def, simplified p option.case]])
      (auto simp: del u unique_docs_filter intro!: exI [of _ ?ps])
qed

section \<open>All writes together\<close>

text \<open>The writes of economies and confs keep the rows too, and never touch the catalog.\<close>

lemma policy_inv_more:
  assumes "policy_inv s" "ct_catalog t = ct_catalog s" "en_code ` set (ct_economies s) \<subseteq> en_code ` set (ct_economies t)"
    and "\<And>p. p \<in> set (ct_policies t) \<Longrightarrow> p \<in> set (ct_policies s) \<or> itemPolicyDefect (ip_row p) = '''' \<and> ip_economyCode p \<in> en_code ` set (ct_economies t)"
  shows "policy_inv t"
  using assms unfolding policy_inv_def rows_ok_def catalog_trimmed_def by (metis subsetD)

lemma insert_rows_added:
  assumes C: "lawful_content C" and inv: "content_inv d s" and run: "insert_rows C code rows s = (Inr (), t)"
  shows "\<exists>ps. t = s\<lparr>ct_policies := ct_policies s @ ps\<rparr> \<and> (\<forall>p\<in>set ps. policy_schema p \<and> ip_economyCode p = code)"
proof (cases "rows = []")
  case True
  with run show ?thesis by (intro exI [of _ "[]"]) (simp add: insert_rows_def)
next
  case False
  have u: "unique_docs policy_key (ct_policies s)" using inv by (simp add: content_inv_def unique_content_def)
  obtain rs c where c: "drv_create (cm_policies C) (map (\<lambda>r. \<lparr>ip_economyCode = code, ip_row = r\<rparr>) rs) (ct_policies s) = Inr c"
    "t = s\<lparr>ct_policies := c\<rparr>"
    using run False by (auto simp: insert_rows_def)
  from collection.create_cases [OF lawful_contentD(2) [OF C] u, of "map (\<lambda>r. \<lparr>ip_economyCode = code, ip_row = r\<rparr>) rs"] c
  show ?thesis by (intro exI [of _ "map (\<lambda>r. \<lparr>ip_economyCode = code, ip_row = r\<rparr>) rs"]) (auto simp: list_all_iff)
qed

lemma content_step_policies:
  assumes C: "lawful_content C" and inv: "content_inv d s" "policy_inv s" and step: "content_step C M d s t"
  shows "policy_inv t"
  using step
proof (cases rule: content_step.cases)
  case (post newId b r)
  from post(2) show ?thesis
  proof (cases rule: economy_post_cases)
    case (created e)
    with find_create(2) [OF C inv(1) created(1,3)] post(1) show ?thesis
      by (intro policy_inv_more [OF inv(2)]) auto
  qed (use inv in simp)
next
  case (clone newId as key b r)
  from clone(2) show ?thesis
  proof (cases rule: economy_clone_cases)
    case (cloned e u rows)
    with clone(1) have u: "content_inv d u" "u = s\<lparr>ct_economies := ct_economies s @ [e]\<rparr>"
      using find_create [OF C inv(1) cloned(1,3)] by simp_all
    from insert_rows_added [OF C u(1) cloned(4)] obtain ps where
      "t = u\<lparr>ct_policies := ct_policies u @ ps\<rparr>" "\<forall>p\<in>set ps. policy_schema p \<and> ip_economyCode p = en_code e" by blast
    then show ?thesis by (intro policy_inv_more [OF inv(2)]) (auto simp: u(2) policy_schema_def)
  qed (use inv in simp)
next
  case (put key b r)
  from C inv(1) put(2) show ?thesis
  proof (cases rule: economy_put_cases)
    case (written e p)
    have "en_code ` set (map (\<lambda>y. if y = e then put_economy b p e else y) es) = en_code ` set es" for es :: "economy list"
      by (induction es) auto
    then have "en_code ` set (ct_economies t) = en_code ` set (ct_economies s)" 
      using written(6) by (simp del: set_map list.set_map)
    then show ?thesis by (intro policy_inv_more [OF inv(2)]) (simp_all add: written(6))
  qed (use inv in simp)
next
  case (delete key as r)
  from C inv(1) delete(2) show ?thesis
  proof (cases rule: economy_delete_cases)
    case (deleted e)
    have "e2 = e" if "e2 \<in> set (ct_economies s)" "en_code e2 = en_code e" for e2
      using inv(1) that deleted(2) unique_docs_eq [of en_code "ct_economies s" e2 e] by (auto simp: content_inv_def unique_content_def)
    with inv(2) show ?thesis
      unfolding policy_inv_def rows_ok_def catalog_trimmed_def by (fastforce simp: deleted(4))
  qed (use inv in simp)
next
  case (conf_post newId i code q)
  then have "t = s \<or> (\<exists>cs. t = s\<lparr>ct_confs := cs\<rparr>)"
    by (auto simp: conf_post_def Let_def split: sum.splits)
  with inv(2) show ?thesis by (auto simp: policy_inv_def rows_ok_def catalog_trimmed_def)
next
  case (conf_put confId code w)
  then have "t = s \<or> (\<exists>cs. t = s\<lparr>ct_confs := cs\<rparr>)"
    by (auto simp: conf_put_def Let_def split: sum.splits option.splits if_splits)
  with inv(2) show ?thesis by (auto simp: policy_inv_def rows_ok_def catalog_trimmed_def)
qed

text \<open>A step of the host and the content together: a write of an economy or a conf, of an item policy, or of a
universe. The served content may be any at each write.\<close>

inductive world_step :: "content_mongo \<Rightarrow> mongo \<Rightarrow> db \<times> game_content \<Rightarrow> db \<times> game_content \<Rightarrow> bool" for C M where
  content: "content_step C M d s t \<Longrightarrow> world_step C M (d, s) (d, t)"
| policy_post: "policy_post C as code body s = (r, t) \<Longrightarrow> world_step C M (d, s) (d, t)"
| policy_put: "policy_put C as key body s = (r, t) \<Longrightarrow> world_step C M (d, s) (d, t)"
| policy_delete: "policy_delete C as k s = (r, t) \<Longrightarrow> world_step C M (d, s) (d, t)"
| universe_post: "newId \<notin> un_id ` set (db_universes d) \<Longrightarrow> universe_post C M served newId userId b s d = (q, e)
    \<Longrightarrow> world_step C M (d, s) (e, s)"
| universe_put: "universe_put C M served role userId key b s d = (q, e) \<Longrightarrow> world_step C M (d, s) (e, s)"
| universe_delete: "universe_delete M role userId key d = (w, e) \<Longrightarrow> world_step C M (d, s) (e, s)"
| member_leaves: "world_step C M (d, s) (removeUniverseMember M i d, s)"

definition world_inv :: "db \<times> game_content \<Rightarrow> bool" where
  "world_inv w \<longleftrightarrow> content_inv (fst w) (snd w) \<and> policy_inv (snd w) \<and> universes_inv (snd w) (db_universes (fst w))"

lemma wallets_of_universes: "universes_inv s (db_universes d) \<Longrightarrow> wallets_one d s"
  by (auto simp: universes_inv_def wallets_one_def wallet_shared_def)

lemma universes_members_once: "universes_inv s (db_universes d) \<Longrightarrow> members_once d"
  unfolding universes_inv_def members_once_def by blast

lemma world_inv_content:
  assumes "world_inv (d, s)" "content_inv d t" "policy_inv t"
  shows "world_inv (d, t)"
  using assms by (auto simp: world_inv_def universes_inv_def content_inv_def wallets_one_def wallet_shared_def)

lemma world_inv_universes:
  assumes "world_inv (d, s)" "\<exists>us. e = d\<lparr>db_universes := us\<rparr> \<and> universes_inv s us"
  shows "world_inv (e, s)"
  using assms wallets_of_universes [of s e] by (auto simp: world_inv_def content_inv_def)

lemma world_step_keeps:
  assumes C: "lawful_content C" "lawful_cast C" and M: "lawful_mongo M" and step: "world_step C M w x" and inv: "world_inv w"
  shows "world_inv x"
  using step
proof (cases rule: world_step.cases)
  case (content d s t)
  have i: "world_inv (d, s)" "content_inv d s" "policy_inv s" "universes_inv s (db_universes d)"
    using inv [unfolded content(1)] by (simp_all add: world_inv_def)
  have "content_inv d t" by (rule content_step_keeps [OF C(1) M universes_members_once [OF i(4)] i(2) content(3)])
  with content_step_policies [OF C(1) i(2,3) content(3)] show ?thesis
    unfolding content(2) by (intro world_inv_content [OF i(1)])
next
  case (policy_post as code body s r t d)
  have i: "world_inv (d, s)" "content_inv d s" "policy_inv s"
    using inv [unfolded policy_post(1)] by (simp_all add: world_inv_def)
  from policy_post_keeps [OF C i(2,3) policy_post(3)] show ?thesis
    unfolding policy_post(2) by (intro world_inv_content [OF i(1)]) auto
next
  case (policy_put as key body s r t d)
  have i: "world_inv (d, s)" "content_inv d s" "policy_inv s"
    using inv [unfolded policy_put(1)] by (simp_all add: world_inv_def)
  from policy_put_keeps [OF C i(2,3) policy_put(3)] show ?thesis
    unfolding policy_put(2) by (intro world_inv_content [OF i(1)]) auto
next
  case (policy_delete as k s r t d)
  have i: "world_inv (d, s)" "content_inv d s" "policy_inv s"
    using inv [unfolded policy_delete(1)] by (simp_all add: world_inv_def)
  from policy_delete_keeps [OF C(1) i(2,3) policy_delete(3)] show ?thesis
    unfolding policy_delete(2) by (intro world_inv_content [OF i(1)]) auto
next
  case (universe_post newId d served userId b s q e)
  have i: "world_inv (d, s)" "economies_ok s" "universes_inv s (db_universes d)"
    using inv [unfolded universe_post(1)] by (simp_all add: world_inv_def content_inv_def)
  from universe_post_keeps [OF C(1) M i(2,3) universe_post(3,4)] show ?thesis
    unfolding universe_post(2) by (intro world_inv_universes [OF i(1)])
next
  case (universe_put served role userId key b s d q e)
  have i: "world_inv (d, s)" "economies_ok s" "universes_inv s (db_universes d)"
    using inv [unfolded universe_put(1)] by (simp_all add: world_inv_def content_inv_def)
  from universe_put_keeps [OF C(1) M i(2,3) universe_put(3)] show ?thesis
    unfolding universe_put(2) by (intro world_inv_universes [OF i(1)])
next
  case (universe_delete role userId key d w' e s)
  have i: "world_inv (d, s)" "universes_inv s (db_universes d)"
    using inv [unfolded universe_delete(1)] by (simp_all add: world_inv_def)
  from universe_delete_keeps [OF M i(2) universe_delete(3)] show ?thesis
    unfolding universe_delete(2) by (intro world_inv_universes [OF i(1)])
next
  case (member_leaves d s i)
  have inv': "world_inv (d, s)" "universes_inv s (db_universes d)"
    using inv [unfolded member_leaves(1)] by (simp_all add: world_inv_def)
  from removeUniverseMember_keeps [OF M inv'(2)] show ?thesis
    unfolding member_leaves(2) by (intro world_inv_universes [OF inv'(1)])
qed


section \<open>A world joins a universe\<close>

definition bound_content :: game_content where
  "bound_content = sample_content\<lparr>ct_catalog := [\<lparr>cb_itemId = ''wood'', cb_objectLayerCid = ''bafy''\<rparr>]\<rparr>"

definition joined_body :: universe_body where
  "joined_body = \<lparr>ub_code = None, ub_revision = Some 1, ub_instances = Arr [
       Obj [(''instanceCode'', Str ''w1''), (''x'', JInt 0), (''y'', JInt 0)],
       Obj [(''instanceCode'', Str ''w2''), (''x'', JInt 1), (''y'', JInt 0)],
       Obj [(''instanceCode'', Str ''w3''), (''x'', JInt 2), (''y'', JInt 0)]],
     ub_links = Arr [Obj [(''sourceInstanceCode'', Str ''w2''), (''targetInstanceCode'', Str ''w3'')]]\<rparr>"

definition joined_db :: db where
  "joined_db = snd (universe_put ref_content ref_mongo (\<lambda>i. i = ''w3'') ''user'' uid1 pid1 joined_body bound_content sample_db)"

definition sold_content :: game_content where
  "sold_content = snd (policy_post ref_content [] ''standard'' (Obj [(''itemId'', Str ''wood''), (''market'', Bool True)]) bound_content)"

lemma world_inv_sample: "world_inv (sample_db, bound_content)"
proof -
  have same: "wallet_in bound_content i = wallet_in sample_content i" for i
    by (simp add: bound_content_def wallet_in_def held_wallet_def run_economy_def)
  have content: "content_inv sample_db bound_content"
    using content_inv_sample by (simp add: content_inv_def unique_content_def economies_ok_def wallets_one_def same)
      (simp add: bound_content_def unique_docs_def)
  have "rows_ok bound_content" by (simp add: rows_ok_def bound_content_def sample_content_def no_content_def) code_simp
  moreover have "catalog_trimmed bound_content" by (simp add: catalog_trimmed_def bound_content_def) code_simp
  moreover have ok: "universe_ok sample_universe" unfolding universe_ok_def by code_simp
  have "db_universes sample_db = [sample_universe]" by (simp add: sample_db_def)
  then have "universes_inv bound_content (db_universes sample_db)"
    using ok content by (auto simp: universes_inv_def unique_docs_def wallet_shared_def content_inv_def wallets_one_def)
  ultimately show ?thesis using content by (simp add: world_inv_def policy_inv_def)
qed


section \<open>Where the code and its description part\<close>

text \<open>The search for an invalid member code answers the code it finds, and takes a missing one for none found: a
member that names no instance passes, and hides an invalid code after it.\<close>

lemma nameless_member_passes:
  "universeDefect (Some ''u1'') ([\<lparr>tm_instanceCode = None, tm_x = JInt 0, tm_y = JInt 0\<rparr>,
     \<lparr>tm_instanceCode = Some ''w 1'', tm_x = JInt 1, tm_y = JInt 0\<rparr>], []) = ''''"
  by code_simp

text \<open>A new universe under a taken code answers that an instance joined another universe.\<close>

lemma taken_code_blames_members:
  "fst (universe_post ref_content ref_mongo (\<lambda>i. i = ''w9'') pid2 uid1 (joined_body\<lparr>ub_code := Some ''u1'',
     ub_instances := Arr [Obj [(''instanceCode'', Str ''w9''), (''x'', JInt 0), (''y'', JInt 0)]], ub_links := Undefined\<rparr>)
     bound_content sample_db) = Inl (http_error ''An instance of this universe joined another universe meanwhile'' 409)"
  by code_simp

end
