(* ===== verification/Operations.thy ===== *)
theory Operations imports Admin Contract begin

text \<open>
  The changes an operator makes, from \<open>src/projects/cyberia/player/player-operations.js\<close>: ending a
  session, changing the stacks of a profile, locking, banning and lifting the restriction of an
  account, for one profile or for a batch. Each request is one transaction with one audit record; a
  retry of its operation id answers the recorded outcome.

  The body of a request is a wire value. The item catalog and the Object Layer definitions a change
  reads are content, so \<open>facts\<close> is an argument: the definition an item runs and the type of a
  definition. The id and the time of an audit record are arguments, and so is what \<open>new Date\<close> reads of
  a value, none when that is no date. The id of an operator is canonical.
\<close>

section \<open>Vocabulary\<close>

definition STACK_CHANGES :: "(string \<times> string) list" where
  "STACK_CHANGES = [(''add'', ''inventory.add''), (''remove'', ''inventory.remove''),
     (''quantity'', ''inventory.quantity''), (''activate'', ''layer.activate''), (''deactivate'', ''layer.deactivate'')]"

definition ACCOUNT_CHANGES :: "string list" where
  "ACCOUNT_CHANGES = [''lock'', ''ban'', ''lift'']"

definition CAPACITY :: "string \<Rightarrow> capacity" where
  "CAPACITY c = (if c = ''bag'' then INVENTORY_CAPACITY else STORAGE_CAPACITY)"

definition REASON_MIN :: nat where "REASON_MIN = 3"
definition REASON_MAX :: nat where "REASON_MAX = 200"
definition QUANTITY_MAX :: int where "QUANTITY_MAX = 4294967295"
definition LOCK_DAYS_MAX :: int where "LOCK_DAYS_MAX = 90"
definition BATCH_MAX :: nat where "BATCH_MAX = 50"

definition ACTIVE_ITEM_TYPES :: "string list" where
  "ACTIVE_ITEM_TYPES = [''skin'', ''breastplate'', ''weapon'']"

definition onePerType :: bool where "onePerType = True"
definition requireSkin :: bool where "requireSkin = True"
definition maxActiveLayers :: nat where "maxActiveLayers = 4"

definition userRoleEnum :: "string list" where
  "userRoleEnum = [''admin'', ''moderator'', ''user'', ''guest'']"

text \<open>\<open>indexOf\<close>, \<open>-1\<close> for a role outside the list.\<close>

definition role_index :: "string \<Rightarrow> int" where
  "role_index role = (case find_index (\<lambda>r. r = role) userRoleEnum of None \<Rightarrow> -1 | Some i \<Rightarrow> int i)"

definition commonAdminGuard :: "string \<Rightarrow> bool" where
  "commonAdminGuard role \<longleftrightarrow> role_index role = role_index ''admin''"

definition commonModeratorGuard :: "string \<Rightarrow> bool" where
  "commonModeratorGuard role \<longleftrightarrow> role_index role \<le> role_index ''moderator''"

section \<open>Defects of a request\<close>

text \<open>\<open>/^[\w-]{8,n}$/\<close>.\<close>

definition operation_name :: "nat \<Rightarrow> js \<Rightarrow> bool" where
  "operation_name n v = (case v of Str s \<Rightarrow> 8 \<le> length s \<and> length s \<le> n \<and> list_all (\<lambda>c. is_word c \<or> c = CHR ''-'') s
     | _ \<Rightarrow> False)"

definition reason_text :: "js \<Rightarrow> string" where
  "reason_text v = (case v of Str s \<Rightarrow> trim s | _ \<Rightarrow> '''')"

definition operatorDefect :: "js \<Rightarrow> js \<Rightarrow> string" where
  "operatorDefect operationId reason =
     (if \<not> operation_name 64 operationId then ''An operation id is 8 to 64 word characters''
      else if length (reason_text reason) < REASON_MIN \<or> REASON_MAX < length (reason_text reason)
        then ''A reason is 3 to 200 characters'' else '''')"

definition epochDefect :: "js \<Rightarrow> string" where
  "epochDefect epoch = (if \<not> isSafeInteger epoch \<or> jint epoch < 0 then ''The epoch is the one the operator saw'' else '''')"

text \<open>\<open>op in STACK_CHANGES\<close> and \<open>STACK_CHANGES[op]\<close>: the key is what the value prints as, so an array of one
name reads that name, and the names every object inherits are keys. What those hold is no text, so
the schema of the audit refuses it; it is the empty text here.\<close>

fun change_key :: "js \<Rightarrow> string" where
  "change_key (Str s) = s"
| "change_key (Arr [v]) = (if nullish v then '''' else change_key v)"
| "change_key _ = '''' \<comment> \<open>prints as no key\<close>"

definition in_changes :: "js \<Rightarrow> bool" where
  "in_changes op \<longleftrightarrow> inObject (change_key op) STACK_CHANGES"

definition stack_action :: "js \<Rightarrow> string" where
  "stack_action op = (case map_of STACK_CHANGES (change_key op) of None \<Rightarrow> '''' | Some a \<Rightarrow> a)"

definition changeDefect :: "js \<Rightarrow> string" where
  "changeDefect change =
     (let op = jget change ''op''; slot = jget change ''slot''; quantity = jget change ''quantity'' in
      if \<not> (isArray change \<or> isPlainObject change) then ''A change names its op''
      else if \<not> in_changes op then ''A change is one of add, remove, quantity, activate, deactivate''
      else if \<not> oneOf PROFILE_CONTAINERS (jget change ''container'') then ''A change names its container: bag or storage''
      else if \<not> (case jget change ''itemId'' of Str s \<Rightarrow> s \<noteq> '''' \<and> length s \<le> 128 | _ \<Rightarrow> False) then ''A change names its item id''
      else if \<not> nullish slot \<and> \<not> (isInteger slot \<and> 0 \<le> jint slot) then ''A slot is a whole number''
      else if (op = Str ''add'' \<or> op = Str ''quantity'')
        \<and> \<not> (isInteger quantity \<and> 1 \<le> jint quantity \<and> jint quantity \<le> QUANTITY_MAX) then ''A quantity is a whole number''
      else if op = Str ''quantity'' \<and> \<not> isInteger slot then ''A quantity change names the slot of its stack''
      else '''')"

section \<open>The change of a profile's stacks\<close>

record facts =
  fa_boundCid :: "string \<Rightarrow> string" \<comment> \<open>the definition an item runs, empty when it runs none\<close>
  fa_typeOf :: "string \<Rightarrow> string" \<comment> \<open>the item type of a definition, empty when it is unknown\<close>

record stack_change =
  sc_stacks :: "stack list"
  sc_before :: "stack list"
  sc_after :: "stack list"

definition stacks_of :: "player \<Rightarrow> string \<Rightarrow> stack list" where
  "stacks_of p container = (if container = ''bag'' then pl_bag p else pl_storage p)"

definition names_stack :: "js \<Rightarrow> stack \<Rightarrow> bool" where
  "names_stack change st \<longleftrightarrow> st_itemId st = jstr (jget change ''itemId'')
     \<and> (isInteger (jget change ''slot'') \<longrightarrow> st_slot st = jint (jget change ''slot''))"

definition first_free :: "int \<Rightarrow> stack list \<Rightarrow> int option" where
  "first_free slots stacks = map_option int (List.find (\<lambda>i. int i \<notin> set (map st_slot stacks)) [0..<nat slots])"

definition add_stack :: "player \<Rightarrow> js \<Rightarrow> facts \<Rightarrow> string + stack_change" where
  "add_stack p change F =
     (let container = jstr (jget change ''container''); itemId = jstr (jget change ''itemId'');
          stacks = stacks_of p container; boundCid = fa_boundCid F itemId;
          slots = containerSlots (CAPACITY container) (levelAtXp (pl_xp p) PROGRESSION_RULES_DEFAULTS);
          chosen = (if isInteger (jget change ''slot'') then Some (jint (jget change ''slot'')) else first_free slots stacks)
      in if boundCid = '''' then Inl ''unknown_item''
         else if fa_typeOf F boundCid = ''coin'' then Inl ''coin''
         else case chosen of None \<Rightarrow> Inl ''no_room''
           | Some slot \<Rightarrow>
               if slots \<le> slot then Inl ''locked_slot''
               else if slot \<in> set (map st_slot stacks) then Inl ''slot_taken''
               else let added = \<lparr>st_itemId = itemId, st_olCid = boundCid, st_quantity = jint (jget change ''quantity''),
                          st_slot = slot, st_active = False\<rparr>
                 in Inr \<lparr>sc_stacks = stacks @ [added], sc_before = [], sc_after = [added]\<rparr>)"

text \<open>The loop of an activation: every other stack of the item, or of the type, comes off.\<close>

definition worn :: "facts \<Rightarrow> stack list \<Rightarrow> nat \<Rightarrow> stack list" where
  "worn F stacks i = map (\<lambda>(j, st).
       if j = i then st\<lparr>st_active := True\<rparr>
       else if st_itemId st = st_itemId (stacks ! i) \<or> onePerType \<and> fa_typeOf F (st_olCid st) = fa_typeOf F (st_olCid (stacks ! i))
         then st\<lparr>st_active := False\<rparr> else st) (enumerate 0 stacks)"

definition wear_stack :: "js \<Rightarrow> facts \<Rightarrow> stack list \<Rightarrow> nat \<Rightarrow> string + stack_change" where
  "wear_stack op F stacks i =
     (let type = fa_typeOf F (st_olCid (stacks ! i)); before = filter st_active stacks in
      if op = Str ''activate'' then
        if type \<notin> set ACTIVE_ITEM_TYPES then Inl ''not_wearable''
        else let after = worn F stacks i in
          if maxActiveLayers < length (filter st_active after) then Inl ''too_many_layers''
          else Inr \<lparr>sc_stacks = after, sc_before = before, sc_after = filter st_active after\<rparr>
      else let after = stacks[i := (stacks ! i)\<lparr>st_active := False\<rparr>];
               skinWorn = list_ex (\<lambda>st. st_active st \<and> fa_typeOf F (st_olCid st) = ''skin'') after in
          if requireSkin \<and> type = ''skin'' \<and> \<not> skinWorn then Inl ''skin_required''
          else Inr \<lparr>sc_stacks = after, sc_before = before, sc_after = filter st_active after\<rparr>)"

definition stackChange :: "player \<Rightarrow> js \<Rightarrow> facts \<Rightarrow> string + stack_change" where
  "stackChange p change F =
     (let op = jget change ''op''; container = jstr (jget change ''container''); stacks = stacks_of p container;
          named = filter (names_stack change) stacks in
      if op = Str ''add'' then add_stack p change F
      else case find_index (names_stack change) stacks of None \<Rightarrow> Inl ''no_stack''
        | Some i \<Rightarrow>
            if op = Str ''remove'' then Inr \<lparr>sc_stacks = filter (\<lambda>st. \<not> names_stack change st) stacks,
                sc_before = named, sc_after = []\<rparr>
            else if op = Str ''quantity'' then
              let after = (stacks ! i)\<lparr>st_quantity := jint (jget change ''quantity'')\<rparr>
              in Inr \<lparr>sc_stacks = stacks[i := after], sc_before = [stacks ! i], sc_after = [after]\<rparr>
            else if container \<noteq> ''bag'' then Inl ''stored''
            else wear_stack op F stacks i)"

text \<open>The facts a change reads: of the definitions, only those the bag wears and the item runs.\<close>

definition stackFacts :: "facts \<Rightarrow> player \<Rightarrow> js \<Rightarrow> facts" where
  "stackFacts C p change =
     (let bound = fa_boundCid C (jstr (jget change ''itemId''));
          cids = filter (\<lambda>c. c \<noteq> '''') (map st_olCid (pl_bag p) @ [bound]) in
      \<lparr>fa_boundCid = fa_boundCid C, fa_typeOf = (\<lambda>c. if c \<in> set cids then fa_typeOf C c else '''')\<rparr>)"

section \<open>Requests\<close>

record target =
  tg_profile :: player
  tg_lease :: "game_session option"
  tg_account :: "user option"

definition readTarget :: "mongo \<Rightarrow> string \<Rightarrow> db \<Rightarrow> error + target" where
  "readTarget M playerId s = (case findById M (map to_lower playerId) s of
     None \<Rightarrow> Inl (http_error ''No such profile'' 404)
   | Some p \<Rightarrow> Inr \<lparr>tg_profile = p, tg_lease = leaseOf M (pl_user p) s,
       tg_account = drv_find_one (mg_users M) (\<lambda>u. us_id u = pl_user p) (db_users s)\<rparr>)"

definition leaseRecord :: "game_session option \<Rightarrow> audit_session option" where
  "leaseRecord lease = map_option (\<lambda>l. \<lparr>as_instanceCode = gs_instanceCode l, as_serverId = gs_serverId l,
     as_durability = he_durability (gs_health l), as_seq = he_seq (gs_health l),
     as_durableSeq = he_durableSeq (gs_health l), as_unsavedMs = he_unsavedMs (gs_health l)\<rparr>) lease"

record op_answer =
  an_operationId :: string
  an_outcome :: string
  an_refusal :: string
  an_epoch :: int
  an_after :: "audited list"

definition answerOf :: "audit \<Rightarrow> op_answer" where
  "answerOf a = \<lparr>an_operationId = au_operationId a, an_outcome = au_outcome a, an_refusal = au_refusal a,
     an_epoch = au_epochAfter a, an_after = au_after a\<rparr>"

text \<open>What a plan decides: the refusal, the write that applies it, and what the audit keeps.\<close>

record decision =
  dn_refusal :: string
  dn_write :: "db \<Rightarrow> db"
  dn_epochBefore :: int
  dn_epochAfter :: int
  dn_change :: "audit_change option"
  dn_before :: "audited list"
  dn_after :: "audited list"
  dn_until :: "ms option"

record request =
  rq_playerId :: string
  rq_operationId :: string
  rq_actor :: oid
  rq_action :: string
  rq_reason :: string
  rq_batchId :: string

definition storedAudit :: "ms \<Rightarrow> oid \<Rightarrow> request \<Rightarrow> target \<Rightarrow> decision \<Rightarrow> audit" where
  "storedAudit now auditId r t d = \<lparr>au_id = auditId, au_createdAt = now, au_operationId = rq_operationId r,
     au_action = rq_action r, au_actor = rq_actor r, au_player = pl_id (tg_profile t), au_account = pl_user (tg_profile t),
     au_reason = rq_reason r, au_batchId = rq_batchId r,
     au_outcome = (if dn_refusal d = '''' then ''done'' else ''refused''), au_refusal = dn_refusal d,
     au_epochBefore = dn_epochBefore d, au_epochAfter = dn_epochAfter d, au_change = dn_change d,
     au_before = dn_before d, au_after = dn_after d, au_until = dn_until d, au_session = leaseRecord (tg_lease t)\<rparr>"

text \<open>The write runs only without a refusal.\<close>

definition planned :: "(target \<Rightarrow> decision) \<Rightarrow> target \<Rightarrow> db \<Rightarrow> db" where
  "planned plan t s = (if dn_refusal (plan t) = '''' then dn_write (plan t) s else s)"

definition operationWork :: "mongo \<Rightarrow> ms \<Rightarrow> oid \<Rightarrow> request \<Rightarrow> (target \<Rightarrow> decision) \<Rightarrow> (db, op_answer) work" where
  "operationWork M now auditId r plan s =
     (case drv_find_one (mg_audits M) (\<lambda>a. au_operationId a = rq_operationId r) (db_audits s) of
        Some a \<Rightarrow> if au_player a \<noteq> rq_playerId r \<or> au_actor a \<noteq> rq_actor r \<or> au_action a \<noteq> rq_action r
          then (Inl (http_error ''The operation id names another request'' 409), s) else (Inr (answerOf a), s)
      | None \<Rightarrow> (case readTarget M (rq_playerId r) s of
            Inl e \<Rightarrow> (Inl e, s)
          | Inr t \<Rightarrow>
              let written = planned plan t s; stored = storedAudit now auditId r t (plan t) in
              (case drv_create (mg_audits M) [stored] (db_audits written) of
                 Inl e \<Rightarrow> (Inl e, written)
               | Inr c \<Rightarrow> (Inr (answerOf stored), written\<lparr>db_audits := c\<rparr>))))"

definition runOperation :: "mongo \<Rightarrow> ms \<Rightarrow> attempt list \<Rightarrow> oid \<Rightarrow> request \<Rightarrow> (target \<Rightarrow> decision) \<Rightarrow> (db, op_answer) work" where
  "runOperation M now as auditId r plan = runTransaction as (operationWork M now auditId r plan)"

definition lease_ended :: "oid \<Rightarrow> ms \<Rightarrow> game_session \<Rightarrow> game_session" where
  "lease_ended actor now g = g\<lparr>gs_endedBy := Some actor, gs_expiresAt := now\<rparr>"

definition next_epoch :: "player \<Rightarrow> player" where
  "next_epoch p = p\<lparr>pl_epoch := pl_epoch p + 1\<rparr>"

text \<open>The lease of a live session; a call without one throws, which no plan does.\<close>

definition endLease :: "mongo \<Rightarrow> ms \<Rightarrow> oid \<Rightarrow> target \<Rightarrow> db \<Rightarrow> db" where
  "endLease M now actor t s =
     (let p = tg_profile t; lease = the (tg_lease t);
          c = snd (snd (drv_update_one (mg_players M) (\<lambda>e. pl_id e = pl_id p \<and> pl_epoch e = pl_epoch p) next_epoch (db_players s)));
          g = snd (snd (drv_update_one (mg_sessions M) (\<lambda>e. gs_user e = gs_user lease \<and> gs_epoch e = gs_epoch lease)
                (lease_ended actor now) (db_sessions s)))
      in s\<lparr>db_players := c, db_sessions := g\<rparr>)"

definition endPlan :: "mongo \<Rightarrow> ms \<Rightarrow> oid \<Rightarrow> int \<Rightarrow> target \<Rightarrow> decision" where
  "endPlan M now actor epoch t =
     (let p = tg_profile t;
          refusal = (if pl_epoch p \<noteq> epoch then ''changed'' else if is_live (tg_lease t) p now then '''' else ''no_session'')
      in \<lparr>dn_refusal = refusal, dn_write = endLease M now actor t, dn_epochBefore = pl_epoch p,
          dn_epochAfter = (if refusal \<noteq> '''' then pl_epoch p else pl_epoch p + 1), dn_change = None,
          dn_before = [], dn_after = [], dn_until = None\<rparr>)"

definition bad_request :: "string \<Rightarrow> error" where
  "bad_request message = http_error message 400"

definition endSession :: "mongo \<Rightarrow> ms \<Rightarrow> attempt list \<Rightarrow> oid \<Rightarrow> js \<Rightarrow> js \<Rightarrow> js \<Rightarrow> js \<Rightarrow> oid \<Rightarrow> (db, op_answer) work" where
  "endSession M now as auditId playerId operationId reason epoch actor s =
     (let defect = (if operatorDefect operationId reason \<noteq> '''' then operatorDefect operationId reason else epochDefect epoch) in
      if \<not> isId playerId then (Inl (bad_request ''A profile id is 24 hexadecimal characters''), s)
      else if defect \<noteq> '''' then (Inl (bad_request defect), s)
      else runOperation M now as auditId
        \<lparr>rq_playerId = jstr playerId, rq_operationId = jstr operationId, rq_actor = actor, rq_action = ''session.end'',
         rq_reason = reason_text reason, rq_batchId = ''''\<rparr> (endPlan M now actor (jint epoch)) s)"

section \<open>Changes of stacks\<close>

definition put_stacks :: "string \<Rightarrow> stack list \<Rightarrow> player \<Rightarrow> player" where
  "put_stacks container stacks p = (let q = (if container = ''bag'' then p\<lparr>pl_bag := stacks\<rparr> else p\<lparr>pl_storage := stacks\<rparr>)
     in q\<lparr>pl_epoch := pl_epoch p + 1, pl_revision := pl_revision p + 1\<rparr>)"

definition or_null :: "js \<Rightarrow> js" where
  "or_null v = (if nullish v then Null else v)"

definition stackPlan :: "mongo \<Rightarrow> ms \<Rightarrow> facts \<Rightarrow> js \<Rightarrow> int \<Rightarrow> target \<Rightarrow> decision" where
  "stackPlan M now C change epoch t =
     (let p = tg_profile t;
          decided = (if is_live (tg_lease t) p now then Inl ''online'' else if pl_epoch p \<noteq> epoch then Inl ''changed''
             else stackChange p change (stackFacts C p change));
          refusal = (case decided of Inl r \<Rightarrow> r | Inr _ \<Rightarrow> '''');
          stacks = (case decided of Inl _ \<Rightarrow> [] | Inr c \<Rightarrow> sc_stacks c);
          before = (case decided of Inl _ \<Rightarrow> [] | Inr c \<Rightarrow> sc_before c);
          after = (case decided of Inl _ \<Rightarrow> [] | Inr c \<Rightarrow> sc_after c)
      in \<lparr>dn_refusal = refusal,
          dn_write = (\<lambda>s. s\<lparr>db_players := snd (snd (drv_update_one (mg_players M)
             (\<lambda>e. pl_id e = pl_id p \<and> pl_epoch e = pl_epoch p) (put_stacks (jstr (jget change ''container'')) stacks) (db_players s)))\<rparr>),
          dn_epochBefore = pl_epoch p, dn_epochAfter = (if refusal \<noteq> '''' then pl_epoch p else pl_epoch p + 1),
          dn_change = Some \<lparr>ac_op = jget change ''op'', ac_container = jstr (jget change ''container''),
             ac_itemId = jstr (jget change ''itemId''), ac_slot = or_null (jget change ''slot''),
             ac_quantity = or_null (jget change ''quantity'')\<rparr>,
          dn_before = map AuditStack before, dn_after = map AuditStack after, dn_until = None\<rparr>)"

definition changeStacks :: "mongo \<Rightarrow> ms \<Rightarrow> facts \<Rightarrow> attempt list \<Rightarrow> oid \<Rightarrow> js \<Rightarrow> js \<Rightarrow> js \<Rightarrow> js \<Rightarrow> js \<Rightarrow> oid \<Rightarrow> string \<Rightarrow> (db, op_answer) work" where
  "changeStacks M now C as auditId playerId operationId reason epoch change actor batchId s =
     (let defect = (if operatorDefect operationId reason \<noteq> '''' then operatorDefect operationId reason
             else if epochDefect epoch \<noteq> '''' then epochDefect epoch else changeDefect change) in
      if \<not> isId playerId then (Inl (bad_request ''A profile id is 24 hexadecimal characters''), s)
      else if defect \<noteq> '''' then (Inl (bad_request defect), s)
      else runOperation M now as auditId
        \<lparr>rq_playerId = jstr playerId, rq_operationId = jstr operationId, rq_actor = actor,
         rq_action = stack_action (jget change ''op''), rq_reason = reason_text reason, rq_batchId = batchId\<rparr>
        (stackPlan M now C change (jint epoch)) s)"

section \<open>Restrictions\<close>

definition DAY_MS :: int where "DAY_MS = 86400000"

definition restrictionDefect :: "(js \<Rightarrow> ms option) \<Rightarrow> ms \<Rightarrow> js \<Rightarrow> js \<Rightarrow> string" where
  "restrictionDefect D now op until =
     (if \<not> oneOf ACCOUNT_CHANGES op then ''An account change is one of lock, ban, lift''
      else if op = Str ''lift'' then if nullish until then '''' else ''A lift takes no end''
      else if nullish until then if op = Str ''lock'' then ''A lock names when it ends'' else ''''
      else case D until of None \<Rightarrow> ''A restriction ends in the future''
        | Some end_at \<Rightarrow>
            if end_at \<le> now then ''A restriction ends in the future''
            else if op = Str ''lock'' \<and> LOCK_DAYS_MAX * DAY_MS < end_at - now
              then ''A lock ends within 90 days: a longer one is a ban'' else '''')"

definition restrictionRefusal :: "user option \<Rightarrow> restriction option \<Rightarrow> string \<Rightarrow> oid \<Rightarrow> string \<Rightarrow> string" where
  "restrictionRefusal account current op actor actorRole =
     (let admin = commonAdminGuard actorRole in
      case account of None \<Rightarrow> ''no_account''
      | Some u \<Rightarrow>
          if us_id u = actor then ''self''
          else if us_role u = ''admin'' \<or> us_role u = ''moderator'' \<and> \<not> admin then ''protected''
          else if op = ''lift'' \<and> current = None then ''not_restricted''
          else if op = ''lift'' \<and> re_kind (the current) = ''ban'' \<and> \<not> admin then ''forbidden''
          else '''')"

definition restricted :: "restriction option \<Rightarrow> user \<Rightarrow> user" where
  "restricted r u = (case r of None \<Rightarrow> u\<lparr>us_restriction := None\<rparr>
     | Some _ \<Rightarrow> u\<lparr>us_restriction := r, us_activeSessions := []\<rparr>)"

definition restrictionOfRequest :: "(js \<Rightarrow> ms option) \<Rightarrow> ms \<Rightarrow> js \<Rightarrow> js \<Rightarrow> string \<Rightarrow> oid \<Rightarrow> restriction option" where
  "restrictionOfRequest D now op until reason actor = (if op = Str ''lift'' then None
     else Some \<lparr>re_kind = jstr op, re_reason = reason, re_by = actor, re_at = now, re_until = (if nullish until then None else D until)\<rparr>)"

definition restrictionPlan :: "(js \<Rightarrow> ms option) \<Rightarrow> mongo \<Rightarrow> ms \<Rightarrow> js \<Rightarrow> js \<Rightarrow> string \<Rightarrow> oid \<Rightarrow> string \<Rightarrow> target \<Rightarrow> decision" where
  "restrictionPlan D M now op until reason actor actorRole t =
     (let p = tg_profile t; current = restrictionOf (tg_account t) now;
          refusal = restrictionRefusal (tg_account t) current (jstr op) actor actorRole;
          live = is_live (tg_lease t) p now;
          restriction = restrictionOfRequest D now op until reason actor;
          listed = (\<lambda>r. case r of None \<Rightarrow> [] | Some x \<Rightarrow> [AuditRestriction x])
      in \<lparr>dn_refusal = refusal,
          dn_write = (\<lambda>s. let w = s\<lparr>db_users := snd (snd (drv_update_one (mg_users M)
                (\<lambda>u. us_id u = us_id (the (tg_account t))) (restricted restriction) (db_users s)))\<rparr>
             in if restriction \<noteq> None \<and> live then endLease M now actor t w else w),
          dn_epochBefore = pl_epoch p,
          dn_epochAfter = (if refusal = '''' \<and> restriction \<noteq> None \<and> live then pl_epoch p + 1 else pl_epoch p),
          dn_change = None, dn_before = listed current,
          dn_after = (if refusal \<noteq> '''' then listed current else listed restriction),
          dn_until = (case restriction of None \<Rightarrow> None | Some r \<Rightarrow> re_until r)\<rparr>)"

definition restrictAccount :: "(js \<Rightarrow> ms option) \<Rightarrow> mongo \<Rightarrow> ms \<Rightarrow> attempt list \<Rightarrow> oid \<Rightarrow> js \<Rightarrow> js \<Rightarrow> js \<Rightarrow> js \<Rightarrow> js \<Rightarrow> oid \<Rightarrow> string \<Rightarrow> string \<Rightarrow> (db, op_answer) work" where
  "restrictAccount D M now as auditId playerId operationId reason op until actor actorRole batchId s =
     (let defect = (if operatorDefect operationId reason \<noteq> '''' then operatorDefect operationId reason
             else restrictionDefect D now op until) in
      if \<not> isId playerId then (Inl (bad_request ''A profile id is 24 hexadecimal characters''), s)
      else if defect \<noteq> '''' then (Inl (bad_request defect), s)
      else if op = Str ''ban'' \<and> \<not> commonAdminGuard actorRole then (Inl (http_error ''Only an admin bans an account'' 403), s)
      else runOperation M now as auditId
        \<lparr>rq_playerId = jstr playerId, rq_operationId = jstr operationId, rq_actor = actor,
         rq_action = ''account.'' @ jstr op, rq_reason = reason_text reason, rq_batchId = batchId\<rparr>
        (restrictionPlan D M now op until (reason_text reason) actor actorRole) s)"

section \<open>Batches\<close>

definition batchOperation :: "(js \<Rightarrow> ms option) \<Rightarrow> mongo \<Rightarrow> ms \<Rightarrow> facts \<Rightarrow> js \<Rightarrow> int \<Rightarrow> string \<Rightarrow> oid \<Rightarrow> string \<Rightarrow> string \<times> (target \<Rightarrow> decision)" where
  "batchOperation D M now C operation epoch reason actor actorRole =
     (if jget operation ''type'' = Str ''stacks''
      then (stack_action (jget (jget operation ''change'') ''op''), stackPlan M now C (jget operation ''change'') epoch)
      else (''account.'' @ jstr (jget operation ''op''),
        restrictionPlan D M now (jget operation ''op'') (jget operation ''until'') reason actor actorRole))"

text \<open>\<open>new Set(ids).size\<close> is the length: no text occurs twice. (Values of another type are no ids.)\<close>

definition target_ids :: "js list \<Rightarrow> js list" where
  "target_ids targets = filter (\<lambda>v. case v of Str _ \<Rightarrow> True | _ \<Rightarrow> False) (map (\<lambda>t. jget t ''playerId'') targets)"

text \<open>The first defect, or what the reading of a target that is no object throws.\<close>

definition batchDefect :: "(js \<Rightarrow> ms option) \<Rightarrow> ms \<Rightarrow> js \<Rightarrow> js \<Rightarrow> js \<Rightarrow> string \<Rightarrow> error + string" where
  "batchDefect D now batchId targets operation actorRole =
     (if \<not> operation_name 32 batchId then Inr ''A batch id is 8 to 32 word characters''
      else if \<not> isArray targets \<or> jarr targets = [] \<or> BATCH_MAX < length (jarr targets) then Inr ''A batch names 1 to 50 profiles''
      else if list_ex nullish (jarr targets) then Inl type_error
      else if \<not> distinct (target_ids (jarr targets)) then Inr ''A batch names each profile once''
      else if \<not> list_all (\<lambda>t. isId (jget t ''playerId'') \<and> epochDefect (jget t ''epoch'') = '''') (jarr targets)
        then Inr ''Each profile of a batch names its id and the epoch the operator saw''
      else if jget operation ''type'' = Str ''stacks'' then
        if jget (jget operation ''change'') ''op'' = Str ''quantity'' then Inr ''A batch changes no quantity: each stack has its own''
        else if commonAdminGuard actorRole then Inr (changeDefect (jget operation ''change'')) else Inr ''forbidden''
      else if jget operation ''type'' = Str ''account'' then
        if jget operation ''op'' = Str ''ban'' \<and> \<not> commonAdminGuard actorRole then Inr ''forbidden''
        else Inr (restrictionDefect D now (jget operation ''op'') (jget operation ''until''))
      else Inr ''A batch operation is of type stacks or account'')"

datatype batch_result =
  Previewed string string string string "audited list" "audited list" \<comment> \<open>profile, account, outcome, refusal, before, after\<close>
| Ran string op_answer
| Failed string string

definition previewOne :: "mongo \<Rightarrow> (target \<Rightarrow> decision) \<Rightarrow> string \<Rightarrow> db \<Rightarrow> batch_result" where
  "previewOne M plan playerId s = (case readTarget M playerId s of
     Inl e \<Rightarrow> Failed playerId (err_message e)
   | Inr t \<Rightarrow> let d = plan t in
       Previewed playerId (case tg_account t of None \<Rightarrow> '''' | Some u \<Rightarrow> us_username u)
         (if dn_refusal d = '''' then ''eligible'' else ''refused'') (dn_refusal d) (dn_before d) (dn_after d))"

definition runOne :: "mongo \<Rightarrow> ms \<Rightarrow> attempt list \<Rightarrow> oid \<Rightarrow> request \<Rightarrow> (target \<Rightarrow> decision) \<Rightarrow> db \<Rightarrow> batch_result \<times> db" where
  "runOne M now as auditId r plan s = (case runOperation M now as auditId r plan s of
     (Inl e, t) \<Rightarrow> (Failed (rq_playerId r) (err_message e), t)
   | (Inr a, t) \<Rightarrow> (Ran (rq_playerId r) a, t))"

text \<open>The request a batch runs on a target.\<close>

definition batch_request :: "(js \<Rightarrow> ms option) \<Rightarrow> mongo \<Rightarrow> ms \<Rightarrow> facts \<Rightarrow> js \<Rightarrow> js \<Rightarrow> js \<Rightarrow> oid \<Rightarrow> string \<Rightarrow> js \<Rightarrow> request" where
  "batch_request D M now C batchId operation reason actor actorRole t = \<lparr>rq_playerId = jstr (jget t ''playerId''),
     rq_operationId = jstr batchId @ ''-'' @ jstr (jget t ''playerId''), rq_actor = actor,
     rq_action = fst (batchOperation D M now C operation (jint (jget t ''epoch'')) (reason_text reason) actor actorRole),
     rq_reason = reason_text reason, rq_batchId = jstr batchId\<rparr>"

definition batch_plan :: "(js \<Rightarrow> ms option) \<Rightarrow> mongo \<Rightarrow> ms \<Rightarrow> facts \<Rightarrow> js \<Rightarrow> js \<Rightarrow> oid \<Rightarrow> string \<Rightarrow> js \<Rightarrow> target \<Rightarrow> decision" where
  "batch_plan D M now C operation reason actor actorRole t =
     snd (batchOperation D M now C operation (jint (jget t ''epoch'')) (reason_text reason) actor actorRole)"

text \<open>
  The requests of a batch start four at a time, and each is a transaction, so they take effect one
  after the other in some order of each four: \<open>order\<close> is that order, an argument, and the
  results are in the order of the targets. The audit ids and the attempts of each request are
  arguments, by profile.
\<close>

fun run_each :: "('t \<Rightarrow> 's \<Rightarrow> 'r \<times> 's) \<Rightarrow> 't list \<Rightarrow> 's \<Rightarrow> ('t \<times> 'r) list \<times> 's" where
  "run_each f [] s = ([], s)"
| "run_each f (t # ts) s = (let (r, u) = f t s; (rs, v) = run_each f ts u in ((t, r) # rs, v))"

definition CONCURRENCY :: nat where "CONCURRENCY = 4"

function chunks :: "'t list \<Rightarrow> 't list list" where
  "chunks ts = (if ts = [] then [] else take CONCURRENCY ts # chunks (drop CONCURRENCY ts))"
  by auto
termination by (relation "measure length") (auto simp: CONCURRENCY_def)

declare chunks.simps [simp del]

definition runBatch :: "(js \<Rightarrow> ms option) \<Rightarrow> mongo \<Rightarrow> ms \<Rightarrow> facts \<Rightarrow> (string \<Rightarrow> attempt list) \<Rightarrow> (string \<Rightarrow> oid) \<Rightarrow> (js list \<Rightarrow> js list) \<Rightarrow> js \<Rightarrow> js \<Rightarrow> js \<Rightarrow> js \<Rightarrow> bool \<Rightarrow> oid \<Rightarrow> string \<Rightarrow> (db, batch_result list) work" where
  "runBatch D M now C as auditId order batchId targets operation reason preview actor actorRole s =
     (let defect = (if operatorDefect batchId reason \<noteq> '''' then Inr (operatorDefect batchId reason)
            else batchDefect D now batchId targets operation actorRole) in
      case defect of Inl e \<Rightarrow> (Inl e, s)
      | Inr d \<Rightarrow>
          if d = ''forbidden'' then (Inl (http_error ''This operator may not run that operation'' 403), s)
          else if d \<noteq> '''' then (Inl (bad_request d), s)
          else let one = (\<lambda>t s. let pid = jstr (jget t ''playerId''); plan = batch_plan D M now C operation reason actor actorRole t in
                if preview then (previewOne M plan pid s, s)
                else runOne M now (as pid) (auditId pid) (batch_request D M now C batchId operation reason actor actorRole t) plan s);
              (answers, after) = run_each one (concat (map order (chunks (jarr targets)))) s
          in (Inr (map (\<lambda>t. the (map_of answers t)) (jarr targets)), after))"

section \<open>The stacks of a profile\<close>

record stack_view =
  sw_stack :: stack
  sw_itemType :: string
  sw_boundCid :: string

record container_view =
  cv_slots :: int
  cv_max :: int
  cv_stacks :: "stack_view list"

record stacks_answer =
  sa_epoch :: int
  sa_live :: bool
  sa_level :: int
  sa_coins :: int
  sa_held :: nat
  sa_bag :: container_view
  sa_storage :: container_view

definition containerOf :: "facts \<Rightarrow> player \<Rightarrow> string \<Rightarrow> container_view" where
  "containerOf C p container =
     \<lparr>cv_slots = containerSlots (CAPACITY container) (levelAtXp (pl_xp p) PROGRESSION_RULES_DEFAULTS),
      cv_max = cap_max (CAPACITY container),
      cv_stacks = sort_key (\<lambda>v. st_slot (sw_stack v)) (map (\<lambda>st. \<lparr>sw_stack = st, sw_itemType = fa_typeOf C (st_olCid st),
         sw_boundCid = fa_boundCid C (st_itemId st)\<rparr>) (stacks_of p container))\<rparr>"

definition playerStacks :: "mongo \<Rightarrow> ms \<Rightarrow> facts \<Rightarrow> js \<Rightarrow> db \<Rightarrow> error + stacks_answer" where
  "playerStacks M now C pid s =
     (if \<not> isId pid then Inl (bad_request ''A profile id is 24 hexadecimal characters'')
      else bindE (readTarget M (jstr pid) s) (\<lambda>t. let p = tg_profile t in
        Inr \<lparr>sa_epoch = pl_epoch p, sa_live = is_live (tg_lease t) p now, sa_level = levelAtXp (pl_xp p) PROGRESSION_RULES_DEFAULTS,
          sa_coins = pl_coins p, sa_held = length (pl_held p), sa_bag = containerOf C p ''bag'',
          sa_storage = containerOf C p ''storage''\<rparr>))"

section \<open>What a request does\<close>

definition keeps_audits :: "(target \<Rightarrow> decision) \<Rightarrow> bool" where
  "keeps_audits plan \<longleftrightarrow> (\<forall>t s. db_audits (dn_write (plan t) s) = db_audits s)"

lemma plans_keep_audits [simp]:
  "keeps_audits (endPlan M now actor epoch)" "keeps_audits (stackPlan M now C change epoch)"
  "keeps_audits (restrictionPlan D M now op until reason actor actorRole)"
  by (simp_all add: keeps_audits_def endPlan_def stackPlan_def restrictionPlan_def endLease_def Let_def)

definition audited_by :: "audit \<Rightarrow> db \<Rightarrow> db" where
  "audited_by a s = s\<lparr>db_audits := db_audits s @ [a]\<rparr>"

definition records_request :: "request \<Rightarrow> audit \<Rightarrow> bool" where
  "records_request r a \<longleftrightarrow> au_operationId a = rq_operationId r \<and> au_player a = rq_playerId r
     \<and> au_actor a = rq_actor r \<and> au_action a = rq_action r"

lemma operationWork_recorded:
  assumes "lawful_mongo M" "unique_docs au_operationId (db_audits s)" "x \<in> set (db_audits s)" "au_operationId x = rq_operationId r"
  shows "operationWork M now auditId r plan s =
     (if records_request r x then Inr (answerOf x) else Inl (http_error ''The operation id names another request'' 409), s)"
proof -
  note A = lawful_mongoD(13) [OF assms(1)]
  obtain y where y: "drv_find_one (mg_audits M) (\<lambda>a. au_operationId a = rq_operationId r) (db_audits s) = Some y"
    using assms(3,4) collection.find_one_none [OF A, of "\<lambda>a. au_operationId a = rq_operationId r" "db_audits s"] by fastforce
  then have "y \<in> set (db_audits s)" "au_operationId y = rq_operationId r" using collection.find_one_some [OF A] by blast+
  then have "y = x" using assms(2-4) by (intro unique_docs_eq [of au_operationId "db_audits s"]) simp_all
  then show ?thesis using y assms(4) by (simp add: operationWork_def records_request_def)
qed

lemma operationWork_cases:
  assumes M: "lawful_mongo M" and u: "unique_docs au_operationId (db_audits s)" and k: "keeps_audits plan"
    and w: "operationWork M now auditId r plan s = (Inr a, t)"
  obtains (recorded) x where "x \<in> set (db_audits s)" "records_request r x" "t = s" "a = answerOf x"
    | (ran) g where "\<forall>x\<in>set (db_audits s). au_operationId x \<noteq> rq_operationId r" "readTarget M (rq_playerId r) s = Inr g"
        "t = audited_by (storedAudit now auditId r g (plan g)) (planned plan g s)"
        "a = answerOf (storedAudit now auditId r g (plan g))" "audit_schema (storedAudit now auditId r g (plan g))"
proof -
  note A = lawful_mongoD(13) [OF M]
  show ?thesis
  proof (cases "drv_find_one (mg_audits M) (\<lambda>a. au_operationId a = rq_operationId r) (db_audits s)")
    case (Some x)
    then have x: "x \<in> set (db_audits s)" "au_operationId x = rq_operationId r" using collection.find_one_some [OF A] by blast+
    show ?thesis
      using w x unfolding operationWork_recorded [OF M u x] by (intro recorded [of x]) (auto split: if_splits)
  next
    case None
    then have new: "\<forall>x\<in>set (db_audits s). au_operationId x \<noteq> rq_operationId r" by (simp only: collection.find_one_none [OF A])
    obtain g where g: "readTarget M (rq_playerId r) s = Inr g"
      using w None by (auto simp: operationWork_def split: sum.splits)
    let ?st = "storedAudit now auditId r g (plan g)" and ?w = "planned plan g s"
    have wa: "db_audits ?w = db_audits s" using k by (simp add: planned_def keeps_audits_def)
    have e: "(case drv_create (mg_audits M) [?st] (db_audits ?w) of Inl e \<Rightarrow> (Inl e, ?w)
        | Inr c \<Rightarrow> (Inr (answerOf ?st), ?w\<lparr>db_audits := c\<rparr>)) = (Inr a, t)"
      using w None g by (simp add: operationWork_def Let_def)
    have uw: "unique_docs au_operationId (db_audits ?w)" using u wa by simp
    show ?thesis
    proof (rule collection.create_cases [OF A uw, of "[?st]"])
      assume c: "list_all audit_schema [?st]" "drv_create (mg_audits M) [?st] (db_audits ?w) = Inr (db_audits ?w @ [?st])"
      then have "t = audited_by ?st ?w" "a = answerOf ?st" using e by (simp_all add: audited_by_def)
      with c(1) show ?thesis by (intro ran [OF new g]) simp_all
    next
      fix x assume "drv_create (mg_audits M) [?st] (db_audits ?w) = Inl x"
      then show ?thesis using e by simp
    qed
  qed
qed

lemma operationWork_fresh:
  assumes M: "lawful_mongo M" and u: "unique_docs au_operationId (db_audits s)" and k: "keeps_audits plan"
    and new: "\<forall>x\<in>set (db_audits s). au_operationId x \<noteq> rq_operationId r" and g: "readTarget M (rq_playerId r) s = Inr g"
    and v: "rq_action r \<in> set PLAYER_AUDIT_ACTIONS" "rq_reason r \<noteq> ''''" "rq_operationId r \<noteq> ''''"
  shows "operationWork M now auditId r plan s = (Inr (answerOf (storedAudit now auditId r g (plan g))),
     audited_by (storedAudit now auditId r g (plan g)) (planned plan g s))"
proof -
  note A = lawful_mongoD(13) [OF M]
  let ?st = "storedAudit now auditId r g (plan g)" and ?w = "planned plan g s"
  have n: "drv_find_one (mg_audits M) (\<lambda>a. au_operationId a = rq_operationId r) (db_audits s) = None"
    using new by (simp only: collection.find_one_none [OF A])
  have wa: "db_audits ?w = db_audits s" using k by (simp add: planned_def keeps_audits_def)
  have "drv_create (mg_audits M) [?st] (db_audits ?w) = Inr (db_audits ?w @ [?st])"
    using u v new unfolding wa
    by (intro collection.create_ok [OF A])
      (auto simp: audit_schema_def storedAudit_def PLAYER_AUDIT_OUTCOMES_def unique_docs_def)
  then show ?thesis using n g by (simp add: operationWork_def Let_def audited_by_def)
qed

lemma readTargetD:
  assumes "lawful_mongo M" "readTarget M pid s = Inr g"
  shows "tg_profile g \<in> set (db_players s)" "pl_id (tg_profile g) = map to_lower pid"
    "tg_lease g = leaseOf M (pl_user (tg_profile g)) s"
    "tg_account g = drv_find_one (mg_users M) (\<lambda>u. us_id u = pl_user (tg_profile g)) (db_users s)"
  using assms(2) findById_Some [OF assms(1)] by (auto simp: readTarget_def split: option.splits)

definition ended_player :: "player \<Rightarrow> player \<Rightarrow> player" where
  "ended_player p e = (if pl_id e = pl_id p \<and> pl_epoch e = pl_epoch p then next_epoch e else e)"

definition ended_session :: "oid \<Rightarrow> ms \<Rightarrow> game_session \<Rightarrow> game_session \<Rightarrow> game_session" where
  "ended_session actor now l g = (if gs_user g = gs_user l \<and> gs_epoch g = gs_epoch l then lease_ended actor now g else g)"

lemma endLease_eq:
  assumes "lawful_mongo M" "unique_db s" "tg_lease g = Some l"
  shows "endLease M now actor g s = s\<lparr>db_players := map (ended_player (tg_profile g)) (db_players s),
     db_sessions := map (ended_session actor now l) (db_sessions s)\<rparr>"
  using assms(2,3) collection.update_one_unique [OF lawful_mongoD(1) [OF assms(1)], of "db_players s"
      "\<lambda>e. pl_id e = pl_id (tg_profile g) \<and> pl_epoch e = pl_epoch (tg_profile g)" "pl_id (tg_profile g)" next_epoch]
    collection.update_one_unique [OF lawful_mongoD(2) [OF assms(1)], of "db_sessions s"
      "\<lambda>e. gs_user e = gs_user l \<and> gs_epoch e = gs_epoch l" "gs_user l" "lease_ended actor now"]
  unfolding endLease_def ended_player_def [abs_def] ended_session_def [abs_def]
  by (simp add: unique_db_def Let_def)

lemma next_epoch_fields [simp]:
  "pl_id (next_epoch p) = pl_id p" "pl_user (next_epoch p) = pl_user p" "pl_universeCode (next_epoch p) = pl_universeCode p"
  "pl_epoch (next_epoch p) = pl_epoch p + 1" "pl_worlds (next_epoch p) = pl_worlds p"
  by (simp_all add: next_epoch_def)

lemma lease_ended_fields [simp]:
  "pl_id (ended_player p e) = pl_id e" "gs_user (ended_session actor now l g) = gs_user g"
  "gs_player (ended_session actor now l g) = gs_player g" "gs_epoch (ended_session actor now l g) = gs_epoch g"
  "gs_instanceCode (ended_session actor now l g) = gs_instanceCode g"
  "ended_player p p = next_epoch p"
  by (simp_all add: ended_player_def ended_session_def lease_ended_def)

lemma is_liveD:
  assumes "is_live lease p now"
  obtains l where "lease = Some l" "gs_player l = pl_id p" "gs_epoch l = pl_epoch p" "now < gs_expiresAt l" "gs_endedBy l = None"
  using assms by (auto simp: is_live_def sessionOf_def split: option.splits if_splits)

section \<open>Properties\<close>


lemma unique_audited:
  "unique_db s \<Longrightarrow> \<forall>x\<in>set (db_audits s). au_operationId x \<noteq> au_operationId a \<Longrightarrow> unique_db (audited_by a s)"
  by (auto simp: unique_db_def audited_by_def unique_docs_def)

lemma audited_by_fields [simp]:
  "db_players (audited_by a s) = db_players s" "db_sessions (audited_by a s) = db_sessions s"
  "db_users (audited_by a s) = db_users s" "db_audits (audited_by a s) = db_audits s @ [a]"
  by (simp_all add: audited_by_def)

lemma stored_fields [simp]:
  "au_operationId (storedAudit now auditId r g d) = rq_operationId r"
  "au_outcome (storedAudit now auditId r g d) = (if dn_refusal d = '''' then ''done'' else ''refused'')"
  "au_refusal (storedAudit now auditId r g d) = dn_refusal d" "au_epochAfter (storedAudit now auditId r g d) = dn_epochAfter d"
  "au_after (storedAudit now auditId r g d) = dn_after d"
  by (simp_all add: storedAudit_def)

lemma unique_ended:
  "unique_db s \<Longrightarrow> unique_db (s\<lparr>db_players := map (ended_player p) (db_players s), db_sessions := map (ended_session actor now l) (db_sessions s)\<rparr>)"
  by (simp add: unique_db_def unique_docs_map)

lemma session_inv_ended:
  assumes "session_inv s" "db_players t = map (ended_player p) (db_players s)"
    "db_sessions t = map (ended_session actor now l) (db_sessions s)" "unique_db t"
  shows "session_inv t"
  by (rule session_inv_follows [OF assms(1) _ assms(2,4)]) (auto simp: follows_def ended_player_def assms(3))

text \<open>A profile at a later epoch takes no commit of an older one.\<close>

lemma stale_commit:
  assumes "lawful_mongo M" "unique_docs pl_id (db_players s)" "p \<in> set (db_players s)" "cm_playerId c = pl_id p" "cm_epoch c \<noteq> pl_epoch p"
  shows "checkCommit M c s = Refused ''stale_session'' (pl_revision p)"
proof (cases "findById M (cm_playerId c) s")
  case None
  then show ?thesis using assms findById_None [OF assms(1)] by metis
next
  case (Some q)
  then have "q = p" using findById_Some [OF assms(1)] assms(2-4) by (metis unique_docs_eq)
  with Some assms(5) show ?thesis by (simp add: checkCommit_def)
qed

lemma set_map_one:
  assumes "unique_docs key c" "d \<in> set c" "f d = x" "\<And>e. key e \<noteq> key d \<Longrightarrow> f e = e"
  shows "set (map f c) = insert x {e \<in> set c. key e \<noteq> key d}"
proof -
  have "set c = insert d {e \<in> set c. key e \<noteq> key d}"
    using assms(2) unique_docs_eq [OF assms(1)] by blast
  then have "f ` set c = insert x (f ` {e \<in> set c. key e \<noteq> key d})" using assms(3) by (metis image_insert)
  also have "f ` {e \<in> set c. key e \<noteq> key d} = id ` {e \<in> set c. key e \<noteq> key d}"
    by (rule image_cong) (simp_all add: assms(4))
  finally show ?thesis by simp
qed

text \<open>A session an operator ended.\<close>

lemma ended_fences:
  assumes M: "lawful_mongo M" and inv: "session_inv s" and p: "p \<in> set (db_players s)"
    and l: "leaseOf M (pl_user p) s = Some l" "gs_epoch l = pl_epoch p"
    and t: "db_players t = map (ended_player p) (db_players s)" "db_sessions t = map (ended_session actor now l) (db_sessions s)" "unique_db t"
  shows "set (db_players t) = insert (next_epoch p) {q \<in> set (db_players s). pl_id q \<noteq> pl_id p}"
    and "set (db_sessions t) = insert (lease_ended actor now l) {g \<in> set (db_sessions s). gs_user g \<noteq> pl_user p}"
    and "leaseOf M (pl_user p) t = Some (lease_ended actor now l)"
    and "cm_playerId c = pl_id p \<Longrightarrow> cm_epoch c \<le> pl_epoch p \<Longrightarrow> checkCommit M c t = Refused ''stale_session'' (pl_revision p)"
    and "sr_accountId r = pl_user p \<Longrightarrow> liveLease M r t \<in> Inl ` {''revoked'', ''signed_in_elsewhere'', ''ended''}"
proof -
  have u: "unique_docs pl_id (db_players s)" "unique_docs gs_user (db_sessions s)"
    using inv by (simp_all add: session_inv_def unique_db_def)
  have lin: "l \<in> set (db_sessions s)" "gs_user l = pl_user p" using leaseOf_Some [OF M l(1)] by simp_all

  show P: "set (db_players t) = insert (next_epoch p) {q \<in> set (db_players s). pl_id q \<noteq> pl_id p}"
    unfolding t(1) by (rule set_map_one [OF u(1) p]) (simp_all add: ended_player_def)
  show S: "set (db_sessions t) = insert (lease_ended actor now l) {g \<in> set (db_sessions s). gs_user g \<noteq> pl_user p}"
    using set_map_one [OF u(2) lin(1), of "ended_session actor now l" "lease_ended actor now l"] lin(2)
    unfolding t(2) by (simp add: ended_session_def)
  show L: "leaseOf M (pl_user p) t = Some (lease_ended actor now l)"
    using lin by (intro leaseOf_unique [OF M t(3)]) (simp_all add: S lease_ended_def)
  show "checkCommit M c t = Refused ''stale_session'' (pl_revision p)" if "cm_playerId c = pl_id p" "cm_epoch c \<le> pl_epoch p"
    using stale_commit [OF M, of t "next_epoch p" c] t(3) that by (simp add: P unique_db_def) (simp add: next_epoch_def)
  show "liveLease M r t \<in> Inl ` {''revoked'', ''signed_in_elsewhere'', ''ended''}" if "sr_accountId r = pl_user p"
    using L that by (simp add: liveLease_def lease_ended_def)
qed

lemma endSession_run:
  assumes "endSession M now as auditId playerId operationId reason epoch actor s = (Inr a, t)"
  shows "operationWork M now auditId \<lparr>rq_playerId = jstr playerId, rq_operationId = jstr operationId, rq_actor = actor,
     rq_action = ''session.end'', rq_reason = reason_text reason, rq_batchId = ''''\<rparr> (endPlan M now actor (jint epoch)) s = (Inr a, t)"
  using assms by (auto simp: endSession_def runOperation_def Let_def dest: runTransaction_committed split: if_splits)

text \<open>C23: An operator that ends a session fences it. When the request is done for the first time, the
profile was at the epoch the operator saw and a live lease of it played; the profile takes the next
epoch and nothing else of any profile changes, that lease is ended and every other lease stays, the
server of the session is told so at its next call, and a commit of the epoch, or of an older one, is
refused. A refused request changes no profile and no lease.\<close>

theorem end_session_fences:
  assumes "lawful_mongo M" "session_inv s" "\<forall>x\<in>set (db_audits s). au_operationId x \<noteq> jstr operationId"
    and "endSession M now as auditId playerId operationId reason epoch actor s = (Inr a, t)"
  shows "session_inv t \<and> (an_outcome a = ''refused'' \<and> db_players t = db_players s \<and> db_sessions t = db_sessions s
    \<or> an_outcome a = ''done'' \<and> an_epoch a = jint epoch + 1
      \<and> (\<exists>p\<in>set (db_players s). \<exists>l\<in>set (db_sessions s). pl_id p = map to_lower (jstr playerId) \<and> pl_epoch p = jint epoch
        \<and> gs_user l = pl_user p \<and> is_live (Some l) p now
        \<and> set (db_players t) = insert (next_epoch p) {q \<in> set (db_players s). pl_id q \<noteq> pl_id p}
        \<and> set (db_sessions t) = insert (lease_ended actor now l) {g \<in> set (db_sessions s). gs_user g \<noteq> pl_user p}
        \<and> (\<forall>r. sr_accountId r = pl_user p \<longrightarrow> liveLease M r t \<in> Inl ` {''revoked'', ''signed_in_elsewhere'', ''ended''})
        \<and> (\<forall>c. cm_playerId c = pl_id p \<and> cm_epoch c \<le> pl_epoch p \<longrightarrow> checkCommit M c t = Refused ''stale_session'' (pl_revision p))))"
proof (rule operationWork_cases [OF assms(1) _ _ endSession_run [OF assms(4)]], goal_cases)
  case 1
  then show ?case using assms(2) by (simp add: session_inv_def unique_db_def)
next
  case 2
  then show ?case by simp
next
  case (3 x)
  then show ?case using assms(3) by (auto simp: records_request_def)
next
  case (4 g)
  let ?plan = "endPlan M now actor (jint epoch)" and ?p = "tg_profile g"
  note g = readTargetD [OF assms(1) 4(2)]
  have u: "unique_db s" using assms(2) by (simp add: session_inv_def)
  show ?case
  proof (cases "dn_refusal (?plan g) = ''''")
    case False
    then have "db_players t = db_players s" "db_sessions t = db_sessions s" "an_outcome a = ''refused''" "unique_db t"
      using 4 assms(3) u by (auto simp: planned_def answerOf_def intro: unique_audited)
    then show ?thesis using session_inv_same [OF assms(2)] by simp
  next
    case True
    then have e: "pl_epoch ?p = jint epoch" "is_live (tg_lease g) ?p now"
      by (auto simp: endPlan_def Let_def split: if_splits)
    then obtain l where l: "tg_lease g = Some l" "gs_epoch l = pl_epoch ?p" by (auto elim: is_liveD)
    have lin: "l \<in> set (db_sessions s)" "gs_user l = pl_user ?p" "leaseOf M (pl_user ?p) s = Some l"
      using l(1) g(3) leaseOf_Some [OF assms(1)] by auto
    have w: "planned ?plan g s = s\<lparr>db_players := map (ended_player ?p) (db_players s),
        db_sessions := map (ended_session actor now l) (db_sessions s)\<rparr>"
      using True endLease_eq [OF assms(1) u l(1)] by (simp add: planned_def endPlan_def Let_def)
    have t: "db_players t = map (ended_player ?p) (db_players s)" "db_sessions t = map (ended_session actor now l) (db_sessions s)" "unique_db t"
      using 4(3) assms(3) unique_ended [OF u] by (simp_all add: w unique_audited)
    note E = ended_fences [OF assms(1,2) g(1) lin(3) l(2) t]
    have a: "an_outcome a = ''done''" "an_epoch a = jint epoch + 1"
      using 4(4) True e(1) by (simp_all add: answerOf_def) (simp add: endPlan_def Let_def split: if_splits)
    show ?thesis
      using session_inv_ended [OF assms(2) t] a E g(1,2) e lin(1,2)
      by (intro conjI disjI2 bexI [of _ ?p] bexI [of _ l] allI impI) (simp_all add: l(1))
  qed
qed

definition sample_end :: "db \<Rightarrow> (error + op_answer) \<times> db" where
  "sample_end = endSession ref_mongo 100 [] sid1 (Str pid1) (Str ''operation-1'') (Str ''stuck session'') (JInt 1) uid2"

lemma session_inv_sample_db: "session_inv sample_db"
  by (simp add: session_inv_def one_profile_def leased_def)
    (simp add: sample_db_def empty_db_def sample_player_def new_player_def sample_lease_def new_world_def uid1_def uid2_def)

lemma sample_end_done: "fst (sample_end sample_db)
    = Inr \<lparr>an_operationId = ''operation-1'', an_outcome = ''done'', an_refusal = '''', an_epoch = 2, an_after = []\<rparr>"
  by code_simp

lemma end_session_fences_witness:
  "session_inv (snd (sample_end sample_db)) \<and> (\<exists>p\<in>set (db_players sample_db). pl_id p = pid1
     \<and> set (db_players (snd (sample_end sample_db))) = insert (next_epoch p) {q \<in> set (db_players sample_db). pl_id q \<noteq> pid1})"
proof -
  have "sample_end sample_db = (Inr \<lparr>an_operationId = ''operation-1'', an_outcome = ''done'', an_refusal = '''', an_epoch = 2, an_after = []\<rparr>,
      snd (sample_end sample_db))"
    using sample_end_done by (simp add: prod_eq_iff)
  from end_session_fences [OF lawful_ref_mongo session_inv_sample_db _ this [unfolded sample_end_def], folded sample_end_def]
  show ?thesis by (auto simp: sample_db_def empty_db_def pid1_def to_lower_def)
qed

definition end_request :: request where
  "end_request = \<lparr>rq_playerId = pid1, rq_operationId = ''operation-1'', rq_actor = uid2, rq_action = ''session.end'',
     rq_reason = ''stuck session'', rq_batchId = ''''\<rparr>"


section \<open>What a change of stacks keeps\<close>

definition content :: "stack \<Rightarrow> string \<times> string \<times> int \<times> int" where
  "content st = (st_itemId st, st_olCid st, st_quantity st, st_slot st)"

definition one_per_type :: "facts \<Rightarrow> stack list \<Rightarrow> bool" where
  "one_per_type F stacks \<longleftrightarrow> distinct (map (\<lambda>st. fa_typeOf F (st_olCid st)) (filter st_active stacks))"

definition skin_worn :: "facts \<Rightarrow> stack list \<Rightarrow> bool" where
  "skin_worn F stacks \<longleftrightarrow> list_ex (\<lambda>st. st_active st \<and> fa_typeOf F (st_olCid st) = ''skin'') stacks"

text \<open>Every stack of an item runs a definition of one type.\<close>

definition one_type :: "facts \<Rightarrow> stack list \<Rightarrow> bool" where
  "one_type F stacks \<longleftrightarrow> (\<forall>a\<in>set stacks. \<forall>b\<in>set stacks. st_itemId a = st_itemId b \<longrightarrow>
     fa_typeOf F (st_olCid a) = fa_typeOf F (st_olCid b))"

lemma distinct_filter_nth:
  "distinct (map f (filter P xs)) \<longleftrightarrow> (\<forall>i j. i < j \<longrightarrow> j < length xs \<longrightarrow> P (xs ! i) \<longrightarrow> P (xs ! j) \<longrightarrow> f (xs ! i) \<noteq> f (xs ! j))"
proof -
  have "distinct (map f (filter P xs)) \<longleftrightarrow> sorted_wrt (\<lambda>a b. P a \<longrightarrow> P b \<longrightarrow> f a \<noteq> f b) xs"
    by (induction xs) auto
  then show ?thesis by (simp add: sorted_wrt_iff_nth_less)
qed

lemma worn_length [simp]: "length (worn F stacks i) = length stacks"
  by (simp add: worn_def)

lemma worn_nth:
  "j < length stacks \<Longrightarrow> worn F stacks i ! j = (if j = i then (stacks ! j)\<lparr>st_active := True\<rparr>
     else if st_itemId (stacks ! j) = st_itemId (stacks ! i) \<or> fa_typeOf F (st_olCid (stacks ! j)) = fa_typeOf F (st_olCid (stacks ! i))
       then (stacks ! j)\<lparr>st_active := False\<rparr> else stacks ! j)"
  by (simp add: worn_def nth_enumerate_eq onePerType_def)

lemma content_active [simp]: "content (st\<lparr>st_active := b\<rparr>) = content st"
  by (simp add: content_def)

lemma worn_content: "map content (worn F stacks i) = map content stacks"
  by (rule nth_equalityI) (simp_all add: worn_nth)

lemma worn_one_per_type: "one_per_type F stacks \<Longrightarrow> one_per_type F (worn F stacks i)"
  unfolding one_per_type_def distinct_filter_nth by (auto simp: worn_nth split: if_splits)

lemma nth_update: "xs[i := x] ! j = (if i = j \<and> i < length xs then x else xs ! j)"
  by (cases "i < length xs") (simp_all add: nth_list_update list_update_beyond)

lemma off_one_per_type: "one_per_type F stacks \<Longrightarrow> one_per_type F (stacks[i := (stacks ! i)\<lparr>st_active := False\<rparr>])"
  unfolding one_per_type_def distinct_filter_nth by (auto simp: nth_update split: if_splits)

lemma quantity_one_per_type: "one_per_type F stacks \<Longrightarrow> one_per_type F (stacks[i := (stacks ! i)\<lparr>st_quantity := n\<rparr>])"
  unfolding one_per_type_def distinct_filter_nth by (auto simp: nth_update split: if_splits)

lemma slots_of_content: "map content xs = map content ys \<Longrightarrow> map st_slot xs = map st_slot ys"
proof -
  assume "map content xs = map content ys"
  then have "map (snd \<circ> snd \<circ> snd) (map content xs) = map (snd \<circ> snd \<circ> snd) (map content ys)" by simp
  then show ?thesis by (simp add: content_def comp_def)
qed

lemma worn_keeps_skin:
  assumes "skin_worn F stacks" "i < length stacks" "one_type F stacks"
  shows "skin_worn F (worn F stacks i)"
proof -
  obtain k where k: "k < length stacks" "st_active (stacks ! k)" "fa_typeOf F (st_olCid (stacks ! k)) = ''skin''"
    using assms(1) by (auto simp: skin_worn_def list_ex_length)
  show ?thesis
  proof (cases "fa_typeOf F (st_olCid (stacks ! i)) = ''skin''")
    case True
    then show ?thesis using assms(2) by (auto simp: skin_worn_def list_ex_length worn_nth intro!: exI [of _ i])
  next
    case False
    then have "k \<noteq> i" using k(3) by blast
    moreover have "st_itemId (stacks ! k) \<noteq> st_itemId (stacks ! i)"
      using assms(3) nth_mem [OF k(1)] nth_mem [OF assms(2)] k(3) False unfolding one_type_def by metis
    ultimately show ?thesis using k False by (auto simp: skin_worn_def list_ex_length worn_nth intro!: exI [of _ k])
  qed
qed

lemma filter_update_length:
  "length (filter P (xs[i := x])) \<le> length (filter P xs) + (if P x \<and> \<not> P (xs ! i) then 1 else 0)"
proof (cases "i < length xs")
  case True
  have "length (filter P (take i xs @ x # drop (Suc i) xs)) \<le> length (filter P (take i xs @ xs ! i # drop (Suc i) xs))
      + (if P x \<and> \<not> P (xs ! i) then 1 else 0)" by simp
  then show ?thesis unfolding upd_conv_take_nth_drop [OF True] id_take_nth_drop [OF True, symmetric] .
qed (simp add: list_update_beyond)

lemma skin_worn_quantity: "skin_worn F stacks \<Longrightarrow> skin_worn F (stacks[i := (stacks ! i)\<lparr>st_quantity := n\<rparr>])"
proof -
  assume "skin_worn F stacks"
  then obtain k where k: "k < length stacks" "st_active (stacks ! k)" "fa_typeOf F (st_olCid (stacks ! k)) = ''skin''"
    by (auto simp: skin_worn_def list_ex_length)
  then show ?thesis by (auto simp: skin_worn_def list_ex_length nth_update intro!: exI [of _ k])
qed

lemma skin_worn_off:
  assumes "skin_worn F stacks" "fa_typeOf F (st_olCid (stacks ! i)) \<noteq> ''skin''"
  shows "skin_worn F (stacks[i := (stacks ! i)\<lparr>st_active := False\<rparr>])"
proof -
  obtain k where k: "k < length stacks" "st_active (stacks ! k)" "fa_typeOf F (st_olCid (stacks ! k)) = ''skin''"
    using assms(1) by (auto simp: skin_worn_def list_ex_length)
  then have "i \<noteq> k" using assms(2) by blast
  with k show ?thesis by (auto simp: skin_worn_def list_ex_length nth_update intro!: exI [of _ k])
qed

text \<open>The operations of a change, one by one.\<close>

lemma stackChange_cases:
  assumes "stackChange p change F = Inr r"
  defines "stacks \<equiv> stacks_of p (jstr (jget change ''container''))"
  obtains (add) added where "jget change ''op'' = Str ''add''" "sc_stacks r = stacks @ [added]" "\<not> st_active added"
      "st_slot added \<notin> set (map st_slot stacks)"
      "st_slot added < containerSlots (CAPACITY (jstr (jget change ''container''))) (levelAtXp (pl_xp p) PROGRESSION_RULES_DEFAULTS)"
      "isInteger (jget change ''slot'') \<Longrightarrow> st_slot added = jint (jget change ''slot'')"
      "\<not> isInteger (jget change ''slot'') \<Longrightarrow> 0 \<le> st_slot added"
      "st_olCid added = fa_boundCid F (st_itemId added)" "st_olCid added \<noteq> ''''" "fa_typeOf F (st_olCid added) \<noteq> ''coin''"
      "st_itemId added = jstr (jget change ''itemId'')" "st_quantity added = jint (jget change ''quantity'')"
    | (remove) "jget change ''op'' = Str ''remove''" "sc_stacks r = filter (\<lambda>st. \<not> names_stack change st) stacks"
    | (quantity) i where "jget change ''op'' = Str ''quantity''" "i < length stacks" "names_stack change (stacks ! i)"
        "sc_stacks r = stacks[i := (stacks ! i)\<lparr>st_quantity := jint (jget change ''quantity'')\<rparr>]"
    | (wear) i where "jget change ''op'' = Str ''activate''" "jstr (jget change ''container'') = ''bag''" "i < length stacks"
        "names_stack change (stacks ! i)" "fa_typeOf F (st_olCid (stacks ! i)) \<in> set ACTIVE_ITEM_TYPES"
        "sc_stacks r = worn F stacks i" "length (filter st_active (worn F stacks i)) \<le> maxActiveLayers"
    | (off) i where "jget change ''op'' \<notin> Str ` {''add'', ''remove'', ''quantity'', ''activate''}" "jstr (jget change ''container'') = ''bag''"
        "i < length stacks" "names_stack change (stacks ! i)" "sc_stacks r = stacks[i := (stacks ! i)\<lparr>st_active := False\<rparr>]"
        "fa_typeOf F (st_olCid (stacks ! i)) \<noteq> ''skin'' \<or> skin_worn F (sc_stacks r)"
proof -
  let ?op = "jget change ''op''" and ?c = "jstr (jget change ''container'')"
  consider (a) "?op = Str ''add''" | (b) i where "?op \<noteq> Str ''add''" "find_index (names_stack change) stacks = Some i"
    using assms(1) by (auto simp: stackChange_def Let_def stacks_def split: if_splits option.splits)
  then show ?thesis
  proof cases
    case a
    then have r: "add_stack p change F = Inr r" using assms(1) by (simp add: stackChange_def Let_def)
    have free: "0 \<le> n" if "first_free m ss = Some n" for m ss n using that by (auto simp: first_free_def)
    from r show ?thesis
      by (intro add [of "last (sc_stacks r)"]) (auto simp: a add_stack_def Let_def stacks_def dest: free split: if_splits option.splits)
  next
    case (b i)
    then have i: "i < length stacks" "names_stack change (stacks ! i)" using find_index_Some by force+
    consider (r) "?op = Str ''remove''" | (q) "?op = Str ''quantity''" | (w) "?op \<notin> Str ` {''remove'', ''quantity''}" by blast
    then show ?thesis
    proof cases
      case r
      then show ?thesis using assms(1) b by (intro remove) (auto simp: stackChange_def Let_def stacks_def)
    next
      case q
      then show ?thesis using assms(1) b i by (intro quantity [of i]) (auto simp: stackChange_def Let_def stacks_def)
    next
      case w
      then have bag: "?c = ''bag''" and ws: "wear_stack ?op F stacks i = Inr r"
        using assms(1) b by (auto simp: stackChange_def Let_def stacks_def split: if_splits)
      show ?thesis
      proof (cases "?op = Str ''activate''")
        case True
        then show ?thesis
          using ws bag i by (intro wear [of i]) (auto simp: wear_stack_def Let_def split: if_splits)
      next
        case False
        then show ?thesis
          using ws w b(1) bag i by (intro off [of i]) (auto simp: wear_stack_def Let_def requireSkin_def skin_worn_def split: if_splits)
      qed
    qed
  qed
qed

lemma changeDefect_slot:
  assumes "changeDefect change = ''''" "isInteger (jget change ''slot'')"
  shows "0 \<le> jint (jget change ''slot'')"
  using assms by (cases "jget change ''slot''") (auto simp: changeDefect_def Let_def split: if_splits)

lemma stored_stacks [simp]: "container \<noteq> ''bag'' \<Longrightarrow> stacks_of p container = pl_storage p"
  by (simp add: stacks_of_def)

lemma map_upd_same: "f x = f (xs ! i) \<Longrightarrow> map f (xs[i := x]) = map f xs"
  by (rule nth_equalityI) (simp_all add: nth_update)

lemma slots_in: "map st_slot xs = map st_slot ys \<Longrightarrow> \<forall>st\<in>set xs. st_slot st \<in> st_slot ` set ys"
  by (metis image_eqI set_map)

lemma none_active:
  assumes "length (filter P xs) \<le> length (filter P ys)" "\<forall>y\<in>set ys. \<not> P y"
  shows "\<forall>x\<in>set xs. \<not> P x"
proof -
  have "filter P ys = []" using assms(2) by simp
  then have "filter P xs = []" using assms(1) by simp
  then show ?thesis by (simp add: filter_empty_conv)
qed

text \<open>What the changes that keep every slot share.\<close>

lemma same_slots_sound:
  fixes xs :: "stack list"
  assumes "map st_slot xs = map st_slot (stacks_of p container)" "distinct (map st_slot (stacks_of p container))"
    and "length (filter st_active xs) \<le> length (filter st_active (stacks_of p container)) \<or> container = ''bag''"
  shows "distinct (map st_slot xs)" "\<forall>st\<in>set xs. st_slot st \<in> st_slot ` set (stacks_of p container)"
    "(\<forall>st\<in>set (pl_storage p). \<not> st_active st) \<and> container \<noteq> ''bag'' \<longrightarrow> (\<forall>st\<in>set xs. \<not> st_active st)"
proof -
  show "distinct (map st_slot xs)" by (simp only: assms(1,2))
  show "\<forall>st\<in>set xs. st_slot st \<in> st_slot ` set (stacks_of p container)" by (rule slots_in [OF assms(1)])
  show "(\<forall>st\<in>set (pl_storage p). \<not> st_active st) \<and> container \<noteq> ''bag'' \<longrightarrow> (\<forall>st\<in>set xs. \<not> st_active st)"
    using assms(3) none_active [of st_active xs "pl_storage p"] stored_stacks [of container p] by metis
qed


section \<open>Restrictions of an account\<close>

lemma restrictAccount_run:
  assumes "restrictAccount D M now as auditId playerId operationId reason op until actor actorRole batchId s = (Inr a, t)"
  shows "operationWork M now auditId \<lparr>rq_playerId = jstr playerId, rq_operationId = jstr operationId, rq_actor = actor,
     rq_action = ''account.'' @ jstr op, rq_reason = reason_text reason, rq_batchId = batchId\<rparr>
     (restrictionPlan D M now op until (reason_text reason) actor actorRole) s = (Inr a, t)"
    and "restrictionDefect D now op until = ''''" "op = Str ''ban'' \<Longrightarrow> commonAdminGuard actorRole"
  using assms by (auto simp: restrictAccount_def runOperation_def Let_def dest: runTransaction_committed split: if_splits)

lemma restrictionRefusal_none:
  assumes "restrictionRefusal account current op actor actorRole = ''''"
  obtains u where "account = Some u" "us_id u \<noteq> actor" "us_role u \<noteq> ''admin''"
    "us_role u = ''moderator'' \<Longrightarrow> commonAdminGuard actorRole"
    "op = ''lift'' \<Longrightarrow> \<exists>r. current = Some r \<and> (re_kind r = ''ban'' \<longrightarrow> commonAdminGuard actorRole)"
  using assms by (auto simp: restrictionRefusal_def Let_def split: option.splits if_splits)

lemma restricted_users:
  assumes "lawful_mongo M" "unique_db s" "u \<in> set (db_users s)"
  shows "snd (snd (drv_update_one (mg_users M) (\<lambda>v. us_id v = us_id u) (restricted r) (db_users s)))
      = map (\<lambda>v. if us_id v = us_id u then restricted r v else v) (db_users s)"
  using assms by (intro collection.update_one_unique [OF lawful_mongoD(10) [OF assms(1)], where k = "us_id u"]) (simp_all add: unique_db_def)

lemma restricted_id [simp]: "us_id (restricted r u) = us_id u"
  by (simp add: restricted_def split: option.splits)

lemma restriction_written:
  assumes M: "lawful_mongo M" and u: "unique_db s" and g: "tg_account g = Some u'" "u' \<in> set (db_users s)"
    and l: "\<And>l. tg_lease g = Some l \<Longrightarrow> leaseOf M (pl_user (tg_profile g)) s = Some l"
    and ok: "dn_refusal (restrictionPlan D M now op until reason actor role g) = ''''"
  defines "r \<equiv> restrictionOfRequest D now op until reason actor"
  obtains (ends) l where "r \<noteq> None" "is_live (tg_lease g) (tg_profile g) now" "tg_lease g = Some l"
      "planned (restrictionPlan D M now op until reason actor role) g s = s\<lparr>
         db_users := map (\<lambda>v. if us_id v = us_id u' then restricted r v else v) (db_users s),
         db_players := map (ended_player (tg_profile g)) (db_players s), db_sessions := map (ended_session actor now l) (db_sessions s)\<rparr>"
    | (stays) "r = None \<or> \<not> is_live (tg_lease g) (tg_profile g) now"
      "planned (restrictionPlan D M now op until reason actor role) g s = s\<lparr>
         db_users := map (\<lambda>v. if us_id v = us_id u' then restricted r v else v) (db_users s)\<rparr>"
proof -
  let ?users = "map (\<lambda>v. if us_id v = us_id u' then restricted r v else v) (db_users s)"
  let ?s = "s\<lparr>db_users := ?users\<rparr>"
  have us: "unique_db ?s" using u by (simp add: unique_db_def unique_docs_map)
  have w: "planned (restrictionPlan D M now op until reason actor role) g s =
      (if r \<noteq> None \<and> is_live (tg_lease g) (tg_profile g) now then endLease M now actor g ?s else ?s)"
    unfolding planned_def ok r_def
    by (simp only: restrictionPlan_def Let_def decision.simps option.sel g(1) refl if_True restricted_users [OF M u g(2)])
  show ?thesis
  proof (cases "r \<noteq> None \<and> is_live (tg_lease g) (tg_profile g) now")
    case True
    then obtain l where l: "tg_lease g = Some l" by (auto elim: is_liveD)
    show ?thesis using True w l endLease_eq [OF M us l] by (intro ends [of l]) simp_all
  next
    case False
    then show ?thesis using w by (intro stays) auto
  qed
qed


lemma liveAccount_revoked:
  assumes M: "lawful_mongo M" and u: "unique_docs us_id (db_users s)" and r: "restricted (Some x) u \<in> set (db_users s)"
  shows "liveAccount M (us_id u) session s = None"
proof -
  have "\<forall>v\<in>set (db_users s). \<not> (us_id v = us_id u \<and> session \<in> set (us_activeSessions v) \<and> us_role v \<noteq> ''guest'')"
  proof
    fix v assume v: "v \<in> set (db_users s)"
    show "\<not> (us_id v = us_id u \<and> session \<in> set (us_activeSessions v) \<and> us_role v \<noteq> ''guest'')"
    proof
      assume c: "us_id v = us_id u \<and> session \<in> set (us_activeSessions v) \<and> us_role v \<noteq> ''guest''"
      then have "v = restricted (Some x) u" using unique_docs_eq [OF u v r] by simp
      with c show False by (simp add: restricted_def)
    qed
  qed
  then show ?thesis unfolding liveAccount_def by (simp only: collection.find_one_none [OF lawful_mongoD(10) [OF M]])
qed

lemma ended_not_live: "leaseOf M u s = Some (lease_ended actor now l) \<Longrightarrow> \<not> is_live (leaseOf M u s) p at_time"
  by (auto simp: is_live_def sessionOf_def lease_ended_def split: if_splits)

lemma is_live_later: "\<not> is_live g p now \<Longrightarrow> now \<le> later \<Longrightarrow> \<not> is_live g p later"
  by (auto simp: is_live_def sessionOf_def split: option.splits if_splits)

lemma restriction_holds:
  assumes "restrictionDefect D now op until = ''''" "op \<noteq> Str ''lift''"
  shows "restrictionOf (Some (restricted (restrictionOfRequest D now op until reason actor) u)) now
    = restrictionOfRequest D now op until reason actor"
  using assms by (auto simp: restrictionDefect_def restrictionOf_def restricted_def restrictionOfRequest_def
      split: if_splits option.splits)

lemma unique_user_docs: "unique_db s \<Longrightarrow> unique_docs us_id (db_users s)"
  by (simp add: unique_db_def)


section \<open>Batches\<close>

lemma chunks_Nil [simp]: "chunks [] = []"
  by (simp add: chunks.simps)

lemma concat_chunks [simp]: "concat (chunks ts) = ts"
proof (induction ts rule: chunks.induct)
  case (1 ts)
  then show ?case by (cases "ts = []") (simp_all add: chunks.simps [of ts])
qed

lemma length_chunk: "c \<in> set (chunks ts) \<Longrightarrow> length c \<le> CONCURRENCY"
proof (induction ts rule: chunks.induct)
  case (1 ts)
  then show ?case by (cases "ts = []") (auto simp: chunks.simps [of ts])
qed

lemma set_ordered:
  assumes "\<And>c. set (order c) = set c"
  shows "set (concat (map order (chunks ts))) = set ts"
proof -
  have "set (concat (map order (chunks ts))) = set (concat (chunks ts))" by (simp add: assms del: concat_chunks)
  also have "\<dots> = set ts" unfolding concat_chunks ..
  finally show ?thesis .
qed

lemma run_each_read: "run_each (\<lambda>t s. (f t s, s)) ts s = (map (\<lambda>t. (t, f t s)) ts, s)"
  by (induction ts) simp_all

text \<open>What a preview decides is what the request does in the same state.\<close>

lemma preview_is_run:
  assumes "lawful_mongo M" "unique_docs au_operationId (db_audits s)" "keeps_audits plan"
    and "\<forall>x\<in>set (db_audits s). au_operationId x \<noteq> rq_operationId r"
    and "rq_action r \<in> set PLAYER_AUDIT_ACTIONS" "rq_reason r \<noteq> ''''" "rq_operationId r \<noteq> ''''"
  shows "case previewOne M plan (rq_playerId r) s of
      Failed p m \<Rightarrow> runOne M now [] auditId r plan s = (Failed p m, s)
    | Previewed p name outcome refusal before after \<Rightarrow>
        (outcome = ''eligible'' \<longleftrightarrow> refusal = '''') \<and> (\<exists>t e. runOne M now [] auditId r plan s =
          (Ran p \<lparr>an_operationId = rq_operationId r, an_outcome = (if outcome = ''eligible'' then ''done'' else ''refused''),
             an_refusal = refusal, an_epoch = e, an_after = after\<rparr>, t))
    | Ran _ _ \<Rightarrow> False"
proof (cases "readTarget M (rq_playerId r) s")
  case (Inl e)
  have "drv_find_one (mg_audits M) (\<lambda>a. au_operationId a = rq_operationId r) (db_audits s) = None"
    using assms(4) by (simp only: collection.find_one_none [OF lawful_mongoD(13) [OF assms(1)]])
  with Inl show ?thesis by (simp add: previewOne_def runOne_def runOperation_def operationWork_def)
next
  case (Inr g)
  note run = operationWork_fresh [OF assms(1-4) Inr assms(5-7), of now auditId]
  show ?thesis
    by (simp add: previewOne_def Inr Let_def runOne_def runOperation_def run answerOf_def storedAudit_def)
qed

lemma batchOperation_keeps: "keeps_audits (snd (batchOperation D M now C operation epoch reason actor actorRole))"
  by (simp add: batchOperation_def)


section \<open>Witnesses\<close>

definition sample_stack :: "string \<Rightarrow> string \<Rightarrow> int \<Rightarrow> bool \<Rightarrow> stack" where
  "sample_stack itemId cid slot active = \<lparr>st_itemId = itemId, st_olCid = cid, st_quantity = 1, st_slot = slot, st_active = active\<rparr>"

definition worn_player :: player where
  "worn_player = (sample_player pid1 uid1)\<lparr>pl_bag := [sample_stack ''robe'' ''c1'' 0 True, sample_stack ''sword'' ''c2'' 1 False]\<rparr>"

definition sample_facts :: facts where
  "sample_facts = \<lparr>fa_boundCid = (\<lambda>i. if i = ''sword'' then ''c2'' else ''''),
     fa_typeOf = (\<lambda>c. if c = ''c1'' then ''skin'' else if c = ''c2'' then ''weapon'' else '''')\<rparr>"

definition wear_sword :: js where
  "wear_sword = Obj [(''op'', Str ''activate''), (''container'', Str ''bag''), (''itemId'', Str ''sword'')]"


text \<open>An operation named by an array passes the checks, is recorded as the operation of its element, and
takes the stack off.\<close>

lemma array_op_takes_off:
  "let change = Obj [(''op'', Arr [Str ''add'']), (''container'', Str ''bag''), (''itemId'', Str ''robe'')];
       F = sample_facts\<lparr>fa_typeOf := \<lambda>_. ''weapon''\<rparr> in
   changeDefect change = '''' \<and> stack_action (jget change ''op'') = ''inventory.add''
   \<and> map_sum id (map st_active \<circ> sc_stacks) (stackChange worn_player change F) = Inr [False, False]"
  by code_simp

definition sample_date :: "js \<Rightarrow> ms option" where
  "sample_date v = (if isInteger v then Some (jint v) else None)"

definition sample_lock :: "db \<Rightarrow> (error + op_answer) \<times> db" where
  "sample_lock = restrictAccount sample_date ref_mongo 100 [] sid1 (Str pid1) (Str ''operation-2'') (Str ''cheating'') (Str ''lock'')
     (JInt 90000000) uid2 ''moderator'' ''''"


definition sample_targets :: js where
  "sample_targets = Arr [Obj [(''playerId'', Str pid1), (''epoch'', JInt 1)], Obj [(''playerId'', Str pid2), (''epoch'', JInt 9)]]"

definition sample_batch :: "db \<Rightarrow> (error + batch_result list) \<times> db" where
  "sample_batch = runBatch sample_date ref_mongo 100 sample_facts (\<lambda>_. []) (\<lambda>_. sid1) id (Str ''batch-01'') sample_targets
     (Obj [(''type'', Str ''account''), (''op'', Str ''lock''), (''until'', JInt 90000000)]) (Str ''cheating'') True sid2 ''moderator''"


end
