(* ===== verification/Loadout.thy ===== *)
theory Loadout imports Operations begin

text \<open>
  What a placed entity spawns with: the default its items select, the inventory that default derives
  and the equipment rules over it, from \<open>src/api/cyberia-server-defaults/cyberia-server-defaults.js\<close>
  (\<open>resolveEntityDefaultBuild\<close>, \<open>resolveEntityInventory\<close>, \<open>applyEquipmentRules\<close>, \<open>resolveSpawnLoadout\<close>).

  A list a default leaves out is empty. The types of items are a function, the empty text where none is
  known; the amounts and the chances of an override are finite numbers or left out.
\<close>

section \<open>Entity defaults\<close>

record override =
  ov_itemId :: string
  ov_active :: "bool option"
  ov_quantity :: "rat option"
  ov_dropChance :: "rat option"

record entity_default =
  df_entityType :: string
  df_liveItemIds :: "string list"
  df_deadItemIds :: "string list"
  df_dropItemIds :: "string list"
  df_inventoryItemsIds :: "string list"
  df_overrides :: "override list"

text \<open>The loop over the candidates: the first of the type, the best match and its size.\<close>

fun match_default :: "string \<Rightarrow> string set \<Rightarrow> entity_default option \<Rightarrow> entity_default option \<Rightarrow> nat \<Rightarrow> entity_default list
    \<Rightarrow> entity_default option" where
  "match_default type carried first matched most [] = (case matched of None \<Rightarrow> first | Some d \<Rightarrow> Some d)"
| "match_default type carried first matched most (d # ds) =
     (if df_entityType d \<noteq> type then match_default type carried first matched most ds
      else let first = (case first of None \<Rightarrow> Some d | Some e \<Rightarrow> Some e); live = df_liveItemIds d in
        if carried = {} \<or> live = [] \<or> \<not> set live \<subseteq> carried \<or> length live \<le> most
        then match_default type carried first matched most ds
        else match_default type carried first (Some d) (length live) ds)"

definition resolveEntityDefaultBuild :: "string \<Rightarrow> string list \<Rightarrow> entity_default list \<Rightarrow> entity_default option" where
  "resolveEntityDefaultBuild type itemIds defaults = match_default type (set (filter (\<lambda>i. i \<noteq> '''') itemIds)) None None 0 defaults"

section \<open>The inventory of a default\<close>

text \<open>\<open>[...new Set(xs)]\<close>: each value once, at its first place.\<close>

fun each_once :: "'a list \<Rightarrow> 'a list" where
  "each_once [] = []"
| "each_once (x # xs) = x # filter (\<lambda>y. y \<noteq> x) (each_once xs)"

record inv_row =
  iv_itemId :: string
  iv_active :: bool
  iv_quantity :: rat
  iv_dropChance :: rat

definition overrides_of :: "entity_default \<Rightarrow> string \<Rightarrow> override option" where
  "overrides_of d = map_of (rev (map (\<lambda>rule. (ov_itemId rule, rule)) (filter (\<lambda>rule. ov_itemId rule \<noteq> '''') (df_overrides d))))"

definition default_ids :: "entity_default \<Rightarrow> string list" where
  "default_ids d = each_once (filter (\<lambda>i. i \<noteq> '''')
     (df_liveItemIds d @ df_deadItemIds d @ df_dropItemIds d @ df_inventoryItemsIds d))"

definition inventory_row :: "entity_default \<Rightarrow> string \<Rightarrow> inv_row" where
  "inventory_row d i =
     (let rule = overrides_of d i;
          active = (case Option.bind rule ov_active of Some b \<Rightarrow> b | None \<Rightarrow> i \<in> set (df_liveItemIds d));
          held = active \<or> i \<in> set (df_inventoryItemsIds d)
      in \<lparr>iv_itemId = i, iv_active = active,
          iv_quantity = (case Option.bind rule ov_quantity of Some q \<Rightarrow> q | None \<Rightarrow> if held then 1 else 0),
          iv_dropChance = (case Option.bind rule ov_dropChance of
             Some c \<Rightarrow> if i \<in> set (df_dropItemIds d) then min 1 (max 0 c) else 1 | None \<Rightarrow> 1)\<rparr>)"

text \<open>The items that yield to an earlier contender of their type.\<close>

fun yielding :: "(string \<Rightarrow> string) \<Rightarrow> string set \<Rightarrow> inv_row list \<Rightarrow> string list" where
  "yielding typeOf claimed [] = []"
| "yielding typeOf claimed (r # rs) =
     (let type = typeOf (iv_itemId r) in
      if type \<notin> set ACTIVE_ITEM_TYPES then yielding typeOf claimed rs
      else if type \<in> claimed then iv_itemId r # yielding typeOf claimed rs
      else yielding typeOf (insert type claimed) rs)"

definition authored :: "(string \<Rightarrow> override option) \<Rightarrow> inv_row \<Rightarrow> bool" where
  "authored overrides r \<longleftrightarrow> Option.bind (overrides (iv_itemId r)) ov_active = Some True"

definition contenders :: "(string \<Rightarrow> override option) \<Rightarrow> inv_row list \<Rightarrow> inv_row list" where
  "contenders overrides rows = filter (\<lambda>r. iv_active r \<and> authored overrides r) rows
     @ filter (\<lambda>r. iv_active r \<and> \<not> authored overrides r) rows"

definition applyEquipmentRules :: "(string \<Rightarrow> string) option \<Rightarrow> (string \<Rightarrow> override option) \<Rightarrow> inv_row list \<Rightarrow> inv_row list" where
  "applyEquipmentRules itemTypes overrides rows =
     (case itemTypes of None \<Rightarrow> rows
      | Some typeOf \<Rightarrow> if \<not> onePerType then rows
          else let deactivated = yielding typeOf {} (contenders overrides rows) in
            map (\<lambda>r. if iv_itemId r \<in> set deactivated then r\<lparr>iv_active := False\<rparr> else r) rows)"

definition resolveEntityInventory :: "entity_default \<Rightarrow> (string \<Rightarrow> string) option \<Rightarrow> inv_row list" where
  "resolveEntityInventory d itemTypes = applyEquipmentRules itemTypes (overrides_of d) (map (inventory_row d) (default_ids d))"

section \<open>The layers of a spawn\<close>

record spawn_layer =
  ly_itemId :: string
  ly_active :: bool
  ly_quantity :: rat
  ly_dropChance :: "rat option"

definition layer_of_row :: "inv_row \<Rightarrow> spawn_layer" where
  "layer_of_row r = \<lparr>ly_itemId = iv_itemId r, ly_active = iv_active r, ly_quantity = iv_quantity r, ly_dropChance = Some (iv_dropChance r)\<rparr>"

definition placed_layer :: "string \<Rightarrow> spawn_layer" where
  "placed_layer i = \<lparr>ly_itemId = i, ly_active = True, ly_quantity = 1, ly_dropChance = None\<rparr>"

definition add_layer :: "spawn_layer \<Rightarrow> spawn_layer list \<Rightarrow> spawn_layer list" where
  "add_layer l layers = (if ly_itemId l \<noteq> '''' \<and> ly_itemId l \<notin> set (map ly_itemId layers) then layers @ [l] else layers)"

definition placed_or_row :: "inv_row list \<Rightarrow> string \<Rightarrow> spawn_layer" where
  "placed_or_row rows i = (case List.find (\<lambda>r. iv_itemId r = i) rows of None \<Rightarrow> placed_layer i | Some r \<Rightarrow> layer_of_row r)"

text \<open>The last pass: the types claimed so far and the number of layers worn.\<close>

fun wear_layers :: "(string \<Rightarrow> string) \<Rightarrow> nat \<Rightarrow> string set \<Rightarrow> nat \<Rightarrow> spawn_layer list \<Rightarrow> spawn_layer list" where
  "wear_layers typeOf most claimed on [] = []"
| "wear_layers typeOf most claimed on (l # ls) =
     (let type = typeOf (ly_itemId l); governed = type \<in> set ACTIVE_ITEM_TYPES in
      if \<not> ly_active l then l # wear_layers typeOf most claimed on ls
      else if governed \<and> onePerType \<and> type \<in> claimed then l\<lparr>ly_active := False\<rparr> # wear_layers typeOf most claimed on ls
      else let claimed = (if governed then insert type claimed else claimed) in
        if 0 < most \<and> most \<le> on then l\<lparr>ly_active := False\<rparr> # wear_layers typeOf most claimed on ls
        else l # wear_layers typeOf most claimed (on + 1) ls)"

definition spawn_rows :: "entity_default option \<Rightarrow> (string \<Rightarrow> string) \<Rightarrow> inv_row list" where
  "spawn_rows build itemTypes = (case build of None \<Rightarrow> [] | Some d \<Rightarrow> resolveEntityInventory d (Some itemTypes))"

definition spawn_layers :: "string list \<Rightarrow> entity_default \<Rightarrow> (string \<Rightarrow> string) \<Rightarrow> spawn_layer list" where
  "spawn_layers itemIds d itemTypes =
     (let rows = spawn_rows (Some d) itemTypes;
          layers = fold add_layer (map layer_of_row rows) (fold add_layer (map (placed_or_row rows) itemIds) [])
      in if layers = [] then fold add_layer (map placed_layer (df_liveItemIds d)) [] else layers)"

definition resolveSpawnLoadout :: "string list \<Rightarrow> bool \<Rightarrow> entity_default option \<Rightarrow> (string \<Rightarrow> string) \<Rightarrow> nat \<Rightarrow> spawn_layer list" where
  "resolveSpawnLoadout itemIds seedDefaults build itemTypes most =
     (case build of None \<Rightarrow> fold add_layer (map (placed_or_row []) itemIds) []
      | Some d \<Rightarrow> if \<not> seedDefaults then fold add_layer (map (placed_or_row (spawn_rows build itemTypes)) itemIds) []
          else wear_layers itemTypes most {} 0 (spawn_layers itemIds d itemTypes))"

section \<open>The default an entity selects\<close>

text \<open>The reference: among the defaults of the type whose live items the entity carries, the one that names
most, the first of equals; where none is contained, the first of the type.\<close>

definition contained :: "string \<Rightarrow> string set \<Rightarrow> entity_default \<Rightarrow> bool" where
  "contained type carried d \<longleftrightarrow> df_entityType d = type \<and> df_liveItemIds d \<noteq> [] \<and> set (df_liveItemIds d) \<subseteq> carried"

fun most_contained :: "string \<Rightarrow> string set \<Rightarrow> entity_default list \<Rightarrow> nat" where
  "most_contained type carried [] = 0"
| "most_contained type carried (d # ds) =
     (if contained type carried d then max (length (df_liveItemIds d)) (most_contained type carried ds) else most_contained type carried ds)"

definition best_default :: "string \<Rightarrow> string set \<Rightarrow> entity_default list \<Rightarrow> entity_default option" where
  "best_default type carried ds = (if most_contained type carried ds = 0 then List.find (\<lambda>d. df_entityType d = type) ds
     else List.find (\<lambda>d. contained type carried d \<and> length (df_liveItemIds d) = most_contained type carried ds) ds)"

lemma match_default_best:
  "match_default type carried first matched n ds =
     (if n < most_contained type carried ds
      then List.find (\<lambda>d. contained type carried d \<and> length (df_liveItemIds d) = most_contained type carried ds) ds
      else case matched of Some m \<Rightarrow> Some m
        | None \<Rightarrow> (case first of Some f \<Rightarrow> Some f | None \<Rightarrow> List.find (\<lambda>d. df_entityType d = type) ds))"
proof (induction ds arbitrary: first matched n)
  case (Cons d ds)
  have "contained type carried d \<longleftrightarrow> df_entityType d = type \<and> \<not> (carried = {} \<or> df_liveItemIds d = [] \<or> \<not> set (df_liveItemIds d) \<subseteq> carried)"
    by (auto simp: contained_def)
  then show ?case using Cons.IH
    by (cases "n < length (df_liveItemIds d)"; cases "length (df_liveItemIds d) < most_contained type carried ds")
      (auto simp: Let_def split: option.splits)
qed (simp split: option.split)

lemma resolveEntityDefaultBuild_best:
  "resolveEntityDefaultBuild type itemIds ds = best_default type {i \<in> set itemIds. i \<noteq> ''''} ds"
  by (simp add: resolveEntityDefaultBuild_def match_default_best best_default_def)

section \<open>The equipment rules\<close>

lemma set_each_once [simp]: "set (each_once xs) = set xs"
  by (induction xs) auto

lemma distinct_each_once [simp]: "distinct (each_once xs)"
  by (induction xs) auto

lemma inventory_ids: "map iv_itemId (resolveEntityInventory d types) = default_ids d"
proof -
  have "iv_itemId (inventory_row d i) = i" for i by (simp add: inventory_row_def Let_def)
  then show ?thesis
    by (auto simp: resolveEntityInventory_def applyEquipmentRules_def Let_def comp_def intro!: map_idI split: option.split)
qed

lemma default_ids_sound: "distinct (default_ids d)" "'''' \<notin> set (default_ids d)"
  by (auto simp: default_ids_def)

text \<open>A contender yields exactly when its type is governed and claimed, or taken by an earlier one.\<close>

lemma yielding_iff:
  assumes "distinct (map iv_itemId (as @ r # bs))"
  shows "iv_itemId r \<in> set (yielding typeOf claimed (as @ r # bs)) \<longleftrightarrow>
    typeOf (iv_itemId r) \<in> set ACTIVE_ITEM_TYPES
    \<and> (typeOf (iv_itemId r) \<in> claimed \<or> (\<exists>a\<in>set as. typeOf (iv_itemId a) = typeOf (iv_itemId r)))"
proof -
  have sub: "set (yielding typeOf claimed rs) \<subseteq> iv_itemId ` set rs" for claimed rs
    by (induction typeOf claimed rs rule: yielding.induct) (auto simp: Let_def)
  show ?thesis using assms
  proof (induction as arbitrary: claimed)
    case Nil
    with sub [of _ bs] show ?case by (auto simp: Let_def)
  next
    case (Cons a as)
    then have ne: "iv_itemId r \<noteq> iv_itemId a" and d: "distinct (map iv_itemId (as @ r # bs))" by auto
    note IH = Cons.IH [OF d]
    consider (free) "typeOf (iv_itemId a) \<notin> set ACTIVE_ITEM_TYPES"
      | (taken) "typeOf (iv_itemId a) \<in> set ACTIVE_ITEM_TYPES" "typeOf (iv_itemId a) \<in> claimed"
      | (first) "typeOf (iv_itemId a) \<in> set ACTIVE_ITEM_TYPES" "typeOf (iv_itemId a) \<notin> claimed"
      by blast
    then show ?case
    proof cases
      case free
      then have "yielding typeOf claimed ((a # as) @ r # bs) = yielding typeOf claimed (as @ r # bs)" by (simp add: Let_def)
      with IH [of claimed] free show ?thesis by auto
    next
      case taken
      then have "yielding typeOf claimed ((a # as) @ r # bs) = iv_itemId a # yielding typeOf claimed (as @ r # bs)" by (simp add: Let_def)
      with IH [of claimed] taken ne show ?thesis by auto
    next
      case first
      then have "yielding typeOf claimed ((a # as) @ r # bs) = yielding typeOf (insert (typeOf (iv_itemId a)) claimed) (as @ r # bs)"
        by (simp add: Let_def)
      with IH [of "insert (typeOf (iv_itemId a)) claimed"] show ?thesis by auto
    qed
  qed
qed

text \<open>A row is worn exactly when it was active and, where its type is governed, it is the first contender of
that type: the authored ones first, each in the order of the lists.\<close>

lemma contenders_distinct:
  assumes "distinct (map iv_itemId rows)"
  shows "distinct (map iv_itemId (contenders overrides rows))"
  using assms by (induction rows) (auto simp: contenders_def)

lemma applied_worn:
  assumes d: "distinct (map iv_itemId rows)" and r: "r \<in> set rows" and active: "iv_active r"
  shows "iv_itemId r \<notin> set (yielding typeOf {} (contenders overrides rows)) \<longleftrightarrow>
    (typeOf (iv_itemId r) \<in> set ACTIVE_ITEM_TYPES \<longrightarrow>
       List.find (\<lambda>c. typeOf (iv_itemId c) = typeOf (iv_itemId r)) (contenders overrides rows) = Some r)"
proof -
  let ?cs = "contenders overrides rows"
  have "r \<in> set ?cs" using r active by (auto simp: contenders_def)
  then obtain as bs where cs: "?cs = as @ r # bs" by (meson split_list)
  have dc: "distinct (map iv_itemId (as @ r # bs))" using contenders_distinct [OF d, of overrides] unfolding cs .
  have "r \<notin> set as" using dc by auto
  then have "List.find (\<lambda>c. typeOf (iv_itemId c) = typeOf (iv_itemId r)) (as @ r # bs) = Some r
      \<longleftrightarrow> \<not> (\<exists>a\<in>set as. typeOf (iv_itemId a) = typeOf (iv_itemId r))"
    by (induction as) auto
  with yielding_iff [OF dc, of typeOf "{}"] show ?thesis by (auto simp: cs)
qed

lemma inventory_worn:
  assumes "i \<in> set (default_ids d)"
  shows "(\<exists>r\<in>set (resolveEntityInventory d (Some types)). iv_itemId r = i \<and> iv_active r) \<longleftrightarrow>
    iv_active (inventory_row d i) \<and> (types i \<in> set ACTIVE_ITEM_TYPES \<longrightarrow>
      List.find (\<lambda>c. types (iv_itemId c) = types i) (contenders (overrides_of d) (map (inventory_row d) (default_ids d)))
        = Some (inventory_row d i))"
proof -
  let ?rows = "map (inventory_row d) (default_ids d)" and ?r = "inventory_row d i"
  have ids: "iv_itemId (inventory_row d j) = j" for j by (simp add: inventory_row_def Let_def)
  then have d: "distinct (map iv_itemId ?rows)" using default_ids_sound by (simp add: comp_def)
  have mem: "?r \<in> set ?rows" using assms by simp
  let ?Y = "yielding types {} (contenders (overrides_of d) ?rows)"
  let ?row = "\<lambda>j. if j \<in> set ?Y then (inventory_row d j)\<lparr>iv_active := False\<rparr> else inventory_row d j"
  have rows: "resolveEntityInventory d (Some types) = map ?row (default_ids d)"
    by (simp add: resolveEntityInventory_def applyEquipmentRules_def Let_def onePerType_def ids)
  have "iv_itemId (?row j) = j" "iv_active (?row j) \<longleftrightarrow> iv_active (inventory_row d j) \<and> j \<notin> set ?Y" for j
    by (simp_all add: ids)
  then have "(\<exists>r\<in>?row ` set (default_ids d). iv_itemId r = i \<and> iv_active r) \<longleftrightarrow> iv_active ?r \<and> i \<notin> set ?Y"
    using assms unfolding bex_simps by metis
  then have "(\<exists>r\<in>set (resolveEntityInventory d (Some types)). iv_itemId r = i \<and> iv_active r) \<longleftrightarrow> iv_active ?r \<and> i \<notin> set ?Y"
    unfolding rows set_map .
  with applied_worn [OF d mem, of types "overrides_of d"] show ?thesis by (auto simp: ids)
qed

section \<open>The layers\<close>

lemma fold_add_layer:
  assumes "distinct (map ly_itemId acc)" "'''' \<notin> ly_itemId ` set acc"
  shows "distinct (map ly_itemId (fold add_layer ls acc)) \<and> '''' \<notin> ly_itemId ` set (fold add_layer ls acc)
    \<and> ly_itemId ` set (fold add_layer ls acc) = ly_itemId ` set acc \<union> (ly_itemId ` set ls - {''''})"
  using assms
proof (induction ls arbitrary: acc)
  case (Cons l ls)
  have "distinct (map ly_itemId (add_layer l acc))" "'''' \<notin> ly_itemId ` set (add_layer l acc)"
    "ly_itemId ` set (add_layer l acc) = ly_itemId ` set acc \<union> ({ly_itemId l} - {''''})"
    using Cons.prems by (auto simp: add_layer_def)
  with Cons.IH [of "add_layer l acc"] show ?case by auto
qed simp

lemma spawn_layers_ids:
  "distinct (map ly_itemId (spawn_layers itemIds d types))"
  "ly_itemId ` set (spawn_layers itemIds d types) = {i \<in> set itemIds \<union> set (default_ids d). i \<noteq> ''''}"
proof -
  let ?rows = "spawn_rows (Some d) types"
  let ?first = "fold add_layer (map (placed_or_row ?rows) itemIds) []"
  let ?layers = "fold add_layer (map layer_of_row ?rows) ?first"
  have id: "ly_itemId (placed_or_row ?rows i) = i" for i
    by (auto simp: placed_or_row_def placed_layer_def layer_of_row_def split: option.split dest: find_SomeD)
  have rows: "iv_itemId ` set ?rows = set (default_ids d)"
    using inventory_ids [of d "Some types"] by (simp add: spawn_rows_def) (metis set_map)
  have first: "distinct (map ly_itemId ?first)" "'''' \<notin> ly_itemId ` set ?first"
    "ly_itemId ` set ?first = {i \<in> set itemIds. i \<noteq> ''''}"
    using fold_add_layer [of "[]" "map (placed_or_row ?rows) itemIds"] by (auto simp: id image_image)
  have "ly_itemId ` set (map layer_of_row ?rows) = set (default_ids d)"
    using rows by (simp add: image_image layer_of_row_def)
  then have layers: "distinct (map ly_itemId ?layers)" "ly_itemId ` set ?layers = {i \<in> set itemIds \<union> set (default_ids d). i \<noteq> ''''}"
    using fold_add_layer [OF first(1,2), of "map layer_of_row ?rows"] first(3) by auto
  have "spawn_layers itemIds d types = ?layers"
  proof (cases "?layers = []")
    case True
    then have "{i \<in> set itemIds \<union> set (default_ids d). i \<noteq> ''''} = {}" using layers(2) by simp
    then have "\<forall>i\<in>set (df_liveItemIds d). i = ''''" by (auto simp: default_ids_def)
    then have "fold add_layer (map placed_layer ls) [] = []" if "set ls \<subseteq> set (df_liveItemIds d)" for ls
      using that by (induction ls) (auto simp: add_layer_def placed_layer_def)
    then show ?thesis by (simp add: spawn_layers_def Let_def True)
  qed (simp add: spawn_layers_def Let_def)
  with layers show "distinct (map ly_itemId (spawn_layers itemIds d types))"
    "ly_itemId ` set (spawn_layers itemIds d types) = {i \<in> set itemIds \<union> set (default_ids d). i \<noteq> ''''}" by simp_all
qed

text \<open>The last pass only takes layers off.\<close>

lemma wear_layers_off:
  "list_all2 (\<lambda>l w. w = l \<or> w = l\<lparr>ly_active := False\<rparr>) ls (wear_layers types most claimed on ls)"
  by (induction types most claimed on ls rule: wear_layers.induct) (auto simp: Let_def)

lemma wear_layers_length [simp]: "length (wear_layers types most claimed on ls) = length ls"
  using wear_layers_off [of ls types most claimed on] by (simp add: list_all2_lengthD)

text \<open>A layer stays worn exactly when no earlier one claimed its governed type and the most is not reached.\<close>

lemma wear_layers_nth:
  assumes "k < length ls"
  shows "ly_active (wear_layers types most claimed on ls ! k) \<longleftrightarrow> ly_active (ls ! k)
    \<and> (types (ly_itemId (ls ! k)) \<in> set ACTIVE_ITEM_TYPES \<longrightarrow> types (ly_itemId (ls ! k)) \<notin> claimed
        \<and> \<not> (\<exists>j<k. ly_active (ls ! j) \<and> types (ly_itemId (ls ! j)) = types (ly_itemId (ls ! k))))
    \<and> (0 < most \<longrightarrow> on + length (filter ly_active (take k (wear_layers types most claimed on ls))) < most)"
  using assms
proof (induction ls arbitrary: k claimed on)
  case (Cons l ls)
  show ?case
  proof (cases k)
    case 0
    then show ?thesis by (auto simp: Let_def onePerType_def)
  next
    case (Suc j)
    with Cons.prems have "j < length ls" by simp
    note IH = Cons.IH [OF this]
    show ?thesis by (auto simp: Suc Let_def onePerType_def IH Ex_less_Suc2)
  qed
qed simp

lemma wear_layers_most: "0 < most \<Longrightarrow> on \<le> most \<Longrightarrow> on + length (filter ly_active (wear_layers types most claimed on ls)) \<le> most"
proof (induction ls arbitrary: claimed on)
  case (Cons l ls)
  let ?c = "insert (types (ly_itemId l)) claimed"
  note IH = Cons.IH [OF Cons.prems(1)]
  have "on + length (filter ly_active (wear_layers types most claimed on ls)) \<le> most"
    "on + length (filter ly_active (wear_layers types most ?c on ls)) \<le> most"
    by (rule IH [OF Cons.prems(2)])+
  moreover have "on + 1 + length (filter ly_active (wear_layers types most c (on + 1) ls)) \<le> most" if "on < most" for c
    using that by (intro IH) simp
  ultimately show ?case using Cons.prems by (auto simp: Let_def)
qed simp

lemma wear_layers_types:
  assumes "T \<in> set ACTIVE_ITEM_TYPES"
  shows "length (filter (\<lambda>l. ly_active l \<and> types (ly_itemId l) = T) (wear_layers types most claimed on ls)) \<le> (if T \<in> claimed then 0 else 1)"
proof (induction ls arbitrary: claimed on)
  case (Cons l ls)
  note IH = Cons.IH [of claimed on] Cons.IH [of "insert (types (ly_itemId l)) claimed" on]
    Cons.IH [of "insert (types (ly_itemId l)) claimed" "on + 1"] Cons.IH [of claimed "on + 1"]
  from IH assms show ?case by (auto simp: Let_def onePerType_def split: if_splits)
qed simp


text \<open>A bot placed with a shield, over a default that wears a skin and whose author named another one.\<close>

definition sample_types :: "string \<Rightarrow> string" where
  "sample_types i = (if i \<in> set [''purple'', ''green''] then ''skin'' else if i = ''pistol'' then ''weapon'' else '''')"

definition sample_default :: entity_default where
  "sample_default = \<lparr>df_entityType = ''bot'', df_liveItemIds = [''purple'', ''pistol''], df_deadItemIds = [''ghost''],
     df_dropItemIds = [''coin''], df_inventoryItemsIds = [''green''],
     df_overrides = [\<lparr>ov_itemId = ''green'', ov_active = Some True, ov_quantity = None, ov_dropChance = None\<rparr>]\<rparr>"


end
