(* ===== verification/Social.thy ===== *)
theory Social imports Sessions "HOL-Library.List_Lexorder" "HOL-Library.Char_ord" begin

text \<open>
  Friends and status notes, from \<open>src/projects/cyberia/player/social.js\<close> and \<open>identity.js\<close>, with the
  rules of \<open>src/api/cyberia-social\<close>: requests between two accounts, the friends of an account, what an
  account sees of others, and the note it shows its friends.

  A note is the list of its code points. The random id of a new friendship, the time of the engine and
  the time of the database (\<open>$$NOW\<close>) are arguments; so is the preview of the appearance of an account,
  which content and images decide. An id outside the canonical form of an ObjectId names no document.
\<close>

section \<open>Rules\<close>

definition FRIENDS_MAX :: nat where "FRIENDS_MAX = 200"
definition FRIEND_REQUESTS_MAX :: nat where "FRIEND_REQUESTS_MAX = 20"
definition FRIEND_REQUEST_DAYS :: int where "FRIEND_REQUEST_DAYS = 30"
definition STATUS_NOTE_MAX_RUNES :: nat where "STATUS_NOTE_MAX_RUNES = 80"
definition STATUS_NOTE_INTERVAL_MS :: int where "STATUS_NOTE_INTERVAL_MS = 10000"

text \<open>The white space \<open>\s\<close> of the language, and the general categories Cc and Cf of Unicode.\<close>

definition white_space :: "nat \<Rightarrow> bool" where
  "white_space c \<longleftrightarrow> 9 \<le> c \<and> c \<le> 13 \<or> 8192 \<le> c \<and> c \<le> 8202 \<or> c \<in> {32, 160, 5760, 8232, 8233, 8239, 8287, 12288, 65279}"

definition in_ranges :: "nat \<Rightarrow> (nat \<times> nat) list \<Rightarrow> bool" where
  "in_ranges c rs \<longleftrightarrow> list_ex (\<lambda>(a, b). a \<le> c \<and> c \<le> b) rs"

definition CONTROL :: "(nat \<times> nat) list" where
  "CONTROL = [(0, 31), (127, 159), (173, 173), (1536, 1541), (1564, 1564), (1757, 1757), (1807, 1807), (2192, 2193),
     (2274, 2274), (6158, 6158), (8203, 8207), (8234, 8238), (8288, 8292), (8294, 8303), (65279, 65279), (65529, 65531),
     (69821, 69821), (69837, 69837), (78896, 78911), (113824, 113827), (119155, 119162), (917505, 917505), (917536, 917631)]"

definition control :: "nat \<Rightarrow> bool" where
  "control c \<longleftrightarrow> in_ranges c CONTROL"

definition joiner :: "nat \<Rightarrow> bool" where
  "joiner c \<longleftrightarrow> c = 8204 \<or> c = 8205"

definition surrogate :: "nat \<Rightarrow> bool" where
  "surrogate c \<longleftrightarrow> 55296 \<le> c \<and> c \<le> 57343"

definition statusNoteLength :: "nat list \<Rightarrow> nat" where
  "statusNoteLength = length"

definition plain_controls :: "nat list \<Rightarrow> nat list" where
  "plain_controls note = concat (map (\<lambda>c. if \<not> control c \<or> joiner c then [c] else if white_space c then [32] else []) note)"

text \<open>\<open>replace(/\s+/gu, ' ')\<close>: each run of white space is one space.\<close>

fun one_space :: "nat list \<Rightarrow> nat list" where
  "one_space [] = []"
| "one_space (c # cs) = (if white_space c then
     (case one_space cs of [] \<Rightarrow> [32] | d # ds \<Rightarrow> if d = 32 then d # ds else 32 # d # ds) else c # one_space cs)"

definition trim_note :: "nat list \<Rightarrow> nat list" where
  "trim_note note = rev (dropWhile white_space (rev (dropWhile white_space note)))"

definition cleanStatusNote :: "nat list \<Rightarrow> nat list" where
  "cleanStatusNote note = trim_note (one_space (plain_controls note))"

definition validStatusNote :: "nat list \<Rightarrow> bool" where
  "validStatusNote note \<longleftrightarrow> \<not> list_ex surrogate note \<and> statusNoteLength note \<le> STATUS_NOTE_MAX_RUNES"

section \<open>What an account sees of others\<close>

definition sideOf :: "oid \<Rightarrow> social \<Rightarrow> bool" where
  "sideOf a d \<longleftrightarrow> so_low d = a \<or> so_high d = a"

definition otherOf :: "social \<Rightarrow> oid \<Rightarrow> oid" where
  "otherOf d a = (if so_low d = a then so_high d else so_low d)"

record identity =
  id_name :: string
  id_avatar :: string
  id_note :: "nat list"
  id_online :: bool
  id_instanceCode :: string
  id_mapCode :: string

text \<open>The viewer and its friends among the accounts: whom the viewer sees more of than a name and a picture.\<close>

definition visibleTo :: "mongo \<Rightarrow> oid \<Rightarrow> oid list \<Rightarrow> db \<Rightarrow> oid list" where
  "visibleTo M viewer ids s = viewer # map (\<lambda>d. otherOf d viewer) (drv_find (mg_socials M) (\<lambda>d. so_status d = Accepted
     \<and> (so_low d = viewer \<and> so_high d \<in> set ids \<or> so_high d = viewer \<and> so_low d \<in> set ids)) (db_socials s))"

definition identityOf :: "(oid \<Rightarrow> string) \<Rightarrow> oid list \<Rightarrow> social_profile list \<Rightarrow> (oid \<times> string \<times> string) list \<Rightarrow> user \<Rightarrow> identity" where
  "identityOf appearanceOf visible profiles presence u =
     (let i = us_id u; at_place = (if i \<in> set visible then map_of (rev presence) i else None) in
      \<lparr>id_name = us_username u, id_avatar = appearanceOf i,
       id_note = (case List.find (\<lambda>n. sp_user n = i) (rev profiles) of None \<Rightarrow> [] | Some n \<Rightarrow> sp_note n),
       id_online = (at_place \<noteq> None), id_instanceCode = (case at_place of None \<Rightarrow> '''' | Some w \<Rightarrow> fst w),
       id_mapCode = (case at_place of None \<Rightarrow> '''' | Some w \<Rightarrow> snd w)\<rparr>)"

definition identityPreviews :: "mongo \<Rightarrow> (oid \<Rightarrow> string) \<Rightarrow> ms \<Rightarrow> oid \<Rightarrow> oid list \<Rightarrow> db \<Rightarrow> error + (oid \<times> identity) list" where
  "identityPreviews M appearanceOf now viewer accounts s =
     (let ids = filter (\<lambda>i. isValidObjectId M (Str i)) (remdups accounts) in
      if \<not> isValidObjectId M (Str viewer) \<or> FRIENDS_MAX + 2 * FRIEND_REQUESTS_MAX < length ids
      then Inl (plain_error ''Invalid identity selection'')
      else let visible = visibleTo M viewer ids s;
               privateIds = filter (\<lambda>i. i \<in> set visible) ids;
               users = drv_find (mg_users M) (\<lambda>u. us_id u \<in> set ids) (db_users s);
               profiles = drv_find (mg_notes M) (\<lambda>n. sp_user n \<in> set privateIds) (db_notes s);
               presence = presenceOf M now privateIds s
        in Inr (map (\<lambda>u. (us_id u, identityOf appearanceOf visible profiles presence u)) users))"

section \<open>Friends of an account\<close>

record friend_row =
  fr_friendshipId :: oid
  fr_accountId :: oid
  fr_identity :: identity
  fr_status :: string
  fr_expiresAtMs :: ms

definition friendRow :: "(oid \<times> identity) list \<Rightarrow> oid \<Rightarrow> social \<Rightarrow> friend_row option" where
  "friendRow previews account d = (case map_of (rev previews) (otherOf d account) of None \<Rightarrow> None
     | Some identity \<Rightarrow> Some \<lparr>fr_friendshipId = so_id d, fr_accountId = otherOf d account, fr_identity = identity,
         fr_status = (if so_status d = Accepted then ''friend'' else if so_requester d = account then ''outgoing'' else ''incoming''),
         fr_expiresAtMs = (if so_status d \<noteq> Accepted then case so_expiresAt d of None \<Rightarrow> 0 | Some t \<Rightarrow> t else 0)\<rparr>)"

definition friendRows :: "mongo \<Rightarrow> (oid \<Rightarrow> string) \<Rightarrow> ms \<Rightarrow> social list \<Rightarrow> oid \<Rightarrow> db \<Rightarrow> error + friend_row list" where
  "friendRows M appearanceOf now docs account s =
     bindE (identityPreviews M appearanceOf now account (map (\<lambda>d. otherOf d account) docs) s)
       (\<lambda>previews. Inr (List.map_filter (friendRow previews account) docs))"

definition countFriends :: "mongo \<Rightarrow> oid \<Rightarrow> db \<Rightarrow> nat" where
  "countFriends M a s = length (drv_find (mg_socials M) (\<lambda>d. sideOf a d \<and> so_status d = Accepted) (db_socials s))"

definition pending_at :: "ms \<Rightarrow> social \<Rightarrow> bool" where
  "pending_at now d \<longleftrightarrow> so_status d = Requested \<and> (case so_expiresAt d of None \<Rightarrow> False | Some t \<Rightarrow> now < t)"

record friends_answer =
  fa_friends :: "friend_row list"
  fa_note :: "nat list"
  fa_noteNextUpdateAtMs :: ms

definition listed_friends :: "mongo \<Rightarrow> ms \<Rightarrow> oid \<Rightarrow> db \<Rightarrow> social list" where
  "listed_friends M now a s =
     (let page = (\<lambda>n P. take n (sort_key so_id (drv_find (mg_socials M) P (db_socials s)))) in
      map snd (fold (\<lambda>d. put (so_id d) d)
        (page FRIEND_REQUESTS_MAX (\<lambda>d. sideOf a d \<and> pending_at now d \<and> so_requester d \<noteq> a)
         @ page FRIEND_REQUESTS_MAX (\<lambda>d. sideOf a d \<and> pending_at now d \<and> so_requester d = a)
         @ page FRIENDS_MAX (\<lambda>d. sideOf a d \<and> so_status d = Accepted)) []))"

definition listFriends :: "mongo \<Rightarrow> (oid \<Rightarrow> string) \<Rightarrow> ms \<Rightarrow> oid \<Rightarrow> db \<Rightarrow> error + friends_answer" where
  "listFriends M appearanceOf now a s =
     (if \<not> isValidObjectId M (Str a) then Inr \<lparr>fa_friends = [], fa_note = [], fa_noteNextUpdateAtMs = 0\<rparr>
      else let profile = drv_find_one (mg_notes M) (\<lambda>n. sp_user n = a) (db_notes s) in
        bindE (friendRows M appearanceOf now (listed_friends M now a s) a s) (\<lambda>rows.
          Inr \<lparr>fa_friends = rows, fa_note = (case profile of None \<Rightarrow> [] | Some p \<Rightarrow> sp_note p),
            fa_noteNextUpdateAtMs = (case profile of None \<Rightarrow> 0 | Some p \<Rightarrow>
               (case sp_noteUpdatedAt p of None \<Rightarrow> 0 | Some t \<Rightarrow> t + STATUS_NOTE_INTERVAL_MS))\<rparr>))"

section \<open>Requests\<close>

record social_answer =
  sn_refusal :: string
  sn_friend :: "friend_row option"

definition social_refused :: "string \<Rightarrow> social_answer" where
  "social_refused r = \<lparr>sn_refusal = r, sn_friend = None\<rparr>"

definition socialAnswer :: "mongo \<Rightarrow> (oid \<Rightarrow> string) \<Rightarrow> ms \<Rightarrow> social \<Rightarrow> oid \<Rightarrow> (db, social_answer) work" where
  "socialAnswer M appearanceOf now d account s =
     (case friendRows M appearanceOf now [d] account s of
        Inl e \<Rightarrow> (Inl e, s)
      | Inr rows \<Rightarrow> (Inr \<lparr>sn_refusal = '''', sn_friend = (case rows of [] \<Rightarrow> None | r # _ \<Rightarrow> Some r)\<rparr>, s))"

definition befriended :: "ms \<Rightarrow> social \<Rightarrow> social" where
  "befriended now d = d\<lparr>so_status := Accepted, so_acceptedAt := Some now, so_expiresAt := None\<rparr>"

definition acceptRequest :: "mongo \<Rightarrow> (oid \<Rightarrow> string) \<Rightarrow> ms \<Rightarrow> ms \<Rightarrow> oid \<Rightarrow> oid \<Rightarrow> (db, social_answer) work" where
  "acceptRequest M appearanceOf now dbNow account friendshipId s =
     (case drv_find_one (mg_socials M) (\<lambda>d. so_id d = friendshipId \<and> pending_at now d \<and> so_requester d \<noteq> account \<and> sideOf account d) (db_socials s) of
        None \<Rightarrow> (Inr (social_refused ''not_found''), s)
      | Some pending \<Rightarrow>
          if FRIENDS_MAX \<le> countFriends M (so_low pending) s \<or> FRIENDS_MAX \<le> countFriends M (so_high pending) s
          then (Inr (social_refused ''limit''), s)
          else (case find_one_and_update (mg_socials M) (\<lambda>d. so_id d = so_id pending \<and> pending_at dbNow d) (befriended dbNow) (db_socials s) of
                  (None, c) \<Rightarrow> (Inr (social_refused ''not_found''), s\<lparr>db_socials := c\<rparr>)
                | (Some d, c) \<Rightarrow> socialAnswer M appearanceOf now d account (s\<lparr>db_socials := c\<rparr>)))"

definition new_request :: "ms \<Rightarrow> oid \<Rightarrow> oid \<Rightarrow> oid \<Rightarrow> social" where
  "new_request now newId account target = \<lparr>so_id = newId, so_low = fst (canonicalPair account target),
     so_high = snd (canonicalPair account target), so_requester = account, so_status = Requested, so_acceptedAt = None,
     so_expiresAt = Some (now + FRIEND_REQUEST_DAYS * 24 * 60 * 60 * 1000)\<rparr>"

definition isAccount :: "mongo \<Rightarrow> oid \<Rightarrow> db \<Rightarrow> bool" where
  "isAccount M a s \<longleftrightarrow> drv_find_one (mg_users M) (\<lambda>u. us_id u = a \<and> us_role u \<noteq> ''guest'') (db_users s) \<noteq> None"

definition expired_pair :: "ms \<Rightarrow> oid \<times> oid \<Rightarrow> social \<Rightarrow> bool" where
  "expired_pair now pair d \<longleftrightarrow> social_key d = pair \<and> so_status d = Requested
     \<and> (case so_expiresAt d of None \<Rightarrow> False | Some t \<Rightarrow> t \<le> now)"

definition requestFriend :: "mongo \<Rightarrow> (oid \<Rightarrow> string) \<Rightarrow> ms \<Rightarrow> ms \<Rightarrow> oid \<Rightarrow> oid \<Rightarrow> oid \<Rightarrow> (db, social_answer) work" where
  "requestFriend M appearanceOf now dbNow newId account target s =
     (if \<not> isValidObjectId M (Str target) then (Inr (social_refused ''unknown''), s)
      else if target = account then (Inr (social_refused ''self''), s)
      else if \<not> isAccount M target s then (Inr (social_refused ''unknown''), s)
      else let pair = canonicalPair account target;
               cleared = s\<lparr>db_socials := drv_delete_one (mg_socials M) (expired_pair now pair) (db_socials s)\<rparr>
        in case drv_find_one (mg_socials M) (\<lambda>d. social_key d = pair) (db_socials cleared) of
             Some d \<Rightarrow> if so_status d = Requested \<and> so_requester d = target then acceptRequest M appearanceOf now dbNow account (so_id d) cleared
                else (Inr (social_refused ''exists''), cleared)
           | None \<Rightarrow>
               if FRIEND_REQUESTS_MAX \<le> length (drv_find (mg_socials M) (\<lambda>d. sideOf account d \<and> so_requester d = account \<and> pending_at now d) (db_socials cleared))
                 \<or> FRIENDS_MAX \<le> countFriends M account cleared
               then (Inr (social_refused ''limit''), cleared)
               else (case drv_create (mg_socials M) [new_request now newId account target] (db_socials cleared) of
                       Inl e \<Rightarrow> (if err_code e = Some 11000 then Inr (social_refused ''exists'') else Inl e, cleared)
                     | Inr c \<Rightarrow> socialAnswer M appearanceOf now (new_request now newId account target) account (cleared\<lparr>db_socials := c\<rparr>)))"

definition endFriendship :: "mongo \<Rightarrow> (oid \<Rightarrow> string) \<Rightarrow> ms \<Rightarrow> oid \<Rightarrow> oid \<Rightarrow> friend_status \<Rightarrow> (db, social_answer) work" where
  "endFriendship M appearanceOf now account friendshipId status s =
     (case find_one_and_delete (mg_socials M) (\<lambda>d. so_id d = friendshipId \<and> so_status d = status \<and> sideOf account d) (db_socials s) of
        (None, c) \<Rightarrow> (Inr (social_refused ''not_found''), s\<lparr>db_socials := c\<rparr>)
      | (Some d, c) \<Rightarrow> socialAnswer M appearanceOf now d account (s\<lparr>db_socials := c\<rparr>))"

definition updateFriendship :: "mongo \<Rightarrow> (oid \<Rightarrow> string) \<Rightarrow> ms \<Rightarrow> ms \<Rightarrow> oid \<Rightarrow> oid \<Rightarrow> js \<Rightarrow> oid \<Rightarrow> oid \<Rightarrow> (db, social_answer) work" where
  "updateFriendship M appearanceOf now dbNow newId accountId action targetAccountId friendshipId s =
     (if \<not> isValidObjectId M (Str accountId) then (Inr (social_refused ''unknown''), s)
      else if action = Str ''request'' then requestFriend M appearanceOf now dbNow newId accountId targetAccountId s
      else if \<not> isValidObjectId M (Str friendshipId) then (Inr (social_refused ''not_found''), s)
      else if action = Str ''accept'' then acceptRequest M appearanceOf now dbNow accountId friendshipId s
      else if action = Str ''decline'' \<or> action = Str ''remove'' then
        endFriendship M appearanceOf now accountId friendshipId (if action = Str ''decline'' then Requested else Accepted) s
      else (Inr (social_refused ''unknown''), s))"

section \<open>Status notes\<close>

record note_answer =
  na_refusal :: string
  na_note :: "nat list"
  na_nextUpdateAtMs :: ms

definition note_refused :: "string \<Rightarrow> note_answer" where
  "note_refused r = \<lparr>na_refusal = r, na_note = [], na_nextUpdateAtMs = 0\<rparr>"

definition note_due :: "ms \<Rightarrow> social_profile \<Rightarrow> bool" where
  "note_due dbNow p \<longleftrightarrow> (case sp_noteUpdatedAt p of None \<Rightarrow> True | Some t \<Rightarrow> t \<le> dbNow - STATUS_NOTE_INTERVAL_MS)"

definition setNote :: "mongo \<Rightarrow> ms \<Rightarrow> oid \<Rightarrow> nat list \<Rightarrow> (db, note_answer) work" where
  "setNote M dbNow accountId txt s =
     (case find_one_and_update (mg_notes M) (\<lambda>p. sp_user p = accountId \<and> note_due dbNow p)
          (\<lambda>p. p\<lparr>sp_note := txt, sp_noteUpdatedAt := Some dbNow\<rparr>) (db_notes s) of
        (Some p, c) \<Rightarrow> (Inr \<lparr>na_refusal = '''', na_note = sp_note p, na_nextUpdateAtMs = dbNow + STATUS_NOTE_INTERVAL_MS\<rparr>, s\<lparr>db_notes := c\<rparr>)
      | (None, c) \<Rightarrow> (case drv_find_one (mg_notes M) (\<lambda>p. sp_user p = accountId) (db_notes s) of
            None \<Rightarrow> (Inr (note_refused ''unknown''), s)
          | Some p \<Rightarrow> (case sp_noteUpdatedAt p of None \<Rightarrow> (Inr (note_refused ''unknown''), s)
              | Some t \<Rightarrow> (Inr \<lparr>na_refusal = ''too_soon'', na_note = [], na_nextUpdateAtMs = t + STATUS_NOTE_INTERVAL_MS\<rparr>, s))))"

text \<open>A note that is no text is \<open>None\<close>.\<close>

definition updateStatusNote :: "mongo \<Rightarrow> ms \<Rightarrow> oid \<Rightarrow> nat list option \<Rightarrow> (db, note_answer) work" where
  "updateStatusNote M dbNow accountId note s =
     (if \<not> isValidObjectId M (Str accountId) then (Inr (note_refused ''unknown''), s)
      else case note of None \<Rightarrow> (Inr (note_refused ''invalid''), s)
        | Some raw \<Rightarrow>
            let txt = cleanStatusNote raw in
            if \<not> validStatusNote txt then (Inr (note_refused ''too_long''), s)
            else if \<not> isAccount M accountId s then (Inr (note_refused ''unknown''), s)
            else (case update_or_insert (mg_notes M) (\<lambda>p. sp_user p = accountId) (\<lambda>p. p)
                      \<lparr>sp_user = accountId, sp_note = [], sp_noteUpdatedAt = None\<rparr> (db_notes s) of
                    Inl e \<Rightarrow> if err_code e = Some 11000 then setNote M dbNow accountId txt s else (Inl e, s)
                  | Inr c \<Rightarrow> setNote M dbNow accountId txt (s\<lparr>db_notes := c\<rparr>)))"

section \<open>A clean note\<close>

definition no_gap :: "nat list \<Rightarrow> bool" where
  "no_gap = successively (\<lambda>a b. \<not> (a = 32 \<and> b = 32))"

definition tidy :: "nat list \<Rightarrow> bool" where
  "tidy n \<longleftrightarrow> (\<forall>c\<in>set n. (\<not> control c \<or> joiner c) \<and> (white_space c \<longrightarrow> c = 32)) \<and> no_gap n
     \<and> (n \<noteq> [] \<longrightarrow> \<not> white_space (hd n) \<and> \<not> white_space (last n))"

lemma white_32 [simp]: "white_space 32"
  by (simp add: white_space_def)

lemma control_32 [simp]: "\<not> control 32"
  by (simp add: control_def in_ranges_def CONTROL_def)

lemma plain_controls_set: "c \<in> set (plain_controls note) \<Longrightarrow> \<not> control c \<or> joiner c"
  by (auto simp: plain_controls_def split: if_splits)

lemma one_space_set: "set (one_space cs) \<subseteq> {c \<in> set cs. \<not> white_space c} \<union> {32}"
  by (induction cs) (auto split: list.splits)

lemma one_space_no_gap: "no_gap (one_space cs)"
  unfolding no_gap_def by (induction cs) (auto split: list.splits simp: successively_Cons)

lemma no_gap_append: "no_gap (a @ b) \<Longrightarrow> no_gap a \<and> no_gap b"
  by (simp add: no_gap_def successively_append_iff)

lemma no_gap_dropWhile: "no_gap cs \<Longrightarrow> no_gap (dropWhile P cs)"
  using no_gap_append [of "takeWhile P cs" "dropWhile P cs"] by simp

lemma no_gap_rev [simp]: "no_gap (rev cs) = no_gap cs"
  unfolding no_gap_def successively_rev by (simp add: conj_commute)

lemma trim_ends:
  assumes "trim_note cs \<noteq> []"
  shows "\<not> white_space (hd (trim_note cs))" "\<not> white_space (last (trim_note cs))"
proof -
  let ?b = "dropWhile white_space cs"
  have t: "trim_note cs = rev (dropWhile white_space (rev ?b))" by (simp add: trim_note_def)
  show "\<not> white_space (last (trim_note cs))"
    using assms hd_dropWhile [of white_space "rev ?b"] by (simp add: t last_rev)
  have "?b \<noteq> []" using assms unfolding t by (metis dropWhile.simps(1) rev.simps(1))
  then have h: "\<not> white_space (hd ?b)" by (rule hd_dropWhile)
  have "rev ?b = takeWhile white_space (rev ?b) @ rev (trim_note cs)" by (simp add: t)
  then have "?b = trim_note cs @ rev (takeWhile white_space (rev ?b))" by (metis rev_append rev_rev_ident)
  then show "\<not> white_space (hd (trim_note cs))" using assms h by (metis hd_append2)
qed

lemma trim_set: "set (trim_note cs) \<subseteq> set cs"
  by (auto simp: trim_note_def dest!: set_dropWhileD)

lemma clean_tidy: "tidy (cleanStatusNote note)"
proof -
  let ?c = "one_space (plain_controls note)"
  have "\<forall>c\<in>set ?c. (\<not> control c \<or> joiner c) \<and> (white_space c \<longrightarrow> c = 32)"
    using one_space_set [of "plain_controls note"] plain_controls_set by fastforce
  moreover have "no_gap (trim_note ?c)"
    unfolding trim_note_def by (simp add: one_space_no_gap no_gap_dropWhile)
  ultimately show ?thesis
    unfolding cleanStatusNote_def tidy_def using trim_set [of ?c] trim_ends [of ?c] by blast
qed

lemma plain_controls_id: "\<forall>c\<in>set n. \<not> control c \<or> joiner c \<Longrightarrow> plain_controls n = n"
  unfolding plain_controls_def by (induction n) auto

lemma one_space_id: "\<forall>c\<in>set n. white_space c \<longrightarrow> c = 32 \<Longrightarrow> no_gap n \<Longrightarrow> one_space n = n"
proof (induction n)
  case (Cons c n)
  have succ: "successively (\<lambda>a b. \<not> (a = 32 \<and> b = 32)) (c # n)" and white: "white_space c \<Longrightarrow> c = 32"
    using Cons.prems by (simp_all add: no_gap_def)
  have "no_gap n" unfolding no_gap_def using succ by (cases n) simp_all
  then have e: "one_space n = n" using Cons by (meson list.set_intros(2))
  show ?case
  proof (cases "white_space c")
    case True
    then have c: "c = 32" by (rule white)
    show ?thesis
    proof (cases n)
      case (Cons d ds)
      then have "d \<noteq> 32" using succ c by simp
      then show ?thesis using e c Cons by simp
    qed (simp add: c)
  qed (simp add: e)
qed simp

lemma trim_note_id: "n \<noteq> [] \<longrightarrow> \<not> white_space (hd n) \<and> \<not> white_space (last n) \<Longrightarrow> trim_note n = n"
proof -
  assume n: "n \<noteq> [] \<longrightarrow> \<not> white_space (hd n) \<and> \<not> white_space (last n)"
  then have "dropWhile white_space n = n" "dropWhile white_space (rev n) = rev n"
    unfolding dropWhile_eq_self_iff by (auto simp: hd_rev)
  then show ?thesis by (simp add: trim_note_def)
qed

lemma clean_of_tidy: "tidy n \<Longrightarrow> cleanStatusNote n = n"
  by (simp add: cleanStatusNote_def tidy_def plain_controls_id one_space_id trim_note_id)

section \<open>What others see\<close>

lemma identityPreviews_shows:
  assumes "lawful_mongo M" "identityPreviews M appearanceOf now viewer accounts s = Inr ps" "(i, x) \<in> set ps"
  obtains u ids profiles presence where "u \<in> set (db_users s)" "us_id u = i" "i \<in> set accounts"
    "set profiles \<subseteq> {n \<in> set (db_notes s). sp_user n \<in> set (visibleTo M viewer ids s)}"
    "x = identityOf appearanceOf (visibleTo M viewer ids s) profiles presence u"
proof -
  let ?ids = "filter (\<lambda>i. isValidObjectId M (Str i)) (remdups accounts)"
  let ?presence = "presenceOf M now (filter (\<lambda>i. i \<in> set (visibleTo M viewer ?ids s)) ?ids) s"
  have "(i, x) \<in> (\<lambda>u. (us_id u, identityOf appearanceOf (visibleTo M viewer ?ids s) (drv_find (mg_notes M)
      (\<lambda>n. sp_user n \<in> set (filter (\<lambda>i. i \<in> set (visibleTo M viewer ?ids s)) ?ids)) (db_notes s)) ?presence u)) `
      set (drv_find (mg_users M) (\<lambda>u. us_id u \<in> set ?ids) (db_users s))"
    using assms(2,3) unfolding identityPreviews_def Let_def set_map [symmetric] by (simp only: sum.inject split: if_splits) simp_all
  then obtain u where "u \<in> set (db_users s)" "us_id u \<in> set ?ids" "i = us_id u"
    "x = identityOf appearanceOf (visibleTo M viewer ?ids s) (filter (\<lambda>n. sp_user n \<in> set (filter (\<lambda>i. i \<in> set (visibleTo M viewer ?ids s)) ?ids))
      (db_notes s)) ?presence u"
    unfolding collection.find_docs [OF lawful_mongoD(10) [OF assms(1)]] collection.find_docs [OF lawful_mongoD(15) [OF assms(1)]]
    by (elim imageE) auto
  then show ?thesis by (intro that [of u _ ?ids]) auto
qed

text \<open>C29: An account shows its note, whether it is online and where only to itself and to its friends;
every other account that names it sees its name and its picture.\<close>

theorem previews_private:
  assumes "lawful_mongo M" "identityPreviews M appearanceOf now viewer accounts s = Inr ps" "(i, x) \<in> set ps"
  shows "i \<in> set accounts \<and> (\<exists>u\<in>set (db_users s). us_id u = i \<and> id_name x = us_username u) \<and> id_avatar x = appearanceOf i
    \<and> (id_note x \<noteq> [] \<or> id_online x \<or> id_instanceCode x \<noteq> '''' \<or> id_mapCode x \<noteq> '''' \<longrightarrow> i = viewer
      \<or> (\<exists>d\<in>set (db_socials s). so_status d = Accepted \<and> (so_low d = viewer \<and> so_high d = i \<or> so_high d = viewer \<and> so_low d = i)))"
proof -
  obtain u ids profiles presence where u: "u \<in> set (db_users s)" "us_id u = i" "i \<in> set accounts"
    and p: "set profiles \<subseteq> {n \<in> set (db_notes s). sp_user n \<in> set (visibleTo M viewer ids s)}"
    and x: "x = identityOf appearanceOf (visibleTo M viewer ids s) profiles presence u"
    using assms by (rule identityPreviews_shows)
  have "i \<in> set (visibleTo M viewer ids s)"
    if "id_note x \<noteq> [] \<or> id_online x \<or> id_instanceCode x \<noteq> '''' \<or> id_mapCode x \<noteq> ''''"
  proof (rule ccontr)
    assume n: "i \<notin> set (visibleTo M viewer ids s)"
    then have "List.find (\<lambda>n. sp_user n = i) (rev profiles) = None" using p by (auto simp: find_None_iff_ball)
    with n have "id_note x = []" "\<not> id_online x" "id_instanceCode x = ''''" "id_mapCode x = ''''"
      using u(2) by (simp_all add: x identityOf_def Let_def)
    with that show False by blast
  qed
  moreover have "i \<in> set (visibleTo M viewer ids s) \<Longrightarrow> i = viewer
      \<or> (\<exists>d\<in>set (db_socials s). so_status d = Accepted \<and> (so_low d = viewer \<and> so_high d = i \<or> so_high d = viewer \<and> so_low d = i))"
    unfolding visibleTo_def collection.find_docs [OF lawful_mongoD(14) [OF assms(1)]] by (auto simp: otherOf_def split: if_splits)
  moreover have "id_name x = us_username u" "id_avatar x = appearanceOf i" using u(2) by (simp_all add: x identityOf_def Let_def)
  ultimately show ?thesis using u by blast
qed

section \<open>The note of an account\<close>

definition noted :: "nat list \<Rightarrow> ms \<Rightarrow> oid \<Rightarrow> social_profile \<Rightarrow> social_profile" where
  "noted txt dbNow a p = (if sp_user p = a then p\<lparr>sp_note := txt, sp_noteUpdatedAt := Some dbNow\<rparr> else p)"

lemma noted_user [simp]: "sp_user (noted txt dbNow a p) = sp_user p"
  by (simp add: noted_def)

lemma setNote_eq:
  assumes M: "lawful_mongo M" and u: "unique_docs sp_user (db_notes s)" and p: "p \<in> set (db_notes s)" "sp_user p = a"
  shows "setNote M dbNow a txt s =
    (if note_due dbNow p then (Inr \<lparr>na_refusal = '''', na_note = txt, na_nextUpdateAtMs = dbNow + STATUS_NOTE_INTERVAL_MS\<rparr>,
        s\<lparr>db_notes := map (noted txt dbNow a) (db_notes s)\<rparr>)
     else (Inr \<lparr>na_refusal = ''too_soon'', na_note = [], na_nextUpdateAtMs = the (sp_noteUpdatedAt p) + STATUS_NOTE_INTERVAL_MS\<rparr>, s))"
proof -
  note N = lawful_mongoD(15) [OF M]
  let ?P = "\<lambda>p. sp_user p = a \<and> note_due dbNow p" and ?f = "\<lambda>p. p\<lparr>sp_note := txt, sp_noteUpdatedAt := Some dbNow\<rparr>"
  have same: "q = p" if "q \<in> set (db_notes s)" "sp_user q = a" for q using unique_docs_eq [OF u] that p by blast
  show ?thesis
  proof (rule collection.find_one_and_update_cases [OF N u, of ?P ?f])
    assume n: "\<forall>d\<in>set (db_notes s). \<not> ?P d" and e: "find_one_and_update (mg_notes M) ?P ?f (db_notes s) = (None, db_notes s)"
    then have nd: "\<not> note_due dbNow p" using p by blast
    then obtain t where t: "sp_noteUpdatedAt p = Some t" by (auto simp: note_due_def split: option.splits)
    have "drv_find_one (mg_notes M) (\<lambda>p. sp_user p = a) (db_notes s) \<noteq> None"
      using p unfolding collection.find_one_none [OF N] by blast
    then obtain q where q: "drv_find_one (mg_notes M) (\<lambda>p. sp_user p = a) (db_notes s) = Some q" by blast
    then have "q = p" using collection.find_one_some [OF N q] same by blast
    then show ?thesis using e nd t q by (simp add: setNote_def)
  next
    fix d assume d: "d \<in> set (db_notes s)" "?P d"
      and e: "find_one_and_update (mg_notes M) ?P ?f (db_notes s) = (Some (?f d), map (\<lambda>e. if e = d then ?f e else e) (db_notes s))"
    have "d = p" using same d by blast
    moreover have "map (\<lambda>e. if e = p then ?f e else e) (db_notes s) = map (noted txt dbNow a) (db_notes s)"
      unfolding map_eq_key [OF u p(1), of ?f] by (simp add: noted_def p(2))
    ultimately show ?thesis using e d(2) by (simp add: setNote_def)
  qed
qed

text \<open>The row of an account is there before its note is set.\<close>

lemma updateStatusNote_eq:
  assumes M: "lawful_mongo M" and u: "unique_docs sp_user (db_notes s)"
    and ok: "isValidObjectId M (Str a)" "validStatusNote (cleanStatusNote raw)" "isAccount M a s"
  obtains c p where "updateStatusNote M dbNow a (Some raw) s = setNote M dbNow a (cleanStatusNote raw) (s\<lparr>db_notes := c\<rparr>)"
    "unique_docs sp_user c" "p \<in> set c" "sp_user p = a" "{q \<in> set c. sp_user q \<noteq> a} = {q \<in> set (db_notes s). sp_user q \<noteq> a}"
    "(\<exists>d\<in>set (db_notes s). sp_user d = a) \<longrightarrow> c = db_notes s"
proof -
  let ?new = "\<lparr>sp_user = a, sp_note = [], sp_noteUpdatedAt = None\<rparr>"
  obtain c where c: "update_or_insert (mg_notes M) (\<lambda>p. sp_user p = a) (\<lambda>p. p) ?new (db_notes s) = Inr c"
    "c = (if \<exists>d\<in>set (db_notes s). sp_user d = a then map (\<lambda>d. if sp_user d = a then d else d) (db_notes s) else db_notes s @ [?new])"
    by (rule collection.update_or_insert_cases [OF lawful_mongoD(15) [OF M] u, where P = "\<lambda>p. sp_user p = a" and f = "\<lambda>p. p" and k = a and new = ?new]) simp_all
  have e: "updateStatusNote M dbNow a (Some raw) s = setNote M dbNow a (cleanStatusNote raw) (s\<lparr>db_notes := c\<rparr>)"
    using ok c(1) by (simp add: updateStatusNote_def Let_def)
  show ?thesis
  proof (cases "\<exists>d\<in>set (db_notes s). sp_user d = a")
    case True
    then have cs: "c = db_notes s" using c(2) by (simp cong: if_cong)
    obtain d where "d \<in> set (db_notes s)" "sp_user d = a" using True by blast
    then show ?thesis using e u by (intro that [of c d]) (simp_all add: cs)
  next
    case False
    then have cs: "c = db_notes s @ [?new]" using c(2) by (simp only: if_False)
    show ?thesis using e u False by (intro that [of c ?new]) (auto simp: cs unique_docs_def)
  qed
qed

text \<open>C30: A note an account sets is clean and short, and is set at most once in ten seconds: the stored
note is the cleaned text, of at most eighty code points, without control characters but joiners, with
single spaces inside and none at its ends, and cleaning it again changes nothing; the notes of others
stay; the next note is refused as too soon until the time the answer named, and accepted from then on.\<close>

theorem status_note:
  assumes "lawful_mongo M" "unique_docs sp_user (db_notes s)"
    and "updateStatusNote M dbNow a (Some raw) s = (Inr r, t)" "na_refusal r = ''''"
  shows "na_note r = cleanStatusNote raw \<and> tidy (na_note r) \<and> length (na_note r) \<le> STATUS_NOTE_MAX_RUNES
    \<and> cleanStatusNote (na_note r) = na_note r \<and> na_nextUpdateAtMs r = dbNow + STATUS_NOTE_INTERVAL_MS
    \<and> (\<exists>p\<in>set (db_notes t). sp_user p = a \<and> sp_note p = na_note r \<and> sp_noteUpdatedAt p = Some dbNow)
    \<and> {q \<in> set (db_notes t). sp_user q \<noteq> a} = {q \<in> set (db_notes s). sp_user q \<noteq> a}
    \<and> (\<forall>later other. validStatusNote (cleanStatusNote other) \<longrightarrow>
        (\<exists>x u. updateStatusNote M later a (Some other) t = (Inr x, u)
          \<and> na_refusal x = (if later < na_nextUpdateAtMs r then ''too_soon'' else '''')))"
proof -
  have ok: "isValidObjectId M (Str a)" "validStatusNote (cleanStatusNote raw)" "isAccount M a s"
    using assms(3,4) by (auto simp: updateStatusNote_def note_refused_def Let_def split: if_splits)
  obtain c p where w: "updateStatusNote M dbNow a (Some raw) s = setNote M dbNow a (cleanStatusNote raw) (s\<lparr>db_notes := c\<rparr>)"
    "unique_docs sp_user c" "p \<in> set c" "sp_user p = a" "{q \<in> set c. sp_user q \<noteq> a} = {q \<in> set (db_notes s). sp_user q \<noteq> a}"
    using assms(1,2) ok by (rule updateStatusNote_eq [where dbNow = dbNow])
  have "unique_docs sp_user (db_notes (s\<lparr>db_notes := c\<rparr>))" "p \<in> set (db_notes (s\<lparr>db_notes := c\<rparr>))" using w(2,3) by simp_all
  note set = setNote_eq [OF assms(1) this w(4), of dbNow "cleanStatusNote raw"]
  have r: "r = \<lparr>na_refusal = '''', na_note = cleanStatusNote raw, na_nextUpdateAtMs = dbNow + STATUS_NOTE_INTERVAL_MS\<rparr>"
    and t: "t = s\<lparr>db_notes := map (noted (cleanStatusNote raw) dbNow a) c\<rparr>"
    using assms(3,4) set w(1) by (auto split: if_splits)
  let ?q = "p\<lparr>sp_note := cleanStatusNote raw, sp_noteUpdatedAt := Some dbNow\<rparr>"
  have q: "?q \<in> set (db_notes t)" using w(3,4) by (auto simp: t noted_def image_iff intro!: bexI [of _ p])
  have ut: "unique_docs sp_user (db_notes t)" using w(2) by (simp add: t unique_docs_map)
  have others: "{q \<in> set (db_notes t). sp_user q \<noteq> a} = {q \<in> set c. sp_user q \<noteq> a}" by (auto simp: t noted_def)
  have later: "\<exists>x u. updateStatusNote M later a (Some other) t = (Inr x, u)
      \<and> na_refusal x = (if later < dbNow + STATUS_NOTE_INTERVAL_MS then ''too_soon'' else '''')"
    if v: "validStatusNote (cleanStatusNote other)" for later other
  proof -
    have acc: "isAccount M a t" using ok(3) by (simp add: isAccount_def t)
    obtain d p' where x: "updateStatusNote M later a (Some other) t = setNote M later a (cleanStatusNote other) (t\<lparr>db_notes := d\<rparr>)"
      and "unique_docs sp_user d" "p' \<in> set d" "sp_user p' = a" "{q \<in> set d. sp_user q \<noteq> a} = {q \<in> set (db_notes t). sp_user q \<noteq> a}"
      and d: "(\<exists>e\<in>set (db_notes t). sp_user e = a) \<longrightarrow> d = db_notes t"
      using assms(1) ut ok(1) v acc by (rule updateStatusNote_eq [where dbNow = later])
    have "sp_user ?q = a" using w(4) by simp
    then have "d = db_notes t" using d q by blast
    then have "t\<lparr>db_notes := d\<rparr> = t" by simp
    moreover have "note_due later ?q \<longleftrightarrow> \<not> later < dbNow + STATUS_NOTE_INTERVAL_MS" by (auto simp: note_due_def)
    ultimately show ?thesis
      using x setNote_eq [OF assms(1) ut q, of a later "cleanStatusNote other"] w(4) by (auto split: if_splits)
  qed
  have len: "length (cleanStatusNote raw) \<le> STATUS_NOTE_MAX_RUNES" using ok(2) by (simp add: validStatusNote_def statusNoteLength_def)
  show ?thesis
    using q others w(4,5) later len clean_tidy [of raw] clean_of_tidy [OF clean_tidy [of raw]]
    by (intro conjI bexI [of _ ?q]) (simp_all add: r)
qed

section \<open>Friendships\<close>

definition friend_count :: "oid \<Rightarrow> social list \<Rightarrow> nat" where
  "friend_count a ds = length (filter (\<lambda>d. sideOf a d \<and> so_status d = Accepted) ds)"

text \<open>One friendship per pair of accounts, each one well formed, and no account with too many friends.\<close>

definition social_inv :: "db \<Rightarrow> bool" where
  "social_inv s \<longleftrightarrow> unique_docs social_key (db_socials s) \<and> unique_docs so_id (db_socials s)
     \<and> list_all social_schema (db_socials s) \<and> (\<forall>a. friend_count a (db_socials s) \<le> FRIENDS_MAX)"

lemma countFriends_eq: "lawful_mongo M \<Longrightarrow> countFriends M a s = friend_count a (db_socials s)"
  by (simp add: countFriends_def friend_count_def collection.find_docs [OF lawful_mongoD(14)])

lemma friend_count_filter: "friend_count a (filter P ds) \<le> friend_count a ds"
proof -
  have "filter (\<lambda>d. sideOf a d \<and> so_status d = Accepted) (filter P ds) = filter P (filter (\<lambda>d. sideOf a d \<and> so_status d = Accepted) ds)"
    by (simp add: conj_commute)
  then show ?thesis unfolding friend_count_def by (metis length_filter_le)
qed

lemma social_inv_filter:
  assumes "social_inv s" "db_socials t = filter P (db_socials s)"
  shows "social_inv t"
  using assms order_trans [OF friend_count_filter]
  by (auto simp: social_inv_def unique_docs_filter list_all_iff)

lemma count_update:
  "distinct ds \<Longrightarrow> d \<in> set ds \<Longrightarrow> \<not> P d \<Longrightarrow>
     length (filter P (map (\<lambda>e. if e = d then f e else e) ds)) = length (filter P ds) + (if P (f d) then 1 else 0)"
proof (induction ds)
  case (Cons e ds)
  have rest: "map (\<lambda>e. if e = d then f e else e) ds = ds" if "d \<notin> set ds" using that by (intro map_idI) auto
  show ?case
  proof (cases "e = d")
    case True
    with Cons.prems rest show ?thesis by simp
  next
    case False
    with Cons show ?thesis by simp
  qed
qed simp

lemma befriended_fields [simp]:
  "so_id (befriended now d) = so_id d" "so_status (befriended now d) = Accepted" "social_key (befriended now d) = social_key d"
  "sideOf a (befriended now d) = sideOf a d"
  by (simp_all add: befriended_def social_key_def sideOf_def)

lemma befriended_schema: "social_schema d \<Longrightarrow> social_schema (befriended now d)"
  by (auto simp: social_schema_def relationshipError_def befriended_def split: if_splits)

lemma unique_docs_distinct: "unique_docs key c \<Longrightarrow> distinct c"
  by (simp add: unique_docs_def distinct_map)

lemma friend_count_befriend:
  assumes "distinct ds" "d \<in> set ds" "so_status d \<noteq> Accepted"
  shows "friend_count a (map (\<lambda>e. if e = d then befriended now e else e) ds) = friend_count a ds + (if sideOf a d then 1 else 0)"
  using count_update [OF assms(1,2), of "\<lambda>d. sideOf a d \<and> so_status d = Accepted" "befriended now"] assms(3)
  by (simp add: friend_count_def)

lemma social_inv_befriend:
  assumes "social_inv s" "d \<in> set (db_socials s)" "so_status d \<noteq> Accepted"
    and "friend_count (so_low d) (db_socials s) < FRIENDS_MAX" "friend_count (so_high d) (db_socials s) < FRIENDS_MAX"
    and "db_socials t = map (\<lambda>e. if e = d then befriended now e else e) (db_socials s)"
  shows "social_inv t"
proof -
  have u: "unique_docs social_key (db_socials s)" "unique_docs so_id (db_socials s)" "list_all social_schema (db_socials s)"
    and c: "\<And>a. friend_count a (db_socials s) \<le> FRIENDS_MAX" using assms(1) by (simp_all add: social_inv_def)
  have "friend_count a (db_socials t) \<le> FRIENDS_MAX" for a
    using friend_count_befriend [OF unique_docs_distinct [OF u(1)] assms(2,3), of a now] assms(4,5) c [of a]
    unfolding assms(6) by (cases "sideOf a d") (auto simp: sideOf_def)
  moreover have "unique_docs social_key (db_socials t)" "unique_docs so_id (db_socials t)"
    unfolding assms(6) using u by (simp_all add: unique_docs_map)
  moreover have "list_all social_schema (db_socials t)"
    unfolding assms(6) using u(3) befriended_schema by (auto simp: list_all_iff)
  ultimately show ?thesis by (simp add: social_inv_def)
qed

lemma socialAnswer_state: "socialAnswer M A now d account s = (r, t) \<Longrightarrow> t = s"
  by (auto simp: socialAnswer_def split: sum.splits)

lemma acceptRequest_cases:
  assumes M: "lawful_mongo M" and inv: "social_inv s" and w: "acceptRequest M A now dbNow account friendshipId s = (r, t)"
  obtains (refused) x where "r = Inr (social_refused x)" "t = s" "x = ''not_found'' \<or> x = ''limit''"
    | (accepted) d where "d \<in> set (db_socials s)" "so_id d = friendshipId" "so_requester d \<noteq> account" "sideOf account d" "pending_at now d"
        "friend_count (so_low d) (db_socials s) < FRIENDS_MAX" "friend_count (so_high d) (db_socials s) < FRIENDS_MAX"
        "t = s\<lparr>db_socials := map (\<lambda>e. if e = d then befriended dbNow e else e) (db_socials s)\<rparr>"
        "socialAnswer M A now (befriended dbNow d) account t = (r, t)"
proof -
  note S = lawful_mongoD(14) [OF M]
  let ?P = "\<lambda>d. so_id d = friendshipId \<and> pending_at now d \<and> so_requester d \<noteq> account \<and> sideOf account d"
  have u: "unique_docs social_key (db_socials s)" "unique_docs so_id (db_socials s)" using inv by (simp_all add: social_inv_def)
  show ?thesis
  proof (cases "drv_find_one (mg_socials M) ?P (db_socials s)")
    case None
    then show ?thesis using w by (intro refused [of "''not_found''"]) (simp_all add: acceptRequest_def)
  next
    case (Some d)
    then have d: "d \<in> set (db_socials s)" "?P d" using collection.find_one_some [OF S Some] by blast+
    let ?Q = "\<lambda>e. so_id e = so_id d \<and> pending_at dbNow e"
    show ?thesis
    proof (cases "FRIENDS_MAX \<le> countFriends M (so_low d) s \<or> FRIENDS_MAX \<le> countFriends M (so_high d) s")
      case True
      then show ?thesis using w Some by (intro refused [of "''limit''"]) (simp_all add: acceptRequest_def)
    next
      case False
      show ?thesis
      proof (rule collection.find_one_and_update_cases [OF S u(1), of ?Q "befriended dbNow"])
        assume "find_one_and_update (mg_socials M) ?Q (befriended dbNow) (db_socials s) = (None, db_socials s)"
        then show ?thesis using w Some False by (intro refused [of "''not_found''"]) (simp_all add: acceptRequest_def)
      next
        fix e assume e: "e \<in> set (db_socials s)" "?Q e"
          and f: "find_one_and_update (mg_socials M) ?Q (befriended dbNow) (db_socials s)
            = (Some (befriended dbNow e), map (\<lambda>x. if x = e then befriended dbNow x else x) (db_socials s))"
        have "e = d" using unique_docs_eq [OF u(2) e(1) d(1)] e(2) by blast
        then have a: "socialAnswer M A now (befriended dbNow d) account
            (s\<lparr>db_socials := map (\<lambda>x. if x = d then befriended dbNow x else x) (db_socials s)\<rparr>) = (r, t)"
          using w Some False f by (simp add: acceptRequest_def)
        note st = socialAnswer_state [OF a]
        show ?thesis
          using False d by (intro accepted [OF d(1)]) (simp_all add: countFriends_eq [OF M] st a [unfolded st])
      qed
    qed
  qed
qed

lemma string_less_total: "a \<noteq> b \<Longrightarrow> string_less a b \<noteq> string_less b a"
proof (induction a b rule: string_less.induct)
  case (3 a as b bs)
  show ?case
  proof (cases "a = b")
    case False
    then have "(of_char a :: nat) \<noteq> of_char b" by simp
    then consider "(of_char a :: nat) < of_char b" | "(of_char b :: nat) < of_char a" by linarith
    then show ?thesis using False by cases auto
  qed (use 3 in simp)
next
  case (1 a)
  then show ?case by (cases a) simp_all
qed simp_all

lemma canonicalPair_sym: "a \<noteq> b \<Longrightarrow> canonicalPair a b = canonicalPair b a"
  using string_less_total [of a b] by (auto simp: canonicalPair_def)

lemma canonicalPair_less: "a \<noteq> b \<Longrightarrow> string_less (fst (canonicalPair a b)) (snd (canonicalPair a b))"
  using string_less_total [of a b] by (auto simp: canonicalPair_def)

lemma canonicalPair_sides: "social_key d = canonicalPair a b \<Longrightarrow> sideOf c d \<longleftrightarrow> c = a \<or> c = b"
  by (auto simp: social_key_def canonicalPair_def sideOf_def split: if_splits)

lemma new_request_fields [simp]:
  "social_key (new_request now i a b) = canonicalPair a b" "so_id (new_request now i a b) = i"
  "so_status (new_request now i a b) = Requested" "so_requester (new_request now i a b) = a"
  "so_expiresAt (new_request now i a b) = Some (now + FRIEND_REQUEST_DAYS * 24 * 60 * 60 * 1000)"
  by (simp_all add: new_request_def social_key_def)

lemma new_request_schema:
  assumes "a \<noteq> b" "a \<noteq> ''''" "b \<noteq> ''''"
  shows "social_schema (new_request now i a b)"
  using canonicalPair_less [OF assms(1)] assms
  by (auto simp: social_schema_def relationshipError_def new_request_def canonicalPair_def split: if_splits)

definition cleared :: "ms \<Rightarrow> oid \<times> oid \<Rightarrow> db \<Rightarrow> db" where
  "cleared now pair s = s\<lparr>db_socials := filter (\<lambda>d. \<not> expired_pair now pair d) (db_socials s)\<rparr>"

lemma requestFriend_cases:
  assumes M: "lawful_mongo M" and inv: "social_inv s" and new: "newId \<notin> so_id ` set (db_socials s)"
    and w: "requestFriend M A now dbNow newId a b s = (r, t)"
  obtains (refused) x where "r = Inr (social_refused x)" "t = s" "x = ''unknown'' \<or> x = ''self''"
    | (met) d where "a \<noteq> b" "d \<in> set (db_socials s)" "social_key d = canonicalPair a b" "so_status d = Requested" "so_requester d = b"
        "\<not> expired_pair now (canonicalPair a b) d" "acceptRequest M A now dbNow a (so_id d) (cleared now (canonicalPair a b) s) = (r, t)"
    | (exists) d where "a \<noteq> b" "d \<in> set (db_socials s)" "social_key d = canonicalPair a b" "\<not> expired_pair now (canonicalPair a b) d"
        "so_status d = Accepted \<or> so_requester d \<noteq> b" "r = Inr (social_refused ''exists'')" "t = cleared now (canonicalPair a b) s"
    | (kept) "t = cleared now (canonicalPair a b) s" "\<And>y. r = Inr y \<Longrightarrow> sn_refusal y \<noteq> ''''"
    | (created) "a \<noteq> b" "\<forall>d\<in>set (db_socials (cleared now (canonicalPair a b) s)). social_key d \<noteq> canonicalPair a b"
        "t = s\<lparr>db_socials := db_socials (cleared now (canonicalPair a b) s) @ [new_request now newId a b]\<rparr>"
        "social_schema (new_request now newId a b)" "socialAnswer M A now (new_request now newId a b) a t = (r, t)"
        "length (filter (\<lambda>d. sideOf a d \<and> so_requester d = a \<and> pending_at now d) (db_socials (cleared now (canonicalPair a b) s))) < FRIEND_REQUESTS_MAX"
proof -
  note S = lawful_mongoD(14) [OF M]
  let ?p = "canonicalPair a b"
  let ?c = "cleared now ?p s"
  have u: "unique_docs social_key (db_socials s)" "unique_docs so_id (db_socials s)" using inv by (simp_all add: social_inv_def)
  have "drv_delete_one (mg_socials M) (expired_pair now ?p) (db_socials s) = filter (\<lambda>d. \<not> expired_pair now ?p d) (db_socials s)"
    by (rule collection.delete_one_unique [OF S u(1), where k = ?p]) (simp add: expired_pair_def)
  then have clr: "s\<lparr>db_socials := drv_delete_one (mg_socials M) (expired_pair now ?p) (db_socials s)\<rparr> = ?c" by (simp add: cleared_def)
  note w = w [unfolded requestFriend_def Let_def clr]
  consider (no) "\<not> isValidObjectId M (Str b) \<or> b = a \<or> \<not> isAccount M b s" | (yes) "isValidObjectId M (Str b)" "b \<noteq> a" "isAccount M b s" by blast
  then show ?thesis
  proof cases
    case no
    then show ?thesis
      using w by (intro refused [of "if \<not> isValidObjectId M (Str b) \<or> b \<noteq> a then ''unknown'' else ''self''"])
        (auto split: if_splits)
  next
    case yes
    then have ab: "a \<noteq> b" by blast
    show ?thesis
    proof (cases "drv_find_one (mg_socials M) (\<lambda>d. social_key d = ?p) (db_socials ?c)")
      case (Some d)
      then have d: "d \<in> set (db_socials ?c)" "social_key d = ?p" using collection.find_one_some [OF S Some] by blast+
      then have ds: "d \<in> set (db_socials s)" "\<not> expired_pair now ?p d" by (auto simp: cleared_def)
      show ?thesis
      proof (cases "so_status d = Requested \<and> so_requester d = b")
        case True
        then show ?thesis using w yes Some ab d(2) ds by (intro met [of d]) (simp_all)
      next
        case False
        then have "r = Inr (social_refused ''exists'')" "t = ?c"
          using w yes Some by auto
        moreover have "so_status d = Accepted \<or> so_requester d \<noteq> b" using False by (cases "so_status d") auto
        ultimately show ?thesis using ab d(2) ds by (intro exists [of d]) simp_all
      qed
    next
      case None
      then have free: "\<forall>d\<in>set (db_socials ?c). social_key d \<noteq> ?p" by (simp only: collection.find_one_none [OF S])
      let ?limit = "FRIEND_REQUESTS_MAX \<le> length (drv_find (mg_socials M) (\<lambda>d. sideOf a d \<and> so_requester d = a \<and> pending_at now d) (db_socials ?c))
          \<or> FRIENDS_MAX \<le> countFriends M a ?c"
      show ?thesis
      proof (cases ?limit)
        case True
        then show ?thesis using w yes None by (intro kept) (auto simp: social_refused_def)
      next
        case False
        have uc: "unique_docs social_key (db_socials ?c)" using u(1) by (simp add: cleared_def unique_docs_filter)
        show ?thesis
        proof (rule collection.create_cases [OF S uc, of "[new_request now newId a b]"])
          assume ok: "list_all social_schema [new_request now newId a b]"
            "drv_create (mg_socials M) [new_request now newId a b] (db_socials ?c) = Inr (db_socials ?c @ [new_request now newId a b])"
          then have w': "socialAnswer M A now (new_request now newId a b) a (?c\<lparr>db_socials := db_socials ?c @ [new_request now newId a b]\<rparr>) = (r, t)"
            using w yes None False by (simp)
          have t: "t = ?c\<lparr>db_socials := db_socials ?c @ [new_request now newId a b]\<rparr>" by (rule socialAnswer_state [OF w'])
          show ?thesis
          proof (rule created [OF ab free])
            show "t = s\<lparr>db_socials := db_socials ?c @ [new_request now newId a b]\<rparr>" by (simp add: t cleared_def)
            show "social_schema (new_request now newId a b)" using ok(1) by simp
            show "socialAnswer M A now (new_request now newId a b) a t = (r, t)" using w' t by simp
            show "length (filter (\<lambda>d. sideOf a d \<and> so_requester d = a \<and> pending_at now d) (db_socials ?c)) < FRIEND_REQUESTS_MAX"
              using False by (simp add: collection.find_docs [OF S])
          qed
        next
          fix e assume "drv_create (mg_socials M) [new_request now newId a b] (db_socials ?c) = Inl e"
          then show ?thesis
            using w yes None False by (intro kept) (auto simp: social_refused_def split: if_splits)
        qed
      qed
    qed
  qed
qed

lemma social_inv_cleared: "social_inv s \<Longrightarrow> social_inv (cleared now pair s)"
  by (rule social_inv_filter) (simp_all add: cleared_def)

lemma social_inv_request:
  assumes "social_inv s" "newId \<notin> so_id ` set (db_socials s)" "social_schema (new_request now newId a b)"
    and "\<forall>d\<in>set (db_socials s). social_key d \<noteq> canonicalPair a b"
    and "db_socials t = db_socials s @ [new_request now newId a b]"
  shows "social_inv t"
  using assms by (auto simp: social_inv_def unique_docs_def friend_count_def)

lemma social_inv_accept:
  assumes "lawful_mongo M" "social_inv s" "acceptRequest M A now dbNow account friendshipId s = (r, t)"
  shows "social_inv t"
proof (rule acceptRequest_cases [OF assms], goal_cases)
  case (1 x)
  then show ?case using assms(2) by simp
next
  case (2 d)
  have "so_status d \<noteq> Accepted" using 2(5) by (auto simp: pending_at_def)
  then show ?case using 2 by (intro social_inv_befriend [OF assms(2), of d]) simp_all
qed

text \<open>C27: No operation on friends breaks what they are: at most one relation of two accounts, named in
one order, with the fields its state requires; and no account ever has more than two hundred friends.
(Two acceptances that read their counts at once are not of this model, which runs one call after
another.)\<close>

theorem friends_bounded:
  assumes "lawful_mongo M" "social_inv s" "newId \<notin> so_id ` set (db_socials s)"
    and "updateFriendship M A now dbNow newId accountId action targetAccountId friendshipId s = (r, t)"
  shows "social_inv t \<and> countFriends M a t \<le> FRIENDS_MAX"
proof -
  note S = lawful_mongoD(14) [OF assms(1)]
  have u: "unique_docs social_key (db_socials s)" using assms(2) by (simp add: social_inv_def)
  consider (same) "t = s" | (request) "requestFriend M A now dbNow newId accountId targetAccountId s = (r, t)"
    | (accept) "acceptRequest M A now dbNow accountId friendshipId s = (r, t)"
    | (ended) status where "endFriendship M A now accountId friendshipId status s = (r, t)"
    using assms(4) by (auto simp: updateFriendship_def split: if_splits)
  then have "social_inv t"
  proof cases
    case same
    then show ?thesis using assms(2) by simp
  next
    case request
    from assms(1-3) request show ?thesis
    proof (rule requestFriend_cases, goal_cases)
      case (2 d)
      then show ?case using social_inv_accept [OF assms(1) social_inv_cleared [OF assms(2)]] by blast
    next
      case 5
      have "newId \<notin> so_id ` set (db_socials (cleared now (canonicalPair accountId targetAccountId) s))"
        using assms(3) by (auto simp: cleared_def)
      then show ?case using 5 by (intro social_inv_request [OF social_inv_cleared [OF assms(2)]]) simp_all
    qed (simp_all add: assms(2) social_inv_cleared)
  next
    case accept
    then show ?thesis by (rule social_inv_accept [OF assms(1,2)])
  next
    case (ended status)
    let ?P = "\<lambda>d. so_id d = friendshipId \<and> so_status d = status \<and> sideOf accountId d"
    have t: "db_socials t = snd (find_one_and_delete (mg_socials M) ?P (db_socials s))"
      using ended by (auto simp: endFriendship_def split: prod.splits option.splits dest!: socialAnswer_state)
    show ?thesis
    proof (rule collection.find_one_and_delete_cases [OF S u, of ?P])
      assume "find_one_and_delete (mg_socials M) ?P (db_socials s) = (None, db_socials s)"
      then show ?thesis using t by (intro social_inv_filter [OF assms(2), of _ "\<lambda>_. True"]) simp
    next
      fix d assume "find_one_and_delete (mg_socials M) ?P (db_socials s) = (Some d, filter (\<lambda>e. e \<noteq> d) (db_socials s))"
      then show ?thesis using t by (intro social_inv_filter [OF assms(2), of _ "\<lambda>e. e \<noteq> d"]) simp
    qed
  qed
  then show ?thesis by (simp add: countFriends_eq [OF assms(1)] social_inv_def)
qed

text \<open>A call that answers one friend reads one account, so its selection is never too large.\<close>

lemma socialAnswer_ok:
  assumes "isValidObjectId M (Str account)"
  obtains x where "socialAnswer M A now d account s = (Inr x, s)" "sn_refusal x = ''''"
proof -
  have "length (filter (\<lambda>i. isValidObjectId M (Str i)) (remdups [otherOf d account])) \<le> FRIENDS_MAX + 2 * FRIEND_REQUESTS_MAX"
    by (rule le_trans [OF length_filter_le]) (simp add: FRIENDS_MAX_def)
  then obtain ps where "identityPreviews M A now account [otherOf d account] s = Inr ps"
    using assms by (auto simp: identityPreviews_def Let_def simp del: remdups.simps filter.simps)
  then have "socialAnswer M A now d account s = (Inr \<lparr>sn_refusal = '''', sn_friend =
      (case List.map_filter (friendRow ps account) [d] of [] \<Rightarrow> None | r # _ \<Rightarrow> Some r)\<rparr>, s)"
    by (simp add: socialAnswer_def friendRows_def)
  then show ?thesis by (rule that) simp
qed

lemma requestFriend_target:
  assumes "requestFriend M A now dbNow newId a b s = (Inr x, t)" "sn_refusal x = ''''"
  shows "isAccount M b s"
  using assms by (auto simp: requestFriend_def social_refused_def split: if_splits)

lemma requestFriend_existing:
  assumes M: "lawful_mongo M" and inv: "social_inv s" and b: "isValidObjectId M (Str b)" "a \<noteq> b" "isAccount M b s"
    and d: "d \<in> set (db_socials s)" "social_key d = canonicalPair a b" "\<not> expired_pair now (canonicalPair a b) d"
  shows "requestFriend M A now dbNow newId a b s = (if so_status d = Requested \<and> so_requester d = b
     then acceptRequest M A now dbNow a (so_id d) s else (Inr (social_refused ''exists''), s))"
proof -
  note S = lawful_mongoD(14) [OF M]
  let ?p = "canonicalPair a b"
  have u: "unique_docs social_key (db_socials s)" using inv by (simp add: social_inv_def)
  have only: "e = d" if "e \<in> set (db_socials s)" "social_key e = ?p" for e
    using unique_docs_eq [OF u that(1) d(1)] that(2) d(2) by simp
  then have "\<forall>e\<in>set (db_socials s). \<not> expired_pair now ?p e" using d(3) by (auto simp: expired_pair_def)
  then have "drv_delete_one (mg_socials M) (expired_pair now ?p) (db_socials s) = db_socials s" by (rule collection.delete_one_none [OF S])
  then have clr: "s\<lparr>db_socials := drv_delete_one (mg_socials M) (expired_pair now ?p) (db_socials s)\<rparr> = s" by simp
  have "drv_find_one (mg_socials M) (\<lambda>e. social_key e = ?p) (db_socials s) \<noteq> None"
    using d(1,2) unfolding collection.find_one_none [OF S] by blast
  then obtain e where e: "drv_find_one (mg_socials M) (\<lambda>e. social_key e = ?p) (db_socials s) = Some e" by blast
  then have "e = d" using collection.find_one_some [OF S e] only by blast
  with e b show ?thesis unfolding requestFriend_def Let_def clr by simp
qed

lemma acceptRequest_ok:
  assumes M: "lawful_mongo M" and inv: "social_inv s" and d: "d \<in> set (db_socials s)" "so_id d = fid"
    and p: "so_requester d \<noteq> account" "sideOf account d" "pending_at now d" "pending_at dbNow d"
    and c: "friend_count (so_low d) (db_socials s) < FRIENDS_MAX" "friend_count (so_high d) (db_socials s) < FRIENDS_MAX"
  shows "acceptRequest M A now dbNow account fid s = socialAnswer M A now (befriended dbNow d) account
     (s\<lparr>db_socials := map (\<lambda>e. if e = d then befriended dbNow e else e) (db_socials s)\<rparr>)"
proof -
  note S = lawful_mongoD(14) [OF M]
  have u: "unique_docs social_key (db_socials s)" "unique_docs so_id (db_socials s)" using inv by (simp_all add: social_inv_def)
  have only: "e = d" if "e \<in> set (db_socials s)" "so_id e = fid" for e
    using unique_docs_eq [OF u(2) that(1) d(1)] that(2) d(2) by simp
  let ?P = "\<lambda>d. so_id d = fid \<and> pending_at now d \<and> so_requester d \<noteq> account \<and> sideOf account d"
  have "drv_find_one (mg_socials M) ?P (db_socials s) \<noteq> None"
    using d p unfolding collection.find_one_none [OF S] by blast
  then obtain e where e: "drv_find_one (mg_socials M) ?P (db_socials s) = Some e" by blast
  then have ed: "e = d" using collection.find_one_some [OF S e] only by blast
  let ?Q = "\<lambda>e. so_id e = so_id d \<and> pending_at dbNow e"
  have f: "find_one_and_update (mg_socials M) ?Q (befriended dbNow) (db_socials s)
      = (Some (befriended dbNow d), map (\<lambda>e. if e = d then befriended dbNow e else e) (db_socials s))"
  proof (rule collection.find_one_and_update_cases [OF S u(1), of ?Q "befriended dbNow"])
    assume "\<forall>d\<in>set (db_socials s). \<not> ?Q d"
    then show ?thesis using d(1) p(4) by blast
  next
    fix x assume x: "x \<in> set (db_socials s)" "?Q x"
      and g: "find_one_and_update (mg_socials M) ?Q (befriended dbNow) (db_socials s)
        = (Some (befriended dbNow x), map (\<lambda>e. if e = x then befriended dbNow e else e) (db_socials s))"
    have "x = d" using only x d(2) by blast
    with g show ?thesis by simp
  qed
  show ?thesis using e ed f c by (simp add: acceptRequest_def countFriends_eq [OF M])
qed

text \<open>C28: Requests meet. Where two accounts have no relation, a request between them that is accepted
leaves one that waits for thirty days; asking again changes nothing; and when the other account asks in
turn before it ends, and both have room, the two are friends.\<close>

theorem requests_meet:
  assumes "lawful_mongo M" "social_inv s" "newId \<notin> so_id ` set (db_socials s)" "isValidObjectId M (Str b)"
    and "\<forall>d\<in>set (db_socials s). social_key d \<noteq> canonicalPair a b"
    and "requestFriend M A now dbNow newId a b s = (Inr x, t)" "sn_refusal x = ''''"
    and "isValidObjectId M (Str a)" "isAccount M a s" "later < now + 2592000000" "dbLater < now + 2592000000"
    and "countFriends M a t < FRIENDS_MAX" "countFriends M b t < FRIENDS_MAX"
  shows "set (db_socials t) = insert (new_request now newId a b) (set (db_socials s))
    \<and> requestFriend M A later dbLater otherId a b t = (Inr (social_refused ''exists''), t)
    \<and> (\<exists>y u. requestFriend M A later dbLater otherId b a t = (Inr y, u) \<and> sn_refusal y = ''''
        \<and> set (db_socials u) = insert (befriended dbLater (new_request now newId a b)) (set (db_socials s)))"
proof -
  let ?p = "canonicalPair a b" and ?d = "new_request now newId a b"
  have clr: "cleared now ?p s = s" using assms(5) by (auto simp: cleared_def expired_pair_def intro!: filter_True)
  have made: "a \<noteq> b \<and> social_schema ?d \<and> t = s\<lparr>db_socials := db_socials s @ [?d]\<rparr>"
  proof (rule requestFriend_cases [OF assms(1-3,6)], goal_cases)
    case (1 x)
    then show ?case using assms(7) by (auto simp: social_refused_def)
  next
    case (2 d)
    then show ?case using assms(5) by blast
  next
    case (3 d)
    then show ?case using assms(5) by blast
  next
    case 4
    then show ?case using assms(7) by blast
  next
    case 5
    then show ?case by (simp add: clr)
  qed
  then have ab: "a \<noteq> b" and t: "t = s\<lparr>db_socials := db_socials s @ [?d]\<rparr>" by simp_all
  have inv: "social_inv t"
    using made assms(5) by (intro social_inv_request [OF assms(2,3)]) simp_all
  have d: "?d \<in> set (db_socials t)" by (simp add: t)
  have only: "e = ?d" if "e \<in> set (db_socials t)" "social_key e = ?p" for e
    using that assms(5) by (auto simp: t)
  have target: "isAccount M b t" using requestFriend_target [OF assms(6,7)] by (simp add: isAccount_def t)
  have source: "isAccount M a t" using assms(9) by (simp add: isAccount_def t)
  have wait: "pending_at n ?d" "\<not> expired_pair n ?p ?d" if "n < now + 2592000000" for n
    using that by (simp_all add: pending_at_def expired_pair_def FRIEND_REQUEST_DAYS_def)
  have again: "requestFriend M A later dbLater otherId a b t = (Inr (social_refused ''exists''), t)"
    using requestFriend_existing [OF assms(1) inv assms(4) ab target d _ wait(2) [OF assms(10)]] ab by simp
  have p: "social_key ?d = canonicalPair b a" "\<not> expired_pair later (canonicalPair b a) ?d"
    using wait(2) [OF assms(10)] by (simp_all add: canonicalPair_sym [OF ab])
  have side: "so_low ?d \<in> {a, b}" "so_high ?d \<in> {a, b}" "sideOf b ?d"
    by (auto simp: new_request_def canonicalPair_def sideOf_def)
  let ?u = "t\<lparr>db_socials := map (\<lambda>e. if e = ?d then befriended dbLater e else e) (db_socials t)\<rparr>"
  have "requestFriend M A later dbLater otherId b a t = acceptRequest M A later dbLater b newId t"
    using requestFriend_existing [OF assms(1) inv assms(8) ab [symmetric] source d p] by simp
  also have "\<dots> = socialAnswer M A later (befriended dbLater ?d) b ?u"
    using side ab assms(12,13) wait(1) [OF assms(10)] wait(1) [OF assms(11)]
    by (intro acceptRequest_ok [OF assms(1) inv d]) (auto simp: countFriends_eq [OF assms(1)])
  finally have e: "requestFriend M A later dbLater otherId b a t = socialAnswer M A later (befriended dbLater ?d) b ?u" .
  obtain y where "socialAnswer M A later (befriended dbLater ?d) b ?u = (Inr y, ?u)" and y0: "sn_refusal y = ''''"
    by (rule socialAnswer_ok [OF assms(4)])
  with e have y: "requestFriend M A later dbLater otherId b a t = (Inr y, ?u)" by simp
  have "?d \<notin> set (db_socials s)" using assms(5) by auto
  then have "set (db_socials ?u) = insert (befriended dbLater ?d) (set (db_socials s))"
  proof -
    assume n: "?d \<notin> set (db_socials s)"
    have "map (\<lambda>e. if e = ?d then befriended dbLater e else e) (db_socials s) = db_socials s" using n by (intro map_idI) auto
    then show ?thesis by (simp add: t)
  qed
  moreover have "set (db_socials t) = insert ?d (set (db_socials s))" by (simp add: t)
  ultimately show ?thesis using y y0 again by blast
qed

section \<open>Witnesses\<close>

lemma social_inv_sample_db: "social_inv sample_db"
  by (simp add: social_inv_def sample_db_def empty_db_def unique_docs_def friend_count_def)

lemma previews_private_witness:
  "\<exists>x. identityPreviews ref_mongo (\<lambda>_. ''p'') 100 uid1 [uid2] sample_db = Inr [(uid2, x)] \<and> id_name x = ''bo''
     \<and> id_note x = [] \<and> \<not> id_online x"
proof -
  have "map_sum id (map (\<lambda>(i, x). (i, id_name x, id_online x, id_note x)))
      (identityPreviews ref_mongo (\<lambda>_. ''p'') 100 uid1 [uid2] sample_db) = Inr [(uid2, ''bo'', False, [])]" by code_simp
  then obtain x where x: "identityPreviews ref_mongo (\<lambda>_. ''p'') 100 uid1 [uid2] sample_db = Inr [(uid2, x)]" "id_name x = ''bo''"
    by (cases "identityPreviews ref_mongo (\<lambda>_. ''p'') 100 uid1 [uid2] sample_db") auto
  from previews_private [OF lawful_ref_mongo x(1), of uid2 x] have "id_note x = [] \<and> \<not> id_online x"
    by (simp add: sample_db_def empty_db_def)
  with x show ?thesis by blast
qed

definition sample_request_run :: "db \<Rightarrow> (error + social_answer) \<times> db" where
  "sample_request_run = requestFriend ref_mongo (\<lambda>_. ''p'') 100 100 sid1 uid1 uid2"

lemma sample_request_made: "fst (sample_request_run sample_db) = Inr (projr (fst (sample_request_run sample_db)))"
  "sn_refusal (projr (fst (sample_request_run sample_db))) = ''''"
  by (code_simp, code_simp)

lemma sample_valid: "isValidObjectId ref_mongo (Str uid1)" "isValidObjectId ref_mongo (Str uid2)" "isAccount ref_mongo uid1 sample_db"
  by (code_simp, code_simp, code_simp)

lemma requests_meet_witness:
  "requestFriend ref_mongo (\<lambda>_. ''p'') 200 200 sid2 uid1 uid2 (snd (sample_request_run sample_db))
     = (Inr (social_refused ''exists''), snd (sample_request_run sample_db))"
proof -
  let ?t = "snd (sample_request_run sample_db)"
  have r: "requestFriend ref_mongo (\<lambda>_. ''p'') 100 100 sid1 uid1 uid2 sample_db = (Inr (projr (fst (sample_request_run sample_db))), ?t)"
    using sample_request_made(1) unfolding sample_request_run_def by (simp add: prod_eq_iff)
  have c: "countFriends ref_mongo uid1 ?t < FRIENDS_MAX" "countFriends ref_mongo uid2 ?t < FRIENDS_MAX"
    by (code_simp, code_simp)
  have "db_socials sample_db = []" by (simp add: sample_db_def empty_db_def)
  then show ?thesis
    using requests_meet [OF lawful_ref_mongo social_inv_sample_db _ sample_valid(2) _ r sample_request_made(2) sample_valid(1,3) _ _ c]
    by simp
qed

definition sample_friends_run :: "db \<Rightarrow> (error + social_answer) \<times> db" where
  "sample_friends_run = updateFriendship ref_mongo (\<lambda>_. ''p'') 100 100 sid1 uid1 (Str ''request'') uid2 ''''"

lemma friends_bounded_witness: "social_inv (snd (sample_friends_run sample_db))"
proof -
  have "updateFriendship ref_mongo (\<lambda>_. ''p'') 100 100 sid1 uid1 (Str ''request'') uid2 '''' sample_db
      = (fst (sample_friends_run sample_db), snd (sample_friends_run sample_db))" by (simp add: sample_friends_run_def)
  from friends_bounded [OF lawful_ref_mongo social_inv_sample_db _ this] show ?thesis
    by (simp add: sample_db_def empty_db_def)
qed

definition sample_raw :: "nat list" where "sample_raw = [32, 72, 9, 10, 105, 0, 33]"

lemmas note_rules = cleanStatusNote_def plain_controls_def control_def in_ranges_def CONTROL_def white_space_def joiner_def trim_note_def
  validStatusNote_def surrogate_def statusNoteLength_def STATUS_NOTE_MAX_RUNES_def

lemma sample_clean: "cleanStatusNote sample_raw = [72, 32, 105, 33]" "validStatusNote (cleanStatusNote sample_raw)"
    "validStatusNote (cleanStatusNote [72])"
  by (simp_all add: sample_raw_def note_rules)

lemma status_note_witness:
  "\<exists>r t. updateStatusNote ref_mongo 50000 uid1 (Some sample_raw) sample_db = (Inr r, t) \<and> na_note r = [72, 32, 105, 33] \<and> tidy (na_note r)
     \<and> na_refusal (projr (fst (updateStatusNote ref_mongo 59999 uid1 (Some [72]) t))) = ''too_soon''"
proof -
  have u: "unique_docs sp_user (db_notes sample_db)" using unique_sample_db by (simp add: unique_db_def)
  have d: "mg_notes ref_mongo = ref_driver sp_user (\<lambda>_. True)" "db_notes sample_db = []"
    by (simp_all add: ref_mongo_def sample_db_def empty_db_def)
  obtain r t where run: "updateStatusNote ref_mongo 50000 uid1 (Some sample_raw) sample_db = (Inr r, t)" "na_refusal r = ''''"
    using sample_valid by (auto simp: updateStatusNote_def Let_def sample_clean(1) sample_clean(2) [unfolded sample_clean(1)] setNote_def update_or_insert_def
        find_one_and_update_def d ref_driver_def note_due_def)
  note N = status_note [OF lawful_ref_mongo u run]
  then obtain x v where "updateStatusNote ref_mongo 59999 uid1 (Some [72]) t = (Inr x, v)" "na_refusal x = ''too_soon''"
    using sample_clean(3) by (fastforce simp: STATUS_NOTE_INTERVAL_MS_def)
  with N run show ?thesis by (auto simp: sample_clean(1))
qed

end
