(* ===== verification/Ledger.thy ===== *)
theory Ledger imports Store Identity "HOL-Library.List_Lexorder" "HOL-Library.Char_ord" begin

text \<open>
  The projection of a token contract into the database, from \<open>src/api/item-ledger\<close> and the models of
  \<open>item-ledger-transfer\<close>, \<open>item-ledger-balance\<close> and \<open>item-ledger-checkpoint\<close>: the events of the chain
  become bindings, transfer rows and balances, and a checkpoint says how far.

  The chain and the library that reads it are parameters: the provider answers the head, the logs of a
  range of blocks and a balance, and \<open>parse\<close> the event a log carries. A process may stop at any write:
  a run carries the count of writes it still makes (\<open>lr_left\<close>). \<open>ix_replica\<close> says whether the database
  takes transactions, which \<open>ItemLedgerTransfer.startSession\<close> answers. The loop over block ranges
  carries fuel, for a batch size of zero never ends it.
\<close>

section \<open>Documents\<close>

definition ZERO_ADDRESS :: string where
  "ZERO_ADDRESS = ''0x'' @ replicate 40 (CHR ''0'')"

definition TOKEN_STANDARD :: string where "TOKEN_STANDARD = ''ERC1155''"

record ledger_key =
  lk_chainId :: int
  lk_contractAddress :: string

record binding =
  bi_key :: ledger_key
  bi_tokenId :: string
  bi_objectLayerCid :: string
  bi_itemId :: string
  bi_standard :: string
  bi_txHash :: string
  bi_blockNumber :: int

text \<open>One leg of a transfer event, and its row.\<close>

record leg =
  le_txHash :: string
  le_logIndex :: nat
  le_batchIndex :: nat
  le_blockNumber :: nat
  le_from :: string
  le_to :: string
  le_tokenId :: string
  le_value :: string

record transfer =
  tf_key :: ledger_key
  tf_leg :: leg
  tf_applied :: bool

record balance =
  ba_key :: ledger_key
  ba_tokenId :: string
  ba_ownerAddress :: string
  ba_balance :: string

record checkpoint =
  cp_key :: ledger_key
  cp_lastBlock :: int

definition leg_id :: "leg \<Rightarrow> string \<times> nat \<times> nat" where
  "leg_id l = (le_txHash l, le_logIndex l, le_batchIndex l)"

definition binding_key :: "binding \<Rightarrow> ledger_key \<times> string" where
  "binding_key d = (bi_key d, bi_tokenId d)"

definition transfer_key :: "transfer \<Rightarrow> ledger_key \<times> string \<times> nat \<times> nat" where
  "transfer_key d = (tf_key d, leg_id (tf_leg d))"

definition balance_key :: "balance \<Rightarrow> ledger_key \<times> string \<times> string" where
  "balance_key d = (ba_key d, ba_tokenId d, ba_ownerAddress d)"

definition ADDRESS_PATTERN :: "string \<Rightarrow> bool" where
  "ADDRESS_PATTERN s \<longleftrightarrow> take 2 s = ''0x'' \<and> length s = 42 \<and> list_all lower_hex (drop 2 s)"

definition UINT256_PATTERN :: "string \<Rightarrow> bool" where
  "UINT256_PATTERN s \<longleftrightarrow> s \<noteq> '''' \<and> list_all is_digit s \<and> (hd s = CHR ''0'' \<longrightarrow> length s = 1)"

definition binding_schema :: "binding \<Rightarrow> bool" where
  "binding_schema d \<longleftrightarrow> isObjectLayerCid (bi_objectLayerCid d) \<and> 1 \<le> lk_chainId (bi_key d)
     \<and> ADDRESS_PATTERN (lk_contractAddress (bi_key d)) \<and> UINT256_PATTERN (bi_tokenId d)
     \<and> bi_standard d = TOKEN_STANDARD \<and> 0 \<le> bi_blockNumber d"

text \<open>\<open>updateOne\<close> runs no validators, so the upserts of the other collections take any document.\<close>

record projection_db =
  lg_bindings :: "binding docs"
  lg_transfers :: "transfer docs"
  lg_balances :: "balance docs"
  lg_checkpoints :: "checkpoint docs"

record ledger_mongo =
  lm_bindings :: "binding driver"
  lm_transfers :: "transfer driver"
  lm_balances :: "balance driver"
  lm_checkpoints :: "checkpoint driver"

definition lawful_ledger :: "ledger_mongo \<Rightarrow> bool" where
  "lawful_ledger M \<longleftrightarrow> collection (lm_bindings M) binding_key binding_schema
     \<and> collection (lm_transfers M) transfer_key (\<lambda>_. True)
     \<and> collection (lm_balances M) balance_key (\<lambda>_. True)
     \<and> collection (lm_checkpoints M) cp_key (\<lambda>_. True)"

definition unique_ledger :: "projection_db \<Rightarrow> bool" where
  "unique_ledger s \<longleftrightarrow> unique_docs binding_key (lg_bindings s) \<and> unique_docs transfer_key (lg_transfers s)
     \<and> unique_docs balance_key (lg_balances s) \<and> unique_docs cp_key (lg_checkpoints s)"

section \<open>Bindings\<close>

text \<open>What a caller registers: a field it leaves out is \<open>None\<close>.\<close>

record binding_request =
  bq_objectLayerCid :: string
  bq_chainId :: int
  bq_contractAddress :: "string option"
  bq_itemId :: "string option"
  bq_tokenId :: "token_arg option"
  bq_txHash :: string
  bq_blockNumber :: "int option"

fun thrown :: "string + 'a \<Rightarrow> error + 'a" where
  "thrown (Inl m) = Inl (plain_error m)"
| "thrown (Inr a) = Inr a"

text \<open>The refusal of \<open>bind\<close> before it writes; the message prints the token id as it was given (a
\<open>number\<close> from 10^21 on prints with an exponent, which the model writes out).\<close>

fun token_text :: "token_arg \<Rightarrow> string" where
  "token_text (TokenText s) = s"
| "token_text (TokenNumber q) = int_string \<lfloor>q\<rfloor>"
| "token_text (TokenBig i) = int_string i"

definition foreign_token :: "token_arg \<Rightarrow> binding_request \<Rightarrow> error" where
  "foreign_token t q = plain_error (''tokenId '' @ token_text t @ '' is not the token id of '' @ bq_objectLayerCid q)"

definition token_of_binding :: "binding_request \<Rightarrow> error + string" where
  "token_of_binding q = bindE (thrown (objectLayerTokenId (bq_objectLayerCid q))) (\<lambda>tokenId.
     case bq_tokenId q of None \<Rightarrow> Inr tokenId
     | Some t \<Rightarrow> bindE (thrown (normalizeTokenId t)) (\<lambda>t'. if t' \<noteq> tokenId then Inl (foreign_token t q) else Inr tokenId))"

definition bound :: "binding_request \<Rightarrow> binding \<Rightarrow> binding" where
  "bound q d = d\<lparr>bi_objectLayerCid := bq_objectLayerCid q, bi_standard := TOKEN_STANDARD,
     bi_itemId := (case bq_itemId q of None \<Rightarrow> bi_itemId d | Some i \<Rightarrow> trim i),
     bi_txHash := (if bq_txHash q = '''' then bi_txHash d else trim (bq_txHash q)),
     bi_blockNumber := (case bq_blockNumber q of None \<Rightarrow> bi_blockNumber d | Some n \<Rightarrow> n)\<rparr>"

definition new_binding :: "ledger_key \<Rightarrow> string \<Rightarrow> binding" where
  "new_binding key tokenId = \<lparr>bi_key = key, bi_tokenId = tokenId, bi_objectLayerCid = '''', bi_itemId = '''',
     bi_standard = TOKEN_STANDARD, bi_txHash = '''', bi_blockNumber = 0\<rparr>"

text \<open>The validators run on the fields an update writes.\<close>

definition bind :: "ledger_mongo \<Rightarrow> binding_request \<Rightarrow> (projection_db, binding) work" where
  "bind M q s = (let key = \<lparr>lk_chainId = bq_chainId q, lk_contractAddress = normalizeAddress (bq_contractAddress q)\<rparr>
     in case token_of_binding q of Inl e \<Rightarrow> (Inl e, s)
      | Inr tokenId \<Rightarrow>
          if (case bq_blockNumber q of None \<Rightarrow> False | Some n \<Rightarrow> n < 0) then (Inl validation_error, s)
          else case find_one_and_upsert (lm_bindings M) (\<lambda>d. binding_key d = (key, tokenId)) (bound q)
                (new_binding key tokenId) (lg_bindings s) of
              Inl e \<Rightarrow> (Inl e, s) | Inr (d, c) \<Rightarrow> (Inr d, s\<lparr>lg_bindings := c\<rparr>))"

definition findByCid :: "ledger_mongo \<Rightarrow> string \<Rightarrow> projection_db \<Rightarrow> binding list" where
  "findByCid M cid s = sort_key (\<lambda>d. lk_chainId (bi_key d)) (sort_key (\<lambda>d. lk_contractAddress (bi_key d))
     (drv_find (lm_bindings M) (\<lambda>d. bi_objectLayerCid d = cid) (lg_bindings s)))"

definition findByToken :: "ledger_mongo \<Rightarrow> int \<Rightarrow> string \<Rightarrow> token_arg \<Rightarrow> projection_db \<Rightarrow> error + binding option" where
  "findByToken M chainId contractAddress tokenId s = bindE (thrown (normalizeTokenId tokenId)) (\<lambda>t.
     Inr (drv_find_one (lm_bindings M) (\<lambda>d. binding_key d
       = (\<lparr>lk_chainId = chainId, lk_contractAddress = normalizeAddress (Some contractAddress)\<rparr>, t)) (lg_bindings s)))"

text \<open>A balance the chain answered, shaped as an ownership record; the service's \<open>DELETE\<close> handler.\<close>

definition ownershipRecord :: "int \<Rightarrow> string option \<Rightarrow> token_arg \<Rightarrow> string option \<Rightarrow> int \<Rightarrow> string + balance" where
  "ownershipRecord chainId contractAddress tokenId ownerAddress amount = bindE (normalizeTokenId tokenId) (\<lambda>t.
     Inr \<lparr>ba_key = \<lparr>lk_chainId = chainId, lk_contractAddress = normalizeAddress contractAddress\<rparr>, ba_tokenId = t,
       ba_ownerAddress = normalizeAddress ownerAddress, ba_balance = int_string amount\<rparr>)"

definition deleteBinding :: "ledger_mongo \<Rightarrow> (binding \<Rightarrow> string) \<Rightarrow> string option \<Rightarrow> (projection_db, binding) work" where
  "deleteBinding M id_of wanted s = (case wanted of
     None \<Rightarrow> (Inl (plain_error ''ItemLedger binding id is required''), s)
   | Some i \<Rightarrow>
       (case find_one_and_delete (lm_bindings M) (\<lambda>d. id_of d = i) (lg_bindings s) of
          (None, c) \<Rightarrow> (Inl (plain_error ''ItemLedger binding not found''), s)
        | (Some d, c) \<Rightarrow> (Inr d, s\<lparr>lg_bindings := c\<rparr>)))"

section \<open>Events\<close>

text \<open>A log of the chain, and the event the library reads in it; an amount has 256 bits.\<close>

record raw_log =
  rl_topics :: "string list"
  rl_data :: string
  rl_blockNumber :: nat
  rl_transactionHash :: string
  rl_index :: nat

datatype event =
    TransferSingle string string "256 word" "256 word"
  | TransferBatch string string "256 word list" "256 word list"
  | ObjectLayerRegistered "256 word" string

record registration =
  rg_tokenId :: string
  rg_objectLayerCid :: string
  rg_txHash :: string
  rg_blockNumber :: nat

type_synonym parser = "string list \<Rightarrow> string \<Rightarrow> event option"

definition leg_of :: "raw_log \<Rightarrow> string \<Rightarrow> string \<Rightarrow> nat \<Rightarrow> 256 word \<Rightarrow> 256 word \<Rightarrow> leg" where
  "leg_of l from to batchIndex tokenId value = \<lparr>le_txHash = map to_lower (rl_transactionHash l),
     le_logIndex = rl_index l, le_batchIndex = batchIndex, le_blockNumber = rl_blockNumber l,
     le_from = normalizeAddress (Some from), le_to = normalizeAddress (Some to),
     le_tokenId = nat_string (unat tokenId), le_value = nat_string (unat value)\<rparr>"

text \<open>A batch with fewer amounts than ids has no amount for the rest, and printing it throws.\<close>

fun batch_legs :: "raw_log \<Rightarrow> string \<Rightarrow> string \<Rightarrow> nat \<Rightarrow> 256 word list \<Rightarrow> 256 word list \<Rightarrow> error + leg list" where
  "batch_legs l from to i [] values = Inr []"
| "batch_legs l from to i (t # ts) [] = Inl (plain_error ''Cannot read properties of undefined'')"
| "batch_legs l from to i (t # ts) (v # vs) = bindE (batch_legs l from to (Suc i) ts vs) (\<lambda>legs.
     Inr (leg_of l from to i t v # legs))"

definition decodeLog :: "parser \<Rightarrow> raw_log \<Rightarrow> error + leg list \<times> registration list" where
  "decodeLog parse l = (case parse (rl_topics l) (rl_data l) of
     None \<Rightarrow> Inr ([], [])
   | Some (ObjectLayerRegistered tokenId cid) \<Rightarrow>
       Inr ([], [\<lparr>rg_tokenId = nat_string (unat tokenId), rg_objectLayerCid = cid,
         rg_txHash = map to_lower (rl_transactionHash l), rg_blockNumber = rl_blockNumber l\<rparr>])
   | Some (TransferSingle from to tokenId value) \<Rightarrow> Inr ([leg_of l from to 0 tokenId value], [])
   | Some (TransferBatch from to ids values) \<Rightarrow> bindE (batch_legs l from to 0 ids values) (\<lambda>legs. Inr (legs, [])))"

section \<open>The indexer\<close>

record indexer =
  ix_key :: ledger_key
  ix_confirmations :: int
  ix_batchSize :: int
  ix_startBlock :: int
  ix_replica :: bool

definition newIndexer :: "int \<Rightarrow> string option \<Rightarrow> int option \<Rightarrow> int option \<Rightarrow> int option \<Rightarrow> bool \<Rightarrow> indexer" where
  "newIndexer chainId contractAddress confirmations batchSize startBlock replica =
     \<lparr>ix_key = \<lparr>lk_chainId = chainId, lk_contractAddress = normalizeAddress contractAddress\<rparr>,
      ix_confirmations = (case confirmations of None \<Rightarrow> 0 | Some n \<Rightarrow> n),
      ix_batchSize = (case batchSize of None \<Rightarrow> 2000 | Some n \<Rightarrow> n),
      ix_startBlock = (case startBlock of None \<Rightarrow> 0 | Some n \<Rightarrow> n), ix_replica = replica\<rparr>"

record provider =
  pv_getBlockNumber :: int
  pv_getLogs :: "int \<Rightarrow> int \<Rightarrow> raw_log list"
  pv_balanceOf :: "string \<Rightarrow> int \<Rightarrow> nat"

text \<open>A run of the process: the writes it still makes, and the database.\<close>

record ledger_run =
  lr_left :: nat
  lr_db :: projection_db

definition stopped :: error where
  "stopped = plain_error ''the process stops''"

definition endless :: error where
  "endless = plain_error ''out of fuel''"

definition failW :: "error \<Rightarrow> ('s, 'a) work" where
  "failW e s = (Inl e, s)"

definition callW :: "(projection_db, 'a) work \<Rightarrow> (ledger_run, 'a) work" where
  "callW m r = (if lr_left r = 0 then (Inl stopped, r)
     else case m (lr_db r) of (a, s) \<Rightarrow> (a, \<lparr>lr_left = lr_left r - 1, lr_db = s\<rparr>))"

definition readW :: "(projection_db \<Rightarrow> 'a) \<Rightarrow> (ledger_run, 'a) work" where
  "readW f r = (Inr (f (lr_db r)), r)"

fun sumW :: "('x \<Rightarrow> ('s, nat) work) \<Rightarrow> 'x list \<Rightarrow> ('s, nat) work" where
  "sumW f [] = retW 0"
| "sumW f (x # xs) = bindW (f x) (\<lambda>n. bindW (sumW f xs) (\<lambda>m. retW (n + m)))"

subsection \<open>Balances\<close>

definition balance_row :: "ledger_key \<Rightarrow> string \<Rightarrow> string \<Rightarrow> balance" where
  "balance_row key tokenId owner = \<lparr>ba_key = key, ba_tokenId = tokenId, ba_ownerAddress = owner, ba_balance = ''0''\<rparr>"

text \<open>\<open>ItemLedgerBalance.add\<close>.\<close>

definition addBalance :: "ledger_mongo \<Rightarrow> ledger_key \<Rightarrow> string \<Rightarrow> string \<Rightarrow> int \<Rightarrow> (projection_db, string) work" where
  "addBalance M key tokenId owner delta s =
     (let mine = (\<lambda>d. balance_key d = (key, tokenId, owner));
          current = (case drv_find_one (lm_balances M) mine (lg_balances s) of None \<Rightarrow> Inr 0 | Some d \<Rightarrow> thrown (bigint (ba_balance d)))
      in case current of Inl e \<Rightarrow> (Inl e, s)
       | Inr n \<Rightarrow>
           (let balance = int_string (n + delta)
            in case update_or_insert (lm_balances M) mine (\<lambda>d. d\<lparr>ba_balance := balance\<rparr>) (balance_row key tokenId owner) (lg_balances s) of
               Inl e \<Rightarrow> (Inl e, s) | Inr c \<Rightarrow> (Inr balance, s\<lparr>lg_balances := c\<rparr>)))"

definition leg_moves :: "leg \<Rightarrow> int \<Rightarrow> (string \<times> int) list" where
  "leg_moves l value = (if le_from l \<noteq> ZERO_ADDRESS then [(le_from l, - value)] else [])
     @ (if le_to l \<noteq> ZERO_ADDRESS then [(le_to l, value)] else [])"

definition moveBalance :: "ledger_mongo \<Rightarrow> ledger_key \<Rightarrow> leg \<Rightarrow> string \<times> int \<Rightarrow> (projection_db, unit) work" where
  "moveBalance M key l mv = bindW (addBalance M key (le_tokenId l) (fst mv) (snd mv)) (\<lambda>_. retW ())"

definition markApplied :: "ledger_mongo \<Rightarrow> ledger_key \<Rightarrow> leg \<Rightarrow> (projection_db, unit) work" where
  "markApplied M key l s = (Inr (), s\<lparr>lg_transfers := snd (snd (drv_update_one (lm_transfers M)
     (\<lambda>d. transfer_key d = (key, leg_id l)) (\<lambda>d. d\<lparr>tf_applied := True\<rparr>) (lg_transfers s)))\<rparr>)"

definition applyWork :: "ledger_mongo \<Rightarrow> ledger_key \<Rightarrow> leg \<Rightarrow> int \<Rightarrow> (projection_db, unit) work" where
  "applyWork M key l value = bindW (eachW (moveBalance M key l) (leg_moves l value)) (\<lambda>_. markApplied M key l)"

text \<open>\<open>applyTransfer\<close>: one transaction where the database takes them, each write alone otherwise. What
the driver meets in each attempt is an argument.\<close>

definition applyTransfer :: "ledger_mongo \<Rightarrow> indexer \<Rightarrow> (leg \<Rightarrow> attempt list) \<Rightarrow> leg \<Rightarrow> (ledger_run, unit) work" where
  "applyTransfer M ix as l = (case bigint (le_value l) of
     Inl m \<Rightarrow> failW (plain_error m)
   | Inr value \<Rightarrow>
       if ix_replica ix then callW (runTransaction (as l) (applyWork M (ix_key ix) l value))
       else bindW (eachW (\<lambda>mv. callW (moveBalance M (ix_key ix) l mv)) (leg_moves l value))
         (\<lambda>_. callW (markApplied M (ix_key ix) l)))"

text \<open>\<open>applyPending\<close>: the rows of the contract not applied yet, in the order of the chain.\<close>

definition chain_order :: "transfer list \<Rightarrow> transfer list" where
  "chain_order ts = sort_key (\<lambda>t. le_blockNumber (tf_leg t)) (sort_key (\<lambda>t. le_logIndex (tf_leg t))
     (sort_key (\<lambda>t. le_batchIndex (tf_leg t)) ts))"

definition pending :: "ledger_mongo \<Rightarrow> ledger_key \<Rightarrow> projection_db \<Rightarrow> transfer list" where
  "pending M key s = chain_order (drv_find (lm_transfers M) (\<lambda>d. tf_key d = key \<and> \<not> tf_applied d) (lg_transfers s))"

definition applyPending :: "ledger_mongo \<Rightarrow> indexer \<Rightarrow> (leg \<Rightarrow> attempt list) \<Rightarrow> (ledger_run, nat) work" where
  "applyPending M ix as = bindW (readW (pending M (ix_key ix))) (\<lambda>ts.
     bindW (eachW (\<lambda>t. applyTransfer M ix as (tf_leg t)) ts) (\<lambda>_. retW (length ts)))"

subsection \<open>Recording\<close>

definition inserted_transfer :: "ledger_key \<Rightarrow> leg \<Rightarrow> transfer" where
  "inserted_transfer key l = \<lparr>tf_key = key, tf_leg = l, tf_applied = False\<rparr>"

text \<open>The upsert answers whether it inserted the row.\<close>

definition upsertTransfer :: "ledger_mongo \<Rightarrow> ledger_key \<Rightarrow> leg \<Rightarrow> (projection_db, bool) work" where
  "upsertTransfer M key l s = (case drv_update_one (lm_transfers M) (\<lambda>d. transfer_key d = (key, leg_id l)) (\<lambda>d. d) (lg_transfers s) of
     (matched, _, c) \<Rightarrow>
       if matched \<noteq> 0 then (Inr False, s\<lparr>lg_transfers := c\<rparr>)
       else case drv_create (lm_transfers M) [inserted_transfer key l] (lg_transfers s) of
           Inl e \<Rightarrow> (Inl e, s) | Inr c' \<Rightarrow> (Inr True, s\<lparr>lg_transfers := c'\<rparr>))"

definition recordTransfer :: "ledger_mongo \<Rightarrow> indexer \<Rightarrow> (leg \<Rightarrow> attempt list) \<Rightarrow> leg \<Rightarrow> (ledger_run, nat) work" where
  "recordTransfer M ix as l = bindW (callW (upsertTransfer M (ix_key ix) l)) (\<lambda>inserted.
     if \<not> inserted then retW 0 else bindW (applyTransfer M ix as l) (\<lambda>_. retW 1))"

definition other_content :: "registration \<Rightarrow> string \<Rightarrow> error" where
  "other_content g cid = plain_error (''Registration of token '' @ rg_tokenId g @ '' names '' @ rg_objectLayerCid g
     @ '', its content is '' @ cid)"

definition recordRegistration :: "ledger_mongo \<Rightarrow> indexer \<Rightarrow> registration \<Rightarrow> (ledger_run, nat) work" where
  "recordRegistration M ix g = (case objectLayerCidOfTokenId (TokenText (rg_tokenId g)) of
     Inl m \<Rightarrow> failW (plain_error m)
   | Inr cid \<Rightarrow>
       if cid \<noteq> rg_objectLayerCid g then failW (other_content g cid)
       else bindW (callW (bind M \<lparr>bq_objectLayerCid = rg_objectLayerCid g, bq_chainId = lk_chainId (ix_key ix),
           bq_contractAddress = Some (lk_contractAddress (ix_key ix)), bq_itemId = None,
           bq_tokenId = Some (TokenText (rg_tokenId g)), bq_txHash = rg_txHash g,
           bq_blockNumber = Some (int (rg_blockNumber g))\<rparr>)) (\<lambda>_. retW 1))"

section \<open>Synchronization\<close>

record summary =
  sm_fromBlock :: int
  sm_toBlock :: int
  sm_transfers :: nat
  sm_registrations :: nat

definition projectLog :: "ledger_mongo \<Rightarrow> indexer \<Rightarrow> parser \<Rightarrow> (leg \<Rightarrow> attempt list) \<Rightarrow> summary \<Rightarrow> raw_log \<Rightarrow> (ledger_run, summary) work" where
  "projectLog M ix parse as sm l = (case decodeLog parse l of
     Inl e \<Rightarrow> failW e
   | Inr (transfers, registrations) \<Rightarrow>
       bindW (sumW (recordRegistration M ix) registrations) (\<lambda>g.
         bindW (sumW (recordTransfer M ix as) transfers) (\<lambda>t.
           retW (sm\<lparr>sm_registrations := sm_registrations sm + g, sm_transfers := sm_transfers sm + t\<rparr>))))"

fun projectLogs :: "ledger_mongo \<Rightarrow> indexer \<Rightarrow> parser \<Rightarrow> (leg \<Rightarrow> attempt list) \<Rightarrow> summary \<Rightarrow> raw_log list \<Rightarrow> (ledger_run, summary) work" where
  "projectLogs M ix parse as sm [] = retW sm"
| "projectLogs M ix parse as sm (l # ls) = bindW (projectLog M ix parse as sm l) (\<lambda>sm'. projectLogs M ix parse as sm' ls)"

definition saveCheckpoint :: "ledger_mongo \<Rightarrow> ledger_key \<Rightarrow> int \<Rightarrow> (projection_db, unit) work" where
  "saveCheckpoint M key block s = (case update_or_insert (lm_checkpoints M) (\<lambda>d. cp_key d = key)
       (\<lambda>d. d\<lparr>cp_lastBlock := block\<rparr>) \<lparr>cp_key = key, cp_lastBlock = block\<rparr> (lg_checkpoints s) of
     Inl e \<Rightarrow> (Inl e, s) | Inr c \<Rightarrow> (Inr (), s\<lparr>lg_checkpoints := c\<rparr>))"

fun projectBlocks :: "ledger_mongo \<Rightarrow> indexer \<Rightarrow> parser \<Rightarrow> provider \<Rightarrow> (leg \<Rightarrow> attempt list) \<Rightarrow> int \<Rightarrow> nat \<Rightarrow> int \<Rightarrow> summary \<Rightarrow> (ledger_run, summary) work" where
  "projectBlocks M ix parse pv as head fuel start sm =
     (if head < start then retW sm
      else case fuel of 0 \<Rightarrow> failW endless
       | Suc fuel' \<Rightarrow>
           (let end = min (start + ix_batchSize ix - 1) head
            in bindW (projectLogs M ix parse as sm (pv_getLogs pv start end)) (\<lambda>sm'.
                 bindW (callW (saveCheckpoint M (ix_key ix) end)) (\<lambda>_.
                   projectBlocks M ix parse pv as head fuel' (start + ix_batchSize ix) sm'))))"

declare projectBlocks.simps [simp del]

definition fromBlock :: "ledger_mongo \<Rightarrow> indexer \<Rightarrow> projection_db \<Rightarrow> int" where
  "fromBlock M ix s = (case drv_find_one (lm_checkpoints M) (\<lambda>d. cp_key d = ix_key ix) (lg_checkpoints s) of
     None \<Rightarrow> ix_startBlock ix | Some d \<Rightarrow> cp_lastBlock d + 1)"

definition sync :: "ledger_mongo \<Rightarrow> indexer \<Rightarrow> parser \<Rightarrow> provider \<Rightarrow> (leg \<Rightarrow> attempt list) \<Rightarrow> nat \<Rightarrow> (ledger_run, summary) work" where
  "sync M ix parse pv as fuel = bindW (applyPending M ix as) (\<lambda>_.
     bindW (readW (fromBlock M ix)) (\<lambda>from.
       (let head = pv_getBlockNumber pv - ix_confirmations ix;
            sm = \<lparr>sm_fromBlock = from, sm_toBlock = head, sm_transfers = 0, sm_registrations = 0\<rparr>
        in if head < from then retW sm else projectBlocks M ix parse pv as head fuel from sm)))"

section \<open>Reconciliation and supply\<close>

record correction =
  co_tokenId :: string
  co_ownerAddress :: string
  co_projected :: string
  co_chain :: string

definition reconcileRow :: "ledger_mongo \<Rightarrow> provider \<Rightarrow> balance \<Rightarrow> (ledger_run, correction list) work" where
  "reconcileRow M pv row = (case bigint (ba_tokenId row) of
     Inl m \<Rightarrow> failW (plain_error m)
   | Inr tokenId \<Rightarrow>
       (let chain = nat_string (pv_balanceOf pv (ba_ownerAddress row) tokenId)
        in if chain = ba_balance row then retW []
           else bindW (callW (\<lambda>s. (Inr (), s\<lparr>lg_balances := snd (snd (drv_update_one (lm_balances M)
                 (\<lambda>d. balance_key d = balance_key row) (\<lambda>d. d\<lparr>ba_balance := chain\<rparr>) (lg_balances s)))\<rparr>)))
             (\<lambda>_. retW [\<lparr>co_tokenId = ba_tokenId row, co_ownerAddress = ba_ownerAddress row,
                co_projected = ba_balance row, co_chain = chain\<rparr>])))"

fun reconcileRows :: "ledger_mongo \<Rightarrow> provider \<Rightarrow> balance list \<Rightarrow> (ledger_run, correction list) work" where
  "reconcileRows M pv [] = retW []"
| "reconcileRows M pv (row # rows) = bindW (reconcileRow M pv row) (\<lambda>c.
     bindW (reconcileRows M pv rows) (\<lambda>cs. retW (c @ cs)))"

definition reconcile :: "ledger_mongo \<Rightarrow> indexer \<Rightarrow> provider \<Rightarrow> (ledger_run, nat \<times> correction list) work" where
  "reconcile M ix pv = bindW (readW (\<lambda>s. drv_find (lm_balances M) (\<lambda>d. ba_key d = ix_key ix) (lg_balances s))) (\<lambda>rows.
     bindW (reconcileRows M pv rows) (\<lambda>corrected. retW (length rows, corrected)))"

text \<open>The supply read of \<open>ItemLedgerBalanceService\<close> and \<open>resolveTokenSupply\<close>.\<close>

definition tokenSupply :: "ledger_mongo \<Rightarrow> ledger_key \<Rightarrow> string \<Rightarrow> projection_db \<Rightarrow> error + string \<times> nat" where
  "tokenSupply M key tokenId s = (let rows = drv_find (lm_balances M)
        (\<lambda>d. ba_key d = key \<and> ba_tokenId d = tokenId \<and> ba_balance d \<noteq> ''0'') (lg_balances s)
     in bindE (mapE (\<lambda>d. thrown (bigint (ba_balance d))) rows) (\<lambda>ns.
          Inr (int_string (sum_list ns), length rows)))"

section \<open>Balances move by what a leg says\<close>

lemma lawful_ledgerD:
  assumes "lawful_ledger M"
  shows "collection (lm_bindings M) binding_key binding_schema" "collection (lm_transfers M) transfer_key (\<lambda>_. True)"
    "collection (lm_balances M) balance_key (\<lambda>_. True)" "collection (lm_checkpoints M) cp_key (\<lambda>_. True)"
  using assms by (simp_all add: lawful_ledger_def)

definition row_amount :: "balance \<Rightarrow> int" where
  "row_amount d = (case bigint (ba_balance d) of Inr n \<Rightarrow> n | Inl _ \<Rightarrow> 0)"

definition balance_of :: "ledger_key \<Rightarrow> balance docs \<Rightarrow> string \<Rightarrow> string \<Rightarrow> int" where
  "balance_of K c tok owner = (case List.find (\<lambda>d. balance_key d = (K, tok, owner)) c of None \<Rightarrow> 0 | Some d \<Rightarrow> row_amount d)"

definition sound_balances :: "ledger_key \<Rightarrow> balance docs \<Rightarrow> bool" where
  "sound_balances K c \<longleftrightarrow> unique_docs balance_key c \<and> (\<forall>d\<in>set c. ba_key d = K \<longrightarrow> (\<exists>n. ba_balance d = int_string n))"

definition leg_amount :: "leg \<Rightarrow> int" where
  "leg_amount l = (case bigint (le_value l) of Inr v \<Rightarrow> v | Inl _ \<Rightarrow> 0)"

text \<open>What a leg adds to the balance of an owner: nothing to the zero address.\<close>

definition leg_delta :: "string \<Rightarrow> string \<Rightarrow> leg \<Rightarrow> int" where
  "leg_delta tok owner l = (if le_tokenId l \<noteq> tok \<or> owner = ZERO_ADDRESS then 0
     else (if le_to l = owner then leg_amount l else 0) - (if le_from l = owner then leg_amount l else 0))"

lemma find_map_other:
  "(\<And>d. Q d \<Longrightarrow> \<not> P d \<and> \<not> P (f d)) \<Longrightarrow> List.find P (map (\<lambda>d. if Q d then f d else d) c) = List.find P c"
  by (induction c) auto

lemma find_map_same:
  "(\<And>d. P d \<Longrightarrow> P (f d)) \<Longrightarrow> List.find P (map (\<lambda>d. if P d then f d else d) c) = map_option f (List.find P c)"
  by (induction c) auto

lemma find_append_new: "List.find P (c @ [d]) = (case List.find P c of None \<Rightarrow> if P d then Some d else None | Some e \<Rightarrow> Some e)"
  by (induction c) auto

lemma int_string_neg: "int_string (- int (Suc n)) = CHR ''-'' # nat_string (Suc n)"
  by (simp add: int_string_def del: of_nat_Suc)

lemma bigint_int_string [simp]: "bigint (int_string i) = Inr i"
proof (cases "0 \<le> i")
  case True
  then show ?thesis by (metis bigint_nat_string int_string_of_nat nonneg_int_cases)
next
  case False
  define n where "n = nat (- i) - 1"
  have i: "i = - int (Suc n)" using False by (simp add: n_def)
  have d: "\<forall>c\<in>set (nat_string (Suc n)). is_digit c" by (rule nat_string_digits)
  have "trim (CHR ''-'' # nat_string (Suc n)) = CHR ''-'' # nat_string (Suc n)"
    using d by (intro trim_id ballI) (auto dest: digit_no_space, simp add: is_space_def)
  then have "bigint_value (int_string i) = Some i"
    by (simp add: bigint_value_def i int_string_neg Let_def digits_of_def radix_value_nat_string del: of_nat_Suc)
  then show ?thesis by (simp add: bigint_def)
qed

lemma row_amount_int_string [simp]: "ba_balance d = int_string n \<Longrightarrow> row_amount d = n"
  by (simp add: row_amount_def)

lemma addBalance_ok:
  assumes M: "lawful_ledger M" and c: "sound_balances K (lg_balances s)"
  obtains b c' where "addBalance M K tok owner \<delta> s = (Inr b, s\<lparr>lg_balances := c'\<rparr>)" "sound_balances K c'"
    "\<forall>t u. balance_of K c' t u = balance_of K (lg_balances s) t u + (if t = tok \<and> u = owner then \<delta> else 0)"
proof -
  let ?k = "(K, tok, owner)" and ?c = "lg_balances s"
  note S = lawful_ledgerD(3) [OF M]
  have u: "unique_docs balance_key ?c" using c by (simp add: sound_balances_def)
  define n where "n = balance_of K ?c tok owner"
  have one: "drv_find_one (lm_balances M) (\<lambda>d. balance_key d = ?k) ?c = List.find (\<lambda>d. balance_key d = ?k) ?c"
    by (rule collection.find_one_unique [OF S u, where k = ?k]) simp
  have cur: "(case drv_find_one (lm_balances M) (\<lambda>d. balance_key d = ?k) ?c of None \<Rightarrow> Inr 0
      | Some d \<Rightarrow> thrown (bigint (ba_balance d))) = Inr n"
  proof (cases "List.find (\<lambda>d. balance_key d = ?k) ?c")
    case None
    then show ?thesis by (simp add: one n_def balance_of_def)
  next
    case (Some d)
    then have "d \<in> set ?c" "ba_key d = K" using find_SomeD by (fastforce simp: balance_key_def)+
    then obtain m where "ba_balance d = int_string m" using c by (auto simp: sound_balances_def)
    with Some show ?thesis by (simp add: one n_def balance_of_def)
  qed
  let ?f = "\<lambda>d. d\<lparr>ba_balance := int_string (n + \<delta>)\<rparr>" and ?new = "balance_row K tok owner"
  obtain c' where up: "update_or_insert (lm_balances M) (\<lambda>d. balance_key d = ?k) ?f ?new ?c = Inr c'"
    and c': "c' = (if \<exists>d\<in>set ?c. balance_key d = ?k then map (\<lambda>d. if balance_key d = ?k then ?f d else d) ?c else ?c @ [?f ?new])"
    by (rule collection.update_or_insert_cases [OF S u, where k = ?k and f = ?f and new = ?new
          and P = "\<lambda>d. balance_key d = ?k"]) (auto simp: balance_key_def balance_row_def)
  have add: "addBalance M K tok owner \<delta> s = (Inr (int_string (n + \<delta>)), s\<lparr>lg_balances := c'\<rparr>)"
    using cur up by (simp add: addBalance_def Let_def)
  have sound: "sound_balances K c'"
    using c unfolding c' by (auto simp: sound_balances_def unique_docs_map balance_key_def)
      (auto simp: unique_docs_def balance_row_def balance_key_def)
  have "balance_of K c' t v = balance_of K ?c t v + (if t = tok \<and> v = owner then \<delta> else 0)" for t v
  proof (cases "\<exists>d\<in>set ?c. balance_key d = ?k")
    case False
    then have "List.find (\<lambda>d. balance_key d = ?k) ?c = None" by (auto simp: find_None_iff_ball)
    then have "n = 0" by (simp add: n_def balance_of_def)
    with False \<open>List.find _ _ = None\<close> show ?thesis unfolding c' balance_of_def
      by (auto simp: find_append_new balance_row_def balance_key_def split: option.splits)
  next
    case True
    show ?thesis
    proof (cases "t = tok \<and> v = owner")
      case False
      have "List.find (\<lambda>d. balance_key d = (K, t, v)) (map (\<lambda>d. if balance_key d = ?k then ?f d else d) ?c)
          = List.find (\<lambda>d. balance_key d = (K, t, v)) ?c"
        by (rule find_map_other) (use False in \<open>auto simp: balance_key_def\<close>)
      with True have "balance_of K c' t v = balance_of K ?c t v" unfolding c' balance_of_def by simp
      with False show ?thesis by auto
    next
      case same: True
      obtain d where d: "List.find (\<lambda>d. balance_key d = ?k) ?c = Some d"
        using True find_None_iff_ball [of "\<lambda>d. balance_key d = ?k" ?c] by fastforce
      have "List.find (\<lambda>d. balance_key d = ?k) (map (\<lambda>d. if balance_key d = ?k then ?f d else d) ?c)
          = map_option ?f (List.find (\<lambda>d. balance_key d = ?k) ?c)"
        by (rule find_map_same) (simp add: balance_key_def)
      with True d have "List.find (\<lambda>d. balance_key d = ?k) c' = Some (?f d)" unfolding c' by simp
      then have "balance_of K c' tok owner = n + \<delta>" by (simp add: balance_of_def)
      with same show ?thesis by (simp add: n_def)
    qed
  qed
  with add sound show ?thesis by (intro that) blast+
qed

lemma eachW_leg_moves:
  assumes M: "lawful_ledger M" and c: "sound_balances K (lg_balances s)"
  shows "\<exists>c'. eachW (moveBalance M K l) mvs s = (Inr (), s\<lparr>lg_balances := c'\<rparr>) \<and> sound_balances K c'
    \<and> (\<forall>t u. balance_of K c' t u = balance_of K (lg_balances s) t u
        + (if t = le_tokenId l then (\<Sum>mv\<leftarrow>mvs. if fst mv = u then snd mv else 0) else 0))"
  using c
proof (induction mvs arbitrary: s)
  case Nil
  then show ?case by (auto simp: retW_def intro!: exI [of _ "lg_balances s"])
next
  case (Cons mv mvs)
  obtain b c1 where b: "addBalance M K (le_tokenId l) (fst mv) (snd mv) s = (Inr b, s\<lparr>lg_balances := c1\<rparr>)" "sound_balances K c1"
    "\<forall>t u. balance_of K c1 t u = balance_of K (lg_balances s) t u + (if t = le_tokenId l \<and> u = fst mv then snd mv else 0)"
    by (rule addBalance_ok [OF M Cons.prems])
  obtain c2 where c2: "eachW (moveBalance M K l) mvs (s\<lparr>lg_balances := c1\<rparr>) = (Inr (), s\<lparr>lg_balances := c2\<rparr>)"
    "sound_balances K c2" "\<forall>t u. balance_of K c2 t u = balance_of K c1 t u
        + (if t = le_tokenId l then (\<Sum>mv\<leftarrow>mvs. if fst mv = u then snd mv else 0) else 0)"
    using Cons.IH [of "s\<lparr>lg_balances := c1\<rparr>"] b(2) by auto
  have "eachW (moveBalance M K l) (mv # mvs) s = (Inr (), s\<lparr>lg_balances := c2\<rparr>)"
    using b(1) c2(1) by (simp add: moveBalance_def bindW_def retW_def)
  moreover have "\<forall>t u. balance_of K c2 t u = balance_of K (lg_balances s) t u
        + (if t = le_tokenId l then (\<Sum>mv\<leftarrow>mv # mvs. if fst mv = u then snd mv else 0) else 0)"
    using b(3) c2(3) by auto
  ultimately show ?case using c2(2) by blast
qed

definition marked :: "ledger_key \<Rightarrow> leg \<Rightarrow> transfer \<Rightarrow> transfer" where
  "marked K l d = (if transfer_key d = (K, leg_id l) then d\<lparr>tf_applied := True\<rparr> else d)"

definition mark :: "ledger_key \<Rightarrow> leg \<Rightarrow> transfer docs \<Rightarrow> transfer docs" where
  "mark K l ts = map (marked K l) ts"

lemma marked_simps [simp]:
  "tf_key (marked K l d) = tf_key d" "tf_leg (marked K l d) = tf_leg d" "transfer_key (marked K l d) = transfer_key d"
  "tf_applied (marked K l d) \<longleftrightarrow> tf_applied d \<or> transfer_key d = (K, leg_id l)"
  by (auto simp: marked_def transfer_key_def)

lemma applyWork_ok:
  assumes M: "lawful_ledger M" and u: "unique_docs transfer_key (lg_transfers s)"
    and c: "sound_balances K (lg_balances s)" and v: "bigint (le_value l) = Inr v"
  obtains c' where "applyWork M K l v s = (Inr (), s\<lparr>lg_balances := c', lg_transfers := mark K l (lg_transfers s)\<rparr>)"
    "sound_balances K c'" "\<forall>t u. balance_of K c' t u = balance_of K (lg_balances s) t u + leg_delta t u l"
proof -
  obtain c' where c': "eachW (moveBalance M K l) (leg_moves l v) s = (Inr (), s\<lparr>lg_balances := c'\<rparr>)" "sound_balances K c'"
    "\<forall>t u. balance_of K c' t u = balance_of K (lg_balances s) t u
        + (if t = le_tokenId l then (\<Sum>mv\<leftarrow>leg_moves l v. if fst mv = u then snd mv else 0) else 0)"
    using eachW_leg_moves [OF M c] by blast
  have "snd (snd (drv_update_one (lm_transfers M) (\<lambda>d. transfer_key d = (K, leg_id l)) (\<lambda>d. d\<lparr>tf_applied := True\<rparr>) (lg_transfers s)))
      = mark K l (lg_transfers s)"
    unfolding mark_def marked_def
    by (rule collection.update_one_unique [OF lawful_ledgerD(2) [OF M] u, where k = "(K, leg_id l)"]) simp
  then have "applyWork M K l v s = (Inr (), s\<lparr>lg_balances := c', lg_transfers := mark K l (lg_transfers s)\<rparr>)"
    using c'(1) by (simp add: applyWork_def bindW_def markApplied_def)
  moreover have "balance_of K c' t w = balance_of K (lg_balances s) t w + leg_delta t w l" for t w
    using c'(3) v by (auto simp: leg_delta_def leg_amount_def leg_moves_def)
  ultimately show ?thesis using c'(2) by (intro that) blast+
qed

section \<open>The projection at every write\<close>

definition rows_of :: "ledger_key \<Rightarrow> projection_db \<Rightarrow> transfer set" where
  "rows_of K s = {t \<in> set (lg_transfers s). tf_key t = K}"

definition recorded :: "ledger_key \<Rightarrow> projection_db \<Rightarrow> leg set" where
  "recorded K s = tf_leg ` rows_of K s"

definition unapplied :: "ledger_key \<Rightarrow> projection_db \<Rightarrow> transfer set" where
  "unapplied K s = {t \<in> rows_of K s. \<not> tf_applied t}"

text \<open>What the rows taken into the balances add up to.\<close>

definition applied_sum :: "ledger_key \<Rightarrow> transfer docs \<Rightarrow> string \<Rightarrow> string \<Rightarrow> int" where
  "applied_sum K ts tok owner = (\<Sum>t\<leftarrow>ts. if tf_key t = K \<and> tf_applied t then leg_delta tok owner (tf_leg t) else 0)"

text \<open>
  The invariant: one row per leg, every row a leg of the chain, and each balance the sum of the legs
  taken into it.
\<close>

definition projected :: "ledger_key \<Rightarrow> leg set \<Rightarrow> projection_db \<Rightarrow> bool" where
  "projected K L s \<longleftrightarrow> unique_ledger s \<and> sound_balances K (lg_balances s) \<and> recorded K s \<subseteq> L
     \<and> (\<forall>tok owner. balance_of K (lg_balances s) tok owner = applied_sum K (lg_transfers s) tok owner)"

text \<open>The legs of a chain: each has an amount, and no two have one identity.\<close>

definition sound_legs :: "leg set \<Rightarrow> bool" where
  "sound_legs L \<longleftrightarrow> (\<forall>l\<in>L. \<exists>v. bigint (le_value l) = Inr v) \<and> inj_on leg_id L"

lemma projectedD:
  assumes "projected K L s"
  shows "unique_ledger s" "unique_docs transfer_key (lg_transfers s)" "sound_balances K (lg_balances s)"
    "recorded K s \<subseteq> L" "\<And>tok owner. balance_of K (lg_balances s) tok owner = applied_sum K (lg_transfers s) tok owner"
  using assms by (simp_all add: projected_def unique_ledger_def)

lemma mark_rows_of:
  assumes "lg_transfers s' = mark J l (lg_transfers s)"
  shows "rows_of K s' = marked J l ` rows_of K s"
  unfolding rows_of_def assms mark_def by auto

lemma mark_rows:
  assumes "lg_transfers s' = mark K l (lg_transfers s)"
  shows "recorded K s' = recorded K s"
  by (simp add: recorded_def mark_rows_of [OF assms] image_image)

lemma mark_unapplied:
  assumes u: "unique_docs transfer_key (lg_transfers s)" and t: "t \<in> unapplied K s"
    and s': "lg_transfers s' = mark K (tf_leg t) (lg_transfers s)"
  shows "unapplied K s' = unapplied K s - {t}"
proof -
  have t: "t \<in> set (lg_transfers s)" "tf_key t = K" "\<not> tf_applied t" using t by (auto simp: unapplied_def rows_of_def)
  have one: "d = t" if "d \<in> set (lg_transfers s)" "transfer_key d = (K, leg_id (tf_leg t))" for d
    using unique_docs_eq [OF u that(1) t(1)] that(2) t(2) by (simp add: transfer_key_def)
  have "unapplied K s' = {d \<in> marked K (tf_leg t) ` rows_of K s. \<not> tf_applied d}"
    by (simp add: unapplied_def mark_rows_of [OF s'])
  also have "\<dots> = marked K (tf_leg t) ` {d \<in> rows_of K s. \<not> tf_applied d \<and> transfer_key d \<noteq> (K, leg_id (tf_leg t))}"
    by auto
  also have "\<dots> = {d \<in> rows_of K s. \<not> tf_applied d \<and> transfer_key d \<noteq> (K, leg_id (tf_leg t))}"
    by (force simp: marked_def)
  also have "\<dots> = unapplied K s - {t}"
    using one t(2) by (auto simp: unapplied_def rows_of_def transfer_key_def)
  finally show ?thesis .
qed

lemma applied_sum_mark:
  assumes u: "unique_docs transfer_key ts" and t: "t \<in> set ts" "tf_key t = K" "\<not> tf_applied t"
  shows "applied_sum K (mark K (tf_leg t) ts) tok owner = applied_sum K ts tok owner + leg_delta tok owner (tf_leg t)"
proof -
  obtain i where i: "i < length ts" "ts ! i = t" using t(1) by (auto simp: in_set_conv_nth)
  have "mark K (tf_leg t) ts = ts[i := (ts ! i)\<lparr>tf_applied := True\<rparr>]"
    unfolding mark_def marked_def
    by (rule map_if_update [where k = transfer_key]) (use u i t in \<open>auto simp: unique_docs_def transfer_key_def\<close>)
  then show ?thesis
    using sum_list_update_map [OF i(1), of "\<lambda>t. if tf_key t = K \<and> tf_applied t then leg_delta tok owner (tf_leg t) else 0"
        "(ts ! i)\<lparr>tf_applied := True\<rparr>"] i t
    by (simp add: applied_sum_def)
qed

lemma mark_unique [simp]: "unique_docs transfer_key (mark K l ts) = unique_docs transfer_key ts"
  unfolding mark_def by (rule unique_docs_map) simp

text \<open>An apply that lands takes one recorded leg into the balances; one that does not changes nothing.\<close>

lemma applyTransfer_cases:
  assumes M: "lawful_ledger M" and rep: "ix_replica ix" and L: "sound_legs L"
    and I: "projected (ix_key ix) L (lr_db r)" and t: "t \<in> unapplied (ix_key ix) (lr_db r)"
    and run: "applyTransfer M ix as (tf_leg t) r = (a, r')"
  obtains (stop) e where "a = Inl e" "lr_db r' = lr_db r"
    | (took) "a = Inr ()" "projected (ix_key ix) L (lr_db r')"
      "recorded (ix_key ix) (lr_db r') = recorded (ix_key ix) (lr_db r)"
      "unapplied (ix_key ix) (lr_db r') = unapplied (ix_key ix) (lr_db r) - {t}"
      "lg_checkpoints (lr_db r') = lg_checkpoints (lr_db r)"
proof -
  let ?K = "ix_key ix" and ?s = "lr_db r" and ?l = "tf_leg t"
  note I' = projectedD [OF I]
  have tt: "t \<in> set (lg_transfers ?s)" "tf_key t = ?K" "\<not> tf_applied t" and "?l \<in> recorded ?K ?s"
    using t by (auto simp: unapplied_def rows_of_def recorded_def)
  with I'(4) L obtain v where v: "bigint (le_value ?l) = Inr v" by (auto simp: sound_legs_def)
  obtain c where w: "applyWork M ?K ?l v ?s = (Inr (), ?s\<lparr>lg_balances := c, lg_transfers := mark ?K ?l (lg_transfers ?s)\<rparr>)"
    and c: "sound_balances ?K c" "\<forall>t u. balance_of ?K c t u = balance_of ?K (lg_balances ?s) t u + leg_delta t u ?l"
    by (rule applyWork_ok [OF M I'(2,3) v])
  let ?s' = "?s\<lparr>lg_balances := c, lg_transfers := mark ?K ?l (lg_transfers ?s)\<rparr>"
  show ?thesis
  proof (cases "lr_left r = 0")
    case True
    with run v rep show ?thesis by (intro stop) (auto simp: applyTransfer_def callW_def)
  next
    case False
    obtain b z where z: "runTransaction (as ?l) (applyWork M ?K ?l v) ?s = (b, z)" by force
    with run v rep False have r': "a = b" "lr_db r' = z" by (auto simp: applyTransfer_def callW_def)
    show ?thesis
    proof (cases b)
      case (Inl e)
      with z have "z = ?s" by (auto dest: runTransaction_aborted)
      with Inl r' show ?thesis by (intro stop) auto
    next
      case (Inr x)
      with z w have zs: "z = ?s'" by (auto dest: runTransaction_committed)
      have "unapplied ?K ?s' = unapplied ?K ?s - {t}" by (rule mark_unapplied [OF I'(2) t]) simp
      moreover have rec: "recorded ?K ?s' = recorded ?K ?s" by (rule mark_rows) simp
      moreover have "projected ?K L ?s'"
        using I I' c rec applied_sum_mark [OF I'(2) tt]
        by (simp add: projected_def unique_ledger_def sound_balances_def)
      ultimately show ?thesis using Inr r' zs by (intro took) auto
    qed
  qed
qed

text \<open>The relation between the database before and after part of a run, whether it ends or stops.\<close>

definition advanced :: "ledger_key \<Rightarrow> leg set \<Rightarrow> projection_db \<Rightarrow> projection_db \<Rightarrow> bool" where
  "advanced K L s s' \<longleftrightarrow> projected K L s' \<and> recorded K s \<subseteq> recorded K s' \<and> lg_checkpoints s' = lg_checkpoints s"

lemma advanced_refl: "projected K L s \<Longrightarrow> advanced K L s s"
  by (simp add: advanced_def)

lemma advanced_trans: "advanced K L s t \<Longrightarrow> advanced K L t u \<Longrightarrow> advanced K L s u"
  by (auto simp: advanced_def)

lemma applyAll:
  assumes M: "lawful_ledger M" and rep: "ix_replica ix" and L: "sound_legs L"
  shows "projected (ix_key ix) L (lr_db r) \<Longrightarrow> distinct ts \<Longrightarrow> set ts \<subseteq> unapplied (ix_key ix) (lr_db r) \<Longrightarrow>
    eachW (\<lambda>t. applyTransfer M ix as (tf_leg t)) ts r = (a, r') \<Longrightarrow>
    advanced (ix_key ix) L (lr_db r) (lr_db r')
      \<and> (a = Inr () \<longrightarrow> unapplied (ix_key ix) (lr_db r') = unapplied (ix_key ix) (lr_db r) - set ts)"
proof (induction ts arbitrary: r)
  case Nil
  then show ?case by (auto simp: retW_def advanced_refl)
next
  case (Cons t ts)
  obtain b r1 where r1: "applyTransfer M ix as (tf_leg t) r = (b, r1)" by force
  have t: "t \<in> unapplied (ix_key ix) (lr_db r)" using Cons.prems(3) by simp
  from M rep L Cons.prems(1) t r1 show ?case
  proof (cases rule: applyTransfer_cases)
    case (stop e)
    with Cons.prems(4) r1 have "a = Inl e" "lr_db r' = lr_db r" by (auto simp: bindW_def)
    with Cons.prems(1) show ?thesis by (simp add: advanced_refl)
  next
    case took
    with Cons.prems(4) r1 have rest: "eachW (\<lambda>t. applyTransfer M ix as (tf_leg t)) ts r1 = (a, r')" by (simp add: bindW_def)
    have "set ts \<subseteq> unapplied (ix_key ix) (lr_db r1)" using Cons.prems(2,3) took(4) by auto
    from Cons.IH [OF took(2) _ this rest] Cons.prems(2)
    have ih: "advanced (ix_key ix) L (lr_db r1) (lr_db r')"
      "a = Inr () \<longrightarrow> unapplied (ix_key ix) (lr_db r') = unapplied (ix_key ix) (lr_db r1) - set ts" by simp_all
    have "advanced (ix_key ix) L (lr_db r) (lr_db r1)" using took by (simp add: advanced_def)
    with ih took(4) show ?thesis by (auto intro: advanced_trans)
  qed
qed

lemma pending_docs:
  assumes M: "lawful_ledger M" and u: "unique_ledger s"
  shows "set (pending M K s) = unapplied K s" "distinct (pending M K s)"
proof -
  note f = collection.find_docs [OF lawful_ledgerD(2) [OF M]]
  show "set (pending M K s) = unapplied K s"
    by (auto simp: pending_def chain_order_def f unapplied_def rows_of_def)
  have "distinct (lg_transfers s)" using u by (auto simp: unique_ledger_def unique_docs_def distinct_map)
  then show "distinct (pending M K s)" by (simp add: pending_def chain_order_def f)
qed

lemma applyPending_keeps:
  assumes M: "lawful_ledger M" and rep: "ix_replica ix" and L: "sound_legs L"
    and I: "projected (ix_key ix) L (lr_db r)" and run: "applyPending M ix as r = (a, r')"
  shows "advanced (ix_key ix) L (lr_db r) (lr_db r')"
    and "\<And>n. a = Inr n \<Longrightarrow> unapplied (ix_key ix) (lr_db r') = {}"
proof -
  let ?ts = "pending M (ix_key ix) (lr_db r)"
  obtain b r1 where r1: "eachW (\<lambda>t. applyTransfer M ix as (tf_leg t)) ?ts r = (b, r1)" by force
  note p = pending_docs [OF M projectedD(1) [OF I], of "ix_key ix"]
  have all: "advanced (ix_key ix) L (lr_db r) (lr_db r1)"
    "b = Inr () \<longrightarrow> unapplied (ix_key ix) (lr_db r1) = unapplied (ix_key ix) (lr_db r) - set ?ts"
    using applyAll [OF M rep L I p(2) _ r1] p(1) by simp_all
  have "r' = r1" "a = (case b of Inl e \<Rightarrow> Inl e | Inr _ \<Rightarrow> Inr (length ?ts))"
    using run r1 by (auto simp: applyPending_def bindW_def readW_def retW_def split: sum.splits)
  with all p(1) show "advanced (ix_key ix) L (lr_db r) (lr_db r')"
    "\<And>n. a = Inr n \<Longrightarrow> unapplied (ix_key ix) (lr_db r') = {}"
    by (auto split: sum.splits)
qed

section \<open>Recording a range of blocks\<close>

text \<open>
  Part of a run that starts with every row applied: whatever happens, the invariant holds and no row is
  lost; when it answers, every row is applied again and the legs \<open>X\<close> have one.
\<close>

definition records :: "ledger_key \<Rightarrow> leg set \<Rightarrow> leg set \<Rightarrow> (ledger_run, 'a) work \<Rightarrow> bool" where
  "records K L X m \<longleftrightarrow> (\<forall>r a r'. projected K L (lr_db r) \<longrightarrow> unapplied K (lr_db r) = {} \<longrightarrow> m r = (a, r') \<longrightarrow>
     advanced K L (lr_db r) (lr_db r')
     \<and> (\<forall>x. a = Inr x \<longrightarrow> unapplied K (lr_db r') = {} \<and> X \<subseteq> recorded K (lr_db r')))"

lemma recordsI:
  assumes "\<And>r a r'. projected K L (lr_db r) \<Longrightarrow> unapplied K (lr_db r) = {} \<Longrightarrow> m r = (a, r') \<Longrightarrow>
     advanced K L (lr_db r) (lr_db r') \<and> (\<forall>x. a = Inr x \<longrightarrow> unapplied K (lr_db r') = {} \<and> X \<subseteq> recorded K (lr_db r'))"
  shows "records K L X m"
  unfolding records_def using assms by blast

lemma recordsD:
  assumes "records K L X m" "projected K L (lr_db r)" "unapplied K (lr_db r) = {}" "m r = (a, r')"
  shows "advanced K L (lr_db r) (lr_db r')" "a = Inr x \<Longrightarrow> unapplied K (lr_db r') = {}"
    "a = Inr x \<Longrightarrow> X \<subseteq> recorded K (lr_db r')"
  using assms unfolding records_def by blast+

lemma records_retW [simp]: "records K L {} (retW x)"
  by (rule recordsI) (auto simp: retW_def advanced_refl)

lemma records_failW [simp]: "records K L X (failW e)"
  by (rule recordsI) (auto simp: failW_def advanced_refl)

lemma records_bindW:
  assumes m: "records K L X m" and f: "\<And>x. records K L Y (f x)"
  shows "records K L (X \<union> Y) (bindW m f)"
proof (rule recordsI)
  fix r a r'
  assume r: "projected K L (lr_db r)" "unapplied K (lr_db r) = {}" "bindW m f r = (a, r')"
  obtain b r1 where r1: "m r = (b, r1)" by force
  note m' = recordsD [OF m r(1,2) r1]
  show "advanced K L (lr_db r) (lr_db r')
    \<and> (\<forall>x. a = Inr x \<longrightarrow> unapplied K (lr_db r') = {} \<and> X \<union> Y \<subseteq> recorded K (lr_db r'))"
  proof (cases b)
    case (Inl e)
    with r(3) r1 m'(1) show ?thesis by (auto simp: bindW_def)
  next
    case (Inr x)
    with r(3) r1 have fx: "f x r1 = (a, r')" by (simp add: bindW_def)
    have p1: "projected K L (lr_db r1)" using m'(1) by (simp add: advanced_def)
    note f' = recordsD [OF f p1 m'(2) [OF Inr] fx]
    have "advanced K L (lr_db r) (lr_db r')" by (rule advanced_trans [OF m'(1) f'(1)])
    moreover have "X \<subseteq> recorded K (lr_db r')" using m'(3) [OF Inr] f'(1) by (auto simp: advanced_def)
    ultimately show ?thesis using f'(2,3) by blast
  qed
qed

lemma records_sumW:
  "(\<And>x. x \<in> set xs \<Longrightarrow> records K L (X x) (f x)) \<Longrightarrow> records K L (\<Union> (X ` set xs)) (sumW f xs)"
proof (induction xs)
  case (Cons x xs)
  have "records K L (X x \<union> (\<Union> (X ` set xs) \<union> {})) (sumW f (x # xs))"
    unfolding sumW.simps by (intro records_bindW Cons.IH Cons.prems) simp_all
  then show ?case by simp
qed simp

lemma upsertTransfer_cases:
  assumes M: "lawful_ledger M" and L: "sound_legs L" "l \<in> L" and I: "projected K L s"
  obtains (old) "upsertTransfer M K l s = (Inr False, s)" "l \<in> recorded K s"
    | (new) s' where "upsertTransfer M K l s = (Inr True, s')" "projected K L s'" "recorded K s' = insert l (recorded K s)"
      "unapplied K s' = insert (inserted_transfer K l) (unapplied K s)" "lg_checkpoints s' = lg_checkpoints s"
proof -
  note S = lawful_ledgerD(2) [OF M] and I' = projectedD [OF I]
  let ?P = "\<lambda>d. transfer_key d = (K, leg_id l)" and ?ts = "lg_transfers s"
  show ?thesis
  proof (cases "\<exists>d\<in>set ?ts. ?P d")
    case True
    then obtain d where d: "d \<in> set ?ts" "?P d" by blast
    then have "tf_leg d \<in> L" "leg_id (tf_leg d) = leg_id l" and dr: "tf_leg d \<in> recorded K s"
      using I'(4) by (auto simp: recorded_def rows_of_def transfer_key_def)
    with L have "tf_leg d = l" by (auto simp: sound_legs_def dest: inj_onD)
    with dr have "l \<in> recorded K s" by simp
    moreover obtain i where "i < length ?ts" "drv_update_one (lm_transfers M) ?P (\<lambda>d. d) ?ts = (1, 0, ?ts[i := ?ts ! i])"
      using collection.update_one_some [OF S True, of "\<lambda>d. d"] by auto
    then have "upsertTransfer M K l s = (Inr False, s)" by (simp add: upsertTransfer_def)
    ultimately show ?thesis by (intro old)
  next
    case False
    let ?new = "inserted_transfer K l"
    have nt: "transfer_key ?new = (K, leg_id l)" "tf_key ?new = K" "tf_leg ?new = l" "\<not> tf_applied ?new"
      by (simp_all add: inserted_transfer_def transfer_key_def)
    have u: "unique_docs transfer_key (?ts @ [?new])"
      using I'(2) False nt(1) by (auto simp: unique_docs_def)
    have "drv_create (lm_transfers M) [?new] ?ts = Inr (?ts @ [?new])"
      by (rule collection.create_ok [OF S _ u]) simp
    moreover have "drv_update_one (lm_transfers M) ?P (\<lambda>d. d) ?ts = (0, 0, ?ts)"
      using False by (intro collection.update_one_none [OF S]) auto
    ultimately have up: "upsertTransfer M K l s = (Inr True, s\<lparr>lg_transfers := ?ts @ [?new]\<rparr>)"
      by (simp add: upsertTransfer_def)
    let ?s' = "s\<lparr>lg_transfers := ?ts @ [?new]\<rparr>"
    have rows: "rows_of K ?s' = insert ?new (rows_of K s)" using nt(2) by (auto simp: rows_of_def)
    then have rec: "recorded K ?s' = insert l (recorded K s)" by (simp add: recorded_def nt(3))
    have "unapplied K ?s' = insert ?new (unapplied K s)" using rows nt(4) by (auto simp: unapplied_def)
    moreover have "projected K L ?s'"
      using I I' u rec L(2) nt(4) by (simp add: projected_def unique_ledger_def applied_sum_def)
    ultimately show ?thesis using up rec by (intro new [of ?s']) simp_all
  qed
qed

lemma recordTransfer_records:
  assumes M: "lawful_ledger M" and rep: "ix_replica ix" and L: "sound_legs L" "l \<in> L"
  shows "records (ix_key ix) L {l} (recordTransfer M ix as l)"
proof (rule recordsI)
  fix r a r'
  let ?K = "ix_key ix"
  assume I: "projected ?K L (lr_db r)" and u: "unapplied ?K (lr_db r) = {}" and run: "recordTransfer M ix as l r = (a, r')"
  show "advanced ?K L (lr_db r) (lr_db r')
    \<and> (\<forall>x. a = Inr x \<longrightarrow> unapplied ?K (lr_db r') = {} \<and> {l} \<subseteq> recorded ?K (lr_db r'))"
  proof (cases "lr_left r = 0")
    case True
    with run have "a = Inl stopped" "r' = r" by (auto simp: recordTransfer_def bindW_def callW_def)
    with I show ?thesis by (simp add: advanced_refl)
  next
    case left: False
    from M L I show ?thesis
    proof (cases rule: upsertTransfer_cases)
      case old
      with run left have "lr_db r' = lr_db r" by (auto simp: recordTransfer_def bindW_def callW_def retW_def)
      with I u old(2) show ?thesis by (simp add: advanced_refl)
    next
      case (new s')
      let ?r1 = "\<lparr>lr_left = lr_left r - 1, lr_db = s'\<rparr>" and ?t = "inserted_transfer ?K l"
      obtain b r2 where r2: "applyTransfer M ix as l ?r1 = (b, r2)" by force
      have run': "r' = r2" "a = (case b of Inl e \<Rightarrow> Inl e | Inr _ \<Rightarrow> Inr 1)"
        using run left new(1) r2 by (auto simp: recordTransfer_def bindW_def callW_def retW_def split: sum.splits)
      have t: "?t \<in> unapplied ?K (lr_db ?r1)" "tf_leg ?t = l" using new(4) by (simp_all add: inserted_transfer_def)
      have I1: "projected ?K L (lr_db ?r1)" using new(2) by simp
      have adv: "advanced ?K L (lr_db r) s'" using new by (auto simp: advanced_def)
      show ?thesis
      proof (rule applyTransfer_cases [OF M rep L(1) I1 t(1), unfolded t(2), OF r2], goal_cases)
        case (1 e)
        with run' adv show ?thesis by simp
      next
        case 2
        then have "advanced ?K L s' (lr_db r2)" by (simp add: advanced_def)
        with adv have "advanced ?K L (lr_db r) (lr_db r2)" by (rule advanced_trans)
        moreover have "unapplied ?K (lr_db r2) = {}" using 2 new(4) u by simp
        moreover have "l \<in> recorded ?K (lr_db r2)" using 2 new(3) by simp
        ultimately show ?thesis using run' by simp
      qed
    qed
  qed
qed

lemma bind_bindings:
  assumes M: "lawful_ledger M" and u: "unique_ledger s" and b: "bind M q s = (a, s')"
  obtains c where "s' = s\<lparr>lg_bindings := c\<rparr>" "unique_docs binding_key c"
proof -
  note S = lawful_ledgerD(1) [OF M]
  have us: "unique_docs binding_key (lg_bindings s)" using u by (simp add: unique_ledger_def)
  define key where "key = \<lparr>lk_chainId = bq_chainId q, lk_contractAddress = normalizeAddress (bq_contractAddress q)\<rparr>"
  show ?thesis
  proof (cases "s' = s")
    case True
    with us show ?thesis by (intro that [of "lg_bindings s"]) simp_all
  next
    case False
    then obtain tokenId d c where up: "find_one_and_upsert (lm_bindings M) (\<lambda>d. binding_key d = (key, tokenId)) (bound q)
        (new_binding key tokenId) (lg_bindings s) = Inr (d, c)" "s' = s\<lparr>lg_bindings := c\<rparr>"
      using b by (auto simp: bind_def Let_def key_def split: sum.splits if_splits)
    have "unique_docs binding_key c"
    proof (cases rule: collection.find_one_and_update_cases [OF S us, of "\<lambda>d. binding_key d = (key, tokenId)" "bound q"])
      case (2 e)
      with up(1) us show ?thesis
        by (auto simp: find_one_and_upsert_def unique_docs_map binding_key_def bound_def)
    next
      case 1
      with up(1) obtain c' where "drv_create (lm_bindings M) [bound q (new_binding key tokenId)] (lg_bindings s) = Inr c'" "c = c'"
        by (auto simp: find_one_and_upsert_def)
      then show ?thesis using collection.create_cases [OF S us, of "[bound q (new_binding key tokenId)]"] by force
    qed
    with up(2) show ?thesis by (rule that)
  qed
qed

lemma recordRegistration_records:
  assumes M: "lawful_ledger M"
  shows "records (ix_key ix) L {} (recordRegistration M ix g)"
proof -
  have "records (ix_key ix) L {} (callW (bind M q))" for q
  proof (rule recordsI)
    fix r a r'
    assume I: "projected (ix_key ix) L (lr_db r)" "unapplied (ix_key ix) (lr_db r) = {}" and run: "callW (bind M q) r = (a, r')"
    have "\<exists>c. lr_db r' = (lr_db r)\<lparr>lg_bindings := c\<rparr> \<and> unique_docs binding_key c"
    proof (cases "lr_left r = 0")
      case True
      with run have "lr_db r' = lr_db r" by (simp add: callW_def)
      with projectedD(1) [OF I(1)] show ?thesis by (intro exI [of _ "lg_bindings (lr_db r)"]) (simp add: unique_ledger_def)
    next
      case False
      obtain b s' where b: "bind M q (lr_db r) = (b, s')" by force
      with run False have "lr_db r' = s'" by (auto simp: callW_def)
      with bind_bindings [OF M projectedD(1) [OF I(1)] b] show ?thesis by metis
    qed
    then obtain c where c: "lr_db r' = (lr_db r)\<lparr>lg_bindings := c\<rparr>" "unique_docs binding_key c" by blast
    then have "recorded (ix_key ix) (lr_db r') = recorded (ix_key ix) (lr_db r)"
      "unapplied (ix_key ix) (lr_db r') = unapplied (ix_key ix) (lr_db r)"
      by (simp_all add: recorded_def unapplied_def rows_of_def)
    with c I show "advanced (ix_key ix) L (lr_db r) (lr_db r')
        \<and> (\<forall>x. a = Inr x \<longrightarrow> unapplied (ix_key ix) (lr_db r') = {} \<and> {} \<subseteq> recorded (ix_key ix) (lr_db r'))"
      by (simp add: advanced_def projected_def unique_ledger_def)
  qed
  then have "records (ix_key ix) L ({} \<union> {}) (bindW (callW (bind M q)) (\<lambda>_. retW (1::nat)))" for q
    by (intro records_bindW) simp_all
  then show ?thesis by (auto simp: recordRegistration_def split: sum.splits)
qed

section \<open>The chain\<close>

definition log_legs :: "parser \<Rightarrow> raw_log \<Rightarrow> leg list" where
  "log_legs parse l = (case decodeLog parse l of Inl _ \<Rightarrow> [] | Inr (legs, _) \<Rightarrow> legs)"

definition chain_legs :: "parser \<Rightarrow> raw_log list \<Rightarrow> leg list" where
  "chain_legs parse chain = concat (map (log_legs parse) chain)"

text \<open>
  What the code relies on of the chain: the hash of a transaction and the index of a log name one log,
  the contract has no log before its first block, and the logs of a final range are those of the chain.
\<close>

definition sound_chain :: "indexer \<Rightarrow> raw_log list \<Rightarrow> bool" where
  "sound_chain ix chain \<longleftrightarrow> distinct (map (\<lambda>l. (map to_lower (rl_transactionHash l), rl_index l)) chain)
     \<and> (\<forall>l\<in>set chain. ix_startBlock ix \<le> int (rl_blockNumber l))"

definition head_of :: "indexer \<Rightarrow> provider \<Rightarrow> int" where
  "head_of ix pv = pv_getBlockNumber pv - ix_confirmations ix"

definition answers_chain :: "indexer \<Rightarrow> provider \<Rightarrow> raw_log list \<Rightarrow> bool" where
  "answers_chain ix pv chain \<longleftrightarrow> (\<forall>a b. b \<le> head_of ix pv \<longrightarrow>
     pv_getLogs pv a b = filter (\<lambda>l. a \<le> int (rl_blockNumber l) \<and> int (rl_blockNumber l) \<le> b) chain)"

definition legs_until :: "parser \<Rightarrow> raw_log list \<Rightarrow> int \<Rightarrow> leg list" where
  "legs_until parse chain head = filter (\<lambda>l. int (le_blockNumber l) \<le> head) (chain_legs parse chain)"

lemma batch_legs_fields:
  "batch_legs l from to i ts vs = Inr legs \<Longrightarrow>
    map le_batchIndex legs = [i..<i + length legs]
    \<and> (\<forall>g\<in>set legs. le_txHash g = map to_lower (rl_transactionHash l) \<and> le_logIndex g = rl_index l
        \<and> le_blockNumber g = rl_blockNumber l \<and> (\<exists>n. le_value g = nat_string n))"
proof (induction l "from" to i ts vs arbitrary: legs rule: batch_legs.induct)
  case (3 l "from" to i t ts v vs)
  then obtain gs where gs: "batch_legs l from to (Suc i) ts vs = Inr gs" "legs = leg_of l from to i t v # gs" by auto
  have "[i..<i + length legs] = i # [Suc i..<Suc i + length gs]" using gs(2) by (simp add: upt_rec)
  with "3.IH" [OF gs(1)] gs(2) show ?case by (auto simp: leg_of_def)
qed auto

lemma log_legs_fields:
  "distinct (map le_batchIndex (log_legs parse l))"
  "g \<in> set (log_legs parse l) \<Longrightarrow> le_txHash g = map to_lower (rl_transactionHash l) \<and> le_logIndex g = rl_index l
     \<and> le_blockNumber g = rl_blockNumber l \<and> (\<exists>n. le_value g = nat_string n)"
proof -
  have "(\<forall>g\<in>set (log_legs parse l). le_txHash g = map to_lower (rl_transactionHash l) \<and> le_logIndex g = rl_index l
      \<and> le_blockNumber g = rl_blockNumber l \<and> (\<exists>n. le_value g = nat_string n))
    \<and> distinct (map le_batchIndex (log_legs parse l))"
  proof (cases "parse (rl_topics l) (rl_data l)")
    case None
    then show ?thesis by (simp add: log_legs_def decodeLog_def)
  next
    case (Some e)
    show ?thesis
    proof (cases e)
      case (TransferBatch f t ids vs)
      show ?thesis
      proof (cases "batch_legs l f t 0 ids vs")
        case (Inr gs)
        with TransferBatch Some batch_legs_fields [OF Inr] show ?thesis
          by (simp add: log_legs_def decodeLog_def)
      qed (use TransferBatch Some in \<open>simp add: log_legs_def decodeLog_def\<close>)
    qed (use Some in \<open>auto simp: log_legs_def decodeLog_def leg_of_def\<close>)
  qed
  then show "distinct (map le_batchIndex (log_legs parse l))"
    "g \<in> set (log_legs parse l) \<Longrightarrow> le_txHash g = map to_lower (rl_transactionHash l) \<and> le_logIndex g = rl_index l
     \<and> le_blockNumber g = rl_blockNumber l \<and> (\<exists>n. le_value g = nat_string n)" by blast+
qed

lemma chain_legs_distinct:
  "distinct (map (\<lambda>l. (map to_lower (rl_transactionHash l), rl_index l)) chain) \<Longrightarrow>
    distinct (map leg_id (chain_legs parse chain))"
proof (induction chain)
  case (Cons l chain)
  have here: "distinct (map leg_id (log_legs parse l))"
  proof -
    have "distinct (map (\<lambda>i. snd (snd i)) (map leg_id (log_legs parse l)))"
      using log_legs_fields(1) [of parse l] by (simp add: leg_id_def comp_def)
    then show ?thesis by (simp only: distinct_map)
  qed
  have "leg_id g \<noteq> leg_id k" if g: "g \<in> set (log_legs parse l)" and k: "k \<in> set (chain_legs parse chain)" for g k
  proof -
    obtain m where m: "m \<in> set chain" "k \<in> set (log_legs parse m)" using k by (auto simp: chain_legs_def)
    with Cons.prems have "(map to_lower (rl_transactionHash m), rl_index m) \<noteq> (map to_lower (rl_transactionHash l), rl_index l)"
      by (auto simp: image_iff)
    with log_legs_fields(2) [OF g] log_legs_fields(2) [OF m(2)] show ?thesis by (auto simp: leg_id_def)
  qed
  then have "leg_id ` set (log_legs parse l) \<inter> leg_id ` set (chain_legs parse chain) = {}" by blast
  moreover have "distinct (map leg_id (chain_legs parse chain))" using Cons by simp
  ultimately show ?case using here by (simp add: chain_legs_def)
qed (simp add: chain_legs_def)

lemma sound_chain_legs:
  assumes "sound_chain ix chain"
  shows "distinct (map leg_id (chain_legs parse chain))" "sound_legs (set (chain_legs parse chain))"
    "l \<in> set (chain_legs parse chain) \<Longrightarrow> ix_startBlock ix \<le> int (le_blockNumber l)"
proof -
  show d: "distinct (map leg_id (chain_legs parse chain))"
    using assms by (simp add: sound_chain_def chain_legs_distinct)
  have "\<exists>v. bigint (le_value g) = Inr v" if "g \<in> set (chain_legs parse chain)" for g
    using that log_legs_fields(2) [of g parse] by (fastforce simp: chain_legs_def)
  with d show "sound_legs (set (chain_legs parse chain))" by (simp add: sound_legs_def distinct_map)
  assume "l \<in> set (chain_legs parse chain)"
  with assms log_legs_fields(2) [of l parse] show "ix_startBlock ix \<le> int (le_blockNumber l)"
    by (auto simp: sound_chain_def chain_legs_def)
qed

lemma sound_legs_subset: "sound_legs L \<Longrightarrow> L' \<subseteq> L \<Longrightarrow> sound_legs L'"
  by (auto simp: sound_legs_def intro: inj_on_subset)

section \<open>A synchronization, whole or stopped\<close>

lemma projectLog_records:
  assumes M: "lawful_ledger M" and rep: "ix_replica ix" and L: "sound_legs L" "set (log_legs parse l) \<subseteq> L"
  shows "records (ix_key ix) L (set (log_legs parse l)) (projectLog M ix parse as sm l)"
proof (cases "decodeLog parse l")
  case (Inl e)
  then show ?thesis by (simp add: projectLog_def)
next
  case (Inr p)
  obtain legs regs where p: "p = (legs, regs)" by force
  with Inr have legs: "log_legs parse l = legs" by (simp add: log_legs_def)
  have "records (ix_key ix) L (\<Union> ((\<lambda>_. {}) ` set regs)) (sumW (recordRegistration M ix) regs)"
    by (rule records_sumW) (rule recordRegistration_records [OF M])
  moreover have "records (ix_key ix) L (\<Union> ((\<lambda>g. {g}) ` set legs)) (sumW (recordTransfer M ix as) legs)"
    by (rule records_sumW) (use L legs in \<open>auto intro: recordTransfer_records [OF M rep L(1)]\<close>)
  ultimately have "records (ix_key ix) L (\<Union> ((\<lambda>_. {}) ` set regs) \<union> (\<Union> ((\<lambda>g. {g}) ` set legs) \<union> {}))
    (bindW (sumW (recordRegistration M ix) regs) (\<lambda>g. bindW (sumW (recordTransfer M ix as) legs)
      (\<lambda>t. retW (sm\<lparr>sm_registrations := sm_registrations sm + g, sm_transfers := sm_transfers sm + t\<rparr>))))"
    by (intro records_bindW records_retW)
  then show ?thesis by (simp add: projectLog_def Inr p legs)
qed

lemma projectLogs_records:
  assumes M: "lawful_ledger M" and rep: "ix_replica ix" and L: "sound_legs L"
  shows "set (chain_legs parse ls) \<subseteq> L \<Longrightarrow>
    records (ix_key ix) L (set (chain_legs parse ls)) (projectLogs M ix parse as sm ls)"
proof (induction ls arbitrary: sm)
  case (Cons l ls)
  have "records (ix_key ix) L (set (log_legs parse l) \<union> set (chain_legs parse ls)) (projectLogs M ix parse as sm (l # ls))"
    unfolding projectLogs.simps using Cons.prems
    by (intro records_bindW Cons.IH projectLog_records [OF M rep L]) (simp_all add: chain_legs_def)
  then show ?case by (simp add: chain_legs_def)
qed (simp add: chain_legs_def)

text \<open>The checkpoint of a contract never passes a leg without a row.\<close>

definition covers :: "ledger_key \<Rightarrow> leg set \<Rightarrow> projection_db \<Rightarrow> bool" where
  "covers K C s \<longleftrightarrow> (\<forall>c\<in>set (lg_checkpoints s). cp_key c = K \<longrightarrow>
     (\<forall>l\<in>C. int (le_blockNumber l) \<le> cp_lastBlock c \<longrightarrow> l \<in> recorded K s))"

lemma covers_advanced: "covers K C s \<Longrightarrow> advanced K L s s' \<Longrightarrow> covers K C s'"
  by (auto simp: covers_def advanced_def)

lemma saveCheckpoint_cases:
  assumes M: "lawful_ledger M" and I: "projected K L s"
  obtains c where "saveCheckpoint M K n s = (Inr (), s\<lparr>lg_checkpoints := c\<rparr>)" "unique_docs cp_key c"
    "\<forall>d\<in>set c. cp_key d = K \<longrightarrow> cp_lastBlock d = n" "\<exists>d\<in>set c. cp_key d = K"
proof -
  let ?f = "\<lambda>d. d\<lparr>cp_lastBlock := n\<rparr>" and ?new = "\<lparr>cp_key = K, cp_lastBlock = n\<rparr>" and ?c = "lg_checkpoints s"
  have u: "unique_docs cp_key ?c" using projectedD(1) [OF I] by (simp add: unique_ledger_def)
  obtain c where up: "update_or_insert (lm_checkpoints M) (\<lambda>d. cp_key d = K) ?f ?new ?c = Inr c"
    and c: "c = (if \<exists>d\<in>set ?c. cp_key d = K then map (\<lambda>d. if cp_key d = K then ?f d else d) ?c else ?c @ [?f ?new])"
    by (rule collection.update_or_insert_cases [OF lawful_ledgerD(4) [OF M] u, where k = K and f = ?f and new = ?new
          and P = "\<lambda>d. cp_key d = K"]) auto
  show ?thesis
  proof (rule that)
    show "saveCheckpoint M K n s = (Inr (), s\<lparr>lg_checkpoints := c\<rparr>)" using up by (simp add: saveCheckpoint_def)
    show "unique_docs cp_key c" unfolding c using u by (auto simp: unique_docs_map) (auto simp: unique_docs_def)
    show "\<forall>d\<in>set c. cp_key d = K \<longrightarrow> cp_lastBlock d = n" unfolding c by (auto split: if_splits)
    show "\<exists>d\<in>set c. cp_key d = K"
    proof (cases "\<exists>d\<in>set ?c. cp_key d = K")
      case True
      then obtain d where d: "d \<in> set ?c" "cp_key d = K" by blast
      then have "?f d \<in> set c" unfolding c by (auto simp: image_iff intro!: bexI [of _ d])
      with d show ?thesis by (intro bexI [of _ "?f d"]) simp_all
    qed (simp add: c)
  qed
qed

definition synced :: "ledger_key \<Rightarrow> leg set \<Rightarrow> leg set \<Rightarrow> projection_db \<Rightarrow> bool" where
  "synced K L C s \<longleftrightarrow> projected K L s \<and> covers K C s"

lemma projected_checkpoints:
  "unique_docs cp_key c \<Longrightarrow> projected K L (s\<lparr>lg_checkpoints := c\<rparr>) \<longleftrightarrow> projected K L s \<and> unique_docs cp_key c"
  if "unique_docs cp_key (lg_checkpoints s)"
  using that by (auto simp: projected_def unique_ledger_def recorded_def rows_of_def)

lemma checkpoints_rows [simp]:
  "recorded K (s\<lparr>lg_checkpoints := c\<rparr>) = recorded K s" "unapplied K (s\<lparr>lg_checkpoints := c\<rparr>) = unapplied K s"
  by (simp_all add: recorded_def unapplied_def rows_of_def)

text \<open>The rest of a run over the blocks from \<open>start\<close>, with every earlier leg recorded.\<close>

lemma projectBlocks_keeps:
  assumes L_def: "L = set (legs_until parse chain head)" and M: "lawful_ledger M" and rep: "ix_replica ix" and S: "sound_chain ix chain"
    and A: "answers_chain ix pv chain" and head: "head = head_of ix pv"
  shows "synced (ix_key ix) L (set (chain_legs parse chain)) (lr_db r) \<Longrightarrow> unapplied (ix_key ix) (lr_db r) = {} \<Longrightarrow>
    \<forall>l\<in>L. int (le_blockNumber l) < start \<longrightarrow> l \<in> recorded (ix_key ix) (lr_db r) \<Longrightarrow>
    projectBlocks M ix parse pv as head fuel start sm r = (a, r') \<Longrightarrow>
    synced (ix_key ix) L (set (chain_legs parse chain)) (lr_db r')
    \<and> (\<forall>x. a = Inr x \<longrightarrow> unapplied (ix_key ix) (lr_db r') = {} \<and> L \<subseteq> recorded (ix_key ix) (lr_db r'))"
proof (induction fuel arbitrary: start sm r)
  let ?K = "ix_key ix" and ?C = "set (chain_legs parse chain)"
  have LC: "L \<subseteq> ?C" by (auto simp: L_def legs_until_def)
  have sound: "sound_legs L" by (rule sound_legs_subset [OF sound_chain_legs(2) [OF S] LC])
  have over: "head < start \<Longrightarrow> \<forall>l\<in>L. int (le_blockNumber l) < start \<longrightarrow> l \<in> recorded ?K s \<Longrightarrow> L \<subseteq> recorded ?K s" for start s
    by (force simp: L_def legs_until_def)
  {
    case 0
    show ?case
    proof (cases "head < start")
      case True
      with "0.prems"(4) have "r' = r" by (simp add: projectBlocks.simps retW_def)
      with 0 over [OF True "0.prems"(3)] show ?thesis by simp
    next
      case False
      with 0 show ?thesis by (auto simp: projectBlocks.simps failW_def)
    qed
  next
    case (Suc fuel)
    show ?case
    proof (cases "head < start")
      case True
      with Suc.prems(4) have "r' = r" by (simp add: projectBlocks.simps retW_def)
      with Suc.prems over [OF True Suc.prems(3)] show ?thesis by simp
    next
      case False
      define end' where "end' = min (start + ix_batchSize ix - 1) head"
      define logs where "logs = filter (\<lambda>l. start \<le> int (rl_blockNumber l) \<and> int (rl_blockNumber l) \<le> end') chain"
      have logs: "pv_getLogs pv start end' = logs"
        using A head by (simp add: answers_chain_def logs_def end'_def)
      have range: "set (chain_legs parse logs) = {l \<in> ?C. start \<le> int (le_blockNumber l) \<and> int (le_blockNumber l) \<le> end'}"
        using log_legs_fields(2) [of _ parse] by (auto simp: chain_legs_def logs_def)
      then have rL: "set (chain_legs parse logs) \<subseteq> L" by (auto simp: L_def legs_until_def end'_def)
      obtain b r1 where r1: "projectLogs M ix parse as sm logs r = (b, r1)" by force
      have I: "projected ?K L (lr_db r)" "covers ?K ?C (lr_db r)" using Suc.prems(1) by (simp_all add: synced_def)
      note p = recordsD [OF projectLogs_records [OF M rep sound rL] I(1) Suc.prems(2) r1]
      have s1: "synced ?K L ?C (lr_db r1)"
        using p(1) covers_advanced [OF I(2) p(1)] by (simp add: synced_def advanced_def)
      show ?thesis
      proof (cases b)
        case (Inl e)
        with Suc.prems(4) False r1 have "a = Inl e" "r' = r1"
          by (auto simp: projectBlocks.simps Let_def bindW_def logs end'_def [symmetric])
        with s1 show ?thesis by simp
      next
        case (Inr sm')
        show ?thesis
        proof (cases "lr_left r1 = 0")
          case True
          with Suc.prems(4) False r1 Inr have "a = Inl stopped" "r' = r1"
            by (auto simp: projectBlocks.simps Let_def bindW_def logs end'_def [symmetric] callW_def)
          with s1 show ?thesis by simp
        next
          case left: False
          have I1: "projected ?K L (lr_db r1)" using s1 by (simp add: synced_def)
          obtain c where c: "saveCheckpoint M ?K end' (lr_db r1) = (Inr (), (lr_db r1)\<lparr>lg_checkpoints := c\<rparr>)"
            "unique_docs cp_key c" "\<forall>d\<in>set c. cp_key d = ?K \<longrightarrow> cp_lastBlock d = end'"
            by (rule saveCheckpoint_cases [OF M I1])
          define r2 where "r2 = \<lparr>lr_left = lr_left r1 - 1, lr_db = (lr_db r1)\<lparr>lg_checkpoints := c\<rparr>\<rparr>"
          have rest: "projectBlocks M ix parse pv as head fuel (start + ix_batchSize ix) sm' r2 = (a, r')"
            using Suc.prems(4) False r1 Inr left c(1)
            by (simp add: projectBlocks.simps [of _ _ _ _ _ _ "Suc fuel"] Let_def bindW_def logs end'_def [symmetric] callW_def r2_def)
          have old: "l \<in> recorded ?K (lr_db r1)" if "l \<in> L" "int (le_blockNumber l) < start" for l
            using that Suc.prems(3) p(1) by (auto simp: advanced_def)
          have here: "l \<in> recorded ?K (lr_db r1)" if "l \<in> ?C" "int (le_blockNumber l) \<le> end'" for l
          proof (cases "int (le_blockNumber l) < start")
            case True
            moreover have "l \<in> L" using that by (simp add: L_def legs_until_def end'_def)
            ultimately show ?thesis by (intro old)
          next
            case False
            with that range p(3) [OF Inr] show ?thesis by auto
          qed
          have u: "unique_docs cp_key (lg_checkpoints (lr_db r1))"
            using projectedD(1) [OF I1] by (simp add: unique_ledger_def)
          have "synced ?K L ?C (lr_db r2)"
            using I1 c(2,3) here projected_checkpoints [OF u c(2)] by (simp add: synced_def r2_def covers_def)
          moreover have "unapplied ?K (lr_db r2) = {}" using p(2) [OF Inr] by (simp add: r2_def)
          moreover have "\<forall>l\<in>L. int (le_blockNumber l) < start + ix_batchSize ix \<longrightarrow> l \<in> recorded ?K (lr_db r2)"
            using here LC by (auto simp: r2_def end'_def L_def legs_until_def)
          ultimately show ?thesis by (rule Suc.IH [OF _ _ _ rest])
        qed
      qed
    qed
  }
qed

lemma sync_keeps:
  assumes head_def: "head = head_of ix pv" and M: "lawful_ledger M" and rep: "ix_replica ix" and S: "sound_chain ix chain" and A: "answers_chain ix pv chain"
    and I: "synced (ix_key ix) (set (legs_until parse chain head)) (set (chain_legs parse chain)) (lr_db r)"
    and run: "sync M ix parse pv as fuel r = (a, r')"
  shows "synced (ix_key ix) (set (legs_until parse chain head)) (set (chain_legs parse chain)) (lr_db r')"
    and "a = Inr sm \<Longrightarrow> unapplied (ix_key ix) (lr_db r') = {}
      \<and> recorded (ix_key ix) (lr_db r') = set (legs_until parse chain head)"
proof -
  let ?K = "ix_key ix" and ?C = "set (chain_legs parse chain)" and ?L = "set (legs_until parse chain head)"
  have sound: "sound_legs ?L"
    by (rule sound_legs_subset [OF sound_chain_legs(2) [OF S]]) (auto simp: legs_until_def)
  obtain b r1 where r1: "applyPending M ix as r = (b, r1)" by force
  have I0: "projected ?K ?L (lr_db r)" "covers ?K ?C (lr_db r)" using I by (simp_all add: synced_def)
  note p = applyPending_keeps [OF M rep sound I0(1) r1]
  have s1: "synced ?K ?L ?C (lr_db r1)"
    using p(1) covers_advanced [OF I0(2) p(1)] by (simp add: synced_def advanced_def)
  have within: "recorded ?K (lr_db r') \<subseteq> ?L" if "synced ?K ?L ?C (lr_db r')"
    using that by (simp add: synced_def projected_def)
  have "synced ?K ?L ?C (lr_db r') \<and> (\<forall>x. a = Inr x \<longrightarrow> unapplied ?K (lr_db r') = {} \<and> ?L \<subseteq> recorded ?K (lr_db r'))"
  proof (cases b)
    case (Inl e)
    with run r1 have "a = Inl e" "r' = r1" by (auto simp: sync_def bindW_def)
    with s1 show ?thesis by simp
  next
    case (Inr n)
    define fb where "fb = fromBlock M ix (lr_db r1)"
    have early: "l \<in> recorded ?K (lr_db r1)" if l: "l \<in> ?L" "int (le_blockNumber l) < fb" for l
    proof (cases "drv_find_one (lm_checkpoints M) (\<lambda>d. cp_key d = ?K) (lg_checkpoints (lr_db r1))")
      case None
      then have "fb = ix_startBlock ix" by (simp add: fb_def fromBlock_def)
      with l sound_chain_legs(3) [OF S, of l parse] show ?thesis by (auto simp: legs_until_def)
    next
      case (Some d)
      have "d \<in> set (lg_checkpoints (lr_db r1))" "cp_key d = ?K"
        using collection.find_one_some [OF lawful_ledgerD(4) [OF M] Some] by simp_all
      moreover have "int (le_blockNumber l) \<le> cp_lastBlock d" using l(2) Some by (simp add: fb_def fromBlock_def)
      ultimately show ?thesis using s1 l(1) by (auto simp: synced_def covers_def legs_until_def)
    qed
    show ?thesis
    proof (cases "head < fb")
      case True
      with run r1 Inr have "r' = r1" by (auto simp: sync_def bindW_def readW_def retW_def Let_def fb_def head_def head_of_def)
      moreover have "?L \<subseteq> recorded ?K (lr_db r1)"
        using early True by (force simp: legs_until_def)
      ultimately show ?thesis using s1 p(2) [OF Inr] by simp
    next
      case False
      with run r1 Inr have pb: "projectBlocks M ix parse pv as head fuel fb
          \<lparr>sm_fromBlock = fb, sm_toBlock = head, sm_transfers = 0, sm_registrations = 0\<rparr> r1 = (a, r')"
        by (simp add: sync_def bindW_def readW_def Let_def fb_def head_def head_of_def)
      show ?thesis
        by (rule projectBlocks_keeps [OF refl M rep S A head_def s1 p(2) [OF Inr] _ pb]) (use early in auto)
    qed
  qed
  with within show "synced ?K ?L ?C (lr_db r')"
    "a = Inr sm \<Longrightarrow> unapplied ?K (lr_db r') = {} \<and> recorded ?K (lr_db r') = ?L" by blast+
qed

section \<open>Each leg once\<close>

text \<open>A run of the process: its provider, what its transactions meet, the writes it makes before it
stops, and the fuel.\<close>

type_synonym process = "provider \<times> (leg \<Rightarrow> attempt list) \<times> nat \<times> nat"

fun sync_run :: "ledger_mongo \<Rightarrow> indexer \<Rightarrow> parser \<Rightarrow> process \<Rightarrow> projection_db \<Rightarrow> (error + summary) \<times> ledger_run" where
  "sync_run M ix parse (pv, as, left, fuel) s = sync M ix parse pv as fuel \<lparr>lr_left = left, lr_db = s\<rparr>"

definition sync_runs :: "ledger_mongo \<Rightarrow> indexer \<Rightarrow> parser \<Rightarrow> process list \<Rightarrow> projection_db \<Rightarrow> projection_db" where
  "sync_runs M ix parse runs s = fold (\<lambda>p s. lr_db (snd (sync_run M ix parse p s))) runs s"

text \<open>A database that holds nothing of the contract yet.\<close>

definition fresh_ledger :: "ledger_key \<Rightarrow> projection_db \<Rightarrow> bool" where
  "fresh_ledger K s \<longleftrightarrow> unique_ledger s \<and> (\<forall>t\<in>set (lg_transfers s). tf_key t \<noteq> K)
     \<and> (\<forall>b\<in>set (lg_balances s). ba_key b \<noteq> K) \<and> (\<forall>c\<in>set (lg_checkpoints s). cp_key c \<noteq> K)"

lemma fresh_synced:
  assumes "fresh_ledger K s"
  shows "synced K L C s"
proof -
  have rows: "rows_of K s = {}" using assms by (auto simp: fresh_ledger_def rows_of_def)
  have "\<forall>t\<in>set ts. tf_key t \<noteq> K \<Longrightarrow> applied_sum K ts tok owner = 0" for ts tok owner
    by (induction ts) (auto simp: applied_sum_def)
  then have "applied_sum K (lg_transfers s) tok owner = 0" for tok owner
    using assms by (simp add: fresh_ledger_def)
  moreover have "List.find (\<lambda>d. balance_key d = (K, tok, owner)) (lg_balances s) = None" for tok owner
    using assms by (auto simp: find_None_iff_ball fresh_ledger_def balance_key_def)
  ultimately show ?thesis
    using assms rows
    by (auto simp: synced_def projected_def covers_def fresh_ledger_def sound_balances_def recorded_def balance_of_def unique_ledger_def)
qed

lemma synced_mono: "synced K L C s \<Longrightarrow> L \<subseteq> L' \<Longrightarrow> synced K L' C s"
  by (auto simp: synced_def projected_def)

lemma legs_until_mono: "h \<le> h' \<Longrightarrow> set (legs_until parse chain h) \<subseteq> set (legs_until parse chain h')"
  by (auto simp: legs_until_def)

lemma sync_runs_keeps:
  assumes M: "lawful_ledger M" and rep: "ix_replica ix" and S: "sound_chain ix chain"
  shows "\<forall>p\<in>set runs. answers_chain ix (fst p) chain \<and> head_of ix (fst p) \<le> h \<Longrightarrow>
    sorted (map (\<lambda>p. head_of ix (fst p)) runs) \<Longrightarrow>
    \<forall>p\<in>set runs. h0 \<le> head_of ix (fst p) \<Longrightarrow> h0 \<le> h \<Longrightarrow>
    synced (ix_key ix) (set (legs_until parse chain h0)) (set (chain_legs parse chain)) s \<Longrightarrow>
    synced (ix_key ix) (set (legs_until parse chain h)) (set (chain_legs parse chain)) (sync_runs M ix parse runs s)"
proof (induction runs arbitrary: s h0)
  case Nil
  then show ?case by (auto simp: sync_runs_def intro: synced_mono dest: legs_until_mono)
next
  case (Cons p runs)
  obtain pv as left fuel where p: "p = (pv, as, left, fuel)" by (cases p) auto
  let ?K = "ix_key ix" and ?C = "set (chain_legs parse chain)"
  obtain a r' where run: "sync M ix parse pv as fuel \<lparr>lr_left = left, lr_db = s\<rparr> = (a, r')" by force
  have h: "h0 \<le> head_of ix pv" "head_of ix pv \<le> h" and A: "answers_chain ix pv chain" using Cons.prems p by auto
  have "synced ?K (set (legs_until parse chain (head_of ix pv))) ?C (lr_db \<lparr>lr_left = left, lr_db = s\<rparr>)"
    using synced_mono [OF Cons.prems(5) legs_until_mono [OF h(1)]] by simp
  from sync_keeps(1) [OF refl M rep S A this run]
  have s: "synced ?K (set (legs_until parse chain (head_of ix pv))) ?C (lr_db r')" .
  have "sync_runs M ix parse (p # runs) s = sync_runs M ix parse runs (lr_db r')"
    using run by (simp add: sync_runs_def p)
  moreover have "synced ?K (set (legs_until parse chain h)) ?C (sync_runs M ix parse runs (lr_db r'))"
    using Cons.prems h by (intro Cons.IH [OF _ _ _ _ s]) (auto simp: p)
  ultimately show ?case by simp
qed

lemma applied_sum_all:
  assumes u: "unique_docs transfer_key ts" and ap: "\<forall>t\<in>set ts. tf_key t = K \<longrightarrow> tf_applied t"
    and L: "distinct ls" "tf_leg ` {t \<in> set ts. tf_key t = K} = set ls"
  shows "mset (map tf_leg (filter (\<lambda>t. tf_key t = K) ts)) = mset ls"
    "applied_sum K ts tok owner = (\<Sum>l\<leftarrow>ls. leg_delta tok owner l)"
proof -
  let ?rows = "filter (\<lambda>t. tf_key t = K) ts"
  have "inj_on tf_leg (set ?rows)"
    using u by (auto simp: unique_docs_def distinct_map inj_on_def transfer_key_def)
  moreover have "distinct ?rows" using u by (simp add: unique_docs_def distinct_map)
  ultimately have d: "distinct (map tf_leg ?rows)" by (simp add: distinct_map)
  have "set (map tf_leg ?rows) = set ls" using L(2) by (auto simp: image_iff)
  with d L(1) show m: "mset (map tf_leg ?rows) = mset ls" by (simp only: set_eq_iff_mset_eq_distinct)
  have "applied_sum K ts tok owner = (\<Sum>t\<leftarrow>?rows. leg_delta tok owner (tf_leg t))"
    using ap unfolding applied_sum_def by (induction ts) auto
  also have "\<dots> = (\<Sum>l\<leftarrow>map tf_leg ?rows. leg_delta tok owner l)" by (simp add: comp_def)
  also have "\<dots> = (\<Sum>l\<leftarrow>ls. leg_delta tok owner l)"
    by (simp only: sum_mset_sum_list [symmetric] mset_map m [unfolded mset_map])
  finally show "applied_sum K ts tok owner = (\<Sum>l\<leftarrow>ls. leg_delta tok owner l)" .
qed

lemma sync_state:
  assumes "lawful_ledger M" "ix_replica ix" "sound_chain ix chain" "fresh_ledger (ix_key ix) s"
    and "\<forall>p\<in>set (runs @ [last_run]). answers_chain ix (fst p) chain"
    and "sorted (map (\<lambda>p. head_of ix (fst p)) (runs @ [last_run]))"
    and "sync_run M ix parse last_run (sync_runs M ix parse runs s) = (Inr sm, r')"
  shows "projected (ix_key ix) (set (legs_until parse chain (head_of ix (fst last_run)))) (lr_db r')
      \<and> mset (map tf_leg (filter (\<lambda>t. tf_key t = ix_key ix) (lg_transfers (lr_db r'))))
        = mset (legs_until parse chain (head_of ix (fst last_run)))
      \<and> (\<forall>t\<in>set (lg_transfers (lr_db r')). tf_key t = ix_key ix \<longrightarrow> tf_applied t)
      \<and> (\<forall>tok owner. balance_of (ix_key ix) (lg_balances (lr_db r')) tok owner
        = (\<Sum>l\<leftarrow>legs_until parse chain (head_of ix (fst last_run)). leg_delta tok owner l))"
proof -
  obtain pv as left fuel where p: "last_run = (pv, as, left, fuel)" by (cases last_run) auto
  let ?K = "ix_key ix" and ?h = "head_of ix pv" and ?C = "set (chain_legs parse chain)"
  let ?s = "sync_runs M ix parse runs s" and ?ls = "legs_until parse chain (head_of ix pv)"
  have heads: "\<forall>p\<in>set runs. answers_chain ix (fst p) chain \<and> head_of ix (fst p) \<le> ?h"
    using assms(5,6) by (auto simp: sorted_append p)
  define h0 where "h0 = Min (insert ?h ((\<lambda>p. head_of ix (fst p)) ` set runs))"
  have h0: "\<forall>p\<in>set runs. h0 \<le> head_of ix (fst p)" "h0 \<le> ?h" by (auto simp: h0_def)
  have "synced ?K (set ?ls) ?C ?s"
    by (rule sync_runs_keeps [OF assms(1-3) heads _ h0 fresh_synced [OF assms(4)]])
      (use assms(6) in \<open>simp add: sorted_append\<close>)
  then have s0: "synced ?K (set ?ls) ?C (lr_db \<lparr>lr_left = left, lr_db = ?s\<rparr>)" by simp
  have run: "sync M ix parse pv as fuel \<lparr>lr_left = left, lr_db = ?s\<rparr> = (Inr sm, r')" using assms(7) p by simp
  have A: "answers_chain ix pv chain" using assms(5) p by simp
  note k = sync_keeps [OF refl assms(1-3) A s0 run]
  have I: "projected ?K (set ?ls) (lr_db r')" using k(1) by (simp add: synced_def)
  have ap: "\<forall>t\<in>set (lg_transfers (lr_db r')). tf_key t = ?K \<longrightarrow> tf_applied t"
    using k(2) [OF refl] by (auto simp: unapplied_def rows_of_def)
  have d: "distinct ?ls"
    using sound_chain_legs(1) [OF assms(3), of parse] by (simp add: legs_until_def distinct_map)
  have rec: "tf_leg ` {t \<in> set (lg_transfers (lr_db r')). tf_key t = ?K} = set ?ls"
    using k(2) [OF refl] by (simp add: recorded_def rows_of_def)
  note all = applied_sum_all [OF projectedD(2) [OF I] ap d rec]
  show ?thesis using all ap I projectedD(5) [OF I] by (simp add: p)
qed

text \<open>C31: the projection refines the chain. Whatever runs came before, each stopped at any write, a
synchronization that answers leaves one row for each leg of the chain up to the head, each taken into
the balances exactly once: the balance of an owner is the fold of the event log.\<close>

theorem projection_exact:
  assumes "lawful_ledger M" "ix_replica ix" "sound_chain ix chain" "fresh_ledger (ix_key ix) s"
    and "\<forall>p\<in>set (runs @ [last_run]). answers_chain ix (fst p) chain"
    and "sorted (map (\<lambda>p. head_of ix (fst p)) (runs @ [last_run]))"
    and "sync_run M ix parse last_run (sync_runs M ix parse runs s) = (Inr sm, r')"
  shows "mset (map tf_leg (filter (\<lambda>t. tf_key t = ix_key ix) (lg_transfers (lr_db r'))))
        = mset (legs_until parse chain (head_of ix (fst last_run)))
      \<and> (\<forall>t\<in>set (lg_transfers (lr_db r')). tf_key t = ix_key ix \<longrightarrow> tf_applied t)
      \<and> (\<forall>tok owner. balance_of (ix_key ix) (lg_balances (lr_db r')) tok owner
        = (\<Sum>l\<leftarrow>legs_until parse chain (head_of ix (fst last_run)). leg_delta tok owner l))"
  using sync_state [OF assms] by blast

subsection \<open>A small chain\<close>

definition ref_ledger :: ledger_mongo where
  "ref_ledger = \<lparr>lm_bindings = ref_driver binding_key binding_schema, lm_transfers = ref_driver transfer_key (\<lambda>_. True),
     lm_balances = ref_driver balance_key (\<lambda>_. True), lm_checkpoints = ref_driver cp_key (\<lambda>_. True)\<rparr>"

lemma lawful_ref_ledger [simp]: "lawful_ledger ref_ledger"
  by (simp add: lawful_ledger_def ref_ledger_def ref_store.collection_axioms)

definition no_projection :: projection_db where
  "no_projection = \<lparr>lg_bindings = [], lg_transfers = [], lg_balances = [], lg_checkpoints = []\<rparr>"

definition addr :: "char \<Rightarrow> string" where
  "addr c = ''0x'' @ replicate 40 c"

definition small_parse :: parser where
  "small_parse topics data = (if data = ''mint'' then Some (TransferSingle ZERO_ADDRESS (addr (CHR ''a'')) 7 3)
     else if data = ''move'' then Some (TransferSingle (addr (CHR ''a'')) (addr (CHR ''b'')) 7 2) else None)"

definition small_chain :: "raw_log list" where
  "small_chain = [\<lparr>rl_topics = [], rl_data = ''mint'', rl_blockNumber = 1, rl_transactionHash = ''0x1'', rl_index = 0\<rparr>,
     \<lparr>rl_topics = [], rl_data = ''move'', rl_blockNumber = 2, rl_transactionHash = ''0x2'', rl_index = 1\<rparr>]"

definition small_provider :: "int \<Rightarrow> provider" where
  "small_provider head = \<lparr>pv_getBlockNumber = head,
     pv_getLogs = (\<lambda>a b. filter (\<lambda>l. a \<le> int (rl_blockNumber l) \<and> int (rl_blockNumber l) \<le> b) small_chain),
     pv_balanceOf = (\<lambda>_ _. 1)\<rparr>"

definition small_indexer :: indexer where
  "small_indexer = newIndexer 1 (Some (addr (CHR ''c''))) None None None True"

text \<open>The first run stops after the first leg is recorded and before it is applied.\<close>

definition small_runs :: "process list" where
  "small_runs = [(small_provider 1, \<lambda>_. [], 1, 3)]"

definition small_last :: process where
  "small_last = (small_provider 2, \<lambda>_. [Transient], 9, 3)"

lemma small_run: "fst (sync_run ref_ledger small_indexer small_parse small_last
    (sync_runs ref_ledger small_indexer small_parse small_runs no_projection))
  = Inr \<lparr>sm_fromBlock = 0, sm_toBlock = 2, sm_transfers = 1, sm_registrations = 0\<rparr>"
  by code_simp

lemma small_hypotheses:
  "ix_replica small_indexer" "sound_chain small_indexer small_chain" "fresh_ledger (ix_key small_indexer) no_projection"
  "answers_chain small_indexer (small_provider h) small_chain" "head_of small_indexer (small_provider h) = h"
  by (simp_all add: small_indexer_def newIndexer_def sound_chain_def small_chain_def fresh_ledger_def no_projection_def
      unique_ledger_def unique_docs_def answers_chain_def small_provider_def head_of_def)

lemma projection_exact_witness:
  "balance_of (ix_key small_indexer) (lg_balances (lr_db (snd (sync_run ref_ledger small_indexer small_parse small_last
      (sync_runs ref_ledger small_indexer small_parse small_runs no_projection))))) ''7'' (addr (CHR ''b'')) = 2"
proof -
  let ?run = "sync_run ref_ledger small_indexer small_parse small_last (sync_runs ref_ledger small_indexer small_parse small_runs no_projection)"
  have run: "?run = (Inr \<lparr>sm_fromBlock = 0, sm_toBlock = 2, sm_transfers = 1, sm_registrations = 0\<rparr>, snd ?run)"
    using small_run by (simp add: prod_eq_iff)
  have sum: "(\<Sum>l\<leftarrow>legs_until small_parse small_chain 2. leg_delta ''7'' (addr (CHR ''b'')) l) = 2" by code_simp
  show ?thesis
    using projection_exact [OF lawful_ref_ledger small_hypotheses(1,2,3) _ _ run]
    by (simp add: small_runs_def small_last_def small_hypotheses(4,5) sum)
qed

section \<open>Supply\<close>

definition minted :: "string \<Rightarrow> leg \<Rightarrow> int" where
  "minted tok l = (if le_tokenId l = tok \<and> le_from l = ZERO_ADDRESS then leg_amount l else 0)"

definition burned :: "string \<Rightarrow> leg \<Rightarrow> int" where
  "burned tok l = (if le_tokenId l = tok \<and> le_to l = ZERO_ADDRESS then leg_amount l else 0)"

lemma leg_delta_total:
  assumes "finite O'" "le_from l \<in> O'" "le_to l \<in> O'"
  shows "(\<Sum>u\<in>O'. leg_delta tok u l) = minted tok l - burned tok l"
proof -
  have "leg_delta tok u l = (if u = le_to l then (if le_tokenId l = tok \<and> le_to l \<noteq> ZERO_ADDRESS then leg_amount l else 0) else 0)
      - (if u = le_from l then (if le_tokenId l = tok \<and> le_from l \<noteq> ZERO_ADDRESS then leg_amount l else 0) else 0)" for u
    by (auto simp: leg_delta_def)
  then have "(\<Sum>u\<in>O'. leg_delta tok u l) = (if le_tokenId l = tok \<and> le_to l \<noteq> ZERO_ADDRESS then leg_amount l else 0)
      - (if le_tokenId l = tok \<and> le_from l \<noteq> ZERO_ADDRESS then leg_amount l else 0)"
    using assms by (simp add: sum_subtractf sum.delta)
  then show ?thesis by (auto simp: minted_def burned_def)
qed

lemma sum_sum_list: "(\<Sum>u\<in>O'. \<Sum>l\<leftarrow>ls. f u l) = (\<Sum>l\<leftarrow>ls. \<Sum>u\<in>O'. f u l :: int)"
  by (induction ls) (simp_all add: sum.distrib)

lemma balances_total:
  assumes u: "unique_docs balance_key c" and O': "finite O'" "\<forall>d\<in>set c. ba_ownerAddress d \<in> O'"
  shows "(\<Sum>d\<leftarrow>filter (\<lambda>d. ba_key d = K \<and> ba_tokenId d = tok) c. row_amount d) = (\<Sum>u\<in>O'. balance_of K c tok u)"
proof -
  let ?B = "filter (\<lambda>d. ba_key d = K \<and> ba_tokenId d = tok) c"
  have inj: "inj_on ba_ownerAddress (set ?B)" and dist: "distinct ?B"
    using u by (auto simp: unique_docs_def distinct_map inj_on_def balance_key_def)
  have at: "balance_of K c tok (ba_ownerAddress d) = row_amount d" if "d \<in> set ?B" for d
  proof -
    have "List.find (\<lambda>e. balance_key e = (K, tok, ba_ownerAddress d)) c = Some d"
    proof (cases "List.find (\<lambda>e. balance_key e = (K, tok, ba_ownerAddress d)) c")
      case None
      with that show ?thesis by (auto simp: find_None_iff_ball balance_key_def)
    next
      case (Some e)
      with find_SomeD have "e \<in> set c" "balance_key e = (K, tok, ba_ownerAddress d)" by fastforce+
      with unique_docs_eq [OF u, of e d] that Some show ?thesis by (simp add: balance_key_def)
    qed
    then show ?thesis by (simp add: balance_of_def)
  qed
  have "(\<Sum>d\<leftarrow>?B. row_amount d) = (\<Sum>d\<in>set ?B. row_amount d)"
    using dist by (simp only: sum_list_distinct_conv_sum_set)
  also have "\<dots> = (\<Sum>d\<in>set ?B. balance_of K c tok (ba_ownerAddress d))" using at by (intro sum.cong) simp_all
  also have "\<dots> = (\<Sum>u\<in>ba_ownerAddress ` set ?B. balance_of K c tok u)" using inj by (simp add: sum.reindex)
  also have "\<dots> = (\<Sum>u\<in>O'. balance_of K c tok u)"
  proof (rule sum.mono_neutral_left)
    show "ba_ownerAddress ` set ?B \<subseteq> O'" using O'(2) by auto
    have "balance_of K c tok u = 0" if "u \<notin> ba_ownerAddress ` set ?B" for u
    proof -
      have "List.find (\<lambda>d. balance_key d = (K, tok, u)) c = None"
        using that by (auto simp: find_None_iff_ball balance_key_def image_iff)
      then show ?thesis by (simp add: balance_of_def)
    qed
    then show "\<forall>u\<in>O' - ba_ownerAddress ` set ?B. balance_of K c tok u = 0" by blast
  qed (rule O'(1))
  finally show ?thesis .
qed

lemma tokenSupply_total:
  assumes M: "lawful_ledger M" and c: "sound_balances K (lg_balances s)"
  shows "\<exists>n. tokenSupply M K tok s
    = Inr (int_string (\<Sum>d\<leftarrow>filter (\<lambda>d. ba_key d = K \<and> ba_tokenId d = tok) (lg_balances s). row_amount d), n)"
proof -
  let ?rows = "filter (\<lambda>d. ba_key d = K \<and> ba_tokenId d = tok \<and> ba_balance d \<noteq> ''0'') (lg_balances s)"
  have ok: "\<forall>d\<in>set (lg_balances s). ba_key d = K \<longrightarrow> (\<exists>n. ba_balance d = int_string n)" using c by (simp add: sound_balances_def)
  have "mapE (\<lambda>d. thrown (bigint (ba_balance d))) rows = Inr (map row_amount rows)"
    if "\<forall>d\<in>set rows. \<exists>n. ba_balance d = int_string n" for rows
    using that by (induction rows) (auto simp: row_amount_def)
  then have "mapE (\<lambda>d. thrown (bigint (ba_balance d))) ?rows = Inr (map row_amount ?rows)" using ok by simp
  moreover have "row_amount d = 0" if "ba_balance d = ''0''" for d
  proof -
    have "''0'' = int_string 0" by code_simp
    with that show ?thesis by (simp add: row_amount_def)
  qed
  then have "sum_list (map row_amount (filter (\<lambda>d. ba_key d = K \<and> ba_tokenId d = tok \<and> ba_balance d \<noteq> ''0'') c))
      = (\<Sum>d\<leftarrow>filter (\<lambda>d. ba_key d = K \<and> ba_tokenId d = tok) c. row_amount d)" for c
    by (induction c) auto
  ultimately show ?thesis
    by (simp add: tokenSupply_def Let_def collection.find_docs [OF lawful_ledgerD(3) [OF M]])
qed

text \<open>C33: supply is conserved: after a synchronization that answers, the supply the services report of a
token is what was minted less what was burned on the chain up to the head.\<close>

theorem supply_conserved:
  assumes "lawful_ledger M" "ix_replica ix" "sound_chain ix chain" "fresh_ledger (ix_key ix) s"
    and "\<forall>p\<in>set (runs @ [last_run]). answers_chain ix (fst p) chain"
    and "sorted (map (\<lambda>p. head_of ix (fst p)) (runs @ [last_run]))"
    and "sync_run M ix parse last_run (sync_runs M ix parse runs s) = (Inr sm, r')"
  shows "\<exists>holders. tokenSupply M (ix_key ix) tok (lr_db r')
    = Inr (int_string (\<Sum>l\<leftarrow>legs_until parse chain (head_of ix (fst last_run)). minted tok l - burned tok l), holders)"
proof -
  let ?K = "ix_key ix" and ?c = "lg_balances (lr_db r')" and ?ls = "legs_until parse chain (head_of ix (fst last_run))"
  obtain pv as left fuel where p: "last_run = (pv, as, left, fuel)" by (cases last_run) auto
  have I: "sound_balances ?K ?c"
    using sync_state [OF assms] by (simp add: projected_def)
  define O' where "O' = ba_ownerAddress ` set ?c \<union> le_from ` set ?ls \<union> le_to ` set ?ls"
  have fin: "finite O'" by (simp add: O'_def)
  have "(\<Sum>d\<leftarrow>filter (\<lambda>d. ba_key d = ?K \<and> ba_tokenId d = tok) ?c. row_amount d) = (\<Sum>u\<in>O'. balance_of ?K ?c tok u)"
    by (rule balances_total [OF _ fin]) (use I in \<open>auto simp: O'_def sound_balances_def\<close>)
  also have "\<dots> = (\<Sum>u\<in>O'. \<Sum>l\<leftarrow>?ls. leg_delta tok u l)"
    using sync_state [OF assms] by simp
  also have "\<dots> = (\<Sum>l\<leftarrow>?ls. \<Sum>u\<in>O'. leg_delta tok u l)" by (rule sum_sum_list)
  also have "\<dots> = (\<Sum>l\<leftarrow>?ls. minted tok l - burned tok l)"
    by (rule arg_cong [where f = sum_list], rule map_cong [OF refl], rule leg_delta_total [OF fin]) (simp_all add: O'_def)
  finally show ?thesis using tokenSupply_total [OF assms(1) I, of tok] by simp
qed

lemma supply_conserved_witness:
  "\<exists>n. tokenSupply ref_ledger (ix_key small_indexer) ''7'' (lr_db (snd (sync_run ref_ledger small_indexer small_parse small_last
      (sync_runs ref_ledger small_indexer small_parse small_runs no_projection)))) = Inr (''3'', n)"
proof -
  let ?run = "sync_run ref_ledger small_indexer small_parse small_last (sync_runs ref_ledger small_indexer small_parse small_runs no_projection)"
  have run: "?run = (Inr \<lparr>sm_fromBlock = 0, sm_toBlock = 2, sm_transfers = 1, sm_registrations = 0\<rparr>, snd ?run)"
    using small_run by (simp add: prod_eq_iff)
  have sum: "int_string (\<Sum>l\<leftarrow>legs_until small_parse small_chain 2. minted ''7'' l - burned ''7'' l) = ''3''" by code_simp
  show ?thesis
    using supply_conserved [OF lawful_ref_ledger small_hypotheses(1,2,3) _ _ run, of "''7''"]
    by (simp add: small_runs_def small_last_def small_hypotheses(4,5) sum)
qed

section \<open>A synchronization ends\<close>

text \<open>Part of a run that always answers, with at most \<open>n\<close> writes, from any well-formed database.\<close>

definition calm :: "ledger_key \<Rightarrow> projection_db \<Rightarrow> bool" where
  "calm K s \<longleftrightarrow> unique_ledger s \<and> sound_balances K (lg_balances s)"

definition finishes :: "ledger_key \<Rightarrow> nat \<Rightarrow> (ledger_run, 'a) work \<Rightarrow> bool" where
  "finishes K n m \<longleftrightarrow> (\<forall>r. calm K (lr_db r) \<and> n \<le> lr_left r \<longrightarrow>
     (\<exists>a r'. m r = (Inr a, r') \<and> calm K (lr_db r') \<and> lr_left r \<le> lr_left r' + n))"

lemma finishesD:
  assumes "finishes K n m" "calm K (lr_db r)" "n \<le> lr_left r"
  obtains a r' where "m r = (Inr a, r')" "calm K (lr_db r')" "lr_left r \<le> lr_left r' + n"
  using assms unfolding finishes_def by blast

lemma finishes_retW [simp]: "finishes K 0 (retW x)"
  by (simp add: finishes_def retW_def)

lemma finishes_mono: "finishes K n m \<Longrightarrow> n \<le> n' \<Longrightarrow> finishes K n' m"
  unfolding finishes_def by (meson add_left_mono le_trans)

lemma finishes_bindW:
  assumes m: "finishes K n m" and f: "\<And>x. finishes K k (f x)"
  shows "finishes K (n + k) (bindW m f)"
  unfolding finishes_def
proof (intro allI impI)
  fix r :: ledger_run assume r: "calm K (lr_db r) \<and> n + k \<le> lr_left r"
  then have n: "n \<le> lr_left r" by simp
  obtain a r1 where r1: "m r = (Inr a, r1)" "calm K (lr_db r1)" "lr_left r \<le> lr_left r1 + n"
    using finishesD [OF m _ n] r by blast
  then have k: "k \<le> lr_left r1" using r by simp
  obtain b r2 where "f a r1 = (Inr b, r2)" "calm K (lr_db r2)" "lr_left r1 \<le> lr_left r2 + k"
    using finishesD [OF f r1(2) k] by blast
  with r1 show "\<exists>a r'. bindW m f r = (Inr a, r') \<and> calm K (lr_db r') \<and> lr_left r \<le> lr_left r' + (n + k)"
    by (auto simp: bindW_def)
qed

lemma finishes_callW:
  assumes "\<And>s. calm K s \<Longrightarrow> \<exists>a s'. m s = (Inr a, s') \<and> calm K s'"
  shows "finishes K 1 (callW m)"
  unfolding finishes_def
proof (intro allI impI)
  fix r :: ledger_run assume r: "calm K (lr_db r) \<and> 1 \<le> lr_left r"
  then obtain a s' where "m (lr_db r) = (Inr a, s')" "calm K s'" using assms by blast
  with r show "\<exists>a r'. callW m r = (Inr a, r') \<and> calm K (lr_db r') \<and> lr_left r \<le> lr_left r' + 1"
    by (auto simp: callW_def)
qed

lemma finishes_sumW:
  "(\<And>x. x \<in> set xs \<Longrightarrow> finishes K n (f x)) \<Longrightarrow> finishes K (n * length xs) (sumW f xs)"
proof (induction xs)
  case (Cons x xs)
  have "finishes K (n + (n * length xs + 0)) (sumW f (x # xs))"
    unfolding sumW.simps by (intro finishes_bindW Cons.IH Cons.prems) simp_all
  then show ?case by simp
qed simp

lemma finishes_eachW:
  "(\<And>x. x \<in> set xs \<Longrightarrow> finishes K n (f x)) \<Longrightarrow> finishes K (n * length xs) (eachW f xs)"
proof (induction xs)
  case (Cons x xs)
  have "finishes K (n + n * length xs) (eachW f (x # xs))"
    unfolding eachW.simps by (intro finishes_bindW Cons.IH Cons.prems) simp_all
  then show ?case by simp
qed simp

lemma applyTransfer_finishes:
  assumes M: "lawful_ledger M" and rep: "ix_replica ix" and v: "bigint (le_value l) = Inr v" and as: "set (as l) \<subseteq> {Transient}"
  shows "finishes (ix_key ix) 1 (applyTransfer M ix as l)"
proof -
  have "finishes (ix_key ix) 1 (callW (runTransaction (as l) (applyWork M (ix_key ix) l v)))"
  proof (rule finishes_callW)
    fix s assume s: "calm (ix_key ix) s"
    obtain c where w: "applyWork M (ix_key ix) l v s = (Inr (), s\<lparr>lg_balances := c, lg_transfers := mark (ix_key ix) l (lg_transfers s)\<rparr>)"
      "sound_balances (ix_key ix) c"
      by (rule applyWork_ok [OF M _ _ v]) (use s in \<open>auto simp: calm_def unique_ledger_def\<close>)
    have "runTransaction (as l) (applyWork M (ix_key ix) l v) s
        = (Inr (), s\<lparr>lg_balances := c, lg_transfers := mark (ix_key ix) l (lg_transfers s)\<rparr>)"
      using w(1) by (simp add: runTransaction_retries [OF as])
    then show "\<exists>a s'. runTransaction (as l) (applyWork M (ix_key ix) l v) s = (Inr a, s') \<and> calm (ix_key ix) s'"
      using s w(2) by (auto simp: calm_def unique_ledger_def sound_balances_def)
  qed
  with v rep show ?thesis by (simp add: applyTransfer_def)
qed

lemma recordTransfer_finishes:
  assumes M: "lawful_ledger M" and rep: "ix_replica ix" and v: "bigint (le_value l) = Inr v" and as: "set (as l) \<subseteq> {Transient}"
  shows "finishes (ix_key ix) 2 (recordTransfer M ix as l)"
proof -
  note S = lawful_ledgerD(2) [OF M]
  let ?P = "\<lambda>d. transfer_key d = (ix_key ix, leg_id l)"
  have up: "finishes (ix_key ix) 1 (callW (upsertTransfer M (ix_key ix) l))"
  proof (rule finishes_callW)
    fix s assume s: "calm (ix_key ix) s"
    then have u: "unique_docs transfer_key (lg_transfers s)" by (simp add: calm_def unique_ledger_def)
    show "\<exists>a s'. upsertTransfer M (ix_key ix) l s = (Inr a, s') \<and> calm (ix_key ix) s'"
    proof (cases "\<exists>d\<in>set (lg_transfers s). ?P d")
      case True
      obtain i where "drv_update_one (lm_transfers M) ?P (\<lambda>d. d) (lg_transfers s) = (1, 0, (lg_transfers s)[i := lg_transfers s ! i])"
        using collection.update_one_some [OF S True, of "\<lambda>d. d"] by auto
      then have "upsertTransfer M (ix_key ix) l s = (Inr False, s)" by (simp add: upsertTransfer_def)
      with s show ?thesis by blast
    next
      case False
      let ?new = "inserted_transfer (ix_key ix) l"
      have u': "unique_docs transfer_key (lg_transfers s @ [?new])"
        using u False by (auto simp: unique_docs_def inserted_transfer_def transfer_key_def)
      have "drv_create (lm_transfers M) [?new] (lg_transfers s) = Inr (lg_transfers s @ [?new])"
        by (rule collection.create_ok [OF S _ u']) simp
      moreover have "drv_update_one (lm_transfers M) ?P (\<lambda>d. d) (lg_transfers s) = (0, 0, lg_transfers s)"
        using False by (intro collection.update_one_none [OF S]) auto
      ultimately have "upsertTransfer M (ix_key ix) l s = (Inr True, s\<lparr>lg_transfers := lg_transfers s @ [?new]\<rparr>)"
        by (simp add: upsertTransfer_def)
      moreover have "calm (ix_key ix) (s\<lparr>lg_transfers := lg_transfers s @ [?new]\<rparr>)"
        using s u' by (simp add: calm_def unique_ledger_def)
      ultimately show ?thesis by blast
    qed
  qed
  have "finishes (ix_key ix) 1 (if \<not> inserted then retW 0 else bindW (applyTransfer M ix as l) (\<lambda>_. retW (1::nat)))" for inserted
    using finishes_bindW [OF applyTransfer_finishes [OF M rep v, where as = as, OF as] finishes_retW, of "\<lambda>_. 1::nat"]
      finishes_mono [OF finishes_retW, of 1 "ix_key ix" "0::nat"] by simp
  from finishes_bindW [OF up this] show ?thesis by (simp add: recordTransfer_def numeral_2_eq_2)
qed

text \<open>What the contract guarantees of its events: a registration names the content of its token, a
batch has an amount for each id.\<close>

definition sound_events :: "parser \<Rightarrow> raw_log list \<Rightarrow> bool" where
  "sound_events parse chain \<longleftrightarrow> (\<forall>l\<in>set chain. case decodeLog parse l of Inl _ \<Rightarrow> False
     | Inr (_, regs) \<Rightarrow> \<forall>g\<in>set regs. objectLayerCidOfTokenId (TokenText (rg_tokenId g)) = Inr (rg_objectLayerCid g)
         \<and> objectLayerTokenId (rg_objectLayerCid g) = Inr (rg_tokenId g))"

definition sound_indexer :: "indexer \<Rightarrow> bool" where
  "sound_indexer ix \<longleftrightarrow> 1 \<le> ix_batchSize ix \<and> 1 \<le> lk_chainId (ix_key ix) \<and> ADDRESS_PATTERN (lk_contractAddress (ix_key ix))"

lemma lower_hex_to_lower: "lower_hex c \<Longrightarrow> to_lower c = c"
  by (auto simp: lower_hex_def is_digit_def to_lower_def)

lemma normalizeAddress_pattern:
  assumes "ADDRESS_PATTERN a"
  shows "normalizeAddress (Some a) = a"
proof -
  have a: "a = ''0x'' @ drop 2 a" "list_all lower_hex (drop 2 a)"
    using assms append_take_drop_id [of 2 a] by (simp_all add: ADDRESS_PATTERN_def)
  have c: "\<forall>c\<in>set a. \<not> is_space c \<and> to_lower c = c"
  proof -
    have "\<not> is_space (CHR ''0'') \<and> to_lower (CHR ''0'') = CHR ''0''" "\<not> is_space (CHR ''x'') \<and> to_lower (CHR ''x'') = CHR ''x''"
      by code_simp+
    then have "\<forall>c\<in>set (''0x'' @ drop 2 a). \<not> is_space c \<and> to_lower c = c"
      using a(2) by (auto simp: list_all_iff lower_hex_to_lower dest: lower_hex_no_space)
    with a(1) show ?thesis by simp
  qed
  then have "trim a = a" by (intro trim_id) simp
  with c show ?thesis by (simp add: normalizeAddress_def map_idI)
qed

lemma nat_string_first: "0 < n \<Longrightarrow> hd (nat_string n) \<noteq> CHR ''0''"
proof (induction n rule: nat_string.induct)
  case (1 n)
  show ?case
  proof (cases "n < 10")
    case True
    with 1 have "digit n \<noteq> digit 0" using digit_inj [of n 0] by auto
    moreover have "digit 0 = CHR ''0''" by code_simp
    ultimately show ?thesis using True by (simp add: nat_string.simps [of n])
  next
    case False
    then have "0 < n div 10" by simp
    with 1 False show ?thesis by (simp add: nat_string.simps [of n] hd_append)
  qed
qed

lemma UINT256_nat_string: "UINT256_PATTERN (nat_string n)"
proof (cases "n = 0")
  case True
  have "nat_string 0 = ''0''" by code_simp
  with True show ?thesis by (simp add: UINT256_PATTERN_def is_digit_def)
next
  case False
  then show ?thesis
    using nat_string_digits [of n] nat_string_first [of n] by (simp add: UINT256_PATTERN_def list_all_iff)
qed

lemma objectLayerTokenId_pattern:
  assumes "objectLayerTokenId cid = Inr t"
  shows "isObjectLayerCid cid"
  using assms by (auto simp: objectLayerTokenId_def sha256HexFromCid_def split: if_splits)

lemma recordRegistration_finishes:
  assumes M: "lawful_ledger M" and ix: "sound_indexer ix" and n: "rg_tokenId g = nat_string n" "n < 2 ^ 256"
    and cid: "objectLayerCidOfTokenId (TokenText (rg_tokenId g)) = Inr (rg_objectLayerCid g)"
    and tok: "objectLayerTokenId (rg_objectLayerCid g) = Inr (rg_tokenId g)"
  shows "finishes (ix_key ix) 1 (recordRegistration M ix g)"
proof -
  note S = lawful_ledgerD(1) [OF M]
  let ?q = "\<lparr>bq_objectLayerCid = rg_objectLayerCid g, bq_chainId = lk_chainId (ix_key ix),
    bq_contractAddress = Some (lk_contractAddress (ix_key ix)), bq_itemId = None,
    bq_tokenId = Some (TokenText (rg_tokenId g)), bq_txHash = rg_txHash g, bq_blockNumber = Some (int (rg_blockNumber g))\<rparr>"
  let ?t = "rg_tokenId g" and ?K = "ix_key ix"
  have key: "\<lparr>lk_chainId = lk_chainId ?K, lk_contractAddress = normalizeAddress (Some (lk_contractAddress ?K))\<rparr> = ?K"
    using ix by (simp add: sound_indexer_def normalizeAddress_pattern)
  have t: "token_of_binding ?q = Inr ?t"
    using n tok by (simp add: token_of_binding_def)
  have valid: "binding_schema (bound ?q (new_binding ?K ?t))"
    using ix objectLayerTokenId_pattern [OF tok] n(1)
    by (simp add: binding_schema_def bound_def new_binding_def sound_indexer_def UINT256_nat_string)
  have bindok: "finishes ?K 1 (callW (bind M ?q))"
  proof (rule finishes_callW)
    fix s assume s: "calm ?K s"
    then have u: "unique_ledger s" "unique_docs binding_key (lg_bindings s)" by (simp_all add: calm_def unique_ledger_def)
    let ?P = "\<lambda>d. binding_key d = (?K, ?t)" and ?new = "new_binding ?K ?t"
    obtain d c where up: "find_one_and_upsert (lm_bindings M) ?P (bound ?q) ?new (lg_bindings s) = Inr (d, c)"
    proof (rule collection.find_one_and_update_cases [OF S u(2), of ?P "bound ?q"], goal_cases)
      case 1
      have "unique_docs binding_key (lg_bindings s @ [bound ?q ?new])"
        using u(2) 1(2) by (auto simp: unique_docs_def binding_key_def bound_def new_binding_def)
      then have "drv_create (lm_bindings M) [bound ?q ?new] (lg_bindings s) = Inr (lg_bindings s @ [bound ?q ?new])"
        using valid by (intro collection.create_ok [OF S]) simp_all
      with 1 show ?case by (simp add: find_one_and_upsert_def)
    next
      case (2 d)
      then show ?case by (simp add: find_one_and_upsert_def)
    qed
    then have b: "bind M ?q s = (Inr d, s\<lparr>lg_bindings := c\<rparr>)"
      using key t by (simp add: bind_def)
    obtain c' where "s\<lparr>lg_bindings := c\<rparr> = s\<lparr>lg_bindings := c'\<rparr>" "unique_docs binding_key c'"
      by (rule bind_bindings [OF M u(1) b])
    then have "unique_docs binding_key c" by (metis projection_db.select_convs(1) projection_db.surjective projection_db.update_convs(1))
    with b s show "\<exists>a s'. bind M ?q s = (Inr a, s') \<and> calm ?K s'"
      by (auto simp: calm_def unique_ledger_def)
  qed
  have "finishes ?K (1 + 0) (bindW (callW (bind M ?q)) (\<lambda>_. retW (1::nat)))"
    by (intro finishes_bindW [OF bindok] finishes_retW)
  with cid show ?thesis by (simp add: recordRegistration_def)
qed

text \<open>The writes a log needs, and those of a range.\<close>

definition log_cost :: "parser \<Rightarrow> raw_log \<Rightarrow> nat" where
  "log_cost parse l = (case decodeLog parse l of Inl _ \<Rightarrow> 0 | Inr (legs, regs) \<Rightarrow> length regs + 2 * length legs)"

definition chain_cost :: "parser \<Rightarrow> raw_log list \<Rightarrow> nat" where
  "chain_cost parse chain = (\<Sum>l\<leftarrow>chain. log_cost parse l)"

lemma chain_cost_filter: "chain_cost parse (filter P chain) \<le> chain_cost parse chain"
  by (induction chain) (auto simp: chain_cost_def)

lemma decodeLog_tokens:
  assumes "decodeLog parse l = Inr (legs, regs)" "g \<in> set regs"
  shows "\<exists>n<2 ^ 256. rg_tokenId g = nat_string n"
proof -
  obtain t where "rg_tokenId g = nat_string (unat (t :: 256 word))"
    using assms by (auto simp: decodeLog_def split: option.splits event.splits)
  moreover have "unat (t :: 256 word) < 2 ^ 256" using unsigned_less [of t] by simp
  ultimately show ?thesis by blast
qed

lemma projectLog_finishes:
  assumes M: "lawful_ledger M" and rep: "ix_replica ix" and ix: "sound_indexer ix" and as: "\<forall>l. set (as l) \<subseteq> {Transient}"
    and l: "sound_events parse [l]"
  shows "finishes (ix_key ix) (log_cost parse l) (projectLog M ix parse as sm l)"
proof -
  obtain legs regs where d: "decodeLog parse l = Inr (legs, regs)"
    using l by (auto simp: sound_events_def split: sum.splits)
  have "finishes (ix_key ix) 1 (recordRegistration M ix g)" if g: "g \<in> set regs" for g
  proof -
    obtain n where "n < 2 ^ 256" "rg_tokenId g = nat_string n" using decodeLog_tokens [OF d g] by blast
    with g l d show ?thesis
      by (intro recordRegistration_finishes [OF M ix]) (auto simp: sound_events_def)
  qed
  then have g: "finishes (ix_key ix) (1 * length regs) (sumW (recordRegistration M ix) regs)" by (rule finishes_sumW)
  have "finishes (ix_key ix) 2 (recordTransfer M ix as g)" if g: "g \<in> set legs" for g
  proof -
    obtain n where "le_value g = nat_string n" using log_legs_fields(2) [of g parse l] g d by (auto simp: log_legs_def)
    then show ?thesis using as by (intro recordTransfer_finishes [OF M rep]) simp_all
  qed
  then have t: "finishes (ix_key ix) (2 * length legs) (sumW (recordTransfer M ix as) legs)" by (rule finishes_sumW)
  have "finishes (ix_key ix) (1 * length regs + (2 * length legs + 0)) (bindW (sumW (recordRegistration M ix) regs)
      (\<lambda>g. bindW (sumW (recordTransfer M ix as) legs)
        (\<lambda>t. retW (sm\<lparr>sm_registrations := sm_registrations sm + g, sm_transfers := sm_transfers sm + t\<rparr>))))"
    by (intro finishes_bindW [OF g] finishes_bindW [OF t] finishes_retW)
  then show ?thesis by (simp add: projectLog_def log_cost_def d)
qed

lemma projectLogs_finishes:
  assumes M: "lawful_ledger M" and rep: "ix_replica ix" and ix: "sound_indexer ix" and as: "\<forall>l. set (as l) \<subseteq> {Transient}"
  shows "sound_events parse ls \<Longrightarrow> finishes (ix_key ix) (chain_cost parse ls) (projectLogs M ix parse as sm ls)"
proof (induction ls arbitrary: sm)
  case (Cons l ls)
  then have l: "sound_events parse [l]" "sound_events parse ls" by (simp_all add: sound_events_def)
  have "finishes (ix_key ix) (log_cost parse l + chain_cost parse ls) (projectLogs M ix parse as sm (l # ls))"
    unfolding projectLogs.simps by (intro finishes_bindW projectLog_finishes [OF assms l(1)] Cons.IH l(2))
  then show ?case by (simp add: chain_cost_def)
qed (simp add: chain_cost_def)

lemma saveCheckpoint_finishes:
  assumes M: "lawful_ledger M"
  shows "finishes K 1 (callW (saveCheckpoint M K n))"
proof (rule finishes_callW)
  fix s assume s: "calm K s"
  let ?f = "\<lambda>d. d\<lparr>cp_lastBlock := n\<rparr>" and ?new = "\<lparr>cp_key = K, cp_lastBlock = n\<rparr>" and ?c = "lg_checkpoints s"
  have u: "unique_docs cp_key ?c" using s by (simp add: calm_def unique_ledger_def)
  obtain c where up: "update_or_insert (lm_checkpoints M) (\<lambda>d. cp_key d = K) ?f ?new ?c = Inr c"
    and c: "c = (if \<exists>d\<in>set ?c. cp_key d = K then map (\<lambda>d. if cp_key d = K then ?f d else d) ?c else ?c @ [?f ?new])"
    by (rule collection.update_or_insert_cases [OF lawful_ledgerD(4) [OF M] u, where k = K and f = ?f and new = ?new
          and P = "\<lambda>d. cp_key d = K"]) auto
  have "unique_docs cp_key c" unfolding c using u by (auto simp: unique_docs_map) (auto simp: unique_docs_def)
  then have "calm K (s\<lparr>lg_checkpoints := c\<rparr>)" using s by (simp add: calm_def unique_ledger_def)
  moreover have "saveCheckpoint M K n s = (Inr (), s\<lparr>lg_checkpoints := c\<rparr>)" using up by (simp add: saveCheckpoint_def)
  ultimately show "\<exists>a s'. saveCheckpoint M K n s = (Inr a, s') \<and> calm K s'" by blast
qed

text \<open>Each turn of the loop takes at least one block.\<close>

lemma projectBlocks_finishes:
  assumes M: "lawful_ledger M" and rep: "ix_replica ix" and ix: "sound_indexer ix" and as: "\<forall>l. set (as l) \<subseteq> {Transient}"
    and ev: "sound_events parse chain" and A: "answers_chain ix pv chain" and head: "head = head_of ix pv"
  shows "nat (head - start + 1) \<le> fuel \<Longrightarrow>
    finishes (ix_key ix) (nat (head - start + 1) * (chain_cost parse chain + 1)) (projectBlocks M ix parse pv as head fuel start sm)"
proof (induction fuel arbitrary: start sm)
  case 0
  then have "head < start" by simp
  then show ?case by (simp add: projectBlocks.simps [of _ _ _ _ _ _ 0] finishes_mono [OF finishes_retW])
next
  case (Suc fuel)
  let ?N = "chain_cost parse chain" and ?b = "ix_batchSize ix"
  show ?case
  proof (cases "head < start")
    case True
    then show ?thesis by (simp add: projectBlocks.simps [of _ _ _ _ _ _ "Suc fuel"] finishes_mono [OF finishes_retW])
  next
    case False
    have b: "1 \<le> ?b" using ix by (simp add: sound_indexer_def)
    define end' where "end' = min (start + ?b - 1) head"
    define logs where "logs = pv_getLogs pv start end'"
    have logs: "logs = filter (\<lambda>l. start \<le> int (rl_blockNumber l) \<and> int (rl_blockNumber l) \<le> end') chain"
      using A head by (simp add: answers_chain_def logs_def end'_def)
    then have "sound_events parse logs" using ev by (simp add: sound_events_def)
    from projectLogs_finishes [OF M rep ix as this]
    have p: "finishes (ix_key ix) ?N (projectLogs M ix parse as sm logs)" for sm
      by (rule finishes_mono) (simp add: logs chain_cost_filter)
    have less: "nat (head - (start + ?b) + 1) \<le> nat (head - start + 1) - 1" using b False by simp
    have "nat (head - (start + ?b) + 1) \<le> fuel" using less Suc.prems by linarith
    from Suc.IH [OF this]
    have "finishes (ix_key ix) ((nat (head - start + 1) - 1) * (?N + 1)) (projectBlocks M ix parse pv as head fuel (start + ?b) sm)" for sm
      by (rule finishes_mono) (rule mult_right_mono [OF less], simp)
    note rest = this
    have "finishes (ix_key ix) (?N + (1 + (nat (head - start + 1) - 1) * (?N + 1)))
      (bindW (projectLogs M ix parse as sm logs) (\<lambda>sm'. bindW (callW (saveCheckpoint M (ix_key ix) end'))
        (\<lambda>_. projectBlocks M ix parse pv as head fuel (start + ?b) sm')))"
      by (intro finishes_bindW p rest saveCheckpoint_finishes [OF M])
    moreover have "projectBlocks M ix parse pv as head (Suc fuel) start sm =
      bindW (projectLogs M ix parse as sm logs) (\<lambda>sm'. bindW (callW (saveCheckpoint M (ix_key ix) end'))
        (\<lambda>_. projectBlocks M ix parse pv as head fuel (start + ?b) sm'))"
      using False by (simp add: projectBlocks.simps [of _ _ _ _ _ _ "Suc fuel"] Let_def end'_def logs_def)
    moreover have "?N + (1 + (nat (head - start + 1) - 1) * (?N + 1)) = nat (head - start + 1) * (?N + 1)"
    proof -
      obtain k where "nat (head - start + 1) = Suc k" using False by (cases "nat (head - start + 1)") auto
      then show ?thesis by simp
    qed
    ultimately show ?thesis by simp
  qed
qed

lemma sync_finishes:
  assumes M: "lawful_ledger M" and rep: "ix_replica ix" and ix: "sound_indexer ix" and as: "\<forall>l. set (as l) \<subseteq> {Transient}"
    and ev: "sound_events parse chain" and A: "answers_chain ix pv chain" and L: "sound_legs L" and I: "projected (ix_key ix) L s"
  shows "\<exists>w. \<forall>left\<ge>w. \<forall>fuel\<ge>w. \<exists>sm r'. sync M ix parse pv as fuel \<lparr>lr_left = left, lr_db = s\<rparr> = (Inr sm, r')"
proof -
  let ?K = "ix_key ix" and ?ts = "pending M (ix_key ix) s" and ?h = "head_of ix pv"
  have calm: "calm ?K s" using I by (simp add: calm_def projected_def)
  have "finishes ?K 1 (applyTransfer M ix as (tf_leg t))" if t: "t \<in> set ?ts" for t
  proof -
    have "tf_leg t \<in> L"
      using t I pending_docs(1) [OF M projectedD(1) [OF I], of ?K] by (auto simp: projected_def unapplied_def recorded_def)
    with L obtain v where "bigint (le_value (tf_leg t)) = Inr v" by (auto simp: sound_legs_def)
    then show ?thesis using as by (intro applyTransfer_finishes [OF M rep]) simp_all
  qed
  then have ap: "finishes ?K (1 * length ?ts) (eachW (\<lambda>t. applyTransfer M ix as (tf_leg t)) ?ts)" by (rule finishes_eachW)
  have db: "lg_checkpoints (lr_db r') = lg_checkpoints s" if "applyPending M ix as \<lparr>lr_left = left, lr_db = s\<rparr> = (a, r')" for left a r'
    using applyPending_keeps(1) [OF M rep L _ that] I by (simp add: advanced_def)
  define fb where "fb = fromBlock M ix s"
  define w where "w = length ?ts + nat (?h - fb + 1) * (chain_cost parse chain + 1) + nat (?h - fb + 1)"
  show ?thesis
  proof (rule exI [of _ w], intro allI impI)
    fix left fuel assume left: "w \<le> left" and fuel: "w \<le> fuel"
    let ?r = "\<lparr>lr_left = left, lr_db = s\<rparr>"
    obtain u r1 where r1: "eachW (\<lambda>t. applyTransfer M ix as (tf_leg t)) ?ts ?r = (Inr u, r1)" "calm ?K (lr_db r1)"
      "left \<le> lr_left r1 + length ?ts"
      using finishesD [OF ap, of ?r] calm left by (auto simp: w_def)
    have ap1: "applyPending M ix as ?r = (Inr (length ?ts), r1)"
      using r1(1) by (simp add: applyPending_def bindW_def readW_def retW_def)
    have fb: "fromBlock M ix (lr_db r1) = fb" using db [OF ap1] by (simp add: fb_def fromBlock_def)
    let ?sm = "\<lparr>sm_fromBlock = fb, sm_toBlock = ?h, sm_transfers = 0, sm_registrations = 0\<rparr>"
    have sync: "sync M ix parse pv as fuel ?r = (if ?h < fb then retW ?sm r1 else projectBlocks M ix parse pv as ?h fuel fb ?sm r1)"
      using ap1 fb by (simp add: sync_def bindW_def readW_def head_of_def Let_def)
    show "\<exists>sm r'. sync M ix parse pv as fuel ?r = (Inr sm, r')"
    proof (cases "?h < fb")
      case True
      with sync show ?thesis by (simp add: retW_def)
    next
      case False
      have "finishes ?K (nat (?h - fb + 1) * (chain_cost parse chain + 1)) (projectBlocks M ix parse pv as ?h fuel fb ?sm)"
        by (rule projectBlocks_finishes [OF M rep ix as ev A refl]) (use fuel in \<open>simp add: w_def\<close>)
      moreover have "nat (?h - fb + 1) * (chain_cost parse chain + 1) \<le> lr_left r1" using left r1(3) unfolding w_def by linarith
      ultimately obtain sm r' where "projectBlocks M ix parse pv as ?h fuel fb ?sm r1 = (Inr sm, r')"
        using finishesD [OF _ r1(2)] by blast
      with sync False show ?thesis by auto
    qed
  qed
qed

text \<open>C32: a synchronization ends: whatever runs came before, each stopped at any write, one more run
with enough writes and fuel answers, where the events are those of the contract, the batch is not
empty and the failures its transactions meet are transient.\<close>

theorem sync_ends:
  assumes "lawful_ledger M" "ix_replica ix" "sound_chain ix chain" "fresh_ledger (ix_key ix) s"
    and "\<forall>p\<in>set runs. answers_chain ix (fst p) chain" "sorted (map (\<lambda>p. head_of ix (fst p)) runs)"
    and "sound_indexer ix" "sound_events parse chain" "answers_chain ix pv chain" "\<forall>l. set (as l) \<subseteq> {Transient}"
  shows "\<exists>w. \<forall>left\<ge>w. \<forall>fuel\<ge>w. \<exists>sm r'.
    sync_run M ix parse (pv, as, left, fuel) (sync_runs M ix parse runs s) = (Inr sm, r')"
proof -
  let ?K = "ix_key ix" and ?hs = "(\<lambda>p. head_of ix (fst p)) ` set runs"
  define lo hi where "lo = Min (insert 0 ?hs)" and "hi = Max (insert 0 ?hs)"
  have b: "\<forall>p\<in>set runs. lo \<le> head_of ix (fst p)" "lo \<le> hi" "\<forall>p\<in>set runs. head_of ix (fst p) \<le> hi"
    unfolding lo_def hi_def by (auto intro: order_trans [OF Min_le Max_ge])
  have "synced ?K (set (legs_until parse chain hi)) (set (chain_legs parse chain)) (sync_runs M ix parse runs s)"
    by (rule sync_runs_keeps [OF assms(1-3) _ assms(6) b(1,2) fresh_synced [OF assms(4)]]) (use assms(5) b(3) in blast)
  then have I: "projected ?K (set (legs_until parse chain hi)) (sync_runs M ix parse runs s)" by (simp add: synced_def)
  have L: "sound_legs (set (legs_until parse chain hi))"
    by (rule sound_legs_subset [OF sound_chain_legs(2) [OF assms(3)]]) (auto simp: legs_until_def)
  show ?thesis using sync_finishes [OF assms(1,2,7,10,8,9) L I] by simp
qed

lemma small_sound: "sound_indexer small_indexer" "sound_events small_parse small_chain"
  by code_simp+

lemma sync_ends_witness:
  "\<exists>w. \<forall>left\<ge>w. \<forall>fuel\<ge>w. \<exists>sm r'. sync_run ref_ledger small_indexer small_parse (small_provider 2, \<lambda>_. [Transient], left, fuel)
     (sync_runs ref_ledger small_indexer small_parse small_runs no_projection) = (Inr sm, r')"
  by (rule sync_ends [OF lawful_ref_ledger small_hypotheses(1,2,3) _ _ small_sound small_hypotheses(4)])
    (simp_all add: small_runs_def small_hypotheses(4))

section \<open>Reconciliation\<close>

definition chain_text :: "provider \<Rightarrow> balance \<Rightarrow> string" where
  "chain_text pv d = nat_string (pv_balanceOf pv (ba_ownerAddress d) (case bigint (ba_tokenId d) of Inr i \<Rightarrow> i | Inl _ \<Rightarrow> 0))"

definition correction_of :: "provider \<Rightarrow> balance \<Rightarrow> correction" where
  "correction_of pv d = \<lparr>co_tokenId = ba_tokenId d, co_ownerAddress = ba_ownerAddress d, co_projected = ba_balance d,
     co_chain = chain_text pv d\<rparr>"

definition reread :: "provider \<Rightarrow> balance set \<Rightarrow> balance docs \<Rightarrow> balance docs" where
  "reread pv D c = map (\<lambda>d. if d \<in> D then d\<lparr>ba_balance := chain_text pv d\<rparr> else d) c"

lemma reconcileRow_cases:
  assumes M: "lawful_ledger M" and u: "unique_docs balance_key (lg_balances (lr_db r))" and d: "d \<in> set (lg_balances (lr_db r))"
    and run: "reconcileRow M pv d r = (Inr cs, r')"
  shows "lg_balances (lr_db r') = reread pv {d} (lg_balances (lr_db r))
    \<and> cs = (if chain_text pv d = ba_balance d then [] else [correction_of pv d])"
proof -
  let ?c = "lg_balances (lr_db r)"
  obtain i where i: "bigint (ba_tokenId d) = Inr i" using run by (auto simp: reconcileRow_def failW_def split: sum.splits)
  then have tx: "nat_string (pv_balanceOf pv (ba_ownerAddress d) i) = chain_text pv d" by (simp add: chain_text_def)
  have same: "e = d" if "e \<in> set ?c" "balance_key e = balance_key d" for e by (rule unique_docs_eq [OF u that(1) d that(2)])
  have upd: "snd (snd (drv_update_one (lm_balances M) (\<lambda>e. balance_key e = balance_key d) (\<lambda>e. e\<lparr>ba_balance := chain_text pv d\<rparr>) ?c))
      = reread pv {d} ?c"
  proof -
    have "snd (snd (drv_update_one (lm_balances M) (\<lambda>e. balance_key e = balance_key d) (\<lambda>e. e\<lparr>ba_balance := chain_text pv d\<rparr>) ?c))
        = map (\<lambda>e. if balance_key e = balance_key d then e\<lparr>ba_balance := chain_text pv d\<rparr> else e) ?c"
      by (rule collection.update_one_unique [OF lawful_ledgerD(3) [OF M] u, where k = "balance_key d"]) simp
    also have "\<dots> = reread pv {d} ?c" unfolding reread_def using same by (intro map_cong) auto
    finally show ?thesis .
  qed
  show ?thesis
  proof (cases "chain_text pv d = ba_balance d")
    case True
    then have "reread pv {d} ?c = ?c" by (simp add: reread_def map_idI)
    with True run i tx show ?thesis by (simp add: reconcileRow_def Let_def retW_def)
  next
    case False
    with run i tx upd show ?thesis
      by (auto simp: reconcileRow_def Let_def bindW_def retW_def callW_def correction_of_def split: if_splits)
  qed
qed

lemma reread_more:
  assumes "unique_docs balance_key c" "d \<in> set c" "D \<subseteq> set c" "d \<notin> D"
  shows "reread pv D (reread pv {d} c) = reread pv (insert d D) c" "D \<subseteq> set (reread pv {d} c)"
proof -
  have "d\<lparr>ba_balance := b\<rparr> \<notin> D" for b
  proof
    assume "d\<lparr>ba_balance := b\<rparr> \<in> D"
    moreover have "balance_key (d\<lparr>ba_balance := b\<rparr>) = balance_key d" by (simp add: balance_key_def)
    ultimately have "d\<lparr>ba_balance := b\<rparr> = d" using assms unique_docs_eq [OF assms(1)] by blast
    with \<open>d\<lparr>ba_balance := b\<rparr> \<in> D\<close> assms(4) show False by simp
  qed
  then show "reread pv D (reread pv {d} c) = reread pv (insert d D) c" by (auto simp: reread_def)
  show "D \<subseteq> set (reread pv {d} c)" using assms(3,4) by (fastforce simp: reread_def image_iff)
qed

lemma unique_reread [simp]: "unique_docs balance_key (reread pv D c) = unique_docs balance_key c"
  unfolding reread_def by (rule unique_docs_map) (simp add: balance_key_def)

lemma reconcileRows_effect:
  assumes M: "lawful_ledger M"
  shows "unique_docs balance_key (lg_balances (lr_db r)) \<Longrightarrow> distinct rows \<Longrightarrow> set rows \<subseteq> set (lg_balances (lr_db r)) \<Longrightarrow>
    reconcileRows M pv rows r = (Inr cs, r') \<Longrightarrow>
    lg_balances (lr_db r') = reread pv (set rows) (lg_balances (lr_db r))
      \<and> cs = map (correction_of pv) (filter (\<lambda>d. chain_text pv d \<noteq> ba_balance d) rows)"
proof (induction rows arbitrary: r cs)
  case Nil
  then show ?case by (simp add: retW_def reread_def)
next
  case (Cons d rows)
  obtain c r1 cs' where r1: "reconcileRow M pv d r = (Inr c, r1)" "reconcileRows M pv rows r1 = (Inr cs', r')" "cs = c @ cs'"
    using Cons.prems(4) by auto
  have d: "d \<in> set (lg_balances (lr_db r))" "set rows \<subseteq> set (lg_balances (lr_db r))" "d \<notin> set rows"
    using Cons.prems(2,3) by auto
  note row = reconcileRow_cases [OF M Cons.prems(1) d(1) r1(1)]
  note more = reread_more [OF Cons.prems(1) d]
  have "lg_balances (lr_db r') = reread pv (set rows) (lg_balances (lr_db r1))
      \<and> cs' = map (correction_of pv) (filter (\<lambda>d. chain_text pv d \<noteq> ba_balance d) rows)"
    using Cons.prems(1,2) row more(2) by (intro Cons.IH [OF _ _ _ r1(2)]) simp_all
  with row more(1) r1(3) show ?case by simp
qed

text \<open>C34: a reconciliation that answers leaves every row of the contract at the balance the chain
answers, touches no other row, and reports exactly the rows that differed; after it a second one
against the same chain corrects nothing.\<close>

theorem reconcile_corrects:
  assumes "lawful_ledger M" "unique_ledger (lr_db r)"
    and "reconcile M ix pv r = (Inr (checked, corrected), r')"
    and "reconcile M ix pv r'' = (Inr (checked', again), r3)" "lr_db r'' = lr_db r'"
  shows "lg_balances (lr_db r') = map (\<lambda>d. if ba_key d = ix_key ix then d\<lparr>ba_balance := chain_text pv d\<rparr> else d) (lg_balances (lr_db r))
    \<and> checked = length (filter (\<lambda>d. ba_key d = ix_key ix) (lg_balances (lr_db r)))
    \<and> corrected = map (correction_of pv)
        (filter (\<lambda>d. ba_key d = ix_key ix \<and> chain_text pv d \<noteq> ba_balance d) (lg_balances (lr_db r)))
    \<and> again = []"
proof -
  have eff: "lg_balances (lr_db z) = map (\<lambda>d. if ba_key d = ix_key ix then d\<lparr>ba_balance := chain_text pv d\<rparr> else d) (lg_balances (lr_db y))
      \<and> n = length (filter (\<lambda>d. ba_key d = ix_key ix) (lg_balances (lr_db y)))
      \<and> cs = map (correction_of pv) (filter (\<lambda>d. ba_key d = ix_key ix \<and> chain_text pv d \<noteq> ba_balance d) (lg_balances (lr_db y)))"
    if u: "unique_docs balance_key (lg_balances (lr_db y))" and run: "reconcile M ix pv y = (Inr (n, cs), z)" for y n cs z
  proof -
    let ?c = "lg_balances (lr_db y)" and ?rows = "filter (\<lambda>d. ba_key d = ix_key ix) (lg_balances (lr_db y))"
    have rows: "reconcileRows M pv ?rows y = (Inr cs, z)" "n = length ?rows"
      using run by (auto simp: reconcile_def bindW_def readW_def retW_def collection.find_docs [OF lawful_ledgerD(3) [OF assms(1)]]
          split: prod.splits sum.splits)
    have "distinct ?rows" using u by (simp add: unique_docs_def distinct_map)
    from reconcileRows_effect [OF assms(1) u this _ rows(1)]
    have e: "lg_balances (lr_db z) = reread pv (set ?rows) ?c"
      "cs = map (correction_of pv) (filter (\<lambda>d. chain_text pv d \<noteq> ba_balance d) ?rows)" by simp_all
    have "reread pv (set ?rows) ?c = map (\<lambda>d. if ba_key d = ix_key ix then d\<lparr>ba_balance := chain_text pv d\<rparr> else d) ?c"
      unfolding reread_def by (intro map_cong) auto
    with e rows(2) show ?thesis by (simp add: conj_commute)
  qed
  have u: "unique_docs balance_key (lg_balances (lr_db r))" using assms(2) by (simp add: unique_ledger_def)
  note first = eff [OF u assms(3)]
  have "unique_docs balance_key (lg_balances (lr_db r''))"
    using u first assms(5) by (simp add: unique_docs_map balance_key_def)
  from eff [OF this assms(4)] have "again = map (correction_of pv)
      (filter (\<lambda>d. ba_key d = ix_key ix \<and> chain_text pv d \<noteq> ba_balance d) (lg_balances (lr_db r')))"
    using assms(5) by simp
  also have "\<dots> = []"
    using first by (auto simp: filter_empty_conv chain_text_def split: if_splits)
  finally show ?thesis using first by simp
qed

definition drifted :: projection_db where
  "drifted = no_projection\<lparr>lg_balances := [\<lparr>ba_key = ix_key small_indexer, ba_tokenId = ''7'',
     ba_ownerAddress = addr (CHR ''a''), ba_balance = ''2''\<rparr>]\<rparr>"

lemma reconcile_corrects_witness:
  "lg_balances (lr_db (snd (reconcile ref_ledger small_indexer (small_provider 2) \<lparr>lr_left = 1, lr_db = drifted\<rparr>)))
     = [\<lparr>ba_key = ix_key small_indexer, ba_tokenId = ''7'', ba_ownerAddress = addr (CHR ''a''), ba_balance = ''1''\<rparr>]"
proof -
  let ?r = "\<lparr>lr_left = 1, lr_db = drifted\<rparr>"
  let ?one = "reconcile ref_ledger small_indexer (small_provider 2) ?r"
  let ?two = "reconcile ref_ledger small_indexer (small_provider 2) (snd ?one)"
  have f: "fst ?one = Inr (1, [\<lparr>co_tokenId = ''7'', co_ownerAddress = addr (CHR ''a''), co_projected = ''2'', co_chain = ''1''\<rparr>])"
    "fst ?two = Inr (1, [])" by code_simp+
  have one: "?one = (Inr (1, [\<lparr>co_tokenId = ''7'', co_ownerAddress = addr (CHR ''a''), co_projected = ''2'', co_chain = ''1''\<rparr>]), snd ?one)"
    and two: "?two = (Inr (1, []), snd ?two)" using f by (simp_all add: prod_eq_iff)
  have u: "unique_ledger (lr_db ?r)" by (simp add: drifted_def no_projection_def unique_ledger_def unique_docs_def)
  have t: "nat_string (Suc 0) = ''1''" by code_simp
  show ?thesis
    using reconcile_corrects [OF lawful_ref_ledger u one two refl]
    by (simp add: drifted_def no_projection_def chain_text_def small_provider_def t)
qed

section \<open>Limits of the projection\<close>

text \<open>
  Without transactions a stop between the leg_moves of a leg and its flag applies the leg twice: the flag
  alone does not make an apply happen once.
\<close>

lemma standalone_applies_twice:
  "let ix = small_indexer\<lparr>ix_replica := False\<rparr>;
       s = sync_runs ref_ledger ix small_parse [(small_provider 1, \<lambda>_. [], 2, 3), (small_provider 1, \<lambda>_. [], 9, 3)] no_projection
   in balance_of (ix_key ix) (lg_balances s) ''7'' (addr (CHR ''a'')) = 6
      \<and> (\<Sum>l\<leftarrow>legs_until small_parse small_chain 1. leg_delta ''7'' (addr (CHR ''a'')) l) = 3"
  by code_simp

text \<open>
  \<open>bind\<close> takes any text the pattern of a CID accepts that derives to the token, and writes it over the
  canonical one: the registry then no longer finds the definition under its identity.
\<close>

lemma bind_takes_other_text:
  "let q = \<lparr>bq_objectLayerCid = canonical_cid, bq_chainId = 1, bq_contractAddress = Some (addr (CHR ''c'')), bq_itemId = None,
         bq_tokenId = None, bq_txHash = [], bq_blockNumber = None\<rparr>;
       s = snd (bind ref_ledger q no_projection); t = snd (bind ref_ledger (q\<lparr>bq_objectLayerCid := other_cid\<rparr>) s)
   in length (findByCid ref_ledger canonical_cid s) = 1 \<and> findByCid ref_ledger canonical_cid t = []"
proof -
  have v: "isObjectLayerCid canonical_cid" "isObjectLayerCid other_cid" "canonical_cid \<noteq> other_cid"
    using other_text_same_token(1-3) by auto
  have a: "normalizeAddress (Some (addr (CHR ''c''))) = addr (CHR ''c'')" "ADDRESS_PATTERN (addr (CHR ''c''))"
    "UINT256_PATTERN ''0''" by code_simp+
  show ?thesis
    using v a other_text_same_token(4,5)
    by (simp add: bind_def token_of_binding_def find_one_and_upsert_def find_one_and_update_def ref_ledger_def ref_driver_def
        no_projection_def binding_schema_def bound_def new_binding_def binding_key_def findByCid_def Let_def)
qed

end
