(* ===== verification/Spec2Isabelle.thy ===== *)
theory Spec2Isabelle imports JointCommit MarketView MarketProfiles Universes Loadout Registry Social Ledger begin

text \<open>
  The host state of the Cyberia game in the engine repository: what the engine stores of a player,
  and the operations that game servers, portals, editors and operators run on it.

  \<^bold>\<open>The program.\<close> Game servers simulate the worlds; the engine keeps what must survive them, in MongoDB,
  behind the services of \<open>src/projects/cyberia\<close> and \<open>src/api\<close>. A portal gets a launch ticket for an
  account; a game server consumes it and acquires the lease of a gameplay session, which makes it the
  one writer of a profile; it commits states under that lease, alone or jointly with the other players
  of an operation (a drop, a pickup, a market operation), renews the lease by checkpoints and releases
  it. The market keeps listings and claims beside the profiles; editors write the market profiles and
  the economies that price it; operators end sessions, change stacks and restrict accounts; accounts
  have friends; the token contract of the items is projected into a ledger. The parts meet in the
  database: a commit reads the lease a session wrote, a joint commit runs a market operation, a
  listing copies the terms of the profile it is made under, an operator raises the epoch a commit
  compares.

  \<^bold>\<open>Theories and code.\<close>
  \<^item> \<open>Prelude\<close>: wire values (\<open>js\<close>), the number tests and patterns of the language, list lemmas, and the
    collections \<open>js_simps\<close> and \<open>checks\<close>.
  \<^item> \<open>Store\<close>: the database as a parameter and \<open>runTransaction\<close> (\<open>player/transaction.js\<close>). The locale
    \<open>collection\<close> states the laws of the driver; the locale \<open>transaction\<close> what a transaction promises,
    interpreted on \<open>runTransaction\<close>.
  \<^item> \<open>Contract\<close>, \<open>Profiles\<close>: the gameplay contract and the profiles it resolves
    (\<open>cyberia-server-defaults.js\<close>, \<open>SharedDefaultsCyberia.js\<close>).
  \<^item> \<open>Documents\<close>, \<open>Samples\<close>: the documents and schemas of the models under \<open>src/api\<close>, the database \<open>db\<close>
    and its driver \<open>mongo\<close>; the documents of the witnesses.
  \<^item> \<open>StateChecks\<close>, \<open>PlayerState\<close>: \<open>player/player-state.js\<close>. A check and the declarative rule it decides;
    \<open>commitState\<close>, \<open>loadState\<close>, \<open>writePositions\<close>.
  \<^item> \<open>WorldDrops\<close>, \<open>JointCommit\<close>: \<open>player/world-drops.js\<close> and \<open>commitStates\<close> of \<open>player-state.js\<close>.
  \<^item> \<open>Market\<close>, \<open>MarketSafety\<close>, \<open>MarketMachine\<close>, \<open>MarketView\<close>: \<open>player/market.js\<close>: operations and settlement,
    their invariant, their interleavings as a step relation, and the pages a terminal shows.
  \<^item> \<open>MarketProfiles\<close>: \<open>economy/market-profile.js\<close> and \<open>cyberia-market.service.js\<close>, beside the market.
  \<^item> \<open>Economy\<close>: \<open>economy/economy-policy.js\<close>, \<open>cyberia-economy.service.js\<close>, \<open>cyberia-instance-conf.service.js\<close>;
    \<open>Universes\<close>: \<open>cyberia-universe.service.js\<close> and \<open>cyberia-economic-item-policy.service.js\<close>, and the step
    relation over all these writes.
  \<^item> \<open>Registry\<close>, \<open>Tickets\<close>, \<open>Sessions\<close>: the services \<open>cyberia-server-registry\<close> and \<open>cyberia-game-ticket\<close>,
    and \<open>player/player-session.js\<close>.
  \<^item> \<open>Admin\<close>, \<open>Operations\<close>: \<open>player/player-admin.js\<close> and \<open>player/player-operations.js\<close>.
  \<^item> \<open>Social\<close>: \<open>player/social.js\<close>, \<open>player/identity.js\<close> and the rules of \<open>cyberia-social\<close>.
  \<^item> \<open>Loadout\<close>: \<open>resolveSpawnLoadout\<close> and what it runs, of \<open>cyberia-server-defaults.js\<close>.
  \<^item> \<open>Identity\<close>, \<open>Ledger\<close>: \<open>object-layer.identity.js\<close>, and the indexer, the models and the services of
    \<open>item-ledger\<close>.

  \<^bold>\<open>How code becomes definitions.\<close> A document is a record, a collection the list of its documents, the
  database a record of collections. A service call is a function of the driver, the time it reads, the
  random ids it draws, its request and the state; \<open>work\<close> answers a thrown error or a value, and the state
  it leaves. A value a request carries unchecked is a \<open>js\<close> value, so a check is modelled on malformed
  input too; one its caller has checked, or the document schema has cast, is typed. Numbers of
  the game are whole and below $2^{53}$, and are integers; rates and positions are rationals. Binary words
  appear where the code shifts (\<open>Identity\<close>). A transaction is \<open>runTransaction\<close> on a snapshot with a
  list of the errors its commit attempts meet; what runs outside one is a step of its own.

  \<^bold>\<open>What the lemmas show.\<close>
  \<^item> Commits: an applied commit passed the format, epoch, sequence and lease guards and is what the next
    load sends; a retry answers and writes nothing; a joint commit applies whole or not at all; a drop is
    picked up at most once; positions never go back.
  \<^item> Market: in every reachable state coins and stacks balance; an operation answers; a listing settles
    once, from whatever stale read; a bid refunds the one it passes; goods keep the profile they are
    under; the pages of a market list each open listing once.
  \<^item> Sessions: a ticket serves one connection; an acquisition fences every older epoch; a resume waits no
    longer than the session it continues may write; a checkpoint renews the live sessions and no other.
  \<^item> Registry, operators, friends: the newest report wins in any order; a request of an operator runs
    once, revokes at once and previews what it does; friendships are well formed and bounded, and what an
    account hides stays hidden.
  \<^item> Economies: the writes keep one wallet in each universe and no world in two, so a route stays in its
    universe; an export imports as it was; a spawn obeys the equipment rules.
  \<^item> Ledger: the projection is the fold of the event log after any interrupted runs, it ends, and it
    conserves supply; content identifiers and token ids are inverse.

  \<^bold>\<open>Parameters and hypotheses.\<close> MongoDB and mongoose are a \<open>driver\<close> for each collection; \<open>lawful_mongo\<close>,
  \<open>lawful_content\<close> and \<open>lawful_ledger\<close> are the documented laws the code relies on (a find answers the matching
  documents, an update changes one of them, a unique index refuses a duplicate); \<open>lawful_cast\<close> says that the
  schema of an item policy leaves a checked row with trimmed ids checked, of the same item. Each has a driver
  that satisfies it (\<open>ref_mongo\<close>, \<open>ref_ledger\<close> and the content driver of \<open>Economy\<close>), on which the witnesses
  run. Digests, random tokens, the URL parser, the chain and its event parser, the content catalog
  and the appearance of an avatar are arguments.

  \<^bold>\<open>Bounds and fuel.\<close> Page sizes, lengths and limits are the constants of the code (\<open>MARKET_PAGE\<close>,
  \<open>SETTLE_PAGES\<close>, \<open>OPEN_TICKETS_MAX\<close>, \<open>FRIENDS_MAX\<close>, \<open>LIMITS\<close>). Loops over pages of a bounded number recurse on
  that number. The loop of the projection over block ranges carries fuel, since a batch size of zero
  never ends it; \<open>sync_ends\<close> shows that with a positive batch size every amount of fuel from some bound on
  answers. A reader that walks all pages takes their number, and the theorems show that enough pages end
  the walk.

  \<^bold>\<open>Not modelled.\<close> Two calls that run without a transaction are taken one after the other (\<open>MarketProfiles\<close>,
  \<open>Economy\<close>, \<open>Universes\<close>). Names, descriptions and labels are left out. The references and
  diagnostics of terminals, the views of editors, the maintenance scripts, sign-in and mail are not modelled:
  they are forms, reports and input and output around the parts above. The procedural generation of
  content, the command line, the build, the proxies, the browser interface and the contracts in Solidity are left aside: image work, external
  tools, DOM and another language.
\<close>

end
